(* ===== verification/Prelude.thy ===== *)
theory Prelude
  imports
    Complex_Main
    "HOL-Library.Word"
    "HOL-Library.List_Lexorder"
    "HOL-Library.Char_ord"
begin

text \<open>
  Shared vocabulary of the development.

  \<^item> Go's \<^verbatim>\<open>int64\<close> wrap-around and \<^verbatim>\<open>time.Duration\<close> arithmetic.
  \<^item> SQL tables as lists of rows in rowid order, with the update, delete and
    upsert patterns the statements of the program use.
  \<^item> A computation type for code that threads a state and may stop with an
    error (\<^verbatim>\<open>func(...) error\<close>), with sequencing and loops.
  \<^item> The locale \<open>tx_rel\<close>: a reflexive and transitive relation between states
    is kept by a whole computation when every basic step keeps it.  Invariants and
    frame conditions of all components are instances.
\<close>

named_theorems tx_simps "equations that run a computation one step"

section \<open>Machine integers and durations\<close>

text \<open>The value of an \<^verbatim>\<open>int64\<close> expression whose mathematical value is \<open>x\<close>.\<close>

definition wrap64 :: "int \<Rightarrow> int" where
  "wrap64 x = sint (word_of_int x :: 64 word)"

lemma wrap64_alt: "wrap64 x = signed_take_bit 63 x"
  by (simp add: wrap64_def sint_sbintrunc')

lemma wrap64_id: "- (2 ^ 63) \<le> x \<Longrightarrow> x < 2 ^ 63 \<Longrightarrow> wrap64 x = x"
  unfolding wrap64_alt by (rule signed_take_bit_int_eq_self) simp_all

lemma wrap64_range: "- (2 ^ 63) \<le> wrap64 x \<and> wrap64 x < 2 ^ 63"
  unfolding wrap64_alt
  using signed_take_bit_int_greater_eq_minus_exp [of 63 x] signed_take_bit_int_less_exp [of 63 x]
  by simp

type_synonym time = int \<comment> \<open>nanoseconds since the Unix epoch\<close>
type_synonym duration = int \<comment> \<open>nanoseconds, an \<^verbatim>\<open>int64\<close>\<close>

text \<open>\<^verbatim>\<open>time.Duration(n) * time.Second\<close>: an \<^verbatim>\<open>int64\<close> product that wraps.\<close>

definition seconds :: "int \<Rightarrow> duration" where
  "seconds n = wrap64 (n * 1000000000)"

text \<open>\<^verbatim>\<open>t.Sub(u)\<close> saturates at the ends of the \<^verbatim>\<open>int64\<close> range.\<close>

definition time_sub :: "time \<Rightarrow> time \<Rightarrow> duration" where
  "time_sub t u = max (- (2 ^ 63)) (min (2 ^ 63 - 1) (t - u))"

text \<open>The zero value of \<^verbatim>\<open>time.Time\<close>, January 1 of year 1.\<close>

definition zero_time :: time where
  "zero_time = - 62135596800 * 1000000000"

lemma seconds_small: "0 \<le> n \<Longrightarrow> n \<le> 9000000000 \<Longrightarrow> seconds n = n * 1000000000"
  unfolding seconds_def by (rule wrap64_id) simp_all

lemma time_sub_mono: "t \<le> t' \<Longrightarrow> time_sub t u \<le> time_sub t' u"
  by (simp add: time_sub_def)

lemma time_sub_self [simp]: "time_sub t t = 0"
  by (simp add: time_sub_def)

lemma time_sub_ge_small:
  "d \<le> 2 ^ 63 - 1 \<Longrightarrow> - (2 ^ 63) < d \<Longrightarrow> d \<le> time_sub t u \<longleftrightarrow> d \<le> t - u"
  by (auto simp: time_sub_def max_def min_def)

section \<open>Tables\<close>

definition upd_where :: "('r \<Rightarrow> bool) \<Rightarrow> ('r \<Rightarrow> 'r) \<Rightarrow> 'r list \<Rightarrow> 'r list" where
  "upd_where p f rs = map (\<lambda>r. if p r then f r else r) rs"

definition del_where :: "('r \<Rightarrow> bool) \<Rightarrow> 'r list \<Rightarrow> 'r list" where
  "del_where p rs = filter (\<lambda>r. \<not> p r) rs"

text \<open>\<^verbatim>\<open>INSERT OR REPLACE\<close>: the row with the same key goes, the new one is appended.\<close>

definition ins_replace :: "('r \<Rightarrow> 'k) \<Rightarrow> 'r \<Rightarrow> 'r list \<Rightarrow> 'r list" where
  "ins_replace key r rs = del_where (\<lambda>x. key x = key r) rs @ [r]"

text \<open>\<^verbatim>\<open>INSERT OR IGNORE\<close>: nothing happens when the key is present.\<close>

definition ins_ignore :: "('r \<Rightarrow> 'k) \<Rightarrow> 'r \<Rightarrow> 'r list \<Rightarrow> 'r list" where
  "ins_ignore key r rs = (if key r \<in> key ` set rs then rs else rs @ [r])"

lemma set_upd_where: "set (upd_where p f rs) = (\<lambda>r. if p r then f r else r) ` set rs"
  by (simp add: upd_where_def)

lemma set_del_where [simp]: "set (del_where p rs) = {r \<in> set rs. \<not> p r}"
  by (simp add: del_where_def)

lemma length_upd_where [simp]: "length (upd_where p f rs) = length rs"
  by (simp add: upd_where_def)

lemma upd_where_Nil [simp]: "upd_where p f [] = []"
  by (simp add: upd_where_def)

lemma upd_where_none: "(\<And>r. r \<in> set rs \<Longrightarrow> \<not> p r) \<Longrightarrow> upd_where p f rs = rs"
  unfolding upd_where_def by (rule map_idI) simp

lemma upd_where_upd_where:
  "(\<And>r. p (f r) = p r) \<Longrightarrow> upd_where p g (upd_where p f rs) = upd_where p (\<lambda>r. g (f r)) rs"
  by (induction rs) (auto simp: upd_where_def)

lemma map_upd_where: "(\<And>r. k (f r) = k r) \<Longrightarrow> map k (upd_where p f rs) = map k rs"
  by (induction rs) (auto simp: upd_where_def)

lemma filter_upd_where:
  "(\<And>r. p r \<Longrightarrow> q (f r) = q r) \<Longrightarrow> filter q (upd_where p f rs) = upd_where p f (filter q rs)"
  by (induction rs) (auto simp: upd_where_def)

lemma find_upd_where:
  "(\<And>r. p r \<Longrightarrow> q (f r) = q r) \<Longrightarrow>
     find q (upd_where p f rs) = map_option (\<lambda>r. if p r then f r else r) (find q rs)"
  by (induction rs) (auto simp: upd_where_def)

lemma find_SomeD: "find p xs = Some x \<Longrightarrow> x \<in> set xs \<and> p x"
  by (auto simp: find_Some_iff)

lemma find_append: "find p (xs @ ys) = (case find p xs of None \<Rightarrow> find p ys | Some x \<Rightarrow> Some x)"
  by (induction xs) auto

lemma find_None_set: "find p xs = None \<longleftrightarrow> (\<forall>x \<in> set xs. \<not> p x)"
  by (auto simp: find_None_iff)

lemma find_unique_key:
  "distinct (map k xs) \<Longrightarrow> x \<in> set xs \<Longrightarrow> find (\<lambda>y. k y = k x) xs = Some x"
  by (induction xs) (auto simp: image_iff)

lemma distinct_map_filter: "distinct (map k xs) \<Longrightarrow> distinct (map k (filter p xs))"
  by (induction xs) auto

lemma distinct_map_snoc:
  "distinct (map k (xs @ [x])) \<longleftrightarrow> distinct (map k xs) \<and> k x \<notin> k ` set xs"
  by auto

section \<open>Computations with state and errors\<close>

type_synonym ('s, 'e, 'a) tx = "'s \<Rightarrow> ('e + 'a) \<times> 's"

definition retT :: "'a \<Rightarrow> ('s, 'e, 'a) tx" where
  "retT x s = (Inr x, s)"

definition failT :: "'e \<Rightarrow> ('s, 'e, 'a) tx" where
  "failT e s = (Inl e, s)"

definition bindT :: "('s, 'e, 'a) tx \<Rightarrow> ('a \<Rightarrow> ('s, 'e, 'b) tx) \<Rightarrow> ('s, 'e, 'b) tx" where
  "bindT m f s = (case m s of (Inl e, t) \<Rightarrow> (Inl e, t) | (Inr x, t) \<Rightarrow> f x t)"

definition thenT :: "('s, 'e, 'a) tx \<Rightarrow> ('s, 'e, 'b) tx \<Rightarrow> ('s, 'e, 'b) tx" where
  "thenT m n = bindT m (\<lambda>_. n)"

definition getT :: "('s \<Rightarrow> 'a) \<Rightarrow> ('s, 'e, 'a) tx" where
  "getT f s = (Inr (f s), s)"

definition modT :: "('s \<Rightarrow> 's) \<Rightarrow> ('s, 'e, unit) tx" where
  "modT f s = (Inr (), f s)"

definition whenT :: "bool \<Rightarrow> ('s, 'e, unit) tx \<Rightarrow> ('s, 'e, unit) tx" where
  "whenT b m = (if b then m else retT ())"

text \<open>A \<^verbatim>\<open>for\<close> loop over a slice whose body may return an error.\<close>

primrec forT :: "'x list \<Rightarrow> ('x \<Rightarrow> ('s, 'e, unit) tx) \<Rightarrow> ('s, 'e, unit) tx" where
  "forT [] f = retT ()"
| "forT (x # xs) f = thenT (f x) (forT xs f)"

text \<open>The same with loop variables that the body changes.\<close>

primrec foldT :: "('x \<Rightarrow> 'a \<Rightarrow> ('s, 'e, 'a) tx) \<Rightarrow> 'x list \<Rightarrow> 'a \<Rightarrow> ('s, 'e, 'a) tx" where
  "foldT f [] a = retT a"
| "foldT f (x # xs) a = bindT (f x a) (foldT f xs)"

text \<open>
  \<open>attemptT\<close> hands an error to the code that follows, \<open>finallyT\<close> is a deferred call whose own
  error is ignored.
\<close>

definition attemptT :: "('s, 'e, 'a) tx \<Rightarrow> ('s, 'f, 'e + 'a) tx" where
  "attemptT m s = (case m s of (r, t) \<Rightarrow> (Inr r, t))"

definition finallyT :: "('s, 'e, 'a) tx \<Rightarrow> ('s, 'e, 'b) tx \<Rightarrow> ('s, 'e, 'a) tx" where
  "finallyT m c s = (case m s of (r, t) \<Rightarrow> (r, snd (c t)))"

lemma retT_run [simp, tx_simps]: "retT x s = (Inr x, s)"
  by (simp add: retT_def)

lemma failT_run [simp, tx_simps]: "failT e s = (Inl e, s)"
  by (simp add: failT_def)

lemma getT_run [simp, tx_simps]: "getT f s = (Inr (f s), s)"
  by (simp add: getT_def)

lemma modT_run [simp, tx_simps]: "modT f s = (Inr (), f s)"
  by (simp add: modT_def)

lemma bindT_Inr [tx_simps]: "m s = (Inr x, t) \<Longrightarrow> bindT m f s = f x t"
  by (simp add: bindT_def)

lemma bindT_Inl [tx_simps]: "m s = (Inl e, t) \<Longrightarrow> bindT m f s = (Inl e, t)"
  by (simp add: bindT_def)

lemma thenT_Inr [tx_simps]: "m s = (Inr x, t) \<Longrightarrow> thenT m n s = n t"
  by (simp add: thenT_def bindT_def)

lemma thenT_Inl [tx_simps]: "m s = (Inl e, t) \<Longrightarrow> thenT m n s = (Inl e, t)"
  by (simp add: thenT_def bindT_def)

lemma bindT_Inr_iff:
  "bindT m f s = (Inr y, u) \<longleftrightarrow> (\<exists>x t. m s = (Inr x, t) \<and> f x t = (Inr y, u))"
  by (auto simp: bindT_def split: prod.splits sum.splits)

lemma thenT_Inr_iff:
  "thenT m n s = (Inr y, u) \<longleftrightarrow> (\<exists>x t. m s = (Inr x, t) \<and> n t = (Inr y, u))"
  by (simp add: thenT_def bindT_Inr_iff)

lemma bindT_step: "m s = (Inr x, t) \<Longrightarrow> f x t = r \<Longrightarrow> bindT m f s = r"
  by (simp add: bindT_def)

lemma thenT_step: "m s = (Inr x, t) \<Longrightarrow> n t = r \<Longrightarrow> thenT m n s = r"
  by (simp add: thenT_def bindT_def)

lemma bindT_ret [simp]: "bindT (retT x) f = f x"
  by (rule ext) (simp add: bindT_def)

lemma whenT_run [tx_simps]: "whenT b m s = (if b then m s else (Inr (), s))"
  by (simp add: whenT_def)

section \<open>Relations kept by computations\<close>

definition obeys :: "('s \<Rightarrow> 's \<Rightarrow> bool) \<Rightarrow> ('s, 'e, 'a) tx \<Rightarrow> bool" where
  "obeys R m \<longleftrightarrow> (\<forall>s. R s (snd (m s)))"

lemma obeysI: "(\<And>s. R s (snd (m s))) \<Longrightarrow> obeys R m"
  by (simp add: obeys_def)

lemma obeysD: "obeys R m \<Longrightarrow> m s = (r, t) \<Longrightarrow> R s t"
  by (metis obeys_def snd_conv)

lemma obeys_getT_refl: "(\<And>s. R s s) \<Longrightarrow> obeys R (getT f)"
  by (simp add: obeys_def)

locale tx_rel =
  fixes R :: "'s \<Rightarrow> 's \<Rightarrow> bool"
  assumes R_refl: "R s s"
    and R_trans: "R s t \<Longrightarrow> R t u \<Longrightarrow> R s u"
begin

lemma ret: "obeys R (retT x)"
  by (simp add: obeys_def R_refl)

lemma fail: "obeys R (failT e)"
  by (simp add: obeys_def R_refl)

lemma get: "obeys R (getT f)"
  by (simp add: obeys_def R_refl)

lemma bind: "obeys R m \<Longrightarrow> (\<And>x. obeys R (f x)) \<Longrightarrow> obeys R (bindT m f)"
  unfolding obeys_def bindT_def
  by (auto split: prod.splits sum.splits) (metis R_trans snd_conv)+

lemma seq: "obeys R m \<Longrightarrow> obeys R n \<Longrightarrow> obeys R (thenT m n)"
  unfolding thenT_def by (rule bind)

lemma cond: "(b \<Longrightarrow> obeys R m) \<Longrightarrow> (\<not> b \<Longrightarrow> obeys R n) \<Longrightarrow> obeys R (if b then m else n)"
  by simp

lemma whenb: "(b \<Longrightarrow> obeys R m) \<Longrightarrow> obeys R (whenT b m)"
  by (simp add: whenT_def ret)

lemma opt:
  "(v = None \<Longrightarrow> obeys R m) \<Longrightarrow> (\<And>x. v = Some x \<Longrightarrow> obeys R (f x)) \<Longrightarrow>
     obeys R (case v of None \<Rightarrow> m | Some x \<Rightarrow> f x)"
  by (cases v) simp_all

lemma pair: "(\<And>x y. v = (x, y) \<Longrightarrow> obeys R (f x y)) \<Longrightarrow> obeys R (case v of (x, y) \<Rightarrow> f x y)"
  by (cases v) simp

lemma loop: "(\<And>x. x \<in> set xs \<Longrightarrow> obeys R (f x)) \<Longrightarrow> obeys R (forT xs f)"
  by (induction xs) (simp_all add: ret seq)

lemma fold: "(\<And>x a. x \<in> set xs \<Longrightarrow> obeys R (f x a)) \<Longrightarrow> obeys R (foldT f xs a)"
  by (induction xs arbitrary: a) (simp_all add: ret bind)

lemma att: "obeys R m \<Longrightarrow> obeys R (attemptT m)"
  by (auto simp: obeys_def attemptT_def split: prod.split) (metis snd_conv)

lemma fin: "obeys R m \<Longrightarrow> obeys R c \<Longrightarrow> obeys R (finallyT m c)"
  by (auto simp: obeys_def finallyT_def split: prod.split) (metis R_trans snd_conv)

lemmas intros = ret fail get bind seq cond whenb opt pair loop fold att fin

end

text \<open>An invariant is the relation "if it holds before, it holds after".\<close>

definition keeps :: "('s \<Rightarrow> bool) \<Rightarrow> 's \<Rightarrow> 's \<Rightarrow> bool" where
  "keeps I s t \<longleftrightarrow> (I s \<longrightarrow> I t)"

interpretation kept: tx_rel "keeps I"
  by unfold_locales (auto simp: keeps_def)

text \<open>A view of the state that a computation leaves alone.\<close>

definition same :: "('s \<Rightarrow> 'v) \<Rightarrow> 's \<Rightarrow> 's \<Rightarrow> bool" where
  "same v s t \<longleftrightarrow> v t = v s"

interpretation frame: tx_rel "same v"
  by unfold_locales (auto simp: same_def)

lemma keepsD: "obeys (keeps I) m \<Longrightarrow> I s \<Longrightarrow> m s = (r, t) \<Longrightarrow> I t"
  by (metis keeps_def obeysD)

lemma sameD: "obeys (same v) m \<Longrightarrow> m s = (r, t) \<Longrightarrow> v t = v s"
  by (metis same_def obeysD)

section \<open>Pre- and postconditions\<close>

text \<open>
  What holds after a computation that returns normally.  A transaction that fails is
  rolled back, so nothing is claimed about its intermediate state.
\<close>

definition hoare :: "('s \<Rightarrow> bool) \<Rightarrow> ('s, 'e, 'a) tx \<Rightarrow> ('a \<Rightarrow> 's \<Rightarrow> bool) \<Rightarrow> bool" where
  "hoare P m Q \<longleftrightarrow> (\<forall>s x t. P s \<longrightarrow> m s = (Inr x, t) \<longrightarrow> Q x t)"

lemma hoareI: "(\<And>s x t. P s \<Longrightarrow> m s = (Inr x, t) \<Longrightarrow> Q x t) \<Longrightarrow> hoare P m Q"
  by (auto simp: hoare_def)

lemma hoareD: "hoare P m Q \<Longrightarrow> P s \<Longrightarrow> m s = (Inr x, t) \<Longrightarrow> Q x t"
  by (auto simp: hoare_def)

lemma hoare_bind:
  "hoare P m Q \<Longrightarrow> (\<And>x. hoare (Q x) (f x) R) \<Longrightarrow> hoare P (bindT m f) R"
  unfolding hoare_def bindT_Inr_iff by blast

lemma hoare_seq: "hoare P m (\<lambda>_. Q) \<Longrightarrow> hoare Q n R \<Longrightarrow> hoare P (thenT m n) R"
  unfolding thenT_def by (rule hoare_bind)

lemma hoare_ret: "(\<And>s. P s \<Longrightarrow> Q x s) \<Longrightarrow> hoare P (retT x) Q"
  by (auto simp: hoare_def)

lemma hoare_fail: "hoare P (failT e) Q"
  by (auto simp: hoare_def)

lemma hoare_cond:
  "(b \<Longrightarrow> hoare P m Q) \<Longrightarrow> (\<not> b \<Longrightarrow> hoare P n Q) \<Longrightarrow> hoare P (if b then m else n) Q"
  by simp

lemma hoare_opt:
  "(v = None \<Longrightarrow> hoare P m Q) \<Longrightarrow> (\<And>x. v = Some x \<Longrightarrow> hoare P (f x) Q) \<Longrightarrow>
     hoare P (case v of None \<Rightarrow> m | Some x \<Rightarrow> f x) Q"
  by (cases v) simp_all

lemma hoare_pre: "hoare P' m Q \<Longrightarrow> (\<And>s. P s \<Longrightarrow> P' s) \<Longrightarrow> hoare P m Q"
  by (auto simp: hoare_def)

lemma hoare_post: "hoare P m Q' \<Longrightarrow> (\<And>x s. Q' x s \<Longrightarrow> Q x s) \<Longrightarrow> hoare P m Q"
  by (auto simp: hoare_def)

lemma hoare_conj: "hoare P m Q \<Longrightarrow> hoare P' m Q' \<Longrightarrow> hoare (\<lambda>s. P s \<and> P' s) m (\<lambda>x s. Q x s \<and> Q' x s)"
  by (auto simp: hoare_def)

lemma hoare_frame: "obeys (same v) m \<Longrightarrow> (\<And>s t. v s = v t \<Longrightarrow> P s = P t) \<Longrightarrow> hoare P m (\<lambda>_. P)"
  by (rule hoareI) (metis sameD)

lemma hoare_keeps: "obeys (keeps I) m \<Longrightarrow> hoare I m (\<lambda>_. I)"
  by (rule hoareI) (metis keepsD)

lemma hoare_loop: "(\<And>x. x \<in> set xs \<Longrightarrow> hoare P (f x) (\<lambda>_. P)) \<Longrightarrow> hoare P (forT xs f) (\<lambda>_. P)"
  by (induction xs) (auto intro: hoare_ret hoare_seq)

lemma hoare_fold:
  "(\<And>x a. x \<in> set xs \<Longrightarrow> hoare (P a) (f x a) P) \<Longrightarrow> hoare (P a) (foldT f xs a) P"
  by (induction xs arbitrary: a) (auto intro: hoare_ret hoare_bind)

lemma hoare_when:
  "(b \<Longrightarrow> hoare P m (\<lambda>_. Q)) \<Longrightarrow> (\<And>s. \<not> b \<Longrightarrow> P s \<Longrightarrow> Q s) \<Longrightarrow> hoare P (whenT b m) (\<lambda>_. Q)"
  by (auto simp: whenT_def intro: hoare_ret)

text \<open>The computation returns normally, with the postcondition.\<close>

definition total :: "('s \<Rightarrow> bool) \<Rightarrow> ('s, 'e, 'a) tx \<Rightarrow> ('a \<Rightarrow> 's \<Rightarrow> bool) \<Rightarrow> bool" where
  "total P m Q \<longleftrightarrow> (\<forall>s. P s \<longrightarrow> (\<exists>x t. m s = (Inr x, t) \<and> Q x t))"

lemma totalI: "(\<And>s. P s \<Longrightarrow> \<exists>x t. m s = (Inr x, t) \<and> Q x t) \<Longrightarrow> total P m Q"
  by (simp add: total_def)

lemma totalD: "total P m Q \<Longrightarrow> P s \<Longrightarrow> \<exists>x t. m s = (Inr x, t) \<and> Q x t"
  by (simp add: total_def)

lemma total_bind: "total P m Q \<Longrightarrow> (\<And>x. total (Q x) (f x) R) \<Longrightarrow> total P (bindT m f) R"
  unfolding total_def bindT_Inr_iff by blast

lemma total_seq: "total P m (\<lambda>_. Q) \<Longrightarrow> total Q n R \<Longrightarrow> total P (thenT m n) R"
  unfolding thenT_def by (rule total_bind)

lemma total_ret: "(\<And>s. P s \<Longrightarrow> Q x s) \<Longrightarrow> total P (retT x) Q"
  by (simp add: total_def)

lemma total_pre: "total P' m Q \<Longrightarrow> (\<And>s. P s \<Longrightarrow> P' s) \<Longrightarrow> total P m Q"
  by (auto simp: total_def)

lemma total_post: "total P m Q' \<Longrightarrow> (\<And>x s. Q' x s \<Longrightarrow> Q x s) \<Longrightarrow> total P m Q"
  unfolding total_def by blast

lemma total_hoare: "total P m (\<lambda>_ _. True) \<Longrightarrow> hoare P m Q \<Longrightarrow> total P m Q"
  unfolding total_def hoare_def by blast

lemma total_opt:
  "(v = None \<Longrightarrow> total P m Q) \<Longrightarrow> (\<And>x. v = Some x \<Longrightarrow> total P (f x) Q) \<Longrightarrow>
     total P (case v of None \<Rightarrow> m | Some x \<Rightarrow> f x) Q"
  by (cases v) simp_all

lemma total_cond:
  "(b \<Longrightarrow> total P m Q) \<Longrightarrow> (\<not> b \<Longrightarrow> total P n Q) \<Longrightarrow> total P (if b then m else n) Q"
  by simp

lemma total_when:
  "(b \<Longrightarrow> total P m (\<lambda>_. Q)) \<Longrightarrow> (\<And>s. \<not> b \<Longrightarrow> P s \<Longrightarrow> Q s) \<Longrightarrow> total P (whenT b m) (\<lambda>_. Q)"
  by (auto simp: whenT_def intro: total_ret)

lemma total_loop: "(\<And>x. x \<in> set xs \<Longrightarrow> total P (f x) (\<lambda>_. P)) \<Longrightarrow> total P (forT xs f) (\<lambda>_. P)"
  by (induction xs) (auto intro: total_ret total_seq)

text \<open>
  Code outside a transaction is not rolled back: \<open>triple P m Q Z\<close> says what holds after a
  normal return (\<open>Q\<close>) and what holds after an error (\<open>Z\<close>).
\<close>

definition triple ::
  "('s \<Rightarrow> bool) \<Rightarrow> ('s, 'e, 'a) tx \<Rightarrow> ('a \<Rightarrow> 's \<Rightarrow> bool) \<Rightarrow> ('s \<Rightarrow> bool) \<Rightarrow> bool" where
  "triple P m Q Z \<longleftrightarrow>
     (\<forall>s x t. P s \<longrightarrow> m s = (Inr x, t) \<longrightarrow> Q x t) \<and> (\<forall>s e t. P s \<longrightarrow> m s = (Inl e, t) \<longrightarrow> Z t)"

lemma bindT_Inl_iff:
  "bindT m f s = (Inl e, u) \<longleftrightarrow> m s = (Inl e, u) \<or> (\<exists>x t. m s = (Inr x, t) \<and> f x t = (Inl e, u))"
  by (auto simp: bindT_def split: prod.splits sum.splits)

lemma tripleI:
  "(\<And>s x t. P s \<Longrightarrow> m s = (Inr x, t) \<Longrightarrow> Q x t) \<Longrightarrow> (\<And>s e t. P s \<Longrightarrow> m s = (Inl e, t) \<Longrightarrow> Z t) \<Longrightarrow> triple P m Q Z"
  unfolding triple_def by blast

lemma tripleD: "triple P m Q Z \<Longrightarrow> P s \<Longrightarrow> m s = (Inr x, t) \<Longrightarrow> Q x t"
  by (auto simp: triple_def)

lemma tripleE: "triple P m Q Z \<Longrightarrow> P s \<Longrightarrow> m s = (Inl e, t) \<Longrightarrow> Z t"
  by (auto simp: triple_def)

lemma triple_bind: "triple P m Q Z \<Longrightarrow> (\<And>x. triple (Q x) (f x) R Z) \<Longrightarrow> triple P (bindT m f) R Z"
  unfolding triple_def bindT_Inr_iff bindT_Inl_iff by metis

lemma triple_seq: "triple P m (\<lambda>_. Q) Z \<Longrightarrow> triple Q n R Z \<Longrightarrow> triple P (thenT m n) R Z"
  unfolding thenT_def by (rule triple_bind)

lemma triple_ret: "(\<And>s. P s \<Longrightarrow> Q x s) \<Longrightarrow> triple P (retT x) Q Z"
  by (simp add: triple_def)

lemma triple_fail: "(\<And>s. P s \<Longrightarrow> Z s) \<Longrightarrow> triple P (failT e) Q Z"
  by (simp add: triple_def)

lemma triple_get: "(\<And>s. P s \<Longrightarrow> Q (f s) s) \<Longrightarrow> triple P (getT f) Q Z"
  by (simp add: triple_def)

lemma triple_cond: "(b \<Longrightarrow> triple P m Q Z) \<Longrightarrow> (\<not> b \<Longrightarrow> triple P n Q Z) \<Longrightarrow> triple P (if b then m else n) Q Z"
  by simp

lemma triple_opt:
  "(v = None \<Longrightarrow> triple P m Q Z) \<Longrightarrow> (\<And>x. v = Some x \<Longrightarrow> triple P (f x) Q Z) \<Longrightarrow>
     triple P (case v of None \<Rightarrow> m | Some x \<Rightarrow> f x) Q Z"
  by (cases v) simp_all

lemma triple_conseq:
  "triple P' m Q' Z' \<Longrightarrow> (\<And>s. P s \<Longrightarrow> P' s) \<Longrightarrow> (\<And>x s. Q' x s \<Longrightarrow> Q x s) \<Longrightarrow> (\<And>s. Z' s \<Longrightarrow> Z s) \<Longrightarrow> triple P m Q Z"
  unfolding triple_def by blast

lemma triple_attempt:
  "triple P m (\<lambda>x. Q (Inr x)) (\<lambda>s. \<forall>e. Q (Inl e) s) \<Longrightarrow> triple P (attemptT m) Q Z"
  unfolding triple_def attemptT_def by (auto split: prod.splits) (metis sum.exhaust)

lemma triple_finally:
  "triple P m Q Y \<Longrightarrow> (\<And>x. triple (Q x) c (\<lambda>_. R x) (R x)) \<Longrightarrow> triple Y c (\<lambda>_. Z) Z \<Longrightarrow> triple P (finallyT m c) R Z"
proof (rule tripleI)
  fix s x t
  assume m: "triple P m Q Y" and c: "\<And>x. triple (Q x) c (\<lambda>_. R x) (R x)" and s: "P s" and f: "finallyT m c s = (Inr x, t)"
  obtain u where u: "m s = (Inr x, u)" "t = snd (c u)" using f by (auto simp: finallyT_def split: prod.splits)
  from tripleD [OF m s u(1)] show "R x t" using c [of x] u(2) by (cases "c u"; cases "fst (c u)") (auto simp: triple_def)
next
  fix s e t
  assume m: "triple P m Q Y" and c: "triple Y c (\<lambda>_. Z) Z" and s: "P s" and f: "finallyT m c s = (Inl e, t)"
  obtain u where u: "m s = (Inl e, u)" "t = snd (c u)" using f by (auto simp: finallyT_def split: prod.splits)
  from tripleE [OF m s u(1)] show "Z t" using c u(2) by (cases "c u"; cases "fst (c u)") (auto simp: triple_def)
qed

lemma finallyT_iff: "finallyT m c s = (r, t) \<longleftrightarrow> (\<exists>u. m s = (r, u) \<and> t = snd (c u))"
  by (cases "m s") (auto simp: finallyT_def)

lemma triple_when:
  "(b \<Longrightarrow> triple P m (\<lambda>_. Q) Z) \<Longrightarrow> (\<And>s. \<not> b \<Longrightarrow> P s \<Longrightarrow> Q s) \<Longrightarrow> triple P (whenT b m) (\<lambda>_. Q) Z"
  by (cases b) (simp_all add: whenT_def triple_def)

lemma triple_bothI:
  assumes "\<And>s r t. P s \<Longrightarrow> m s = (r, t) \<Longrightarrow> (\<forall>x. r = Inr x \<longrightarrow> Q x t) \<and> ((\<exists>e. r = Inl e) \<longrightarrow> Z t)"
  shows "triple P m Q Z"
  using assms by (simp add: triple_def)

lemma triple_const: "(p \<Longrightarrow> triple P m Q Z) \<Longrightarrow> triple (\<lambda>s. P s \<and> p) m Q Z"
  by (auto simp: triple_def)

lemma total_const: "(p \<Longrightarrow> total P m Q) \<Longrightarrow> total (\<lambda>s. P s \<and> p) m Q"
  by (auto simp: total_def)

lemma total_attempt: "(\<And>s. P s \<Longrightarrow> P (snd (m s))) \<Longrightarrow> total P (attemptT m) (\<lambda>_. P)"
  by (auto simp: total_def attemptT_def split: prod.split) (metis snd_conv)

lemma triple_obeys: "obeys (keeps I) m \<Longrightarrow> triple I m (\<lambda>_. I) I"
  by (rule tripleI) (auto dest: keepsD)

section \<open>Text\<close>

text \<open>
  Go strings are byte sequences.  Text outside ASCII is written as its UTF-8 bytes.
\<close>

definition utf8 :: "nat list \<Rightarrow> string" where
  "utf8 bs = map char_of bs"

definition digit_char :: "int \<Rightarrow> char" where
  "digit_char k = char_of (48 + k)"

function dec_int :: "int \<Rightarrow> string" where
  "dec_int n =
     (if n < 10 then [digit_char n] else dec_int (n div 10) @ [digit_char (n mod 10)])"
  by pat_completeness auto
termination
  by (relation "measure nat") auto

declare dec_int.simps [simp del]

text \<open>\<^verbatim>\<open>%d\<close> and \<^verbatim>\<open>strconv.FormatInt(n, 10)\<close>.\<close>

definition fmt_d :: "int \<Rightarrow> string" where
  "fmt_d n = (if n < 0 then ''-'' @ dec_int (- n) else dec_int n)"

text \<open>The last \<open>w\<close> decimal digits, with leading zeros.\<close>

fun pad_dec :: "nat \<Rightarrow> int \<Rightarrow> string" where
  "pad_dec 0 n = []"
| "pad_dec (Suc w) n = pad_dec w (n div 10) @ [digit_char (n mod 10)]"

definition digit_val :: "char \<Rightarrow> int option" where
  "digit_val c = (let n = (of_char c :: int) in if 48 \<le> n \<and> n \<le> 57 then Some (n - 48) else None)"

text \<open>The value of a decimal string, read digit by digit.\<close>

fun dec_value :: "int \<Rightarrow> string \<Rightarrow> int option" where
  "dec_value a [] = Some a"
| "dec_value a (c # s) = (case digit_val c of None \<Rightarrow> None | Some k \<Rightarrow> dec_value (10 * a + k) s)"

definition strip_prefix :: "string \<Rightarrow> string \<Rightarrow> string option" where
  "strip_prefix p s = (if take (length p) s = p then Some (drop (length p) s) else None)"

text \<open>\<^verbatim>\<open>strings.Split(s, c)\<close>, \<^verbatim>\<open>strings.Cut(s, c)\<close>, \<^verbatim>\<open>strings.TrimRight(s, c)\<close> for one character.\<close>

fun split_on :: "char \<Rightarrow> string \<Rightarrow> string list" where
  "split_on c [] = [[]]"
| "split_on c (x # s) = (if x = c then [] # split_on c s else (x # hd (split_on c s)) # List.tl (split_on c s))"

definition cut_at :: "char \<Rightarrow> string \<Rightarrow> (string \<times> string) option" where
  "cut_at c s = (if c \<in> set s then Some (takeWhile (\<lambda>x. x \<noteq> c) s, List.tl (dropWhile (\<lambda>x. x \<noteq> c) s)) else None)"

definition trim_right :: "char \<Rightarrow> string \<Rightarrow> string" where
  "trim_right c s = rev (dropWhile (\<lambda>x. x = c) (rev s))"

definition strip_suffix :: "string \<Rightarrow> string \<Rightarrow> string option" where
  "strip_suffix p s = map_option rev (strip_prefix (rev p) (rev s))"

definition is_digit :: "char \<Rightarrow> bool" where
  "is_digit c \<longleftrightarrow> digit_val c \<noteq> None"

lemma length_pad_dec [simp]: "length (pad_dec w n) = w"
  by (induction w n rule: pad_dec.induct) simp_all

lemma of_char_digit: "0 \<le> k \<Longrightarrow> k \<le> 9 \<Longrightarrow> (of_char (digit_char k) :: int) = 48 + k"
  by (simp add: digit_char_def take_bit_int_eq_self)

lemma digit_val_char [simp]: "0 \<le> k \<Longrightarrow> k \<le> 9 \<Longrightarrow> digit_val (digit_char k) = Some k"
  by (simp add: digit_val_def of_char_digit)

lemma digit_char_inject: "0 \<le> j \<Longrightarrow> j \<le> 9 \<Longrightarrow> 0 \<le> k \<Longrightarrow> k \<le> 9 \<Longrightarrow> digit_char j = digit_char k \<longleftrightarrow> j = k"
  by (metis digit_val_char option.inject)

lemma dec_value_append:
  "dec_value a (s @ t) = Option.bind (dec_value a s) (\<lambda>b. dec_value b t)"
  by (induction a s rule: dec_value.induct) (auto split: option.split)

lemma dec_value_dec_int: "0 \<le> n \<Longrightarrow> dec_value 0 (dec_int n) = Some n"
proof (induction n rule: dec_int.induct)
  case (1 n)
  show ?case
  proof (cases "n < 10")
    case True
    with "1.prems" show ?thesis by (simp add: dec_int.simps [of n])
  next
    case False
    with "1.IH" have "dec_value 0 (dec_int (n div 10)) = Some (n div 10)" by simp
    with False show ?thesis by (simp add: dec_int.simps [of n] dec_value_append)
  qed
qed

lemma dec_int_inject: "0 \<le> m \<Longrightarrow> 0 \<le> n \<Longrightarrow> dec_int m = dec_int n \<longleftrightarrow> m = n"
  by (metis dec_value_dec_int option.inject)

lemma digit_char_less:
  assumes "0 \<le> j" "j \<le> 9" "0 \<le> k" "k \<le> 9"
  shows "digit_char j < digit_char k \<longleftrightarrow> j < k"
proof -
  have "int (of_char (digit_char j)) = 48 + j" "int (of_char (digit_char k)) = 48 + k"
    using of_char_digit [of j] of_char_digit [of k] assms by (simp_all add: of_nat_of_char)
  then show ?thesis unfolding less_char_def by linarith
qed

section \<open>Lexicographic order of fixed-width strings\<close>

lemma append_less_iff:
  fixes a b :: "'a::linorder list"
  shows "length a = length a' \<Longrightarrow> a @ b < a' @ b' \<longleftrightarrow> a < a' \<or> a = a' \<and> b < b'"
  by (induction a a' rule: list_induct2) auto

lemma div_mod_less:
  fixes a b k :: int
  assumes "0 < k" and "a < b"
  shows "a div k < b div k \<or> a div k = b div k \<and> a mod k < b mod k"
proof -
  have "a div k \<le> b div k" using assms by (intro zdiv_mono1) auto
  moreover have "a mod k < b mod k" if "a div k = b div k"
  proof -
    have "a = k * (b div k) + a mod k" "b = k * (b div k) + b mod k"
      using that mult_div_mod_eq [of k a] mult_div_mod_eq [of k b] by simp_all
    with assms(2) show ?thesis by linarith
  qed
  ultimately show ?thesis by linarith
qed

lemma div_mod_less_iff:
  fixes a b k :: int
  assumes "0 < k"
  shows "(a div k < b div k \<or> a div k = b div k \<and> a mod k < b mod k) \<longleftrightarrow> a < b"
  using div_mod_less [OF assms, of a b] div_mod_less [OF assms, of b a]
  by (metis less_asym linorder_cases order_less_irrefl)

lemma pad_dec_less:
  "0 \<le> m \<Longrightarrow> m < 10 ^ w \<Longrightarrow> 0 \<le> n \<Longrightarrow> n < 10 ^ w \<Longrightarrow> pad_dec w m < pad_dec w n \<longleftrightarrow> m < n"
proof (induction w arbitrary: m n)
  case 0
  then show ?case by simp
next
  case (Suc w)
  have b: "m div 10 < 10 ^ w" "n div 10 < 10 ^ w"
    using Suc.prems by (simp_all add: div_less_iff_less_mult)
  have eq: "pad_dec w (m div 10) = pad_dec w (n div 10) \<longleftrightarrow> m div 10 = n div 10"
    using Suc.IH [of "m div 10" "n div 10"] Suc.IH [of "n div 10" "m div 10"] Suc.prems b
    by (auto simp: pos_imp_zdiv_nonneg_iff)
  have lt: "pad_dec w (m div 10) < pad_dec w (n div 10) \<longleftrightarrow> m div 10 < n div 10"
    using Suc.prems b by (intro Suc.IH) (auto simp: pos_imp_zdiv_nonneg_iff)
  have dg: "digit_char (m mod 10) < digit_char (n mod 10) \<longleftrightarrow> m mod 10 < n mod 10"
    by (intro digit_char_less) simp_all
  have "pad_dec (Suc w) m < pad_dec (Suc w) n \<longleftrightarrow>
      m div 10 < n div 10 \<or> m div 10 = n div 10 \<and> m mod 10 < n mod 10"
    by (simp only: pad_dec.simps append_less_iff length_pad_dec lt eq dg Cons_less_Cons
        not_less_Nil simp_thms)
  also have "\<dots> \<longleftrightarrow> m < n"
    by (rule div_mod_less_iff) simp
  finally show ?case .
qed

end
