(* ===== verification/Timestamps.thy ===== *)
theory Timestamps
  imports Prelude
begin

text \<open>
  Timestamps of the contract: RFC3339 in UTC with millisecond precision
  (\<^verbatim>\<open>hub/util.go\<close>, \<open>tsFmt\<close>, \<open>fmtTS\<close>, \<open>parseTS\<close>).  Every
  column of the database that holds an instant holds such a string, and the
  program's SQL compares the strings, so the order of the strings has to be the
  order of the instants.  The calendar of package \<open>time\<close> is modelled: the
  proleptic Gregorian date of a day number, formatting with the layout
  \<^verbatim>\<open>2006-01-02T15:04:05.000Z\<close>, and parsing with the layout \<open>RFC3339Nano\<close>.
\<close>

section \<open>The calendar\<close>

definition is_leap :: "int \<Rightarrow> bool" where
  "is_leap y \<longleftrightarrow> y mod 4 = 0 \<and> (y mod 100 \<noteq> 0 \<or> y mod 400 = 0)"

text \<open>Days from January 1 of year 0 to January 1 of year \<open>y\<close>.\<close>

definition days_before_year :: "int \<Rightarrow> int" where
  "days_before_year y = 365 * y + (y + 3) div 4 - (y + 99) div 100 + (y + 399) div 400"

definition year_of_day :: "int \<Rightarrow> int" where
  "year_of_day d =
     (let y = (400 * d) div 146097
      in if d < days_before_year y then y - 1
         else if days_before_year (y + 1) \<le> d then y + 1 else y)"

definition month_lengths :: "int \<Rightarrow> int list" where
  "month_lengths y = [31, if is_leap y then 29 else 28, 31, 30, 31, 30, 31, 31, 30, 31, 30, 31]"

fun month_day :: "int list \<Rightarrow> int \<Rightarrow> int \<Rightarrow> int \<times> int" where
  "month_day [] m d = (m, d)"
| "month_day (l # ls) m d = (if d < l then (m, d) else month_day ls (m + 1) (d - l))"

text \<open>Year, month (1 to 12) and day (1 to 31) of a day counted from January 1 of year 0.\<close>

definition civil :: "int \<Rightarrow> int \<times> int \<times> int" where
  "civil d =
     (let y = year_of_day d; (m, r) = month_day (month_lengths y) 1 (d - days_before_year y)
      in (y, m, r + 1))"

definition days_of_civil :: "int \<Rightarrow> int \<Rightarrow> int \<Rightarrow> int" where
  "days_of_civil y m d =
     days_before_year y + sum_list (take (nat (m - 1)) (month_lengths y)) + (d - 1)"

definition days_in :: "int \<Rightarrow> int \<Rightarrow> int" where
  "days_in y m = month_lengths y ! nat (m - 1)"

text \<open>Days from January 1 of year 0 to the Unix epoch.\<close>

definition epoch_days :: int where
  "epoch_days = 719528"

section \<open>Formatting\<close>

text \<open>\<open>appendInt(b, year, 4)\<close>: at least four digits, with a sign when negative.\<close>

definition fmt_year :: "int \<Rightarrow> string" where
  "fmt_year y =
     (let n = \<bar>y\<bar>; ds = (if n < 10000 then pad_dec 4 n else dec_int n)
      in if y < 0 then ''-'' @ ds else ds)"

definition fmtTS :: "time \<Rightarrow> string" where
  "fmtTS t =
     (let ms = t div 1000000;
          (y, m, d) = civil (ms div 86400000 + epoch_days);
          r = ms mod 86400000
      in fmt_year y @ ''-'' @ pad_dec 2 m @ ''-'' @ pad_dec 2 d @ ''T'' @
         pad_dec 2 (r div 3600000) @ '':'' @ pad_dec 2 (r div 60000 mod 60) @ '':'' @
         pad_dec 2 (r div 1000 mod 60) @ ''.'' @ pad_dec 3 (r mod 1000) @ ''Z'')"

section \<open>Parsing\<close>

text \<open>A field of exactly \<open>w\<close> digits.\<close>

fun get_fixed :: "nat \<Rightarrow> int \<Rightarrow> string \<Rightarrow> (int \<times> string) option" where
  "get_fixed 0 a s = Some (a, s)"
| "get_fixed (Suc w) a [] = None"
| "get_fixed (Suc w) a (c # s) =
     (case digit_val c of None \<Rightarrow> None | Some k \<Rightarrow> get_fixed w (10 * a + k) s)"

text \<open>\<open>getnum(value, false)\<close>: one digit, or two when a second one follows.\<close>

definition get_hour :: "string \<Rightarrow> (int \<times> string) option" where
  "get_hour s =
     (case get_fixed 2 0 s of Some r \<Rightarrow> Some r | None \<Rightarrow> get_fixed 1 0 s)"

definition lit :: "char \<Rightarrow> string \<Rightarrow> string option" where
  "lit c s = (case s of [] \<Rightarrow> None | x # r \<Rightarrow> if x = c then Some r else None)"

fun span_digits :: "string \<Rightarrow> int list \<times> string" where
  "span_digits [] = ([], [])"
| "span_digits (c # s) =
     (case digit_val c of None \<Rightarrow> ([], c # s)
      | Some k \<Rightarrow> (let (ks, r) = span_digits s in (k # ks, r)))"

fun nanos :: "nat \<Rightarrow> int list \<Rightarrow> int" where
  "nanos 0 ks = 0"
| "nanos (Suc w) [] = 0"
| "nanos (Suc w) (k # ks) = k * 10 ^ w + nanos w ks"

text \<open>
  The optional fraction: a point or a comma followed by at least one digit.  Digits
  after the ninth are dropped.
\<close>

definition get_frac :: "string \<Rightarrow> int \<times> string" where
  "get_frac s =
     (case s of
        c # r \<Rightarrow>
          (if c = CHR ''.'' \<or> c = CHR '',''
           then (let (ks, r') = span_digits r in if ks = [] then (0, s) else (nanos 9 ks, r'))
           else (0, s))
      | [] \<Rightarrow> (0, s))"

text \<open>\<^verbatim>\<open>Z\<close> or \<^verbatim>\<open>+hh:mm\<close>: the offset in seconds.  Go tolerates 24 hours and 60 minutes.\<close>

definition get_zone :: "string \<Rightarrow> (int \<times> string) option" where
  "get_zone s =
     (case s of [] \<Rightarrow> None
      | c # r \<Rightarrow>
          if c = CHR ''Z'' then Some (0, r)
          else if c = CHR ''+'' \<or> c = CHR ''-'' then
            Option.bind (get_fixed 2 0 r) (\<lambda>(h, r1).
            Option.bind (lit CHR '':'' r1) (\<lambda>r2.
            Option.bind (get_fixed 2 0 r2) (\<lambda>(m, r3).
              if 24 < h \<or> 60 < m then None
              else Some ((if c = CHR ''-'' then -1 else 1) * (h * 3600 + m * 60), r3))))
          else None)"

definition parseTS :: "string \<Rightarrow> time option" where
  "parseTS s =
     Option.bind (get_fixed 4 0 s) (\<lambda>(y, s1).
     Option.bind (lit CHR ''-'' s1) (\<lambda>s2.
     Option.bind (get_fixed 2 0 s2) (\<lambda>(m, s3).
     Option.bind (lit CHR ''-'' s3) (\<lambda>s4.
     Option.bind (get_fixed 2 0 s4) (\<lambda>(d, s5).
     Option.bind (lit CHR ''T'' s5) (\<lambda>s6.
     Option.bind (get_hour s6) (\<lambda>(hh, s7).
     Option.bind (lit CHR '':'' s7) (\<lambda>s8.
     Option.bind (get_fixed 2 0 s8) (\<lambda>(mi, s9).
     Option.bind (lit CHR '':'' s9) (\<lambda>s10.
     Option.bind (get_fixed 2 0 s10) (\<lambda>(ss, s11).
       let (ns, s12) = get_frac s11 in
     Option.bind (get_zone s12) (\<lambda>(off, s13).
       if s13 \<noteq> [] \<or> m < 1 \<or> 12 < m \<or> d < 1 \<or> days_in y m < d
          \<or> 24 \<le> hh \<or> 60 \<le> mi \<or> 60 \<le> ss then None
       else Some (((days_of_civil y m d - epoch_days) * 86400
                   + hh * 3600 + mi * 60 + ss - off) * 1000000000 + ns)))))))))))))"

section \<open>Laws of the calendar\<close>

lemma ceil_div_Suc:
  fixes k :: int
  assumes "0 < k"
  shows "(y + k) div k = (y + (k - 1)) div k + (if y mod k = 0 then 1 else 0)"
proof -
  have y: "k * (y div k) + y mod k = y" and r: "0 \<le> y mod k" "y mod k < k"
    using assms by simp_all
  have "(y + (k - 1)) div k = (if y mod k = 0 then y div k else y div k + 1)"
  proof (cases "y mod k = 0")
    case True
    with y assms have "(y + (k - 1)) div k = y div k"
      by (intro int_div_pos_eq [where r = "k - 1"]) auto
    with True show ?thesis by simp
  next
    case False
    have "(y + (k - 1)) div k = y div k + 1"
    proof (rule int_div_pos_eq)
      show "y + (k - 1) = k * (y div k + 1) + (y mod k - 1)"
        by (subst (1) y [symmetric]) (simp add: algebra_simps)
    qed (use r False in linarith)+
    with False show ?thesis by simp
  qed
  then show ?thesis using assms by simp
qed

lemma ceil_div_bounds:
  fixes k :: int
  assumes "0 < k"
  shows "y \<le> k * ((y + (k - 1)) div k)" "k * ((y + (k - 1)) div k) \<le> y + (k - 1)"
proof -
  let ?z = "y + (k - 1)"
  have "?z = k * (?z div k) + ?z mod k" "0 \<le> ?z mod k" "?z mod k < k"
    using assms by simp_all
  then show "y \<le> k * (?z div k)" "k * (?z div k) \<le> ?z" by linarith+
qed

lemma days_before_year_Suc:
  "days_before_year (y + 1) = days_before_year y + sum_list (month_lengths y)"
proof -
  define a b c where "a = (y + 3) div 4" and "b = (y + 99) div 100" and "c = (y + 399) div 400"
  define p q r where "p = (y mod 4 = 0)" and "q = (y mod 100 = 0)" and "r = (y mod 400 = 0)"
  have "400 dvd y \<Longrightarrow> 100 dvd y"
    by (rule dvd_trans [of 100 400]) simp_all
  moreover have "100 dvd y \<Longrightarrow> 4 dvd y"
    by (rule dvd_trans [of 4 100]) simp_all
  ultimately have imp: "r \<longrightarrow> q" "q \<longrightarrow> p"
    unfolding p_def q_def r_def dvd_eq_mod_eq_0 [symmetric] by blast+
  have e: "y + 1 + 3 = y + 4" "y + 1 + 99 = y + 100" "y + 1 + 399 = y + 400"
    "(4::int) - 1 = 3" "(100::int) - 1 = 99" "(400::int) - 1 = 399"
    by simp_all
  have "(y + 1 + 3) div 4 = a + (if p then 1 else 0)"
    "(y + 1 + 99) div 100 = b + (if q then 1 else 0)"
    "(y + 1 + 399) div 400 = c + (if r then 1 else 0)"
    unfolding a_def b_def c_def p_def q_def r_def e
    by (rule ceil_div_Suc [of 4 y, OF zero_less_numeral, unfolded e],
        rule ceil_div_Suc [of 100 y, OF zero_less_numeral, unfolded e],
        rule ceil_div_Suc [of 400 y, OF zero_less_numeral, unfolded e])
  then have "days_before_year (y + 1) = 365 * (y + 1) + (a + (if p then 1 else 0))
      - (b + (if q then 1 else 0)) + (c + (if r then 1 else 0))"
    unfolding days_before_year_def by (simp only:)
  moreover have "days_before_year y = 365 * y + a - b + c"
    unfolding days_before_year_def a_def b_def c_def ..
  moreover have "sum_list (month_lengths y) = (if p \<and> (\<not> q \<or> r) then 366 else 365)"
    unfolding month_lengths_def is_leap_def p_def q_def r_def by simp
  ultimately show ?thesis using imp by (cases p; cases q; cases r) simp_all
qed

lemma sum_month_lengths_pos: "365 \<le> sum_list (month_lengths y)"
  by (simp add: month_lengths_def)

lemma days_before_year_bounds:
  "146097 * y - 400 < 400 * days_before_year y" "400 * days_before_year y < 146097 * y + 800"
  using ceil_div_bounds [of 4 y] ceil_div_bounds [of 100 y] ceil_div_bounds [of 400 y]
  unfolding days_before_year_def by simp_all

lemma year_of_day_bracket:
  "days_before_year (year_of_day d) \<le> d \<and> d < days_before_year (year_of_day d + 1)"
proof -
  define y where "y = (400 * d) div 146097"
  have "400 * d = 146097 * y + (400 * d) mod 146097" "0 \<le> (400 * d) mod 146097"
    "(400 * d) mod 146097 < 146097"
    unfolding y_def by simp_all
  then have q: "146097 * y \<le> 400 * d" "400 * d < 146097 * y + 146097"
    by linarith+
  have lo: "days_before_year (y - 1) \<le> d"
    using q days_before_year_bounds [of "y - 1"] by (simp add: algebra_simps)
  have hi: "d < days_before_year (y + 2)"
    using q days_before_year_bounds [of "y + 2"] by (simp add: algebra_simps)
  show ?thesis
    using lo hi by (auto simp: year_of_day_def Let_def y_def [symmetric] add.commute)
qed

lemma days_before_year_mono: "y \<le> y' \<Longrightarrow> days_before_year y \<le> days_before_year y'"
  using days_before_year_bounds [of y] days_before_year_bounds [of y']
  by (cases "y = y'") auto

lemma year_of_day_mono: "d \<le> d' \<Longrightarrow> year_of_day d \<le> year_of_day d'"
proof (rule ccontr)
  assume "d \<le> d'" and "\<not> year_of_day d \<le> year_of_day d'"
  then have "days_before_year (year_of_day d' + 1) \<le> days_before_year (year_of_day d)"
    by (intro days_before_year_mono) simp
  with year_of_day_bracket [of d] year_of_day_bracket [of d'] \<open>d \<le> d'\<close> show False by simp
qed

lemma month_lengths_pos: "l \<in> set (month_lengths y) \<Longrightarrow> 0 < l \<and> l \<le> 31"
  by (auto simp: month_lengths_def split: if_splits)

lemma length_month_lengths [simp]: "length (month_lengths y) = 12"
  by (simp add: month_lengths_def)

text \<open>What \<open>month_day\<close> finds: the month whose days cover \<open>d\<close>, and the day in it.\<close>

lemma month_day_spec:
  assumes "0 \<le> d" and "d < sum_list ls" and "month_day ls m d = (m', r)"
  shows "\<exists>k < length ls. m' = m + int k \<and> 0 \<le> r \<and> r < ls ! k \<and> d = sum_list (take k ls) + r"
  using assms
proof (induction ls m d rule: month_day.induct)
  case (1 m d)
  then show ?case by simp
next
  case (2 l ls m d)
  show ?case
  proof (cases "d < l")
    case True
    with "2.prems" show ?thesis by (intro exI [of _ 0]) auto
  next
    case False
    with "2.prems" have "\<exists>k < length ls. m' = (m + 1) + int k \<and> 0 \<le> r \<and> r < ls ! k
        \<and> d - l = sum_list (take k ls) + r"
      by (intro "2.IH") auto
    then obtain k where "k < length ls" "m' = m + 1 + int k" "0 \<le> r" "r < ls ! k"
      "d - l = sum_list (take k ls) + r" by blast
    then show ?thesis by (intro exI [of _ "Suc k"]) auto
  qed
qed

lemma month_day_mono:
  assumes "0 \<le> d" and "d < d'" and "month_day ls m d = (m1, r1)" and "month_day ls m d' = (m2, r2)"
    and "\<And>l. l \<in> set ls \<Longrightarrow> 0 < l"
  shows "m1 < m2 \<or> m1 = m2 \<and> r1 < r2"
  using assms
proof (induction ls m d arbitrary: d' rule: month_day.induct)
  case (1 m d)
  then show ?case by simp
next
  case (2 l ls m d)
  have ge: "m1 \<ge> m + 1" if "month_day ls (m + 1) x = (m1, r1)" for x m1 r1
    using that
  proof (induction ls "m + 1" x arbitrary: m rule: month_day.induct)
    case (2 l ls d)
    then show ?case by (fastforce split: if_splits)
  qed simp
  show ?case
  proof (cases "d < l")
    case True
    then show ?thesis using "2.prems" ge [of "d' - l" m2 r2] by (auto split: if_splits)
  next
    case False
    then show ?thesis using "2.prems" by (intro "2.IH" [of "d' - l"]) auto
  qed
qed

lemma civil_spec:
  assumes "civil d = (y, m, dd)"
  shows "y = year_of_day d \<and> 1 \<le> m \<and> m \<le> 12 \<and> 1 \<le> dd \<and> dd \<le> days_in y m \<and> dd \<le> 31
     \<and> days_of_civil y m dd = d"
proof -
  let ?y = "year_of_day d" and ?x = "d - days_before_year (year_of_day d)"
  obtain m' r where mr: "month_day (month_lengths ?y) 1 ?x = (m', r)" by fastforce
  from year_of_day_bracket [of d] have x: "0 \<le> ?x" "?x < sum_list (month_lengths ?y)"
    by (simp_all add: days_before_year_Suc)
  from month_day_spec [OF x mr] obtain k where k: "k < 12" "m' = 1 + int k" "0 \<le> r"
    "r < month_lengths ?y ! k" "?x = sum_list (take k (month_lengths ?y)) + r" by auto
  from k(1) have "month_lengths ?y ! k \<in> set (month_lengths ?y)" by (intro nth_mem) simp
  with month_lengths_pos have l: "month_lengths ?y ! k \<le> 31" by blast
  from assms mr have e: "y = ?y" "m = m'" "dd = r + 1" by (auto simp: civil_def)
  show ?thesis using k l unfolding e days_of_civil_def days_in_def by simp
qed

lemma civil_mono:
  assumes "d < d'" and "civil d = (y, m, a)" and "civil d' = (y', m', a')"
  shows "y < y' \<or> y = y' \<and> (m < m' \<or> m = m' \<and> a < a')"
proof -
  have y: "y = year_of_day d" and y': "y' = year_of_day d'"
    using assms civil_spec by auto
  have "y \<le> y'" using year_of_day_mono [of d d'] assms(1) y y' by simp
  moreover have ?thesis if eq: "y = y'"
  proof -
    let ?x = "d - days_before_year y" and ?x' = "d' - days_before_year y"
    have "month_day (month_lengths y) 1 ?x = (m, a - 1)"
      using assms(2) y by (auto simp: civil_def Let_def split: prod.splits)
    moreover have "month_day (month_lengths y) 1 ?x' = (m', a' - 1)"
      using assms(3) y' eq by (auto simp: civil_def Let_def split: prod.splits)
    moreover have "0 \<le> ?x" using year_of_day_bracket [of d] y by simp
    ultimately show ?thesis
      using month_day_mono [of ?x ?x' "month_lengths y" 1 m "a - 1" m' "a' - 1"] assms(1) eq
        month_lengths_pos by fastforce
  qed
  ultimately show ?thesis by linarith
qed

section \<open>The order of formatted instants\<close>

text \<open>The instants of the years 0 to 9999, which the layout writes with four digits.\<close>

definition in_years :: "time \<Rightarrow> bool" where
  "in_years t \<longleftrightarrow> - 62167219200000000000 \<le> t \<and> t < 253402300800000000000"

definition ms_of :: "time \<Rightarrow> int" where
  "ms_of t = t div 1000000"

lemma in_years_civil:
  assumes "in_years t" and "civil (ms_of t div 86400000 + epoch_days) = (y, m, d)"
  shows "0 \<le> y \<and> y \<le> 9999"
proof -
  let ?D = "ms_of t div 86400000 + epoch_days"
  have "- 62167219200000 \<le> ms_of t" "ms_of t \<le> 253402300799999"
    using assms(1) zdiv_mono1 [of "- 62167219200000000000" t 1000000]
      zdiv_mono1 [of t "253402300799999999999" 1000000]
    unfolding in_years_def ms_of_def by simp_all
  then have "0 \<le> ?D" "?D \<le> 3652424"
    using zdiv_mono1 [of "- 62167219200000" "ms_of t" 86400000]
      zdiv_mono1 [of "ms_of t" "253402300799999" 86400000]
    unfolding epoch_days_def by simp_all
  then have "year_of_day 0 \<le> year_of_day ?D" "year_of_day ?D \<le> year_of_day 3652424"
    by (auto intro: year_of_day_mono)
  moreover have "year_of_day 0 = 0" "year_of_day 3652424 = 9999"
    by code_simp+
  ultimately show ?thesis using civil_spec [OF assms(2)] by simp
qed

definition hms_string :: "int \<Rightarrow> int \<Rightarrow> int \<Rightarrow> int \<Rightarrow> string" where
  "hms_string h mi s x =
     pad_dec 2 h @ '':'' @ pad_dec 2 mi @ '':'' @ pad_dec 2 s @ ''.'' @ pad_dec 3 x @ ''Z''"

definition date_string :: "int \<Rightarrow> int \<Rightarrow> int \<Rightarrow> string \<Rightarrow> string" where
  "date_string y m d rest =
     pad_dec 4 y @ ''-'' @ pad_dec 2 m @ ''-'' @ pad_dec 2 d @ ''T'' @ rest"

lemma hms_string_less:
  assumes "h < h' \<or> h = h' \<and> (mi < mi' \<or> mi = mi' \<and> (s < s' \<or> s = s' \<and> x < x'))"
    and "0 \<le> h" "h < 24" "0 \<le> mi" "mi < 60" "0 \<le> s" "s < 60" "0 \<le> x" "x < 1000"
    and "0 \<le> h'" "h' < 24" "0 \<le> mi'" "mi' < 60" "0 \<le> s'" "s' < 60" "0 \<le> x'" "x' < 1000"
  shows "hms_string h mi s x < hms_string h' mi' s' x'"
  using assms unfolding hms_string_def by (auto simp: append_less_iff pad_dec_less)

lemma date_string_less:
  assumes "y < y' \<or> y = y' \<and> (m < m' \<or> m = m' \<and> (d < d' \<or> d = d' \<and> rest < rest'))"
    and "0 \<le> y" "y < 10 ^ 4" "0 \<le> m" "m < 10 ^ 2" "0 \<le> d" "d < 10 ^ 2"
    and "0 \<le> y'" "y' < 10 ^ 4" "0 \<le> m'" "m' < 10 ^ 2" "0 \<le> d'" "d' < 10 ^ 2"
  shows "date_string y m d rest < date_string y' m' d' rest'"
  using assms unfolding date_string_def by (auto simp: append_less_iff pad_dec_less)

lemma fmtTS_fields:
  assumes "in_years t" and "civil (ms_of t div 86400000 + epoch_days) = (y, m, d)"
    and "r = ms_of t mod 86400000"
  shows "fmtTS t = date_string y m d (hms_string (r div 1000 div 60 div 60)
    (r div 1000 div 60 mod 60) (r div 1000 mod 60) (r mod 1000))"
proof -
  have q2: "r div 60000 = r div 1000 div 60"
    using zdiv_zmult2_eq [of 60 r 1000] by simp
  have q3: "r div 3600000 = r div 1000 div 60 div 60"
    using zdiv_zmult2_eq [of 60 r 60000] q2 by simp
  have yr: "fmt_year y = pad_dec 4 y"
    using in_years_civil [OF assms(1,2)] by (simp add: fmt_year_def)
  show ?thesis
    unfolding fmtTS_def Let_def ms_of_def [symmetric] assms(2) prod.case assms(3) [symmetric]
    by (simp only: q2 q3 yr date_string_def hms_string_def)
qed

lemma time_fields_bounds:
  assumes "(r::int) = x mod 86400000"
  shows "0 \<le> r" "0 \<le> r div 1000 div 60 div 60" "r div 1000 div 60 div 60 < 24"
    "0 \<le> r div 1000 div 60 mod 60" "r div 1000 div 60 mod 60 < 60"
    "0 \<le> r div 1000 mod 60" "r div 1000 mod 60 < 60" "0 \<le> r mod 1000" "r mod 1000 < 1000"
proof -
  have r: "0 \<le> r" "r \<le> 86399999" using assms by simp_all
  then have "r div 1000 \<le> 86399999 div 1000" by (intro zdiv_mono1) auto
  then have "r div 1000 \<le> 86399" by simp
  then have "r div 1000 div 60 \<le> 86399 div 60" by (intro zdiv_mono1) auto
  then have "r div 1000 div 60 \<le> 1439" by simp
  then have "r div 1000 div 60 div 60 \<le> 1439 div 60" by (intro zdiv_mono1) auto
  then show "r div 1000 div 60 div 60 < 24" by simp
  show "0 \<le> r" by (rule r)
  have "0 \<le> r div 1000" using r by (intro div_int_pos_iff [THEN iffD2]) simp
  then have "0 \<le> r div 1000 div 60" by (intro div_int_pos_iff [THEN iffD2]) simp
  then show "0 \<le> r div 1000 div 60 div 60" by (intro div_int_pos_iff [THEN iffD2]) simp
qed (rule pos_mod_sign pos_mod_bound, simp)+

lemma time_fields_less:
  assumes "(r::int) < r'"
  shows "r div 1000 div 60 div 60 < r' div 1000 div 60 div 60 \<or>
    r div 1000 div 60 div 60 = r' div 1000 div 60 div 60 \<and>
    (r div 1000 div 60 mod 60 < r' div 1000 div 60 mod 60 \<or>
     r div 1000 div 60 mod 60 = r' div 1000 div 60 mod 60 \<and>
     (r div 1000 mod 60 < r' div 1000 mod 60 \<or>
      r div 1000 mod 60 = r' div 1000 mod 60 \<and> r mod 1000 < r' mod 1000))"
proof -
  have k: "(0::int) < 1000" "(0::int) < 60" by simp_all
  note d = div_mod_less [OF k(1) assms]
  consider "r div 1000 < r' div 1000" | "r div 1000 = r' div 1000" "r mod 1000 < r' mod 1000"
    using d by blast
  then show ?thesis
  proof cases
    case 1
    note e = div_mod_less [OF k(2) 1]
    then consider "r div 1000 div 60 < r' div 1000 div 60"
      | "r div 1000 div 60 = r' div 1000 div 60" "r div 1000 mod 60 < r' div 1000 mod 60"
      by blast
    then show ?thesis
    proof cases
      case 1
      from div_mod_less [OF k(2) 1] show ?thesis by blast
    next
      case 2
      then show ?thesis unfolding 2(1) by blast
    qed
  next
    case 2
    then show ?thesis unfolding 2(1) by blast
  qed
qed

lemma fmtTS_less:
  assumes "in_years t" and "in_years u" and "ms_of t < ms_of u"
  shows "fmtTS t < fmtTS u"
proof -
  let ?D = "ms_of t div 86400000" and ?E = "ms_of u div 86400000"
  obtain y m d where c: "civil (?D + epoch_days) = (y, m, d)" by (cases "civil (?D + epoch_days)")
  obtain y' m' d' where c': "civil (?E + epoch_days) = (y', m', d')"
    by (cases "civil (?E + epoch_days)")
  define r r' where "r = ms_of t mod 86400000" and "r' = ms_of u mod 86400000"
  have ds: "0 \<le> y" "y < 10 ^ 4" "0 \<le> m" "m < 10 ^ 2" "0 \<le> d" "d < 10 ^ 2"
    using in_years_civil [OF assms(1) c] civil_spec [OF c] by simp_all
  have ds': "0 \<le> y'" "y' < 10 ^ 4" "0 \<le> m'" "m' < 10 ^ 2" "0 \<le> d'" "d' < 10 ^ 2"
    using in_years_civil [OF assms(2) c'] civil_spec [OF c'] by simp_all
  note b = time_fields_bounds [OF r_def] and b' = time_fields_bounds [OF r'_def]
  have order: "?D < ?E \<or> ?D = ?E \<and> r < r'"
    unfolding r_def r'_def using div_mod_less [OF _ assms(3), of 86400000] by simp
  then have dates: "y < y' \<or> y = y' \<and> (m < m' \<or> m = m' \<and> (d < d' \<or> d = d' \<and> r < r'))"
  proof
    assume "?D < ?E"
    then have "?D + epoch_days < ?E + epoch_days" by simp
    from civil_mono [OF this c c'] show ?thesis by blast
  next
    assume "?D = ?E \<and> r < r'"
    with c c' show ?thesis by simp
  qed
  have times: "r < r' \<Longrightarrow> hms_string (r div 1000 div 60 div 60) (r div 1000 div 60 mod 60)
      (r div 1000 mod 60) (r mod 1000) < hms_string (r' div 1000 div 60 div 60)
      (r' div 1000 div 60 mod 60) (r' div 1000 mod 60) (r' mod 1000)"
    by (rule hms_string_less [OF time_fields_less b(2-9) b'(2-9)])
  have "date_string y m d (hms_string (r div 1000 div 60 div 60) (r div 1000 div 60 mod 60)
      (r div 1000 mod 60) (r mod 1000)) < date_string y' m' d'
      (hms_string (r' div 1000 div 60 div 60)
      (r' div 1000 div 60 mod 60) (r' div 1000 mod 60) (r' mod 1000))"
    using dates times by (intro date_string_less [OF _ ds ds']) blast
  then show ?thesis
    unfolding fmtTS_fields [OF assms(1) c r_def] fmtTS_fields [OF assms(2) c' r'_def] .
qed

text \<open>
  The order of two formatted instants as strings (Go's \<open><\<close> on strings and SQLite's
  binary collation) is the order of the instants at millisecond precision.
\<close>

theorem fmtTS_order:
  assumes "in_years t" and "in_years u"
  shows "(fmtTS t < fmtTS u \<longleftrightarrow> ms_of t < ms_of u) \<and> (fmtTS t = fmtTS u \<longleftrightarrow> ms_of t = ms_of u)"
proof (cases "ms_of t" "ms_of u" rule: linorder_cases)
  case less
  with fmtTS_less [OF assms] show ?thesis by auto
next
  case equal
  then have "fmtTS t = fmtTS u" unfolding fmtTS_def ms_of_def by simp
  with equal show ?thesis by simp
next
  case greater
  with fmtTS_less [OF assms(2,1)] show ?thesis by auto
qed

theorem fmtTS_order_witness:
  "fmtTS 1789712998123456789 < fmtTS 1789712998124000000 \<and> fmtTS 0 = fmtTS 999999"
proof -
  have "in_years 1789712998123456789" "in_years 1789712998124000000" "in_years 0" "in_years 999999"
    by (simp_all add: in_years_def)
  then show ?thesis
    using fmtTS_order [of 1789712998123456789 1789712998124000000] fmtTS_order [of 0 999999]
    by (simp add: ms_of_def)
qed

lemma length_fmtTS: "in_years t \<Longrightarrow> length (fmtTS t) = 24"
  by (cases "civil (ms_of t div 86400000 + epoch_days)")
    (simp add: fmtTS_fields [OF _ _ refl] date_string_def hms_string_def)

section \<open>Reading a formatted instant\<close>

lemma get_fixed_add:
  "get_fixed (v + w) a s = Option.bind (get_fixed v a s) (\<lambda>(b, r). get_fixed w b r)"
  by (induction v a s rule: get_fixed.induct) (auto split: option.split)

lemma get_fixed_pad_dec:
  "0 \<le> n \<Longrightarrow> n < 10 ^ w \<Longrightarrow> get_fixed w a (pad_dec w n @ s) = Some (a * 10 ^ w + n, s)"
proof (induction w arbitrary: n s)
  case 0
  then show ?case by simp
next
  case (Suc w)
  have "n div 10 < 10 ^ w" using Suc.prems by (simp add: div_less_iff_less_mult)
  moreover have "0 \<le> n div 10" using Suc.prems by (intro div_int_pos_iff [THEN iffD2]) simp
  ultimately have "get_fixed w a (pad_dec w (n div 10) @ digit_char (n mod 10) # s)
      = Some (a * 10 ^ w + n div 10, digit_char (n mod 10) # s)"
    by (rule Suc.IH [rotated])
  then have "get_fixed (w + 1) a (pad_dec (Suc w) n @ s) = Some (10 * (a * 10 ^ w + n div 10) + n mod 10, s)"
    by (simp only: get_fixed_add) (simp add: One_nat_def)
  moreover have "10 * (a * 10 ^ w + n div 10) + n mod 10 = a * 10 ^ Suc w + n"
    using mult_div_mod_eq [of 10 n] by (simp only: distrib_left power_Suc mult.assoc mult.left_commute add.assoc)
  ultimately show ?case by simp
qed

lemma get_frac_pad_dec:
  assumes "0 \<le> x" "x < 1000"
  shows "get_frac (CHR ''.'' # pad_dec 3 x @ ''Z'') = (x * 1000000, ''Z'')"
proof -
  have "pad_dec 3 x = [digit_char (x div 100 mod 10), digit_char (x div 10 mod 10), digit_char (x mod 10)]"
    by (simp add: numeral_3_eq_3 flip: zdiv_zmult2_eq)
  moreover have "digit_val CHR ''Z'' = None" by code_simp
  ultimately have sp: "span_digits (pad_dec 3 x @ ''Z'') = ([x div 100 mod 10, x div 10 mod 10, x mod 10], ''Z'')"
    by simp
  have nn: "nanos 9 [x div 100 mod 10, x div 10 mod 10, x mod 10]
      = (x div 100 mod 10 * 100 + x div 10 mod 10 * 10 + x mod 10) * 1000000"
    by (simp add: numeral_eq_Suc)
  have val: "x div 100 mod 10 * 100 + x div 10 mod 10 * 10 + x mod 10 = x"
  proof -
    have "x div 100 = x div 10 div 10" using zdiv_zmult2_eq [of 10 x 10] by simp
    moreover have "x div 100 \<le> 999 div 100" "0 \<le> x div 100"
      using assms by (auto intro: zdiv_mono1 div_int_pos_iff [THEN iffD2])
    then have "x div 100 mod 10 = x div 100" by (intro mod_pos_pos_trivial) simp_all
    moreover define a b c e where "a = x div 10" and "b = x mod 10" and "c = a div 10" and "e = a mod 10"
    moreover have "10 * a + b = x" "10 * c + e = a"
      unfolding a_def b_def c_def e_def by (simp_all only: mult_div_mod_eq)
    ultimately show ?thesis by (simp only:)
  qed
  show ?thesis
    unfolding get_frac_def list.case sp Let_def prod.case nn val by simp
qed

lemma lit_Cons [simp]: "lit c (c # s) = Some s"
  by (simp add: lit_def)

lemma parseTS_fields:
  assumes "0 \<le> y" "y < 10 ^ 4" "1 \<le> m" "m \<le> 12" "1 \<le> d" "d \<le> days_in y m" "d \<le> 31"
    and "0 \<le> h" "h < 24" "0 \<le> mi" "mi < 60" "0 \<le> s" "s < 60" "0 \<le> x" "x < 1000"
  shows "parseTS (date_string y m d (hms_string h mi s x)) =
    Some (((days_of_civil y m d - epoch_days) * 86400 + h * 3600 + mi * 60 + s) * 1000000000 + x * 1000000)"
proof -
  have f: "get_fixed 2 0 (pad_dec 2 i @ r) = Some (i, r)" if "0 \<le> i" "i < 100" for i r
    using get_fixed_pad_dec [of i 2 0 r] that by simp
  have g: "get_fixed 4 0 (pad_dec 4 y @ r) = Some (y, r)" for r
    using get_fixed_pad_dec [of y 4 0 r] assms by simp
  have z: "get_zone ''Z'' = Some (0, [])" by (simp add: get_zone_def)
  show ?thesis
    unfolding parseTS_def date_string_def hms_string_def append_Cons append_Nil
    using assms by (simp add: f g get_hour_def get_frac_pad_dec z)
qed

lemma time_recombine:
  fixes q :: int
  assumes "n = 86400000 * q + r" "r = 1000 * a + x" "a = 60 * e + s" "e = 60 * g + mi"
  shows "(q * 86400 + g * 3600 + mi * 60 + s) * 1000000000 + x * 1000000 = n * 1000000"
  using assms by simp

lemma parse_fmt:
  assumes "in_years t"
  shows "parseTS (fmtTS t) = Some (ms_of t * 1000000)"
proof -
  obtain y m d where c: "civil (ms_of t div 86400000 + epoch_days) = (y, m, d)"
    by (cases "civil (ms_of t div 86400000 + epoch_days)")
  define r where "r = ms_of t mod 86400000"
  note b = time_fields_bounds [OF r_def]
  have y: "0 \<le> y" "y < 10 ^ 4" using in_years_civil [OF assms c] by simp_all
  have v: "1 \<le> m" "m \<le> 12" "1 \<le> d" "d \<le> days_in y m" "d \<le> 31"
    "days_of_civil y m d - epoch_days = ms_of t div 86400000"
    using civil_spec [OF c] by auto
  define a e g where "a = r div 1000" and "e = a div 60" and "g = e div 60"
  have "ms_of t = 86400000 * (ms_of t div 86400000) + r" "r = 1000 * a + r mod 1000"
    "a = 60 * e + a mod 60" "e = 60 * g + e mod 60"
    by (simp_all only: r_def a_def e_def g_def mult_div_mod_eq)
  then have "((ms_of t div 86400000) * 86400 + g * 3600 + e mod 60 * 60 + a mod 60) * 1000000000
      + r mod 1000 * 1000000 = ms_of t * 1000000"
    by (rule time_recombine)
  then show ?thesis
    unfolding fmtTS_fields [OF assms c r_def] parseTS_fields [OF y v(1-5) b(2-9)] v(6)
    by (simp only: a_def e_def g_def)
qed

text \<open>
  C27: reading back a formatted instant gives the instant at millisecond precision.
\<close>

theorem parseTS_fmtTS:
  assumes "in_years t"
  shows "parseTS (fmtTS t) = Some (ms_of t * 1000000)"
  by (rule parse_fmt [OF assms])

theorem parseTS_fmtTS_witness:
  "parseTS (fmtTS 1789712998123456789) = Some 1789712998123000000"
proof -
  have "in_years 1789712998123456789" by (simp add: in_years_def)
  from parseTS_fmtTS [OF this] show ?thesis by (simp add: ms_of_def)
qed

end
