(* ===== verification/Util.thy ===== *)
theory Util
  imports Timestamps
begin

text \<open>
  Small functions of \<^verbatim>\<open>hub/util.go\<close> and \<^verbatim>\<open>hub/auth.go\<close> that the other
  components call: severities, shell quoting, decimal output, the character classes of
  the identifiers the API accepts, and the \<^verbatim>\<open>fmt\<close> verbs the program uses.
\<close>

section \<open>Severity\<close>

definition sevRank :: "string \<Rightarrow> int" where
  "sevRank s =
     (if s = ''critical'' then 3 else if s = ''warning'' then 2 else if s = ''info'' then 1 else 0)"

definition maxSev :: "string \<Rightarrow> string \<Rightarrow> string" where
  "maxSev a b = (if sevRank b > sevRank a then b else a)"

lemma sevRank_maxSev [simp]: "sevRank (maxSev a b) = max (sevRank a) (sevRank b)"
  by (simp add: maxSev_def max_def)

lemma maxSev_cases: "maxSev a b = a \<or> maxSev a b = b"
  by (simp add: maxSev_def)

section \<open>Shell quoting\<close>

text \<open>\<^verbatim>\<open>strings.ReplaceAll(s, "'", "'\\''")\<close> between two quotes.\<close>

definition quote_char :: "char \<Rightarrow> string" where
  "quote_char c = (if c = CHR 0x27 then [CHR 0x27, CHR 0x5C, CHR 0x27, CHR 0x27] else [c])"

definition shellQuote :: "string \<Rightarrow> string" where
  "shellQuote s = [CHR 0x27] @ concat (map quote_char s) @ [CHR 0x27]"

text \<open>
  How a POSIX shell reads one word made of single-quoted parts and backslash escapes:
  inside quotes every character stands for itself up to the next quote, outside a
  backslash takes the next character literally.  A blank, an operator, an expansion
  character or the end of input inside quotes is not a plain word.
\<close>

fun sh_word :: "bool \<Rightarrow> string \<Rightarrow> string option" where
  "sh_word True [] = None"
| "sh_word False [] = Some []"
| "sh_word True (c # s) =
     (if c = CHR 0x27 then sh_word False s else map_option ((#) c) (sh_word True s))"
| "sh_word False (c # s) =
     (if c = CHR 0x27 then sh_word True s
      else if c = CHR 0x5C then (case s of [] \<Rightarrow> None | d # r \<Rightarrow> map_option ((#) d) (sh_word False r))
      else None)"

lemma sh_word_quote_char:
  "sh_word True (quote_char c @ r) = map_option ((#) c) (sh_word True r)"
  by (simp add: quote_char_def)

lemma sh_word_concat:
  "sh_word True (concat (map quote_char s) @ [CHR 0x27]) = Some s"
  by (induction s) (simp_all add: sh_word_quote_char)

text \<open>
  A shell reads the quoted text as exactly one word with the original contents,
  whatever characters it holds.
\<close>

theorem shellQuote_roundtrip: "sh_word False (shellQuote s) = Some s"
  by (simp add: shellQuote_def sh_word_concat)

section \<open>Decimal output\<close>

text \<open>\<open>itoa\<close> of \<^verbatim>\<open>hub/auth.go\<close>: digits written backwards into a buffer.\<close>

function itoa_loop :: "int \<Rightarrow> string \<Rightarrow> string" where
  "itoa_loop n b = (if 0 < n then itoa_loop (n div 10) (digit_char (n mod 10) # b) else b)"
  by pat_completeness auto
termination
  by (relation "measure (\<lambda>(n, b). nat n)") auto

declare itoa_loop.simps [simp del]

definition itoa :: "int \<Rightarrow> string" where
  "itoa n = (if n \<le> 0 then ''1'' else itoa_loop n [])"

lemma itoa_loop_dec: "0 < n \<Longrightarrow> itoa_loop n b = dec_int n @ b"
proof (induction n b rule: itoa_loop.induct)
  case (1 n b)
  show ?case
  proof (cases "n < 10")
    case True
    with "1.prems" have "n div 10 = 0" "n mod 10 = n" by simp_all
    with True "1.prems" show ?thesis
      by (simp add: itoa_loop.simps [of n] itoa_loop.simps [of 0] dec_int.simps [of n])
  next
    case False
    then have "0 < n div 10" by (simp add: pos_imp_zdiv_pos_iff)
    with "1.IH" "1.prems"
    have "itoa_loop (n div 10) (digit_char (n mod 10) # b) = dec_int (n div 10) @ digit_char (n mod 10) # b"
      by simp
    with False "1.prems" show ?thesis
      by (simp add: itoa_loop.simps [of n] dec_int.simps [of n])
  qed
qed

text \<open>
  \<open>itoa\<close> prints every positive number in decimal, and prints 0 (an empty body's
  length) as 1.
\<close>

theorem itoa_decimal: "(0 < n \<longrightarrow> dec_value 0 (itoa n) = Some n) \<and> itoa 0 = ''1''"
  by (simp add: itoa_def itoa_loop_dec dec_value_dec_int)

theorem itoa_decimal_witness: "itoa 300 = ''300'' \<and> dec_value 0 (itoa 300) = Some 300"
proof
  show "itoa 300 = ''300''" by code_simp
  show "dec_value 0 (itoa 300) = Some 300" using itoa_decimal [of 300] by simp
qed

text \<open>
  \<^verbatim>\<open>%.<p>f\<close> of a finite float: the exact value rounded to \<open>p\<close> decimals, ties to
  even.  A float is represented by the rational number it denotes.
\<close>

definition round_even :: "rat \<Rightarrow> int" where
  "round_even v =
     (let f = \<lfloor>v\<rfloor>; r = v - of_int f
      in if r < 1 / 2 then f else if r > 1 / 2 then f + 1 else if even f then f else f + 1)"

definition fmt_f :: "nat \<Rightarrow> rat \<Rightarrow> string" where
  "fmt_f p v =
     (let n = round_even (\<bar>v\<bar> * 10 ^ p)
      in (if v < 0 then ''-'' else []) @ dec_int (n div 10 ^ p) @
         (if p = 0 then [] else ''.'' @ pad_dec p (n mod 10 ^ p)))"

section \<open>Identifiers\<close>

definition is_alnum :: "char \<Rightarrow> bool" where
  "is_alnum c \<longleftrightarrow>
     (let n = (of_char c :: nat)
      in 48 \<le> n \<and> n \<le> 57 \<or> 65 \<le> n \<and> n \<le> 90 \<or> 97 \<le> n \<and> n \<le> 122)"

text \<open>\<^verbatim>\<open>^[A-Za-z0-9._:-]{1,max}$\<close>: \<open>eventIDRe\<close>, \<open>fbRequestIDRe\<close> (128) and \<open>ruleIDRe\<close> (64).\<close>

definition id_matches :: "nat \<Rightarrow> string \<Rightarrow> bool" where
  "id_matches mx s \<longleftrightarrow>
     1 \<le> length s \<and> length s \<le> mx \<and>
     list_all (\<lambda>c. is_alnum c \<or> c \<in> set ''._:-'') s"

text \<open>
  \<^verbatim>\<open>utf8.RuneCountInString\<close> on valid UTF-8 (all strings here come out of
  \<^verbatim>\<open>encoding/json\<close>, which delivers valid UTF-8): the bytes that do not continue a rune.
\<close>

definition rune_count :: "string \<Rightarrow> nat" where
  "rune_count s = length (filter (\<lambda>c. \<not> (128 \<le> (of_char c :: nat) \<and> (of_char c :: nat) < 192)) s)"

lemma rune_count_le: "rune_count s \<le> length s"
  by (simp add: rune_count_def)

text \<open>The escapes of \<^verbatim>\<open>net/url\<close>: \<^verbatim>\<open>PathEscape\<close> for one segment of a path.\<close>

definition hex_char :: "nat \<Rightarrow> char" where
  "hex_char n = (if n < 10 then char_of (48 + n) else char_of (55 + n))"

definition path_escape :: "string \<Rightarrow> string" where
  "path_escape s = concat (map (\<lambda>c.
     if is_alnum c \<or> c \<in> set ''-_.~$&+:=@'' then [c]
     else let n = (of_char c :: nat) in [CHR ''%'', hex_char (n div 16), hex_char (n mod 16)]) s)"

text \<open>\<^verbatim>\<open>strconv.ParseInt(s, 10, 64)\<close> and, on 64-bit platforms, \<^verbatim>\<open>strconv.Atoi\<close>.\<close>

definition parse_int64 :: "string \<Rightarrow> int option" where
  "parse_int64 s =
     (let neg = (s \<noteq> [] \<and> hd s = CHR ''-''); ds = (if s \<noteq> [] \<and> hd s \<in> set ''+-'' then tl s else s) in
      if ds = [] then None
      else case dec_value 0 ds of
        None \<Rightarrow> None
      | Some n \<Rightarrow> if neg then (if n \<le> 2 ^ 63 then Some (- n) else None)
                  else if n < 2 ^ 63 then Some n else None)"

lemma dec_int_head: "0 \<le> n \<Longrightarrow> dec_int n \<noteq> [] \<and> hd (dec_int n) \<notin> set ''+-''"
proof (induction n rule: dec_int.induct)
  case (1 n)
  have d: "digit_char k \<notin> set ''+-''" if "0 \<le> k" "k \<le> 9" for k
    using digit_val_char [OF that] by (auto simp: digit_val_def)
  show ?case
  proof (cases "n < 10")
    case True
    with 1 d [of n] show ?thesis by (simp add: dec_int.simps [of n])
  next
    case False
    with 1 show ?thesis by (simp add: dec_int.simps [of n] hd_append)
  qed
qed

lemma parse_int64_dec: "0 \<le> n \<Longrightarrow> n < 2 ^ 63 \<Longrightarrow> parse_int64 (dec_int n) = Some n"
  using dec_int_head [of n] by (auto simp: parse_int64_def dec_value_dec_int)

section \<open>Environment variables with defaults\<close>

text \<open>
  The contract of a lookup of an environment variable: a variable that is set wins, the default
  is used where it is unset or empty.  The agent and the hub each have their own lookup.
\<close>

locale env_lookup =
  fixes look :: "(string \<Rightarrow> string) \<Rightarrow> string \<Rightarrow> string \<Rightarrow> string"
  assumes look_set: "env k \<noteq> [] \<Longrightarrow> look env k d = env k"
    and look_unset: "env k = [] \<Longrightarrow> look env k d = d"
begin

lemma look_nonempty: "d \<noteq> [] \<Longrightarrow> look env k d \<noteq> []"
  using look_set [of env k d] look_unset [of env k d] by (cases "env k = []") auto

lemma look_agree: "(env k = [] \<longrightarrow> a = b) \<Longrightarrow> look env k (f a) = look env k (f b)"
  using look_set [of env k] look_unset [of env k] by (cases "env k = []") auto

end

end
