(* ===== verification/HubTypes.thy ===== *)
theory HubTypes
  imports Util
begin

text \<open>
  The hub's data (\<^verbatim>\<open>hub/types.go\<close>) and its database (\<^verbatim>\<open>hub/db.go\<close>).

  Each struct is a record with the source's field names, prefixed by the struct.
  \<^verbatim>\<open>sql.NullString\<close>, \<^verbatim>\<open>sql.NullInt64\<close> and pointer fields are options.  A
  finite \<^verbatim>\<open>float64\<close> is the rational number it denotes.  Columns that hold JSON
  text hold the object itself: \<^verbatim>\<open>encoding/json\<close> writes and reads back these structs
  without loss.  A table is the list of its rows in rowid order.
\<close>

section \<open>Payloads of the sources\<close>

record agentInfo =
  ai_Version :: string
  ai_OS :: string
  ai_Arch :: string
  ai_Hostname :: string

record diskPayload =
  dk_Mount :: string
  dk_Percent :: "rat option"
  dk_UsedBytes :: "int option"
  dk_TotalBytes :: "int option"
  dk_FSType :: string

record netPayload =
  np_RxBps :: "rat option"
  np_TxBps :: "rat option"

record containerPayload =
  ct_Name :: string
  ct_State :: string
  ct_ExitCode :: "int option"
  ct_StartedAt :: "string option"
  ct_RestartCount :: "int option"

record nasDiskPayload =
  nd_Dev :: string
  nd_Smart :: string
  nd_TempC :: "rat option"

record nasPoolPayload =
  npl_Name :: string
  npl_State :: string

record nasPayload =
  nas_Disks :: "nasDiskPayload list"
  nas_Pools :: "nasPoolPayload list"

text \<open>\<open>sp_Containers = None\<close> is the nil slice: this sample did not list containers.\<close>

record samplePayload =
  sp_TS :: string
  sp_CPUPercent :: "rat option"
  sp_MemPercent :: "rat option"
  sp_MemUsedBytes :: "int option"
  sp_MemTotalBytes :: "int option"
  sp_Load1 :: "rat option"
  sp_UptimeSeconds :: "int option"
  sp_BootTime :: "string option"
  sp_Disks :: "diskPayload list"
  sp_Net :: "netPayload option"
  sp_Containers :: "containerPayload list option"
  sp_NAS :: "nasPayload option"

record ingestMetricsReq =
  mr_Seq :: int
  mr_SentAt :: string
  mr_Agent :: "agentInfo option"
  mr_Capabilities :: "(string \<times> string) list option"
  mr_Sample :: "samplePayload option"

record attachmentDesc =
  at_ID :: string
  at_Kind :: string
  at_Filename :: string
  at_Mime :: string
  at_ByteSize :: int
  at_SHA256 :: string

text \<open>\<open>ev_Ref\<close> is the raw JSON text of the field, empty when it is absent.\<close>

record eventPayload =
  ev_EventID :: string
  ev_Seq :: int
  ev_Kind :: string
  ev_OccurredAt :: string
  ev_Severity :: string
  ev_FaultKey :: "string option"
  ev_IncidentAction :: "string option"
  ev_Title :: string
  ev_Body :: "string option"
  ev_Ref :: string
  ev_Attachments :: "attachmentDesc list"

record ingestEventsReq =
  er_SentAt :: string
  er_Events :: "eventPayload list"

section \<open>Rules and settings\<close>

record rule =
  r_ID :: string
  r_Kind :: string
  r_Metric :: string
  r_Label :: "string option"
  r_Op :: string
  r_Value :: "rat option"
  r_ForSeconds :: int
  r_RecoverValue :: "rat option"
  r_RecoverForSeconds :: int
  r_Match :: "string option"
  r_Severity :: string
  r_Enabled :: bool

record rulesDoc =
  rd_Version :: int
  rd_HeartbeatSeconds :: int
  rd_Rules :: "rule list"

record dndConfig =
  dnd_Enabled :: bool
  dnd_Start :: string
  dnd_End :: string
  dnd_Timezone :: string

record settingsDoc =
  sd_Version :: int
  sd_DND :: dndConfig
  sd_ReportIntervalSeconds :: int

section \<open>Rows\<close>

text \<open>The summary object \<open>buildSummary\<close> writes.\<close>

record summary =
  sm_ts :: string
  sm_cpuPercent :: "rat option"
  sm_memPercent :: "rat option"
  sm_disks :: "(string \<times> rat) list"
  sm_uptimeSeconds :: "int option"

record sourceRow =
  s_ID :: string
  s_Name :: string
  s_Kind :: string
  s_Enabled :: bool
  s_KeyHash :: string
  s_KeyPlain :: string
  s_KeyHint :: string
  s_MgmtKeyPlain :: string
  s_MgmtKeyHint :: string
  s_AttachmentBaseURL :: "string option"
  s_AgentVersion :: "string option"
  s_AgentOS :: "string option"
  s_AgentArch :: "string option"
  s_Hostname :: "string option"
  s_Capabilities :: "(string \<times> string) list option"
  s_LastSeenAt :: "string option"
  s_LastMetricsSeq :: int
  s_LastEventSeq :: int
  s_LastBootTime :: "string option"
  s_LastSummary :: "summary option"
  s_PrevSample :: "samplePayload option"
  s_DeletedAt :: "string option"
  s_CreatedAt :: string
  s_UpdatedAt :: string

record messageRow =
  m_ID :: string
  m_SourceID :: string
  m_Kind :: string
  m_Severity :: string
  m_Title :: string
  m_Body :: "string option"
  m_OccurredAt :: string
  m_ReceivedAt :: string
  m_ReadAt :: "string option"
  m_FaultID :: "string option"
  m_Incident :: "int option"
  m_Ref :: "string option"
  m_Attachments :: "attachmentDesc list"
  m_EventID :: string
  m_EventSeq :: int
  m_FaultKey :: "string option"
  m_OutOfOrder :: bool
  m_ChangeSeq :: int

record faultRow =
  f_ID :: string
  f_SourceID :: string
  f_FaultKey :: string
  f_Severity :: string
  f_Title :: string
  f_Summary :: "string option"
  f_State :: string
  f_Incident :: int
  f_OpenedAt :: string
  f_OpenedBySeq :: int
  f_LastEventAt :: string
  f_ResolvedAt :: "string option"
  f_ResolvedBySeq :: "int option"
  f_ResolvedBy :: "string option"
  f_EventCount :: int
  f_ReadAt :: "string option"
  f_MutedAt :: "string option"
  f_MutedUntil :: "string option"
  f_ChangeSeq :: int

record eventRow =
  e_source_id :: string
  e_event_id :: string
  e_seq :: int
  e_kind :: string
  e_occurred_at :: string
  e_severity :: string
  e_fault_key :: "string option"
  e_incident_action :: "string option"
  e_title :: string
  e_body :: "string option"
  e_ref :: "string option"
  e_attachments :: "attachmentDesc list"
  e_out_of_order :: bool
  e_internal :: bool
  e_received_at :: string

record pendingRow =
  p_source_id :: string
  p_fault_key :: string
  p_seq :: int
  p_occurred_at :: string
  p_title :: string
  p_event_id :: string

record sampleRow =
  ms_source_id :: string
  ms_ts :: string
  ms_received_at :: string
  ms_sample :: samplePayload

record rawRow =
  mw_source_id :: string
  mw_ts :: string
  mw_metric :: string
  mw_label :: string
  mw_value :: rat

record rollRow =
  rr_source_id :: string
  rr_bucket :: string
  rr_metric :: string
  rr_label :: string
  rr_avg :: rat
  rr_min :: rat
  rr_max :: rat
  rr_n :: int

record sessionRow =
  ss_id :: string
  ss_token_hash :: string
  ss_refresh_hash :: string
  ss_username :: string
  ss_device_label :: "string option"
  ss_created_at :: string
  ss_expires_at :: string
  ss_refresh_expires_at :: string
  ss_revoked :: bool

section \<open>Objects of the client API\<close>

record notifyBlock =
  nb_Kind :: string
  nb_FaultID :: "string option"
  nb_Muted :: bool

record messageJSON =
  mj_ID :: string
  mj_ChangeSeq :: int
  mj_SourceID :: string
  mj_SourceName :: string
  mj_Kind :: string
  mj_Severity :: string
  mj_Title :: string
  mj_Body :: "string option"
  mj_OccurredAt :: string
  mj_ReceivedAt :: string
  mj_ReadAt :: "string option"
  mj_FaultID :: "string option"
  mj_Incident :: "int option"
  mj_Ref :: "string option"
  mj_Attachments :: "attachmentDesc list"

record faultJSON =
  fj_ID :: string
  fj_ChangeSeq :: int
  fj_SourceID :: string
  fj_SourceName :: string
  fj_FaultKey :: string
  fj_Severity :: string
  fj_Title :: string
  fj_Summary :: "string option"
  fj_State :: string
  fj_Incident :: int
  fj_OpenedAt :: string
  fj_LastEventAt :: string
  fj_ResolvedAt :: "string option"
  fj_ResolvedBy :: "string option"
  fj_EventCount :: int
  fj_ReadAt :: "string option"
  fj_MutedAt :: "string option"
  fj_MutedUntil :: "string option"

record sourceJSON =
  sj_ID :: string
  sj_Name :: string
  sj_Kind :: string
  sj_Enabled :: bool
  sj_Status :: string
  sj_LastSeenAt :: "string option"
  sj_KeyHint :: string
  sj_MgmtKeyHint :: "string option"
  sj_AttachmentBaseURL :: "string option"
  sj_AgentVersion :: "string option"
  sj_Hostname :: "string option"
  sj_Capabilities :: "(string \<times> string) list"
  sj_Summary :: "summary option"
  sj_CreatedAt :: string
  sj_UpdatedAt :: string

text \<open>What the \<^verbatim>\<open>data_json\<close> column of a change holds.\<close>

datatype changeData =
    DMessage messageJSON
  | DFault faultJSON
  | DSource sourceJSON
  | DRules rulesDoc
  | DSettings settingsDoc
  | DTombstone string string

record changeEntry =
  c_Seq :: int
  c_Type :: string
  c_Data :: changeData
  c_Notify :: "notifyBlock option"

record changeRow =
  cr_seq :: int
  cr_type :: string
  cr_ref_id :: string
  cr_data :: changeData
  cr_notify :: "notifyBlock option"
  cr_created_at :: string

section \<open>The database, the process and its environment\<close>

record hub_db =
  d_meta :: "string \<Rightarrow> int option"
  d_sources :: "sourceRow list"
  d_samples :: "sampleRow list"
  d_raw :: "rawRow list"
  d_5m :: "rollRow list"
  d_events :: "eventRow list"
  d_messages :: "messageRow list"
  d_faults :: "faultRow list"
  d_pending :: "pendingRow list"
  d_changes :: "changeRow list"
  d_sessions :: "sessionRow list"
  d_rules :: "rulesDoc option"
  d_settings :: "settingsDoc option"

text \<open>A timer of the rule engine and its key (source, rule, label selector).\<close>

record ruleState =
  st_breach :: bool
  st_breachSince :: time
  st_recovering :: bool
  st_recoverSince :: time

type_synonym ruleKey = "string \<times> string \<times> string"

text \<open>
  What the code obtains from outside: the \<open>k\<close>-th identifier \<^verbatim>\<open>ulid.Make().String()\<close>
  of package \<^verbatim>\<open>oklog/ulid\<close>, the \<open>k\<close>-th reading of the clock, and the order
  \<^verbatim>\<open>sort.Slice\<close> gives a batch of indexed events.  That function is documented to sort
  by the given key and not to be stable, so the order of equal keys is left open.
\<close>

record env =
  env_ulid :: "nat \<Rightarrow> string"
  env_clock :: "nat \<Rightarrow> time"
  env_sort :: "(nat \<times> eventPayload) list \<Rightarrow> (nat \<times> eventPayload) list"

text \<open>
  The running hub: the database, the rule engine's timers (in memory, outside
  every transaction), how many clock readings and identifiers were used, and the changes
  handed to \<^verbatim>\<open>publish\<close> so far.  Inside a transaction the last part of \<open>h_out\<close> is the
  slice \<^verbatim>\<open>changes\<close> the handler fills; it publishes it after the commit and drops it on an
  error.
\<close>

record hub =
  h_db :: hub_db
  h_timers :: "ruleKey \<Rightarrow> ruleState option"
  h_clk :: nat
  h_ids :: nat
  h_out :: "changeEntry list"

text \<open>Errors a transaction can end with.\<close>

datatype txerr =
    ErrNoRows
  | ErrConstraint string
  | ErrUnknownAction string
  | ErrInvalid
  | ErrConflict int

type_synonym 'a htx = "(hub, txerr, 'a) tx"

definition mod_db :: "(hub_db \<Rightarrow> hub_db) \<Rightarrow> unit htx" where
  "mod_db f = modT (\<lambda>s. s\<lparr>h_db := f (h_db s)\<rparr>)"

definition get_db :: "(hub_db \<Rightarrow> 'a) \<Rightarrow> 'a htx" where
  "get_db f = getT (\<lambda>s. f (h_db s))"

definition nowUTC :: "env \<Rightarrow> time htx" where
  "nowUTC E = bindT (getT (\<lambda>s. env_clock E (h_clk s)))
     (\<lambda>t. thenT (modT (\<lambda>s. s\<lparr>h_clk := Suc (h_clk s)\<rparr>)) (retT t))"

definition newID :: "env \<Rightarrow> string \<Rightarrow> string htx" where
  "newID E prefix = bindT (getT (\<lambda>s. env_ulid E (h_ids s)))
     (\<lambda>u. thenT (modT (\<lambda>s. s\<lparr>h_ids := Suc (h_ids s)\<rparr>)) (retT (prefix @ u)))"

lemma mod_db_run [simp, tx_simps]: "mod_db f s = (Inr (), s\<lparr>h_db := f (h_db s)\<rparr>)"
  by (simp add: mod_db_def)

lemma get_db_run [simp, tx_simps]: "get_db f s = (Inr (f (h_db s)), s)"
  by (simp add: get_db_def)

lemma nowUTC_run [simp, tx_simps]:
  "nowUTC E s = (Inr (env_clock E (h_clk s)), s\<lparr>h_clk := Suc (h_clk s)\<rparr>)"
  by (simp add: nowUTC_def bindT_def thenT_def)

lemma newID_run [simp, tx_simps]:
  "newID E p s = (Inr (p @ env_ulid E (h_ids s)), s\<lparr>h_ids := Suc (h_ids s)\<rparr>)"
  by (simp add: newID_def bindT_def thenT_def)

end
