(* ===== verification/Store.thy ===== *)
theory Store
  imports HubTypes
begin

text \<open>
  The store (\<^verbatim>\<open>hub/store.go\<close>): the change log with its counter, the objects the
  client API delivers, row lookups, the rules and settings documents, and the write
  transaction.  The change log is what \<^verbatim>\<open>/api/v1/sync\<close> and the SSE stream read; its
  laws are the relation \<open>logged\<close>.
\<close>

section \<open>The change log\<close>

definition nextChangeSeq :: "int htx" where
  "nextChangeSeq =
     bindT (get_db (\<lambda>d. case d_meta d ''change_seq'' of None \<Rightarrow> 1 | Some v \<Rightarrow> v + 1))
       (\<lambda>q. thenT (mod_db (\<lambda>d. d\<lparr>d_meta := (d_meta d)(''change_seq'' \<mapsto> q)\<rparr>)) (retT q))"

text \<open>\<^verbatim>\<open>INSERT INTO changes\<close>: \<^verbatim>\<open>seq\<close> is the primary key.\<close>

definition insert_change_row :: "changeRow \<Rightarrow> unit htx" where
  "insert_change_row r =
     bindT (get_db d_changes) (\<lambda>cs.
       if cr_seq r \<in> cr_seq ` set cs then failT (ErrConstraint ''changes'')
       else mod_db (\<lambda>d. d\<lparr>d_changes := cs @ [r]\<rparr>))"

text \<open>
  \<open>insertChangeObj\<close>: take a number, let the object have it, write the row.  \<open>mk\<close>
  is the object as a function of the number (the callback \<^verbatim>\<open>setSeq\<close>).
\<close>

definition insertChangeObj ::
  "env \<Rightarrow> string \<Rightarrow> string \<Rightarrow> (int \<Rightarrow> changeData) \<Rightarrow> notifyBlock option \<Rightarrow> changeEntry htx" where
  "insertChangeObj E typ refID mk notify =
     bindT nextChangeSeq (\<lambda>q.
     bindT (nowUTC E) (\<lambda>now.
     thenT (insert_change_row \<lparr>cr_seq = q, cr_type = typ, cr_ref_id = refID, cr_data = mk q,
              cr_notify = notify, cr_created_at = fmtTS now\<rparr>)
       (retT \<lparr>c_Seq = q, c_Type = typ, c_Data = mk q, c_Notify = notify\<rparr>)))"

definition insertChange ::
  "env \<Rightarrow> string \<Rightarrow> string \<Rightarrow> changeData \<Rightarrow> notifyBlock option \<Rightarrow> changeEntry htx" where
  "insertChange E typ refID data notify = insertChangeObj E typ refID (\<lambda>_. data) notify"

text \<open>\<^verbatim>\<open>*changes = append(*changes, entry)\<close>.\<close>

definition push_change :: "changeEntry \<Rightarrow> unit htx" where
  "push_change e = modT (\<lambda>s. s\<lparr>h_out := h_out s @ [e]\<rparr>)"

definition emitChangeTx ::
  "env \<Rightarrow> string \<Rightarrow> string \<Rightarrow> (int \<Rightarrow> changeData) \<Rightarrow> notifyBlock option \<Rightarrow> int htx" where
  "emitChangeTx E typ refID mk notify =
     bindT (insertChangeObj E typ refID mk notify) (\<lambda>e. thenT (push_change e) (retT (c_Seq e)))"

definition insertTombstone :: "env \<Rightarrow> string \<Rightarrow> string \<Rightarrow> changeEntry htx" where
  "insertTombstone E typ i = insertChange E ''tombstone'' i (DTombstone typ i) None"

section \<open>Objects\<close>

definition toMessageJSON :: "messageRow \<Rightarrow> string \<Rightarrow> messageJSON" where
  "toMessageJSON m name =
     \<lparr>mj_ID = m_ID m, mj_ChangeSeq = m_ChangeSeq m, mj_SourceID = m_SourceID m,
      mj_SourceName = name, mj_Kind = m_Kind m, mj_Severity = m_Severity m,
      mj_Title = m_Title m, mj_Body = m_Body m, mj_OccurredAt = m_OccurredAt m,
      mj_ReceivedAt = m_ReceivedAt m, mj_ReadAt = m_ReadAt m, mj_FaultID = m_FaultID m,
      mj_Incident = m_Incident m,
      mj_Ref = (case m_Ref m of None \<Rightarrow> None | Some r \<Rightarrow> if r = [] then None else Some r),
      mj_Attachments = m_Attachments m\<rparr>"

definition toFaultJSON :: "faultRow \<Rightarrow> string \<Rightarrow> faultJSON" where
  "toFaultJSON f name =
     \<lparr>fj_ID = f_ID f, fj_ChangeSeq = f_ChangeSeq f, fj_SourceID = f_SourceID f,
      fj_SourceName = name, fj_FaultKey = f_FaultKey f, fj_Severity = f_Severity f,
      fj_Title = f_Title f, fj_Summary = f_Summary f, fj_State = f_State f,
      fj_Incident = f_Incident f, fj_OpenedAt = f_OpenedAt f, fj_LastEventAt = f_LastEventAt f,
      fj_ResolvedAt = f_ResolvedAt f, fj_ResolvedBy = f_ResolvedBy f,
      fj_EventCount = f_EventCount f, fj_ReadAt = f_ReadAt f, fj_MutedAt = f_MutedAt f,
      fj_MutedUntil = f_MutedUntil f\<rparr>"

definition source_status :: "time \<Rightarrow> sourceRow \<Rightarrow> int \<Rightarrow> string" where
  "source_status now s hb =
     (if s_Enabled s \<and> s_Kind s = ''feedback'' then ''online''
      else if s_Enabled s \<and> s_Kind s = ''device'' then
        (case Option.bind (s_LastSeenAt s) parseTS of
           None \<Rightarrow> ''offline''
         | Some t \<Rightarrow> if time_sub now t \<le> seconds hb then ''online'' else ''offline'')
      else ''offline'')"

definition toSourceJSON :: "time \<Rightarrow> sourceRow \<Rightarrow> int \<Rightarrow> sourceJSON" where
  "toSourceJSON now s hb =
     \<lparr>sj_ID = s_ID s, sj_Name = s_Name s, sj_Kind = s_Kind s, sj_Enabled = s_Enabled s,
      sj_Status = source_status now s hb, sj_LastSeenAt = s_LastSeenAt s,
      sj_KeyHint = s_KeyHint s,
      sj_MgmtKeyHint = (if s_MgmtKeyHint s = [] then None else Some (s_MgmtKeyHint s)),
      sj_AttachmentBaseURL = s_AttachmentBaseURL s, sj_AgentVersion = s_AgentVersion s,
      sj_Hostname = s_Hostname s,
      sj_Capabilities = (case s_Capabilities s of None \<Rightarrow> [] | Some c \<Rightarrow> c),
      sj_Summary = s_LastSummary s, sj_CreatedAt = s_CreatedAt s, sj_UpdatedAt = s_UpdatedAt s\<rparr>"

section \<open>Rows\<close>

definition rowT :: "(hub_db \<Rightarrow> 'r option) \<Rightarrow> 'r htx" where
  "rowT q = bindT (get_db q) (\<lambda>r. case r of None \<Rightarrow> failT ErrNoRows | Some x \<Rightarrow> retT x)"

definition loadSourceTx :: "string \<Rightarrow> sourceRow htx" where
  "loadSourceTx i = rowT (\<lambda>d. find (\<lambda>r. s_ID r = i) (d_sources d))"

definition loadSourceByKeyHash :: "hub_db \<Rightarrow> string \<Rightarrow> sourceRow option" where
  "loadSourceByKeyHash d h = find (\<lambda>r. s_KeyHash r = h \<and> s_DeletedAt r = None) (d_sources d)"

text \<open>\<^verbatim>\<open>WHERE deleted_at IS NULL ORDER BY created_at, id\<close>.\<close>

definition listSources :: "hub_db \<Rightarrow> sourceRow list" where
  "listSources d = sort_key s_CreatedAt (sort_key s_ID (filter (\<lambda>r. s_DeletedAt r = None) (d_sources d)))"

definition loadMessageTx :: "string \<Rightarrow> messageRow htx" where
  "loadMessageTx i = rowT (\<lambda>d. find (\<lambda>r. m_ID r = i) (d_messages d))"

definition loadFaultByID :: "string \<Rightarrow> faultRow htx" where
  "loadFaultByID i = rowT (\<lambda>d. find (\<lambda>r. f_ID r = i) (d_faults d))"

definition loadFaultTx :: "hub_db \<Rightarrow> string \<Rightarrow> string \<Rightarrow> faultRow option" where
  "loadFaultTx d src key = find (\<lambda>r. f_SourceID r = src \<and> f_FaultKey r = key) (d_faults d)"

text \<open>\<open>sourceName\<close>: deleted sources included, empty when there is none.\<close>

definition sourceName :: "hub_db \<Rightarrow> string \<Rightarrow> string" where
  "sourceName d i = (case find (\<lambda>r. s_ID r = i) (d_sources d) of None \<Rightarrow> [] | Some r \<Rightarrow> s_Name r)"

section \<open>Rules and settings\<close>

definition blank_rule :: rule where
  "blank_rule = \<lparr>r_ID = [], r_Kind = [], r_Metric = [], r_Label = None, r_Op = [], r_Value = None,
     r_ForSeconds = 0, r_RecoverValue = None, r_RecoverForSeconds = 0, r_Match = None,
     r_Severity = [], r_Enabled = False\<rparr>"

definition defaultRules :: "rule list" where
  "defaultRules =
    [blank_rule\<lparr>r_ID := ''cpu_high'', r_Kind := ''threshold'', r_Metric := ''cpu_percent'',
       r_Op := ''gt'', r_Value := Some 90, r_ForSeconds := 180, r_RecoverValue := Some 75,
       r_RecoverForSeconds := 60, r_Severity := ''warning'', r_Enabled := True\<rparr>,
     blank_rule\<lparr>r_ID := ''mem_high'', r_Kind := ''threshold'', r_Metric := ''mem_percent'',
       r_Op := ''gt'', r_Value := Some 90, r_ForSeconds := 180, r_RecoverValue := Some 80,
       r_RecoverForSeconds := 60, r_Severity := ''warning'', r_Enabled := True\<rparr>,
     blank_rule\<lparr>r_ID := ''disk_high'', r_Kind := ''threshold'', r_Metric := ''disk_percent'',
       r_Label := Some ''*'', r_Op := ''gt'', r_Value := Some 90, r_ForSeconds := 60,
       r_RecoverValue := Some 85, r_RecoverForSeconds := 60, r_Severity := ''warning'',
       r_Enabled := True\<rparr>,
     blank_rule\<lparr>r_ID := ''container_exit'', r_Kind := ''container_exit'', r_Match := Some ''*'',
       r_Severity := ''warning'', r_Enabled := True\<rparr>,
     blank_rule\<lparr>r_ID := ''smart_failing'', r_Kind := ''smart'', r_Severity := ''critical'',
       r_Enabled := True\<rparr>,
     blank_rule\<lparr>r_ID := ''pool_error'', r_Kind := ''pool'', r_Severity := ''critical'',
       r_Enabled := True\<rparr>]"

definition loadRules :: "rulesDoc htx" where
  "loadRules =
     bindT (get_db d_rules) (\<lambda>r. case r of
        Some d \<Rightarrow> retT d
      | None \<Rightarrow>
          (let d = \<lparr>rd_Version = 1, rd_HeartbeatSeconds = 180, rd_Rules = defaultRules\<rparr>
           in thenT (mod_db (\<lambda>b. b\<lparr>d_rules := Some d\<rparr>)) (retT d)))"

definition loadSettings :: "settingsDoc htx" where
  "loadSettings =
     bindT (get_db d_settings) (\<lambda>r. case r of
        Some d \<Rightarrow> retT d
      | None \<Rightarrow>
          (let d = \<lparr>sd_Version = 1,
                    sd_DND = \<lparr>dnd_Enabled = False, dnd_Start = ''23:00'', dnd_End = ''08:00'',
                              dnd_Timezone = ''Asia/Shanghai''\<rparr>,
                    sd_ReportIntervalSeconds = 30\<rparr>
           in thenT (mod_db (\<lambda>b. b\<lparr>d_settings := Some d\<rparr>)) (retT d)))"

definition heartbeatSeconds :: "hub_db \<Rightarrow> int" where
  "heartbeatSeconds d =
     (case d_rules d of None \<Rightarrow> 180
      | Some r \<Rightarrow> if rd_HeartbeatSeconds r \<le> 0 then 180 else rd_HeartbeatSeconds r)"

definition reportInterval :: "hub_db \<Rightarrow> int" where
  "reportInterval d =
     (case d_settings d of None \<Rightarrow> 30
      | Some r \<Rightarrow> if sd_ReportIntervalSeconds r \<le> 0 then 30 else sd_ReportIntervalSeconds r)"

definition maxChangeSeq :: "hub_db \<Rightarrow> int" where
  "maxChangeSeq d = (case map cr_seq (d_changes d) of [] \<Rightarrow> 0 | q # qs \<Rightarrow> fold max qs q)"

definition minChangeSeq :: "hub_db \<Rightarrow> int option" where
  "minChangeSeq d = (case map cr_seq (d_changes d) of [] \<Rightarrow> None | q # qs \<Rightarrow> Some (fold min qs q))"

section \<open>Transactions\<close>

text \<open>
  \<open>withTx\<close>: on an error the database is rolled back and the handler drops its slice of
  changes.  What lives in memory (timers, used identifiers) is not rolled back.
\<close>

definition withTx :: "'a htx \<Rightarrow> 'a htx" where
  "withTx fn s =
     (case fn s of (Inl e, t) \<Rightarrow> (Inl e, t\<lparr>h_db := h_db s, h_out := h_out s\<rparr>) | (Inr x, t) \<Rightarrow> (Inr x, t))"

text \<open>\<open>emitSourceChangeTx\<close> of \<^verbatim>\<open>hub/ingest.go\<close>.\<close>

definition emitSourceChangeTx :: "env \<Rightarrow> sourceRow \<Rightarrow> unit htx" where
  "emitSourceChangeTx E src =
     bindT (get_db heartbeatSeconds) (\<lambda>hb.
     bindT (nowUTC E) (\<lambda>now.
     thenT (emitChangeTx E ''source'' (s_ID src) (\<lambda>_. DSource (toSourceJSON now src hb)) None)
       (retT ())))"

section \<open>Laws of the change log\<close>

definition change_counter :: "hub_db \<Rightarrow> int" where
  "change_counter d = (case d_meta d ''change_seq'' of None \<Rightarrow> 0 | Some v \<Rightarrow> v)"

text \<open>Rows are numbered upwards, and no number is beyond the counter.\<close>

definition changes_wf :: "hub_db \<Rightarrow> bool" where
  "changes_wf d \<longleftrightarrow> sorted_wrt (<) (map cr_seq (d_changes d)) \<and>
     (\<forall>c \<in> set (d_changes d). 1 \<le> cr_seq c \<and> cr_seq c \<le> change_counter d) \<and>
     0 \<le> change_counter d"

definition entry_of :: "changeRow \<Rightarrow> changeEntry" where
  "entry_of r = \<lparr>c_Seq = cr_seq r, c_Type = cr_type r, c_Data = cr_data r, c_Notify = cr_notify r\<rparr>"

text \<open>
  The rows added between two states carry the next numbers without a gap, and the slice
  to publish has grown by exactly these rows.
\<close>

definition log_step :: "hub \<Rightarrow> hub \<Rightarrow> bool" where
  "log_step s t \<longleftrightarrow> change_counter (h_db s) \<le> change_counter (h_db t) \<and>
     (\<exists>new. d_changes (h_db t) = d_changes (h_db s) @ new \<and>
            map cr_seq new = [change_counter (h_db s) + 1 .. change_counter (h_db t)] \<and>
            h_out t = h_out s @ map entry_of new)"

definition logged :: "hub \<Rightarrow> hub \<Rightarrow> bool" where
  "logged s t \<longleftrightarrow> (changes_wf (h_db s) \<longrightarrow> changes_wf (h_db t) \<and> log_step s t)"

lemma log_step_refl: "log_step s s"
  by (simp add: log_step_def)

lemma log_step_trans:
  assumes "log_step s t" and "log_step t u"
  shows "log_step s u"
proof -
  from assms(1) obtain n1 where n1: "d_changes (h_db t) = d_changes (h_db s) @ n1"
    "map cr_seq n1 = [change_counter (h_db s) + 1 .. change_counter (h_db t)]"
    "h_out t = h_out s @ map entry_of n1" and c1: "change_counter (h_db s) \<le> change_counter (h_db t)"
    by (auto simp: log_step_def)
  from assms(2) obtain n2 where n2: "d_changes (h_db u) = d_changes (h_db t) @ n2"
    "map cr_seq n2 = [change_counter (h_db t) + 1 .. change_counter (h_db u)]"
    "h_out u = h_out t @ map entry_of n2" and c2: "change_counter (h_db t) \<le> change_counter (h_db u)"
    by (auto simp: log_step_def)
  have "map cr_seq (n1 @ n2) = [change_counter (h_db s) + 1 .. change_counter (h_db u)]"
    using n1(2) n2(2) c1 c2 upto_split1 [of "change_counter (h_db s) + 1" "change_counter (h_db t) + 1" "change_counter (h_db u)"]
    by (cases "change_counter (h_db t) = change_counter (h_db u)") auto
  with n1 n2 c1 c2 show ?thesis unfolding log_step_def by (intro conjI exI [of _ "n1 @ n2"]) auto
qed

interpretation lg: tx_rel logged
  by unfold_locales (auto simp: logged_def log_step_refl intro: log_step_trans)

lemma logged_frame:
  "h_out t = h_out s \<Longrightarrow> d_changes (h_db t) = d_changes (h_db s) \<Longrightarrow>
     d_meta (h_db t) ''change_seq'' = d_meta (h_db s) ''change_seq'' \<Longrightarrow> logged s t"
  by (simp add: logged_def log_step_def changes_wf_def change_counter_def)

lemma change_counter_next:
  "(case d_meta d ''change_seq'' of None \<Rightarrow> 1 | Some v \<Rightarrow> v + 1) = change_counter d + 1"
  by (simp add: change_counter_def split: option.split)

text \<open>With a well-formed log, taking the next number and writing the row cannot fail.\<close>

lemma insertChangeObj_run:
  assumes "changes_wf (h_db s)"
  shows "insertChangeObj E typ i mk nb s =
    (let q = change_counter (h_db s) + 1;
         r = \<lparr>cr_seq = q, cr_type = typ, cr_ref_id = i, cr_data = mk q, cr_notify = nb,
              cr_created_at = fmtTS (env_clock E (h_clk s))\<rparr>
     in (Inr (entry_of r),
         s\<lparr>h_clk := Suc (h_clk s),
           h_db := (h_db s)\<lparr>d_meta := (d_meta (h_db s))(''change_seq'' \<mapsto> q),
                            d_changes := d_changes (h_db s) @ [r]\<rparr>\<rparr>))"
proof -
  have "change_counter (h_db s) + 1 \<notin> cr_seq ` set (d_changes (h_db s))"
    using assms by (fastforce simp: changes_wf_def)
  then show ?thesis
    by (simp add: insertChangeObj_def nextChangeSeq_def insert_change_row_def bindT_def thenT_def
        Let_def entry_of_def change_counter_next)
qed

lemma changes_wf_snoc:
  assumes "changes_wf d" and "cr_seq r = change_counter d + 1"
  shows "changes_wf (d\<lparr>d_meta := (d_meta d)(''change_seq'' \<mapsto> cr_seq r), d_changes := d_changes d @ [r]\<rparr>)"
  using assms by (fastforce simp: changes_wf_def change_counter_def sorted_wrt_append)

lemma emitChangeTx_run:
  assumes "changes_wf (h_db s)"
  shows "emitChangeTx E typ i mk nb s =
    (let q = change_counter (h_db s) + 1;
         r = \<lparr>cr_seq = q, cr_type = typ, cr_ref_id = i, cr_data = mk q, cr_notify = nb,
              cr_created_at = fmtTS (env_clock E (h_clk s))\<rparr>
     in (Inr q,
         s\<lparr>h_clk := Suc (h_clk s),
           h_db := (h_db s)\<lparr>d_meta := (d_meta (h_db s))(''change_seq'' \<mapsto> q),
                            d_changes := d_changes (h_db s) @ [r]\<rparr>,
           h_out := h_out s @ [entry_of r]\<rparr>))"
  by (simp add: emitChangeTx_def bindT_def thenT_def insertChangeObj_run [OF assms] push_change_def
      Let_def entry_of_def)

lemma logged_emitChangeTx: "obeys logged (emitChangeTx E typ i mk nb)"
proof (rule obeysI)
  fix s
  show "logged s (snd (emitChangeTx E typ i mk nb s))"
  proof (cases "changes_wf (h_db s)")
    case True
    define r where "r = \<lparr>cr_seq = change_counter (h_db s) + 1, cr_type = typ, cr_ref_id = i,
      cr_data = mk (change_counter (h_db s) + 1), cr_notify = nb,
      cr_created_at = fmtTS (env_clock E (h_clk s))\<rparr>"
    have q: "cr_seq r = change_counter (h_db s) + 1" by (simp add: r_def)
    have e: "snd (emitChangeTx E typ i mk nb s) =
      s\<lparr>h_clk := Suc (h_clk s),
        h_db := (h_db s)\<lparr>d_meta := (d_meta (h_db s))(''change_seq'' \<mapsto> cr_seq r),
                         d_changes := d_changes (h_db s) @ [r]\<rparr>,
        h_out := h_out s @ [entry_of r]\<rparr>"
      by (simp add: emitChangeTx_run [OF True] Let_def r_def)
    have "change_counter ((h_db s)\<lparr>d_meta := (d_meta (h_db s))(''change_seq'' \<mapsto> cr_seq r),
        d_changes := d_changes (h_db s) @ [r]\<rparr>) = cr_seq r"
      by (simp add: change_counter_def)
    then show ?thesis
      unfolding e logged_def log_step_def using changes_wf_snoc [OF True q] q
      by (intro impI conjI exI [of _ "[r]"]) simp_all
  qed (simp add: logged_def)
qed

lemma logged_mod_db:
  "(\<And>d. d_changes (f d) = d_changes d \<and> d_meta (f d) ''change_seq'' = d_meta d ''change_seq'') \<Longrightarrow>
     obeys logged (mod_db f)"
  by (rule obeysI) (auto intro!: logged_frame)

lemma logged_get_db: "obeys logged (get_db f)"
  by (rule obeysI) (simp add: lg.R_refl)

lemma logged_nowUTC: "obeys logged (nowUTC E)"
  by (rule obeysI) (auto intro!: logged_frame)

lemma logged_newID: "obeys logged (newID E p)"
  by (rule obeysI) (auto intro!: logged_frame)

lemma logged_rowT: "obeys logged (rowT q)"
  unfolding rowT_def by (intro lg.intros logged_get_db)

lemma logged_emitSourceChangeTx: "obeys logged (emitSourceChangeTx E src)"
  unfolding emitSourceChangeTx_def
  by (intro lg.bind lg.seq lg.ret logged_get_db logged_nowUTC logged_emitChangeTx)

lemma logged_loadRules: "obeys logged loadRules"
  unfolding loadRules_def Let_def by (intro lg.intros logged_get_db logged_mod_db) simp

lemmas logged_intros =
  lg.intros logged_emitChangeTx logged_get_db logged_nowUTC logged_newID logged_rowT
  logged_emitSourceChangeTx logged_loadRules

lemma logged_withTx: "obeys logged m \<Longrightarrow> obeys logged (withTx m)"
proof (rule obeysI)
  fix s
  assume m: "obeys logged m"
  obtain r t where e: "m s = (r, t)" by (cases "m s")
  show "logged s (snd (withTx m s))"
    using obeysD [OF m e] e by (cases r) (auto simp: withTx_def intro!: logged_frame)
qed

text \<open>A transaction keeps an invariant of the database when its successful runs do.\<close>

lemma withTx_inv:
  assumes "hoare I m (\<lambda>_. I)" and "I s"
    and "\<And>r t. m s = (r, t) \<Longrightarrow> I (t\<lparr>h_db := h_db s, h_out := h_out s\<rparr>)"
  shows "I (snd (withTx m s))"
proof (cases "m s")
  case (Pair r t)
  show ?thesis
  proof (cases r)
    case (Inl e)
    with Pair assms(3) show ?thesis by (simp add: withTx_def)
  next
    case (Inr x)
    with Pair hoareD [OF assms(1,2)] show ?thesis by (simp add: withTx_def)
  qed
qed

lemma changes_wf_distinct: "changes_wf d \<Longrightarrow> distinct (map cr_seq (d_changes d))"
  by (simp add: changes_wf_def strict_sorted_iff)

end
