(* ===== verification/HubTexts.thy ===== *)
theory HubTexts
  imports Prelude
begin

text \<open>
  The texts outside ASCII that the hub stores or returns, as their UTF-8 bytes, each with
  its meaning.
\<close>

definition txt_ingest_resumed :: string where \<comment> \<open>has resumed reporting (title suffix)\<close>
  "txt_ingest_resumed =
     utf8 [32, 230, 129, 162, 229, 164, 141, 230, 142, 165, 229, 133, 165]"

definition txt_source_reports :: string where \<comment> \<open>the source reports again, opening bracket\<close>
  "txt_source_reports =
     utf8 [230, 157, 165, 230, 186, 144, 230, 129, 162, 229, 164, 141, 228, 184, 138, 230, 138,
     165, 239, 188, 136]"

definition txt_close_paren :: string where \<comment> \<open>closing bracket\<close>
  "txt_close_paren =
     utf8 [239, 188, 137]"

definition txt_colon :: string where \<comment> \<open>full-width colon\<close>
  "txt_colon =
     utf8 [239, 188, 154]"

definition txt_over_limit :: string where \<comment> \<open>has stayed over its limit\<close>
  "txt_over_limit =
     utf8 [32, 230, 140, 129, 231, 187, 173, 232, 182, 133, 233, 153, 144]"

definition txt_exceeds :: string where \<comment> \<open>exceeds\<close>
  "txt_exceeds =
     utf8 [32, 232, 182, 133, 232, 191, 135, 32]"

definition txt_for_already :: string where \<comment> \<open>for already\<close>
  "txt_for_already =
     utf8 [32, 229, 183, 178, 32]"

definition txt_seconds :: string where \<comment> \<open>seconds\<close>
  "txt_seconds =
     utf8 [32, 231, 167, 146]"

definition txt_normal_again :: string where \<comment> \<open>is back to normal\<close>
  "txt_normal_again =
     utf8 [32, 230, 129, 162, 229, 164, 141, 230, 173, 163, 229, 184, 184]"

definition txt_fell_to :: string where \<comment> \<open>fell back to\<close>
  "txt_fell_to =
     utf8 [32, 229, 155, 158, 232, 144, 189, 232, 135, 179, 32]"

definition txt_below_for :: string where \<comment> \<open>below, for\<close>
  "txt_below_for =
     utf8 [32, 228, 187, 165, 228, 184, 139, 230, 140, 129, 231, 187, 173, 32]"

definition txt_container :: string where \<comment> \<open>container\<close>
  "txt_container =
     utf8 [229, 174, 185, 229, 153, 168, 32]"

definition txt_exited :: string where \<comment> \<open>has exited\<close>
  "txt_exited =
     utf8 [32, 233, 128, 128, 229, 135, 186]"

definition txt_running_again :: string where \<comment> \<open>is running again\<close>
  "txt_running_again =
     utf8 [32, 230, 129, 162, 229, 164, 141, 232, 191, 144, 232, 161, 140]"

definition txt_restart_grew :: string where \<comment> \<open>restart count has grown\<close>
  "txt_restart_grew =
     utf8 [32, 233, 135, 141, 229, 144, 175, 232, 174, 161, 230, 149, 176, 229, 162, 158, 229,
     138, 160]"

definition txt_removed :: string where \<comment> \<open>has been removed\<close>
  "txt_removed =
     utf8 [32, 229, 183, 178, 231, 167, 187, 233, 153, 164]"

definition txt_container_removed :: string where \<comment> \<open>the container has been removed\<close>
  "txt_container_removed =
     utf8 [229, 174, 185, 229, 153, 168, 229, 183, 178, 231, 167, 187, 233, 153, 164]"

definition txt_disk :: string where \<comment> \<open>disk\<close>
  "txt_disk =
     utf8 [231, 163, 129, 231, 155, 152, 32]"

definition txt_smart_bad :: string where \<comment> \<open>SMART failure\<close>
  "txt_smart_bad =
     utf8 [32, 83, 77, 65, 82, 84, 32, 229, 188, 130, 229, 184, 184]"

definition txt_smart_ok :: string where \<comment> \<open>SMART recovery\<close>
  "txt_smart_ok =
     utf8 [32, 83, 77, 65, 82, 84, 32, 230, 129, 162, 229, 164, 141]"

definition txt_pool :: string where \<comment> \<open>storage pool\<close>
  "txt_pool =
     utf8 [229, 173, 152, 229, 130, 168, 230, 177, 160, 32]"

definition txt_abnormal :: string where \<comment> \<open>failure\<close>
  "txt_abnormal =
     utf8 [32, 229, 188, 130, 229, 184, 184]"

definition txt_recovered :: string where \<comment> \<open>recovery\<close>
  "txt_recovered =
     utf8 [32, 230, 129, 162, 229, 164, 141]"

definition txt_lost :: string where \<comment> \<open>is out of contact\<close>
  "txt_lost =
     utf8 [32, 229, 164, 177, 232, 129, 148]"

definition txt_silent_for :: string where \<comment> \<open>for a continuous\<close>
  "txt_silent_for =
     utf8 [229, 183, 178, 232, 191, 158, 231, 187, 173, 32]"

definition txt_no_heartbeat :: string where \<comment> \<open>seconds without a heartbeat\<close>
  "txt_no_heartbeat =
     utf8 [32, 231, 167, 146, 230, 151, 160, 229, 191, 131, 232, 183, 179, 228, 184, 138, 230,
     138, 165]"

definition txt_arrow :: string where \<comment> \<open>arrow\<close>
  "txt_arrow =
     utf8 [32, 226, 134, 146, 32]"

definition txt_rebooted :: string where \<comment> \<open>has rebooted\<close>
  "txt_rebooted =
     utf8 [32, 229, 183, 178, 233, 135, 141, 229, 144, 175]"

definition txt_bad_event_id :: string where \<comment> \<open>eventId missing or malformed\<close>
  "txt_bad_event_id =
     utf8 [101, 118, 101, 110, 116, 73, 100, 32, 231, 188, 186, 229, 164, 177, 230, 136, 150,
     233, 157, 158, 230, 179, 149, 239, 188, 136, 91, 65, 45, 90, 97, 45, 122, 48, 45, 57,
     46, 95, 58, 45, 93, 123, 49, 44, 49, 50, 56, 125, 239, 188, 137]"

definition txt_kind_required :: string where \<comment> \<open>kind is required\<close>
  "txt_kind_required =
     utf8 [107, 105, 110, 100, 32, 229, 191, 133, 229, 161, 171]"

definition txt_bad_occurred :: string where \<comment> \<open>occurredAt missing or malformed\<close>
  "txt_bad_occurred =
     utf8 [111, 99, 99, 117, 114, 114, 101, 100, 65, 116, 32, 231, 188, 186, 229, 164, 177, 230,
     136, 150, 233, 157, 158, 230, 179, 149]"

definition txt_too_old :: string where \<comment> \<open>occurredAt beyond the 90 day window\<close>
  "txt_too_old =
     utf8 [111, 99, 99, 117, 114, 114, 101, 100, 65, 116, 32, 232, 182, 133, 229, 135, 186, 32,
     57, 48, 32, 229, 164, 169, 232, 161, 165, 228, 188, 160, 231, 170, 151, 229, 143, 163]"

definition txt_bad_severity :: string where \<comment> \<open>bad severity\<close>
  "txt_bad_severity =
     utf8 [115, 101, 118, 101, 114, 105, 116, 121, 32, 233, 157, 158, 230, 179, 149]"

definition txt_bad_title :: string where \<comment> \<open>title missing or over 200 characters\<close>
  "txt_bad_title =
     utf8 [116, 105, 116, 108, 101, 32, 231, 188, 186, 229, 164, 177, 230, 136, 150, 232, 182,
     133, 232, 191, 135, 32, 50, 48, 48, 32, 229, 173, 151, 231, 172, 166]"

definition txt_body_long :: string where \<comment> \<open>body over 20000 characters\<close>
  "txt_body_long =
     utf8 [98, 111, 100, 121, 32, 232, 182, 133, 232, 191, 135, 32, 50, 48, 48, 48, 48, 32, 229,
     173, 151, 231, 172, 166]"

definition txt_bad_action :: string where \<comment> \<open>bad incidentAction\<close>
  "txt_bad_action =
     utf8 [105, 110, 99, 105, 100, 101, 110, 116, 65, 99, 116, 105, 111, 110, 32, 233, 157, 158,
     230, 179, 149]"

definition txt_action_required :: string where \<comment> \<open>incidentAction is required with a faultKey\<close>
  "txt_action_required =
     utf8 [102, 97, 117, 108, 116, 75, 101, 121, 32, 233, 157, 158, 231, 169, 186, 230, 151, 182,
     32, 105, 110, 99, 105, 100, 101, 110, 116, 65, 99, 116, 105, 111, 110, 32, 229, 191,
     133, 229, 161, 171]"

definition txt_key_required :: string where \<comment> \<open>incidentAction needs a faultKey\<close>
  "txt_key_required =
     utf8 [105, 110, 99, 105, 100, 101, 110, 116, 65, 99, 116, 105, 111, 110, 32, 233, 156, 128,
     232, 166, 129, 233, 157, 158, 231, 169, 186, 32, 102, 97, 117, 108, 116, 75, 101, 121]"

text \<open>No rejection text is empty, so that an empty text means that an event is valid.\<close>

lemma reject_texts_nonempty:
  "txt_bad_event_id \<noteq> []" "txt_kind_required \<noteq> []" "txt_bad_occurred \<noteq> []" "txt_too_old \<noteq> []"
  "txt_bad_severity \<noteq> []" "txt_bad_title \<noteq> []" "txt_body_long \<noteq> []"
  "txt_bad_action \<noteq> []" "txt_action_required \<noteq> []" "txt_key_required \<noteq> []"
  by (simp_all add: utf8_def txt_bad_event_id_def txt_kind_required_def txt_bad_occurred_def txt_too_old_def 
      txt_bad_severity_def txt_bad_title_def txt_body_long_def txt_bad_action_def txt_action_required_def txt_key_required_def)

end
