(* ===== verification/Fault.thy ===== *)
theory Fault
  imports Store HubTexts
begin

text \<open>
  The fault state machine (\<^verbatim>\<open>hub/fault.go\<close>).  \<open>applyEventTx\<close> stores an event,
  moves the fault of its key, stores a message and writes the changes.  A resolve that
  arrives before its open is remembered as a pending resolve; a later open it covers is
  stored as resolved.
\<close>

section \<open>Operations\<close>

text \<open>A pointer to a string as a nullable column: nil and the empty string are NULL.\<close>

definition null_of :: "string option \<Rightarrow> string option" where
  "null_of x = (case x of None \<Rightarrow> None | Some v \<Rightarrow> if v = [] then None else Some v)"

definition newFaultRow :: "string \<Rightarrow> string \<Rightarrow> string \<Rightarrow> eventPayload \<Rightarrow> faultRow" where
  "newFaultRow i src key ev =
     \<lparr>f_ID = i, f_SourceID = src, f_FaultKey = key, f_Severity = ev_Severity ev,
      f_Title = ev_Title ev, f_Summary = ev_Body ev, f_State = ''open'', f_Incident = 1,
      f_OpenedAt = ev_OccurredAt ev, f_OpenedBySeq = ev_Seq ev, f_LastEventAt = ev_OccurredAt ev,
      f_ResolvedAt = None, f_ResolvedBySeq = None, f_ResolvedBy = None, f_EventCount = 1,
      f_ReadAt = None, f_MutedAt = None, f_MutedUntil = None, f_ChangeSeq = 0\<rparr>"

definition mergeFaultEvent :: "faultRow \<Rightarrow> eventPayload \<Rightarrow> faultRow" where
  "mergeFaultEvent f ev =
     f\<lparr>f_EventCount := f_EventCount f + 1,
       f_Severity := maxSev (f_Severity f) (ev_Severity ev),
       f_Title := ev_Title ev,
       f_Summary := ev_Body ev,
       f_LastEventAt := (if f_LastEventAt f < ev_OccurredAt ev then ev_OccurredAt ev
                         else f_LastEventAt f)\<rparr>"

text \<open>\<open>findPendingResolve\<close>: the earliest pending resolve after \<open>openSeq\<close>.\<close>

definition findPendingResolve :: "hub_db \<Rightarrow> string \<Rightarrow> string \<Rightarrow> int \<Rightarrow> pendingRow option" where
  "findPendingResolve d src key openSeq =
     (case sort_key p_seq (filter (\<lambda>p. p_source_id p = src \<and> p_fault_key p = key \<and> openSeq < p_seq p)
            (d_pending d)) of
        [] \<Rightarrow> None | p # _ \<Rightarrow> Some p)"

record faultOutcome =
  fo_fault :: "faultRow option"
  fo_incident :: "int option"
  fo_notify :: string
  fo_changed :: bool

text \<open>The branch \<^verbatim>\<open>case "open", "update"\<close> of the state machine.\<close>

definition openStep ::
  "string \<Rightarrow> string \<Rightarrow> string \<Rightarrow> eventPayload \<Rightarrow> faultRow option \<Rightarrow> pendingRow option \<Rightarrow> faultOutcome" where
  "openStep i src key ev f pending =
     (case f of
        None \<Rightarrow>
          (let f0 = newFaultRow i src key ev
           in case pending of
                Some p \<Rightarrow>
                  \<lparr>fo_fault = Some (f0\<lparr>f_State := ''resolved'', f_ResolvedAt := Some (p_occurred_at p),
                      f_ResolvedBySeq := Some (p_seq p), f_ResolvedBy := Some (p_event_id p)\<rparr>),
                   fo_incident = Some (f_Incident f0), fo_notify = [], fo_changed = True\<rparr>
              | None \<Rightarrow>
                  \<lparr>fo_fault = Some f0, fo_incident = Some (f_Incident f0),
                   fo_notify = ''incident_open'', fo_changed = True\<rparr>)
      | Some f0 \<Rightarrow>
          if f_State f0 = ''open'' then
            \<lparr>fo_fault = Some (mergeFaultEvent f0 ev), fo_incident = Some (f_Incident f0),
             fo_notify = ''incident_update'', fo_changed = True\<rparr>
          else (case pending of
            Some p \<Rightarrow>
              \<lparr>fo_fault = Some (mergeFaultEvent f0 ev), fo_incident = Some (f_Incident f0),
               fo_notify = [], fo_changed = True\<rparr>
          | None \<Rightarrow>
              \<lparr>fo_fault = Some (f0\<lparr>f_Incident := f_Incident f0 + 1, f_State := ''open'',
                  f_Severity := ev_Severity ev, f_Title := ev_Title ev, f_Summary := ev_Body ev,
                  f_OpenedAt := ev_OccurredAt ev, f_OpenedBySeq := ev_Seq ev,
                  f_LastEventAt := ev_OccurredAt ev, f_ResolvedAt := None,
                  f_ResolvedBySeq := None, f_ResolvedBy := None, f_EventCount := 1,
                  f_ReadAt := None\<rparr>),
               fo_incident = Some (f_Incident f0 + 1), fo_notify = ''incident_open'',
               fo_changed = True\<rparr>))"

definition resolveFault :: "faultRow \<Rightarrow> eventPayload \<Rightarrow> faultRow" where
  "resolveFault f ev =
     f\<lparr>f_State := ''resolved'', f_ResolvedAt := Some (ev_OccurredAt ev),
       f_ResolvedBySeq := Some (ev_Seq ev), f_ResolvedBy := Some (ev_EventID ev),
       f_LastEventAt := ev_OccurredAt ev, f_EventCount := f_EventCount f + 1,
       f_Title := ev_Title ev, f_Summary := ev_Body ev\<rparr>"

text \<open>The guard of the branch \<^verbatim>\<open>case "resolve"\<close>.\<close>

definition covers :: "faultRow option \<Rightarrow> eventPayload \<Rightarrow> bool" where
  "covers f ev \<longleftrightarrow> (case f of None \<Rightarrow> False
     | Some f0 \<Rightarrow> f_State f0 = ''open'' \<and> f_OpenedBySeq f0 < ev_Seq ev)"

definition pending_of :: "string \<Rightarrow> string \<Rightarrow> eventPayload \<Rightarrow> pendingRow" where
  "pending_of src key ev =
     \<lparr>p_source_id = src, p_fault_key = key, p_seq = ev_Seq ev, p_occurred_at = ev_OccurredAt ev,
      p_title = ev_Title ev, p_event_id = ev_EventID ev\<rparr>"

definition pending_key :: "pendingRow \<Rightarrow> string \<times> string \<times> int" where
  "pending_key p = (p_source_id p, p_fault_key p, p_seq p)"

definition faultTransitionTx :: "env \<Rightarrow> string \<Rightarrow> eventPayload \<Rightarrow> string \<Rightarrow> faultOutcome htx" where
  "faultTransitionTx E src ev key =
     bindT (get_db (\<lambda>d. loadFaultTx d src key)) (\<lambda>f.
       let action = (case ev_IncidentAction ev of None \<Rightarrow> [] | Some a \<Rightarrow> a) in
       if action = ''open'' \<or> action = ''update'' then
         bindT (get_db (\<lambda>d. findPendingResolve d src key (ev_Seq ev))) (\<lambda>pending.
         bindT (if f = None then newID E ''flt_'' else retT []) (\<lambda>i.
           retT (openStep i src key ev f pending)))
       else if action = ''resolve'' then
         (if covers f ev then
            retT \<lparr>fo_fault = map_option (\<lambda>f0. resolveFault f0 ev) f,
                  fo_incident = map_option f_Incident f,
                  fo_notify = ''incident_resolved'', fo_changed = True\<rparr>
          else
            thenT (mod_db (\<lambda>d. d\<lparr>d_pending := ins_ignore pending_key (pending_of src key ev) (d_pending d)\<rparr>))
              (retT \<lparr>fo_fault = f, fo_incident = None, fo_notify = [], fo_changed = False\<rparr>))
       else failT (ErrUnknownAction action))"

text \<open>
  \<open>upsertFaultTx\<close>: a row with the same id gets every column but source and key; a
  new id with a source and key in use violates the unique constraint.
\<close>

definition upsertFaultTx :: "faultRow \<Rightarrow> unit htx" where
  "upsertFaultTx f =
     bindT (get_db d_faults) (\<lambda>fs.
       if f_ID f \<in> f_ID ` set fs then
         mod_db (\<lambda>d. d\<lparr>d_faults := upd_where (\<lambda>r. f_ID r = f_ID f)
           (\<lambda>r. f\<lparr>f_SourceID := f_SourceID r, f_FaultKey := f_FaultKey r\<rparr>) fs\<rparr>)
       else if \<exists>r \<in> set fs. f_SourceID r = f_SourceID f \<and> f_FaultKey r = f_FaultKey f
         then failT (ErrConstraint ''faults'')
       else mod_db (\<lambda>d. d\<lparr>d_faults := fs @ [f]\<rparr>))"

definition insert_event_row :: "eventRow \<Rightarrow> unit htx" where
  "insert_event_row r =
     bindT (get_db d_events) (\<lambda>es.
       if \<exists>x \<in> set es. e_source_id x = e_source_id r \<and> e_event_id x = e_event_id r
       then failT (ErrConstraint ''events'') else mod_db (\<lambda>d. d\<lparr>d_events := es @ [r]\<rparr>))"

definition insert_message_row :: "messageRow \<Rightarrow> unit htx" where
  "insert_message_row r =
     bindT (get_db d_messages) (\<lambda>ms.
       if m_ID r \<in> m_ID ` set ms then failT (ErrConstraint ''messages'')
       else mod_db (\<lambda>d. d\<lparr>d_messages := ms @ [r]\<rparr>))"

definition ref_of :: "eventPayload \<Rightarrow> string option" where
  "ref_of ev = (if ev_Ref ev = [] \<or> ev_Ref ev = ''null'' then None else Some (ev_Ref ev))"

definition event_row :: "string \<Rightarrow> eventPayload \<Rightarrow> bool \<Rightarrow> bool \<Rightarrow> time \<Rightarrow> eventRow" where
  "event_row src ev internal ooo now =
     \<lparr>e_source_id = src, e_event_id = ev_EventID ev, e_seq = ev_Seq ev, e_kind = ev_Kind ev,
      e_occurred_at = ev_OccurredAt ev, e_severity = ev_Severity ev,
      e_fault_key = null_of (ev_FaultKey ev), e_incident_action = null_of (ev_IncidentAction ev),
      e_title = ev_Title ev, e_body = ev_Body ev, e_ref = ref_of ev,
      e_attachments = ev_Attachments ev, e_out_of_order = ooo, e_internal = internal,
      e_received_at = fmtTS now\<rparr>"

definition message_row ::
  "string \<Rightarrow> string \<Rightarrow> eventPayload \<Rightarrow> bool \<Rightarrow> bool \<Rightarrow> time \<Rightarrow> faultOutcome \<Rightarrow> messageRow" where
  "message_row i src ev internal ooo now oc =
     \<lparr>m_ID = i, m_SourceID = src,
      m_Kind = (if \<not> internal \<and> null_of (ev_IncidentAction ev) = Some ''open'' then ''fault_open''
                else ev_Kind ev),
      m_Severity = ev_Severity ev, m_Title = ev_Title ev, m_Body = ev_Body ev,
      m_OccurredAt = ev_OccurredAt ev, m_ReceivedAt = fmtTS now, m_ReadAt = None,
      m_FaultID = map_option f_ID (fo_fault oc), m_Incident = fo_incident oc,
      m_Ref = ref_of ev, m_Attachments = ev_Attachments ev, m_EventID = ev_EventID ev,
      m_EventSeq = ev_Seq ev, m_FaultKey = null_of (ev_FaultKey ev), m_OutOfOrder = ooo,
      m_ChangeSeq = 0\<rparr>"

text \<open>Step 4 of \<open>applyEventTx\<close>: the fault's change and its row.\<close>

definition storeFaultTx :: "env \<Rightarrow> string \<Rightarrow> faultOutcome \<Rightarrow> unit htx" where
  "storeFaultTx E name oc =
     (case fo_fault oc of
        None \<Rightarrow> retT ()
      | Some f \<Rightarrow>
          whenT (fo_changed oc)
            (bindT (emitChangeTx E ''fault'' (f_ID f) (\<lambda>q. DFault (toFaultJSON (f\<lparr>f_ChangeSeq := q\<rparr>) name)) None)
              (\<lambda>q. upsertFaultTx (f\<lparr>f_ChangeSeq := q\<rparr>))))"

text \<open>Step 5: messages received before the late open are attached to its round.\<close>

definition backfillTx :: "string \<Rightarrow> string \<Rightarrow> faultOutcome \<Rightarrow> unit htx" where
  "backfillTx src key oc =
     (case (fo_fault oc, fo_incident oc) of
        (Some f, Some _) \<Rightarrow>
          (case (f_State f = ''resolved'', f_ResolvedBySeq f) of
             (True, Some r) \<Rightarrow>
               mod_db (\<lambda>d. d\<lparr>d_messages := upd_where
                 (\<lambda>m. m_SourceID m = src \<and> m_FaultKey m = Some key \<and> m_FaultID m = None
                      \<and> f_OpenedBySeq f \<le> m_EventSeq m \<and> m_EventSeq m \<le> r)
                 (\<lambda>m. m\<lparr>m_FaultID := Some (f_ID f), m_Incident := Some (f_Incident f)\<rparr>)
                 (d_messages d)\<rparr>)
           | _ \<Rightarrow> retT ())
      | _ \<Rightarrow> retT ())"

definition notify_of :: "faultOutcome \<Rightarrow> notifyBlock" where
  "notify_of oc =
     \<lparr>nb_Kind = (if fo_notify oc = [] then ''new_message'' else fo_notify oc),
      nb_FaultID = map_option f_ID (fo_fault oc),
      nb_Muted = (case fo_fault oc of None \<Rightarrow> False | Some f \<Rightarrow> f_MutedAt f \<noteq> None)\<rparr>"

definition no_fault :: faultOutcome where
  "no_fault = \<lparr>fo_fault = None, fo_incident = None, fo_notify = [], fo_changed = False\<rparr>"

definition applyEventTx :: "env \<Rightarrow> sourceRow \<Rightarrow> eventPayload \<Rightarrow> bool \<Rightarrow> bool \<Rightarrow> unit htx" where
  "applyEventTx E src ev internal outOfOrder =
     bindT (nowUTC E) (\<lambda>now.
     thenT (insert_event_row (event_row (s_ID src) ev internal outOfOrder now)) (
     bindT (case null_of (ev_FaultKey ev) of
              None \<Rightarrow> retT no_fault
            | Some key \<Rightarrow> faultTransitionTx E (s_ID src) ev key) (\<lambda>oc.
     bindT (newID E ''msg_'') (\<lambda>mid.
       let m = message_row mid (s_ID src) ev internal outOfOrder now oc in
     thenT (storeFaultTx E (s_Name src) oc) (
     thenT (case null_of (ev_FaultKey ev) of None \<Rightarrow> retT () | Some key \<Rightarrow> backfillTx (s_ID src) key oc) (
     bindT (emitChangeTx E ''message'' mid
              (\<lambda>q. DMessage (toMessageJSON (m\<lparr>m_ChangeSeq := q\<rparr>) (s_Name src))) (Some (notify_of oc))) (\<lambda>q.
       insert_message_row (m\<lparr>m_ChangeSeq := q\<rparr>))))))))"

definition hubSeqBase :: int where
  "hubSeqBase = 2 ^ 62"

definition nextHubSeqTx :: "int htx" where
  "nextHubSeqTx =
     bindT (get_db (\<lambda>d. case d_meta d ''hub_event_seq'' of None \<Rightarrow> hubSeqBase + 1 | Some v \<Rightarrow> v + 1))
       (\<lambda>q. thenT (mod_db (\<lambda>d. d\<lparr>d_meta := (d_meta d)(''hub_event_seq'' \<mapsto> q)\<rparr>)) (retT q))"

definition emitHubEventTx ::
  "env \<Rightarrow> sourceRow \<Rightarrow> string \<Rightarrow> string \<Rightarrow> string option \<Rightarrow> string option \<Rightarrow> string \<Rightarrow>
   string option \<Rightarrow> time \<Rightarrow> unit htx" where
  "emitHubEventTx E src kind severity faultKey action title body occurredAt =
     bindT nextHubSeqTx (\<lambda>q.
     bindT (newID E ''hub_'') (\<lambda>i.
       applyEventTx E src
         \<lparr>ev_EventID = i, ev_Seq = q, ev_Kind = kind, ev_OccurredAt = fmtTS occurredAt,
          ev_Severity = severity, ev_FaultKey = faultKey, ev_IncidentAction = action,
          ev_Title = title, ev_Body = body, ev_Ref = [], ev_Attachments = []\<rparr>
         True False))"

text \<open>\<open>touchSourceSeenTx\<close>: returns the source with its new \<^verbatim>\<open>LastSeenAt\<close>.\<close>

definition touchSourceSeenTx :: "env \<Rightarrow> sourceRow \<Rightarrow> time \<Rightarrow> sourceRow htx" where
  "touchSourceSeenTx E src seen =
     (let src' = src\<lparr>s_LastSeenAt := Some (fmtTS seen)\<rparr> in
     thenT (mod_db (\<lambda>d. d\<lparr>d_sources := upd_where (\<lambda>r. s_ID r = s_ID src)
              (\<lambda>r. r\<lparr>s_LastSeenAt := Some (fmtTS seen)\<rparr>) (d_sources d)\<rparr>)) (
     bindT (get_db (\<lambda>d. loadFaultTx d (s_ID src) ''heartbeat'')) (\<lambda>hb.
     thenT (whenT (case hb of None \<Rightarrow> False | Some f \<Rightarrow> f_State f = ''open'')
              (emitHubEventTx E src' ''heartbeat_back'' ''info'' (Some ''heartbeat'') (Some ''resolve'')
                (s_Name src @ txt_ingest_resumed)
                (Some (txt_source_reports @ s_Kind src @ txt_close_paren)) seen))
       (retT src'))))"

section \<open>The change log\<close>

lemma logged_upsertFaultTx: "obeys logged (upsertFaultTx f)"
  unfolding upsertFaultTx_def by (intro logged_intros logged_mod_db) simp_all

lemma logged_insert_event_row: "obeys logged (insert_event_row r)"
  unfolding insert_event_row_def by (intro logged_intros logged_mod_db) simp_all

lemma logged_insert_message_row: "obeys logged (insert_message_row r)"
  unfolding insert_message_row_def by (intro logged_intros logged_mod_db) simp_all

lemma logged_faultTransitionTx: "obeys logged (faultTransitionTx E src ev key)"
  unfolding faultTransitionTx_def Let_def by (intro logged_intros logged_mod_db) simp_all

lemma logged_storeFaultTx: "obeys logged (storeFaultTx E name oc)"
  unfolding storeFaultTx_def by (intro logged_intros logged_upsertFaultTx)

lemma logged_backfillTx: "obeys logged (backfillTx src key oc)"
  unfolding backfillTx_def
  by (auto intro!: lg.ret logged_mod_db split: option.split bool.split)

lemma logged_applyEventTx: "obeys logged (applyEventTx E src ev internal ooo)"
  unfolding applyEventTx_def Let_def
  by (intro logged_intros logged_insert_event_row logged_faultTransitionTx logged_storeFaultTx
      logged_backfillTx logged_insert_message_row)

lemma logged_nextHubSeqTx: "obeys logged nextHubSeqTx"
  unfolding nextHubSeqTx_def by (intro logged_intros logged_mod_db) simp_all

lemma logged_emitHubEventTx: "obeys logged (emitHubEventTx E src k sv fk act t b w)"
  unfolding emitHubEventTx_def by (intro logged_intros logged_nextHubSeqTx logged_applyEventTx)

lemma logged_touchSourceSeenTx: "obeys logged (touchSourceSeenTx E src seen)"
  unfolding touchSourceSeenTx_def Let_def
  by (intro logged_intros logged_mod_db logged_emitHubEventTx) simp_all

section \<open>Well-formed faults\<close>

definition fault_wf :: "faultRow \<Rightarrow> bool" where
  "fault_wf f \<longleftrightarrow> 1 \<le> f_Incident f \<and> 1 \<le> f_EventCount f \<and>
     (f_State f = ''open'' \<and> f_ResolvedAt f = None \<and> f_ResolvedBySeq f = None \<and> f_ResolvedBy f = None
      \<or> f_State f = ''resolved'' \<and> f_ResolvedAt f \<noteq> None \<and> f_ResolvedBy f \<noteq> None \<and>
        (\<exists>r. f_ResolvedBySeq f = Some r \<and> f_OpenedBySeq f < r))"

definition fkey :: "faultRow \<Rightarrow> string \<times> string" where
  "fkey f = (f_SourceID f, f_FaultKey f)"

text \<open>No recorded resolve is newer than the open that started the round of an open fault.\<close>

definition ghost_free :: "pendingRow list \<Rightarrow> faultRow \<Rightarrow> bool" where
  "ghost_free ps f \<longleftrightarrow> (f_State f = ''open'' \<longrightarrow>
     (\<forall>p \<in> set ps. p_source_id p = f_SourceID f \<longrightarrow> p_fault_key p = f_FaultKey f \<longrightarrow>
        p_seq p \<le> f_OpenedBySeq f))"

definition used_ids :: "env \<Rightarrow> string \<Rightarrow> nat \<Rightarrow> string set" where
  "used_ids E prefix n = (\<lambda>k. prefix @ env_ulid E k) ` {..<n}"

definition faults_inv :: "env \<Rightarrow> hub \<Rightarrow> bool" where
  "faults_inv E s \<longleftrightarrow>
     (let fs = d_faults (h_db s) in
      (\<forall>f \<in> set fs. fault_wf f \<and> ghost_free (d_pending (h_db s)) f) \<and>
      distinct (map f_ID fs) \<and> distinct (map fkey fs) \<and>
      f_ID ` set fs \<subseteq> used_ids E ''flt_'' (h_ids s))"

text \<open>The parts of the state the invariant reads, and computations that leave them alone.\<close>

definition fview :: "hub \<Rightarrow> faultRow list \<times> pendingRow list" where
  "fview s = (d_faults (h_db s), d_pending (h_db s))"

lemma used_ids_mono: "m \<le> n \<Longrightarrow> used_ids E p m \<subseteq> used_ids E p n"
  by (auto simp: used_ids_def)

lemma used_ids_fresh: "inj (env_ulid E) \<Longrightarrow> p @ env_ulid E n \<notin> used_ids E p n"
  by (auto simp: used_ids_def dest: injD)

lemma faults_inv_mono:
  "faults_inv E s \<Longrightarrow> fview t = fview s \<Longrightarrow> h_ids s \<le> h_ids t \<Longrightarrow> faults_inv E t"
  using used_ids_mono [of "h_ids s" "h_ids t"]
  by (fastforce simp: faults_inv_def fview_def Let_def)

text \<open>The relation "same faults and pending resolves, identifiers only used up".\<close>

definition fquiet :: "hub \<Rightarrow> hub \<Rightarrow> bool" where
  "fquiet s t \<longleftrightarrow> fview t = fview s \<and> h_ids s \<le> h_ids t"

interpretation fq: tx_rel fquiet
  by unfold_locales (auto simp: fquiet_def)

lemma fquiet_mod_db:
  "(\<And>d. d_faults (f d) = d_faults d \<and> d_pending (f d) = d_pending d) \<Longrightarrow> obeys fquiet (mod_db f)"
  by (rule obeysI) (simp add: fquiet_def fview_def)

lemma fquiet_get_db: "obeys fquiet (get_db f)"
  by (rule obeysI) (simp add: fquiet_def)

lemma fquiet_nowUTC: "obeys fquiet (nowUTC E)"
  by (rule obeysI) (simp add: fquiet_def fview_def)

lemma fquiet_newID: "obeys fquiet (newID E p)"
  by (rule obeysI) (simp add: fquiet_def fview_def)

lemma fquiet_push_change: "obeys fquiet (push_change e)"
  by (rule obeysI) (simp add: fquiet_def fview_def push_change_def)

lemmas fquiet_base = fq.intros fquiet_get_db fquiet_nowUTC fquiet_newID fquiet_push_change fquiet_mod_db

lemma fquiet_emitChangeTx: "obeys fquiet (emitChangeTx E typ i mk nb)"
  unfolding emitChangeTx_def insertChangeObj_def nextChangeSeq_def insert_change_row_def
  by (intro fquiet_base) simp_all

lemma fquiet_insert_event_row: "obeys fquiet (insert_event_row r)"
  unfolding insert_event_row_def by (intro fquiet_base) simp_all

lemma fquiet_insert_message_row: "obeys fquiet (insert_message_row r)"
  unfolding insert_message_row_def by (intro fquiet_base) simp_all

lemma fquiet_backfillTx: "obeys fquiet (backfillTx src key oc)"
  unfolding backfillTx_def
  by (auto intro!: fq.ret fquiet_mod_db split: option.split bool.split)

lemma fquiet_nextHubSeqTx: "obeys fquiet nextHubSeqTx"
  unfolding nextHubSeqTx_def by (intro fquiet_base) simp_all

lemma fquiet_hoare:
  assumes "obeys fquiet m" and "\<And>s t. P s \<Longrightarrow> fview t = fview s \<Longrightarrow> h_ids s \<le> h_ids t \<Longrightarrow> P t"
  shows "hoare P m (\<lambda>_. P)"
  using assms by (intro hoareI) (metis fquiet_def obeysD)

lemma faults_inv_quiet: "obeys fquiet m \<Longrightarrow> hoare (faults_inv E) m (\<lambda>_. faults_inv E)"
  by (rule fquiet_hoare) (auto intro: faults_inv_mono)

section \<open>The state machine keeps the invariant\<close>

text \<open>A fault row that may be written: well-formed, and either the row of its key or a new one.\<close>

definition writable :: "env \<Rightarrow> string \<times> string \<Rightarrow> faultRow \<Rightarrow> hub \<Rightarrow> bool" where
  "writable E k f s \<longleftrightarrow>
     (let fs = d_faults (h_db s) in
      fault_wf f \<and> ghost_free (d_pending (h_db s)) f \<and> fkey f = k \<and>
      ((\<exists>r \<in> set fs. f_ID r = f_ID f \<and> fkey r = k) \<or>
       f_ID f \<notin> f_ID ` set fs \<and> f_ID f \<in> used_ids E ''flt_'' (h_ids s) \<and> k \<notin> fkey ` set fs))"

definition outcome_ok :: "env \<Rightarrow> string \<times> string \<Rightarrow> faultOutcome \<Rightarrow> hub \<Rightarrow> bool" where
  "outcome_ok E k oc s \<longleftrightarrow> (\<forall>f. fo_fault oc = Some f \<longrightarrow> fo_changed oc \<longrightarrow> writable E k f s)"

lemma writable_mono:
  "writable E k f s \<Longrightarrow> fview t = fview s \<Longrightarrow> h_ids s \<le> h_ids t \<Longrightarrow> writable E k f t"
  using used_ids_mono [of "h_ids s" "h_ids t" E "''flt_''"]
  by (auto simp: writable_def fview_def Let_def)

lemma outcome_ok_mono:
  "outcome_ok E k oc s \<Longrightarrow> fview t = fview s \<Longrightarrow> h_ids s \<le> h_ids t \<Longrightarrow> outcome_ok E k oc t"
  by (auto simp: outcome_ok_def intro: writable_mono)

lemma loadFaultTx_Some:
  "loadFaultTx d src key = Some f \<Longrightarrow> f \<in> set (d_faults d) \<and> fkey f = (src, key)"
  by (auto simp: loadFaultTx_def fkey_def dest: find_SomeD)

lemma loadFaultTx_None: "loadFaultTx d src key = None \<longleftrightarrow> (src, key) \<notin> fkey ` set (d_faults d)"
  by (auto simp: loadFaultTx_def fkey_def find_None_set)

lemma loadFaultTx_member:
  assumes "distinct (map fkey (d_faults d))" and "f \<in> set (d_faults d)" and "fkey f = (src, key)"
  shows "loadFaultTx d src key = Some f"
proof -
  have "(\<lambda>r. f_SourceID r = src \<and> f_FaultKey r = key) = (\<lambda>r. fkey r = fkey f)"
    using assms(3) by (auto simp: fkey_def)
  then show ?thesis unfolding loadFaultTx_def using find_unique_key [OF assms(1,2)] by simp
qed

lemma findPendingResolve_None:
  "findPendingResolve d src key q = None \<longleftrightarrow>
     (\<forall>p \<in> set (d_pending d). p_source_id p = src \<longrightarrow> p_fault_key p = key \<longrightarrow> p_seq p \<le> q)"
proof -
  let ?ps = "filter (\<lambda>p. p_source_id p = src \<and> p_fault_key p = key \<and> q < p_seq p) (d_pending d)"
  have "findPendingResolve d src key q = None \<longleftrightarrow> sort_key p_seq ?ps = []"
    by (simp add: findPendingResolve_def split: list.split)
  also have "\<dots> \<longleftrightarrow> set (sort_key p_seq ?ps) = {}" by (simp only: set_empty)
  also have "\<dots> \<longleftrightarrow> (\<forall>p \<in> set (d_pending d). p_source_id p = src \<longrightarrow> p_fault_key p = key \<longrightarrow> \<not> q < p_seq p)"
    by (simp only: set_sort) auto
  finally show ?thesis by (simp add: not_less)
qed

lemma findPendingResolve_Some:
  assumes "findPendingResolve d src key q = Some p"
  shows "p \<in> set (d_pending d) \<and> p_source_id p = src \<and> p_fault_key p = key \<and> q < p_seq p \<and>
    (\<forall>p' \<in> set (d_pending d). p_source_id p' = src \<longrightarrow> p_fault_key p' = key \<longrightarrow> q < p_seq p' \<longrightarrow>
       p_seq p \<le> p_seq p')"
proof -
  let ?ps = "filter (\<lambda>p. p_source_id p = src \<and> p_fault_key p = key \<and> q < p_seq p) (d_pending d)"
  from assms obtain qs where e: "sort_key p_seq ?ps = p # qs"
    by (auto simp: findPendingResolve_def split: list.splits)
  have "set (p # qs) = set ?ps" by (simp only: e [symmetric] set_sort)
  moreover have "sorted (map p_seq (p # qs))" by (simp only: e [symmetric] sorted_sort_key)
  ultimately show ?thesis by auto
qed

lemma fault_wf_merge: "fault_wf f \<Longrightarrow> fault_wf (mergeFaultEvent f ev)"
  by (auto simp: fault_wf_def mergeFaultEvent_def)

lemma fkey_merge [simp]: "fkey (mergeFaultEvent f ev) = fkey f" "f_ID (mergeFaultEvent f ev) = f_ID f"
  by (simp_all add: fkey_def mergeFaultEvent_def)

lemma ghost_free_merge: "ghost_free ps f \<Longrightarrow> ghost_free ps (mergeFaultEvent f ev)"
  by (simp add: ghost_free_def mergeFaultEvent_def)

lemma openStep_new:
  assumes "loadFaultTx (h_db s) src key = None"
    and "i \<notin> f_ID ` set (d_faults (h_db s))" and "i \<in> used_ids E ''flt_'' (h_ids s)"
    and "fo_fault (openStep i src key ev None (findPendingResolve (h_db s) src key (ev_Seq ev))) = Some f"
  shows "writable E (src, key) f s"
proof -
  have k: "(src, key) \<notin> fkey ` set (d_faults (h_db s))" using assms(1) by (simp add: loadFaultTx_None)
  show ?thesis
  proof (cases "findPendingResolve (h_db s) src key (ev_Seq ev)")
    case None
    then have "f = newFaultRow i src key ev" using assms(4) by (simp add: openStep_def Let_def)
    moreover have "ghost_free (d_pending (h_db s)) f"
      using None calculation by (simp add: findPendingResolve_None ghost_free_def newFaultRow_def)
    ultimately show ?thesis
      using assms(2,3) k by (simp add: writable_def fault_wf_def fkey_def newFaultRow_def)
  next
    case (Some p)
    then have "f = (newFaultRow i src key ev)\<lparr>f_State := ''resolved'',
        f_ResolvedAt := Some (p_occurred_at p), f_ResolvedBySeq := Some (p_seq p),
        f_ResolvedBy := Some (p_event_id p)\<rparr>"
      using assms(4) by (simp add: openStep_def Let_def)
    then show ?thesis
      using assms(2,3) k findPendingResolve_Some [OF Some]
      by (simp add: writable_def fault_wf_def fkey_def newFaultRow_def ghost_free_def)
  qed
qed

lemma openStep_old:
  assumes "faults_inv E s" and "loadFaultTx (h_db s) src key = Some f0"
    and "fo_fault (openStep i src key ev (Some f0) (findPendingResolve (h_db s) src key (ev_Seq ev))) = Some f"
  shows "writable E (src, key) f s"
proof -
  have f0: "f0 \<in> set (d_faults (h_db s))" "fkey f0 = (src, key)"
    using loadFaultTx_Some [OF assms(2)] by simp_all
  have wf: "fault_wf f0" "ghost_free (d_pending (h_db s)) f0"
    using assms(1) f0(1) by (auto simp: faults_inv_def Let_def)
  have merge: "writable E (src, key) (mergeFaultEvent f0 ev) s"
    using f0 wf unfolding writable_def Let_def
    by (auto simp: fault_wf_merge ghost_free_merge)
  show ?thesis
  proof (cases "f_State f0 = ''open''")
    case True
    with assms(3) merge show ?thesis by (simp add: openStep_def)
  next
    case closed: False
    show ?thesis
    proof (cases "findPendingResolve (h_db s) src key (ev_Seq ev)")
      case None
      with assms(3) closed f0 wf(1) show ?thesis
        by (auto simp: openStep_def writable_def fault_wf_def fkey_def ghost_free_def
            findPendingResolve_None)
    next
      case (Some p)
      with assms(3) closed merge show ?thesis by (simp add: openStep_def)
    qed
  qed
qed

lemma resolve_writable:
  assumes "faults_inv E s" and "loadFaultTx (h_db s) src key = Some f0" and "covers (Some f0) ev"
  shows "writable E (src, key) (resolveFault f0 ev) s"
proof -
  have f0: "f0 \<in> set (d_faults (h_db s))" "fkey f0 = (src, key)"
    using loadFaultTx_Some [OF assms(2)] by simp_all
  moreover have "fault_wf f0" using assms(1) f0(1) by (auto simp: faults_inv_def Let_def)
  ultimately show ?thesis
    using assms(3)
    by (auto simp: writable_def resolveFault_def fault_wf_def fkey_def ghost_free_def covers_def)
qed

text \<open>A resolve is remembered only when it covers no open round, so it makes no ghost.\<close>

lemma pending_keeps_inv:
  assumes "faults_inv E s" and "\<not> covers (loadFaultTx (h_db s) src key) ev"
  shows "faults_inv E (s\<lparr>h_db := (h_db s)\<lparr>d_pending :=
    ins_ignore pending_key (pending_of src key ev) (d_pending (h_db s))\<rparr>\<rparr>)"
proof -
  have "ghost_free (d_pending (h_db s) @ [pending_of src key ev]) f"
    if f: "f \<in> set (d_faults (h_db s))" "ghost_free (d_pending (h_db s)) f" for f
  proof (cases "fkey f = (src, key)")
    case True
    have "distinct (map fkey (d_faults (h_db s)))" using assms(1) by (simp add: faults_inv_def Let_def)
    from loadFaultTx_member [OF this f(1) True] assms(2) show ?thesis
      using f(2) by (auto simp: ghost_free_def pending_of_def covers_def)
  next
    case False
    with f(2) show ?thesis by (auto simp: ghost_free_def pending_of_def fkey_def)
  qed
  with assms(1) show ?thesis by (auto simp: faults_inv_def ins_ignore_def Let_def)
qed

lemma faultTransition_inv:
  assumes inj: "inj (env_ulid E)"
  shows "hoare (faults_inv E) (faultTransitionTx E src ev key)
    (\<lambda>oc s. faults_inv E s \<and> outcome_ok E (src, key) oc s)"
proof (rule hoareI)
  fix s oc t
  assume inv: "faults_inv E s" and run: "faultTransitionTx E src ev key s = (Inr oc, t)"
  let ?f = "loadFaultTx (h_db s) src key" and ?p = "findPendingResolve (h_db s) src key (ev_Seq ev)"
  let ?act = "case ev_IncidentAction ev of None \<Rightarrow> [] | Some a \<Rightarrow> a"
  consider (new) "?act = ''open'' \<or> ?act = ''update''" "?f = None"
    | (old) f0 where "?act = ''open'' \<or> ?act = ''update''" "?f = Some f0"
    | (res) f0 where "?act = ''resolve''" "covers ?f ev" "?f = Some f0"
    | (pend) "?act = ''resolve''" "\<not> covers ?f ev"
    | (bad) "?act \<noteq> ''open''" "?act \<noteq> ''update''" "?act \<noteq> ''resolve''"
    by (cases ?f) (auto simp: covers_def)
  then show "faults_inv E t \<and> outcome_ok E (src, key) oc t"
  proof cases
    case new
    let ?i = "''flt_'' @ env_ulid E (h_ids s)"
    have t: "t = s\<lparr>h_ids := Suc (h_ids s)\<rparr>" and oc: "oc = openStep ?i src key ev None ?p"
      using run new by (auto simp: faultTransitionTx_def Let_def bindT_def)
    have "?i \<notin> f_ID ` set (d_faults (h_db t))"
      using inv used_ids_fresh [OF inj, of "''flt_''" "h_ids s"] t by (auto simp: faults_inv_def Let_def)
    moreover have "?i \<in> used_ids E ''flt_'' (h_ids t)" using t by (auto simp: used_ids_def)
    ultimately have "outcome_ok E (src, key) oc t"
      using openStep_new [of t src key ?i E ev] new t oc by (auto simp: outcome_ok_def)
    moreover have "faults_inv E t" using inv t by (auto intro: faults_inv_mono simp: fview_def)
    ultimately show ?thesis by simp
  next
    case (old f0)
    then have "t = s" "oc = openStep [] src key ev (Some f0) ?p"
      using run by (auto simp: faultTransitionTx_def Let_def bindT_def)
    then show ?thesis using openStep_old [OF inv old(2)] inv by (auto simp: outcome_ok_def)
  next
    case (res f0)
    then have "t = s" "fo_fault oc = Some (resolveFault f0 ev)"
      using run by (auto simp: faultTransitionTx_def Let_def bindT_def)
    then show ?thesis using resolve_writable [OF inv res(3)] res inv by (auto simp: outcome_ok_def)
  next
    case pend
    then have "t = s\<lparr>h_db := (h_db s)\<lparr>d_pending :=
        ins_ignore pending_key (pending_of src key ev) (d_pending (h_db s))\<rparr>\<rparr>" "\<not> fo_changed oc"
      using run by (auto simp: faultTransitionTx_def Let_def bindT_def thenT_def)
    then show ?thesis using pending_keeps_inv [OF inv pend(2)] by (simp add: outcome_ok_def)
  next
    case bad
    then show ?thesis using run by (auto simp: faultTransitionTx_def Let_def bindT_def)
  qed
qed

lemma upsert_inv:
  "hoare (\<lambda>s. faults_inv E s \<and> writable E k f s) (upsertFaultTx f) (\<lambda>_. faults_inv E)"
proof (rule hoareI)
  fix s x t
  assume a: "faults_inv E s \<and> writable E k f s" and run: "upsertFaultTx f s = (Inr x, t)"
  let ?fs = "d_faults (h_db s)"
  have inv: "\<forall>r \<in> set ?fs. fault_wf r \<and> ghost_free (d_pending (h_db s)) r" "distinct (map f_ID ?fs)"
    "distinct (map fkey ?fs)" "f_ID ` set ?fs \<subseteq> used_ids E ''flt_'' (h_ids s)"
    using a by (simp_all add: faults_inv_def Let_def)
  have w: "fault_wf f" "ghost_free (d_pending (h_db s)) f" "fkey f = k"
    using a by (simp_all add: writable_def Let_def)
  show "faults_inv E t"
  proof (cases "f_ID f \<in> f_ID ` set ?fs")
    case True
    let ?g = "\<lambda>r. f\<lparr>f_SourceID := f_SourceID r, f_FaultKey := f_FaultKey r\<rparr>"
    let ?new = "upd_where (\<lambda>r. f_ID r = f_ID f) ?g ?fs"
    have t: "t = s\<lparr>h_db := (h_db s)\<lparr>d_faults := ?new\<rparr>\<rparr>"
      using run True by (simp add: upsertFaultTx_def bindT_def)
    from a True obtain r0 where r0: "r0 \<in> set ?fs" "f_ID r0 = f_ID f" "fkey r0 = k"
      by (auto simp: writable_def Let_def)
    have same: "?g r = f" if "r \<in> set ?fs" "f_ID r = f_ID f" for r
    proof -
      have "r = r0" using inv(2) that r0 by (metis eq_key_imp_eq_value distinct_map inj_onD)
      then show ?thesis using r0(3) w(3) by (cases f) (auto simp: fkey_def)
    qed
    have "\<forall>r \<in> set ?new. fault_wf r \<and> ghost_free (d_pending (h_db s)) r"
      using inv(1) w same by (auto simp: set_upd_where)
    moreover have "map f_ID ?new = map f_ID ?fs"
      by (simp add: upd_where_def)
    moreover have "map fkey ?new = map fkey ?fs"
      by (simp add: upd_where_def fkey_def)
    ultimately show ?thesis
      using inv(2-4) unfolding t faults_inv_def Let_def by (simp add: image_set [symmetric] del: image_set) (metis list.set_map)
  next
    case False
    with a have nk: "k \<notin> fkey ` set ?fs" "f_ID f \<in> used_ids E ''flt_'' (h_ids s)"
      unfolding writable_def Let_def by (metis imageI)+
    then have "t = s\<lparr>h_db := (h_db s)\<lparr>d_faults := ?fs @ [f]\<rparr>\<rparr>"
      using run False w(3) by (auto simp: upsertFaultTx_def bindT_def split: if_splits)
    then show ?thesis using inv w nk False by (auto simp: faults_inv_def Let_def)
  qed
qed

lemma upsert_quiet_ids: "upsertFaultTx f s = (r, t) \<Longrightarrow> h_ids t = h_ids s"
  by (auto simp: upsertFaultTx_def bindT_def split: if_splits)

lemma storeFault_inv:
  "hoare (\<lambda>s. faults_inv E s \<and> outcome_ok E k oc s) (storeFaultTx E name oc) (\<lambda>_. faults_inv E)"
  unfolding storeFaultTx_def whenT_def
proof (intro hoare_opt hoare_cond)
  fix f assume f: "fo_fault oc = Some f" and c: "fo_changed oc"
  let ?m = "emitChangeTx E ''fault'' (f_ID f) (\<lambda>q. DFault (toFaultJSON (f\<lparr>f_ChangeSeq := q\<rparr>) name)) None"
  have "hoare (\<lambda>s. faults_inv E s \<and> writable E k f s) ?m (\<lambda>_ s. faults_inv E s \<and> writable E k f s)"
    by (rule fquiet_hoare [OF fquiet_emitChangeTx]) (auto intro: faults_inv_mono writable_mono)
  moreover have "hoare (\<lambda>s. faults_inv E s \<and> writable E k f s) (upsertFaultTx (f\<lparr>f_ChangeSeq := q\<rparr>))
      (\<lambda>_. faults_inv E)" for q
    by (rule hoare_pre [OF upsert_inv [of E k]])
      (simp add: writable_def fault_wf_def ghost_free_def fkey_def)
  ultimately have "hoare (\<lambda>s. faults_inv E s \<and> writable E k f s)
      (bindT ?m (\<lambda>q. upsertFaultTx (f\<lparr>f_ChangeSeq := q\<rparr>))) (\<lambda>_. faults_inv E)"
    by (rule hoare_bind)
  then show "hoare (\<lambda>s. faults_inv E s \<and> outcome_ok E k oc s)
      (bindT ?m (\<lambda>q. upsertFaultTx (f\<lparr>f_ChangeSeq := q\<rparr>))) (\<lambda>_. faults_inv E)"
    by (rule hoare_pre) (simp add: outcome_ok_def f c)
qed (auto intro: hoare_ret)

lemma applyEvent_inv:
  assumes "inj (env_ulid E)"
  shows "hoare (faults_inv E) (applyEventTx E src ev internal ooo) (\<lambda>_. faults_inv E)"
proof -
  let ?key = "null_of (ev_FaultKey ev)"
  let ?k = "(s_ID src, the ?key)"
  have tr: "hoare (faults_inv E)
      (case ?key of None \<Rightarrow> retT no_fault | Some key \<Rightarrow> faultTransitionTx E (s_ID src) ev key)
      (\<lambda>oc s. faults_inv E s \<and> outcome_ok E ?k oc s)"
    using faultTransition_inv [OF assms]
    by (cases ?key) (auto intro!: hoare_ret simp: outcome_ok_def no_fault_def)
  have fresh: "hoare (\<lambda>s. faults_inv E s \<and> outcome_ok E ?k oc s) (newID E p)
      (\<lambda>_ s. faults_inv E s \<and> outcome_ok E ?k oc s)" for oc p
    by (rule fquiet_hoare [OF fquiet_newID]) (auto intro: faults_inv_mono outcome_ok_mono)
  have fill: "hoare (faults_inv E)
      (case ?key of None \<Rightarrow> retT () | Some key \<Rightarrow> backfillTx (s_ID src) key oc) (\<lambda>_. faults_inv E)" for oc
    by (cases ?key) (auto intro!: faults_inv_quiet fquiet_backfillTx fq.ret)
  show ?thesis
    unfolding applyEventTx_def Let_def
    by (rule hoare_bind [OF faults_inv_quiet [OF fquiet_nowUTC]]
        hoare_seq [OF faults_inv_quiet [OF fquiet_insert_event_row]]
        hoare_bind [OF tr] hoare_bind [OF fresh] hoare_seq [OF storeFault_inv] hoare_seq [OF fill]
        hoare_bind [OF faults_inv_quiet [OF fquiet_emitChangeTx]]
        faults_inv_quiet fquiet_insert_message_row)+
qed

lemma emitHubEvent_inv:
  assumes "inj (env_ulid E)"
  shows "hoare (faults_inv E) (emitHubEventTx E src k sv fk act t b w) (\<lambda>_. faults_inv E)"
  unfolding emitHubEventTx_def
  by (intro hoare_bind [OF faults_inv_quiet [OF fquiet_nextHubSeqTx]]
      hoare_bind [OF faults_inv_quiet [OF fquiet_newID]] applyEvent_inv assms)

lemma fquiet_mod_sources: "obeys fquiet (mod_db (\<lambda>d. d\<lparr>d_sources := g d\<rparr>))"
  by (rule fquiet_mod_db) simp

lemma touchSourceSeen_inv:
  assumes "inj (env_ulid E)"
  shows "hoare (faults_inv E) (touchSourceSeenTx E src seen) (\<lambda>_. faults_inv E)"
  unfolding touchSourceSeenTx_def Let_def
  by (rule hoare_seq [OF faults_inv_quiet [OF fquiet_mod_sources]]
      hoare_bind [OF faults_inv_quiet [OF fquiet_get_db]]
      hoare_seq [OF hoare_when [OF emitHubEvent_inv [OF assms]]] hoare_ret | assumption)+

end
