(* ===== verification/Samples.thy ===== *)
theory Samples
  imports Store
begin

text \<open>
  Concrete inputs for the witnesses: a freshly initialised hub, an environment whose
  identifiers differ, a device source and events of one fault key.
\<close>

definition empty_db :: hub_db where
  "empty_db = \<lparr>d_meta = (\<lambda>_. None), d_sources = [], d_samples = [], d_raw = [], d_5m = [], d_events = [],
     d_messages = [], d_faults = [], d_pending = [], d_changes = [], d_sessions = [], d_rules = None,
     d_settings = None\<rparr>"

definition hub_start :: hub where
  "hub_start = \<lparr>h_db = empty_db, h_timers = (\<lambda>_. None), h_clk = 0, h_ids = 0, h_out = []\<rparr>"

definition sample_env :: env where
  "sample_env = \<lparr>env_ulid = (\<lambda>k. replicate k CHR ''x''), env_clock = (\<lambda>k. int k * 1000000),
     env_sort = sort_key (\<lambda>x. ev_Seq (snd x))\<rparr>"

definition sample_source :: sourceRow where
  "sample_source =
     \<lparr>s_ID = ''src_1'', s_Name = ''nas'', s_Kind = ''device'', s_Enabled = True, s_KeyHash = ''h'',
      s_KeyPlain = ''k'', s_KeyHint = ''k'', s_MgmtKeyPlain = [], s_MgmtKeyHint = [],
      s_AttachmentBaseURL = None, s_AgentVersion = None, s_AgentOS = None, s_AgentArch = None,
      s_Hostname = None, s_Capabilities = None, s_LastSeenAt = None, s_LastMetricsSeq = 0,
      s_LastEventSeq = 0, s_LastBootTime = None, s_LastSummary = None, s_PrevSample = None,
      s_DeletedAt = None, s_CreatedAt = ''2024-01-01T00:00:00.000Z'',
      s_UpdatedAt = ''2024-01-01T00:00:00.000Z''\<rparr>"

definition sample_event :: "string \<Rightarrow> int \<Rightarrow> string \<Rightarrow> eventPayload" where
  "sample_event i q act =
     \<lparr>ev_EventID = i, ev_Seq = q, ev_Kind = ''agent_note'', ev_OccurredAt = ''2024-01-01T00:00:00.000Z'',
      ev_Severity = ''warning'', ev_FaultKey = Some ''disk'', ev_IncidentAction = Some act,
      ev_Title = ''t'', ev_Body = None, ev_Ref = [], ev_Attachments = []\<rparr>"

lemma inj_sample_env: "inj (env_ulid sample_env)"
  by (rule injI) (simp add: sample_env_def)

lemma changes_wf_empty: "changes_wf empty_db"
  by (simp add: changes_wf_def change_counter_def empty_db_def)

end
