(* ===== verification/FaultSpec.thy ===== *)
theory FaultSpec
  imports Fault Samples
begin

text \<open>
  What the fault state machine promises, and that \<^verbatim>\<open>hub/fault.go\<close> implements it.  The
  abstract machine knows, for one fault key, the current round and the sequence numbers
  of the resolves that were recorded as pending.
\<close>

section \<open>The abstract machine\<close>

text \<open>No fault yet; an open round (its number, its opening seq); a resolved round
  (number, opening seq, resolving seq).\<close>

datatype round = AbsentR | OpenR int int | ResolvedR int int int

datatype faultAction = Raise | Clear

definition later :: "int set \<Rightarrow> int \<Rightarrow> int set" where
  "later P q = Set.filter (\<lambda>p. q < p) P"

fun fsm_step :: "faultAction \<Rightarrow> int \<Rightarrow> round \<times> int set \<Rightarrow> round \<times> int set" where
  "fsm_step Raise q (AbsentR, P) =
     (if later P q = {} then OpenR 1 q else ResolvedR 1 q (Min (later P q)), P)"
| "fsm_step Raise q (OpenR n o', P) = (OpenR n o', P)"
| "fsm_step Raise q (ResolvedR n o' r, P) =
     (if later P q = {} then OpenR (n + 1) q else ResolvedR n o' r, P)"
| "fsm_step Clear q (OpenR n o', P) =
     (if o' < q then (ResolvedR n o' q, P) else (OpenR n o', insert q P))"
| "fsm_step Clear q (AbsentR, P) = (AbsentR, insert q P)"
| "fsm_step Clear q (ResolvedR n o' r, P) = (ResolvedR n o' r, insert q P)"

definition action_of :: "eventPayload \<Rightarrow> faultAction option" where
  "action_of ev =
     (case ev_IncidentAction ev of
        None \<Rightarrow> None
      | Some a \<Rightarrow> if a = ''open'' \<or> a = ''update'' then Some Raise
                  else if a = ''resolve'' then Some Clear else None)"

section \<open>What the database says about a key\<close>

definition round_of :: "faultRow option \<Rightarrow> round" where
  "round_of f =
     (case f of None \<Rightarrow> AbsentR
      | Some f0 \<Rightarrow>
          if f_State f0 = ''open'' then OpenR (f_Incident f0) (f_OpenedBySeq f0)
          else ResolvedR (f_Incident f0) (f_OpenedBySeq f0)
                 (case f_ResolvedBySeq f0 of None \<Rightarrow> 0 | Some r \<Rightarrow> r))"

definition pend_at :: "pendingRow list \<Rightarrow> string \<times> string \<Rightarrow> int set" where
  "pend_at ps k = p_seq ` Set.filter (\<lambda>p. (p_source_id p, p_fault_key p) = k) (set ps)"

definition abs_at :: "hub_db \<Rightarrow> string \<times> string \<Rightarrow> round \<times> int set" where
  "abs_at d k = (round_of (loadFaultTx d (fst k) (snd k)), pend_at (d_pending d) k)"

lemma finite_pend_at [simp]: "finite (pend_at ps k)"
  by (simp add: pend_at_def)

lemma loadFaultTx_find: "loadFaultTx d (fst k) (snd k) = find (\<lambda>r. fkey r = k) (d_faults d)"
  unfolding loadFaultTx_def fkey_def by (rule arg_cong2 [of _ _ _ _ find]) auto

lemma abs_at_fview: "fview t = fview s \<Longrightarrow> abs_at (h_db t) k = abs_at (h_db s) k"
  by (simp add: abs_at_def fview_def loadFaultTx_def)

lemma later_pend_None:
  "findPendingResolve d src key q = None \<longleftrightarrow> later (pend_at (d_pending d) (src, key)) q = {}"
  by (auto simp: findPendingResolve_None later_def pend_at_def not_less)

lemma later_pend_Some:
  assumes "findPendingResolve d src key q = Some p"
  shows "later (pend_at (d_pending d) (src, key)) q \<noteq> {} \<and>
    Min (later (pend_at (d_pending d) (src, key)) q) = p_seq p"
proof -
  let ?L = "later (pend_at (d_pending d) (src, key)) q"
  note p = findPendingResolve_Some [OF assms]
  have "p_seq p \<in> ?L" using p by (auto simp: later_def pend_at_def)
  moreover have "p_seq p \<le> x" if "x \<in> ?L" for x using that p by (auto simp: later_def pend_at_def)
  ultimately show ?thesis by (auto intro!: Min_eqI simp: later_def)
qed

section \<open>Refinement\<close>

lemma openStep_round:
  assumes "f = loadFaultTx d src key" and "\<And>g. f = Some g \<Longrightarrow> fault_wf g"
  shows "round_of (fo_fault (openStep i src key ev f (findPendingResolve d src key (ev_Seq ev)))) =
    fst (fsm_step Raise (ev_Seq ev) (round_of f, pend_at (d_pending d) (src, key)))"
proof (cases "findPendingResolve d src key (ev_Seq ev)")
  case None
  then show ?thesis
    by (cases f) (auto simp: openStep_def round_of_def newFaultRow_def mergeFaultEvent_def Let_def
        later_pend_None [symmetric])
next
  case (Some p)
  then show ?thesis using later_pend_Some [OF Some]
    by (cases f) (auto simp: openStep_def round_of_def newFaultRow_def mergeFaultEvent_def Let_def)
qed

lemma pend_at_snoc:
  "pend_at (ps @ [p]) k =
     (if (p_source_id p, p_fault_key p) = k then insert (p_seq p) (pend_at ps k) else pend_at ps k)"
proof -
  have "Set.filter Q (set (ps @ [p])) =
      (if Q p then insert p (Set.filter Q (set ps)) else Set.filter Q (set ps))" for Q
    by auto
  then show ?thesis by (simp add: pend_at_def)
qed

lemma pend_at_ignore:
  "pend_at (ins_ignore pending_key (pending_of src key ev) ps) k =
     (if k = (src, key) then insert (ev_Seq ev) (pend_at ps k) else pend_at ps k)"
proof (cases "(src, key, ev_Seq ev) \<in> pending_key ` set ps")
  case True
  then have "ev_Seq ev \<in> pend_at ps (src, key)"
    by (auto simp: pending_key_def pend_at_def intro!: image_eqI)
  then show ?thesis using True by (auto simp: ins_ignore_def pending_key_def pending_of_def)
next
  case False
  then have "ins_ignore pending_key (pending_of src key ev) ps = ps @ [pending_of src key ev]"
    by (simp add: ins_ignore_def pending_key_def pending_of_def)
  then show ?thesis by (simp add: pend_at_snoc pending_of_def)
qed

text \<open>The three ways through the transition.\<close>

lemma faultTransition_Raise:
  assumes "action_of ev = Some Raise"
  shows "faultTransitionTx E src ev key s =
    (let f = loadFaultTx (h_db s) src key in
     (Inr (openStep (if f = None then ''flt_'' @ env_ulid E (h_ids s) else []) src key ev f
        (findPendingResolve (h_db s) src key (ev_Seq ev))),
      if f = None then s\<lparr>h_ids := Suc (h_ids s)\<rparr> else s))"
proof -
  from assms obtain a where "ev_IncidentAction ev = Some a" "a = ''open'' \<or> a = ''update''"
    by (auto simp: action_of_def split: option.splits if_splits)
  then show ?thesis by (auto simp: faultTransitionTx_def Let_def bindT_def)
qed

lemma faultTransition_Clear:
  assumes "action_of ev = Some Clear"
  shows "faultTransitionTx E src ev key s =
    (let f = loadFaultTx (h_db s) src key in
     if covers f ev then
       (Inr \<lparr>fo_fault = map_option (\<lambda>f0. resolveFault f0 ev) f, fo_incident = map_option f_Incident f,
             fo_notify = ''incident_resolved'', fo_changed = True\<rparr>, s)
     else
       (Inr \<lparr>fo_fault = f, fo_incident = None, fo_notify = [], fo_changed = False\<rparr>,
        s\<lparr>h_db := (h_db s)\<lparr>d_pending :=
          ins_ignore pending_key (pending_of src key ev) (d_pending (h_db s))\<rparr>\<rparr>))"
proof -
  from assms have "ev_IncidentAction ev = Some ''resolve''"
    by (auto simp: action_of_def split: option.splits if_splits)
  then show ?thesis by (auto simp: faultTransitionTx_def Let_def bindT_def thenT_def)
qed

lemma faultTransition_None:
  assumes "action_of ev = None"
  shows "\<exists>e. faultTransitionTx E src ev key s = (Inl e, s)"
  using assms
  by (cases "ev_IncidentAction ev")
    (auto simp: faultTransitionTx_def action_of_def Let_def bindT_def split: if_splits)

text \<open>The transition computes the next round and keeps the table of faults.\<close>

lemma faultTransition_abs:
  assumes run: "faultTransitionTx E src ev key s = (Inr oc, t)" and inv: "faults_inv E s"
  shows "\<exists>act. action_of ev = Some act \<and> d_faults (h_db t) = d_faults (h_db s) \<and>
    (if fo_changed oc then round_of (fo_fault oc) else fst (abs_at (h_db s) (src, key)))
      = fst (fsm_step act (ev_Seq ev) (abs_at (h_db s) (src, key))) \<and>
    (\<forall>k. pend_at (d_pending (h_db t)) k =
       (if k = (src, key) then snd (fsm_step act (ev_Seq ev) (abs_at (h_db s) k)) else pend_at (d_pending (h_db s)) k))"
proof -
  let ?f = "loadFaultTx (h_db s) src key"
  have wf: "fault_wf g" if "?f = Some g" for g
    using inv loadFaultTx_Some [OF that] by (auto simp: faults_inv_def Let_def)
  consider (raise) "action_of ev = Some Raise"
    | (clear) "action_of ev = Some Clear" "covers ?f ev"
    | (pend) "action_of ev = Some Clear" "\<not> covers ?f ev" | (bad) "action_of ev = None"
    by (metis (full_types) faultAction.exhaust not_None_eq)
  then show ?thesis
  proof cases
    case raise
    define i where "i = (if ?f = None then ''flt_'' @ env_ulid E (h_ids s) else [])"
    have "oc = openStep i src key ev ?f (findPendingResolve (h_db s) src key (ev_Seq ev))"
      "h_db t = h_db s"
      using run unfolding faultTransition_Raise [OF raise] Let_def i_def by auto
    moreover have "fo_changed oc" using calculation
      by (auto simp: openStep_def Let_def split: option.splits)
    moreover have "snd (fsm_step Raise q (x, P)) = P" for q x P by (cases x) simp_all
    ultimately show ?thesis
      using raise openStep_round [OF refl wf, where i = i and ev = ev] by (simp add: abs_at_def)
  next
    case clear
    then obtain g where g: "?f = Some g" "f_State g = ''open''" "f_OpenedBySeq g < ev_Seq ev"
      by (auto simp: covers_def split: option.splits)
    then have "t = s" "oc = \<lparr>fo_fault = Some (resolveFault g ev), fo_incident = Some (f_Incident g),
        fo_notify = ''incident_resolved'', fo_changed = True\<rparr>"
      using run clear by (simp_all add: faultTransition_Clear Let_def)
    then show ?thesis using clear(1) g by (simp add: abs_at_def round_of_def resolveFault_def)
  next
    case pend
    then have t: "t = s\<lparr>h_db := (h_db s)\<lparr>d_pending :=
        ins_ignore pending_key (pending_of src key ev) (d_pending (h_db s))\<rparr>\<rparr>" "\<not> fo_changed oc"
      using run by (auto simp: faultTransition_Clear Let_def)
    have "fsm_step Clear (ev_Seq ev) (round_of ?f, P) = (round_of ?f, insert (ev_Seq ev) P)" for P
      using pend(2) by (auto simp: round_of_def covers_def split: option.splits)
    then show ?thesis using pend(1) t by (simp add: abs_at_def pend_at_ignore)
  next
    case bad
    from faultTransition_None [OF this, of E src key s] run show ?thesis by auto
  qed
qed

lemma faultTransition_changed:
  assumes "faultTransitionTx E src ev key s = (Inr oc, t)" and "fo_changed oc"
  shows "fo_fault oc \<noteq> None"
proof (cases "action_of ev")
  case None
  from faultTransition_None [OF this, of E src key s] assms show ?thesis by auto
next
  case (Some act)
  show ?thesis
  proof (cases act)
    case Raise
    have "fo_fault (openStep i src key ev f p) \<noteq> None" for i f p
      by (auto simp: openStep_def Let_def split: option.splits)
    with assms(1) Some Raise show ?thesis by (auto simp: faultTransition_Raise Let_def)
  next
    case Clear
    with assms Some show ?thesis
      by (auto simp: faultTransition_Clear Let_def covers_def split: if_splits option.splits)
  qed
qed

text \<open>Writing a writable row replaces the row of its key and no other.\<close>

lemma upsert_find:
  assumes "faults_inv E s" and "writable E k f s" and "upsertFaultTx f s = (Inr x, t)"
  shows "find (\<lambda>r. fkey r = k') (d_faults (h_db t)) =
    (if k' = k then Some f else find (\<lambda>r. fkey r = k') (d_faults (h_db s)))"
proof -
  let ?fs = "d_faults (h_db s)"
  have inv: "distinct (map f_ID ?fs)" "distinct (map fkey ?fs)"
    using assms(1) by (simp_all add: faults_inv_def Let_def)
  have k: "fkey f = k" using assms(2) by (simp add: writable_def Let_def)
  show ?thesis
  proof (cases "f_ID f \<in> f_ID ` set ?fs")
    case True
    let ?g = "\<lambda>r. f\<lparr>f_SourceID := f_SourceID r, f_FaultKey := f_FaultKey r\<rparr>"
    from assms(2) True obtain r0 where r0: "r0 \<in> set ?fs" "f_ID r0 = f_ID f" "fkey r0 = k"
      by (auto simp: writable_def Let_def)
    have "?g r0 = f" using r0(3) k by (cases f) (auto simp: fkey_def)
    have "d_faults (h_db t) = upd_where (\<lambda>r. f_ID r = f_ID f) ?g ?fs"
      using assms(3) True by (auto simp: upsertFaultTx_def bindT_def)
    then have e: "find (\<lambda>r. fkey r = k') (d_faults (h_db t)) =
        map_option (\<lambda>r. if f_ID r = f_ID f then ?g r else r) (find (\<lambda>r. fkey r = k') ?fs)"
      by (simp add: find_upd_where fkey_def)
    show ?thesis
    proof (cases "k' = k")
      case True
      have "find (\<lambda>r. fkey r = k') ?fs = Some r0"
        using find_unique_key [OF inv(2) r0(1)] r0(3) True by simp
      then show ?thesis using e True r0(2) \<open>?g r0 = f\<close> by simp
    next
      case False
      have "f_ID r \<noteq> f_ID f" if "find (\<lambda>r. fkey r = k') ?fs = Some r" for r
        using find_SomeD [OF that] False r0 inv(1) by (metis distinct_map inj_onD)
      then show ?thesis using e False by (cases "find (\<lambda>r. fkey r = k') ?fs") auto
    qed
  next
    case False
    with assms(2) have nk: "k \<notin> fkey ` set ?fs"
      unfolding writable_def Let_def by (metis imageI)
    then have "d_faults (h_db t) = ?fs @ [f]"
      using assms(3) False k by (auto simp: upsertFaultTx_def bindT_def fkey_def split: if_splits)
    moreover have "find (\<lambda>r. fkey r = k) ?fs = None" using nk by (auto simp: find_None_set)
    ultimately show ?thesis using k by (cases "k' = k") (simp_all add: find_append split: option.split)
  qed
qed

text \<open>The part of \<open>applyEventTx\<close> that moves the fault, step by step.\<close>

lemma storeFault_abs:
  assumes inv: "faults_inv E s" and ok: "outcome_ok E k oc s"
    and run: "storeFaultTx E name oc s = (Inr x, t)"
  shows "round_of (find (\<lambda>r. fkey r = k') (d_faults (h_db t))) =
      (if k' = k \<and> fo_changed oc \<and> fo_fault oc \<noteq> None then round_of (fo_fault oc)
       else round_of (find (\<lambda>r. fkey r = k') (d_faults (h_db s)))) \<and>
    d_pending (h_db t) = d_pending (h_db s)"
proof (cases "\<exists>f. fo_fault oc = Some f \<and> fo_changed oc")
  case False
  with run show ?thesis by (auto simp: storeFaultTx_def whenT_def split: option.splits if_splits)
next
  case True
  then obtain f where f: "fo_fault oc = Some f" "fo_changed oc" by blast
  let ?m = "emitChangeTx E ''fault'' (f_ID f) (\<lambda>q. DFault (toFaultJSON (f\<lparr>f_ChangeSeq := q\<rparr>) name)) None"
  from run f obtain q u where m: "?m s = (Inr q, u)" and up: "upsertFaultTx (f\<lparr>f_ChangeSeq := q\<rparr>) u = (Inr x, t)"
    by (auto simp: storeFaultTx_def whenT_def bindT_Inr_iff)
  have q: "fview u = fview s" "h_ids s \<le> h_ids u"
    using obeysD [OF fquiet_emitChangeTx m] by (simp_all add: fquiet_def)
  have inv': "faults_inv E u" using faults_inv_mono [OF inv q] .
  have w: "writable E k (f\<lparr>f_ChangeSeq := q\<rparr>) u"
    using writable_mono [OF _ q, of E k f] ok f
    by (simp add: outcome_ok_def writable_def fault_wf_def ghost_free_def fkey_def)
  have "d_pending (h_db t) = d_pending (h_db u)"
    using up by (auto simp: upsertFaultTx_def bindT_def split: if_splits)
  then show ?thesis
    using upsert_find [OF inv' w up, of k'] f q(1) by (simp add: fview_def round_of_def)
qed

lemma applyEvent_steps:
  assumes "applyEventTx E src ev internal ooo s = (Inr x, t)"
  obtains s1 oc s2 s3 s4 y where
    "fquiet s s1" "(case null_of (ev_FaultKey ev) of None \<Rightarrow> retT no_fault
       | Some key \<Rightarrow> faultTransitionTx E (s_ID src) ev key) s1 = (Inr oc, s2)"
    "fquiet s2 s3" "storeFaultTx E (s_Name src) oc s3 = (Inr y, s4)" "fquiet s4 t"
proof -
  let ?tr = "case null_of (ev_FaultKey ev) of None \<Rightarrow> retT no_fault
       | Some key \<Rightarrow> faultTransitionTx E (s_ID src) ev key"
  let ?pre = "bindT (nowUTC E) (\<lambda>now. thenT (insert_event_row (event_row (s_ID src) ev internal ooo now)) (retT now))"
  define rest where "rest = (\<lambda>now oc mid. thenT
      (case null_of (ev_FaultKey ev) of None \<Rightarrow> retT () | Some key \<Rightarrow> backfillTx (s_ID src) key oc)
      (bindT (emitChangeTx E ''message'' mid
          (\<lambda>q. DMessage (toMessageJSON ((message_row mid (s_ID src) ev internal ooo now oc)\<lparr>m_ChangeSeq := q\<rparr>) (s_Name src)))
          (Some (notify_of oc)))
        (\<lambda>q. insert_message_row ((message_row mid (s_ID src) ev internal ooo now oc)\<lparr>m_ChangeSeq := q\<rparr>))))"
  have rest: "obeys fquiet (rest now oc mid)" for now oc mid
    unfolding rest_def by (intro fq.intros fquiet_backfillTx fquiet_emitChangeTx fquiet_insert_message_row)
  from assms obtain now s1 oc s2 mid s3 s4 y where
    "?pre s = (Inr now, s1)" "?tr s1 = (Inr oc, s2)" "newID E ''msg_'' s2 = (Inr mid, s3)"
    "storeFaultTx E (s_Name src) oc s3 = (Inr y, s4)" "rest now oc mid s4 = (Inr x, t)"
    unfolding applyEventTx_def Let_def rest_def
    by (auto simp: bindT_Inr_iff thenT_Inr_iff simp del: nowUTC_run newID_run)
  moreover have "obeys fquiet ?pre"
    by (intro fq.intros fquiet_nowUTC fquiet_insert_event_row)
  ultimately show ?thesis
    by (intro that) (auto intro: obeysD rest fquiet_newID)
qed

lemma applyEvent_abs:
  assumes inj: "inj (env_ulid E)" and inv: "faults_inv E s"
    and run: "applyEventTx E src ev internal ooo s = (Inr x, t)"
    and key: "null_of (ev_FaultKey ev) = Some key"
  shows "\<exists>act. action_of ev = Some act \<and>
    (\<forall>k. abs_at (h_db t) k =
      (if k = (s_ID src, key) then fsm_step act (ev_Seq ev) (abs_at (h_db s) k) else abs_at (h_db s) k))"
proof -
  from applyEvent_steps [OF run] obtain s1 oc s2 s3 s4 y where
    q1: "fquiet s s1" and tr: "faultTransitionTx E (s_ID src) ev key s1 = (Inr oc, s2)"
    and q2: "fquiet s2 s3" and st: "storeFaultTx E (s_Name src) oc s3 = (Inr y, s4)" and q3: "fquiet s4 t"
    using key by (metis option.simps(5))
  have inv1: "faults_inv E s1" using q1 inv by (auto simp: fquiet_def intro: faults_inv_mono)
  from hoareD [OF faultTransition_inv [OF inj] inv1 tr]
  have "faults_inv E s2" "outcome_ok E (s_ID src, key) oc s2" by simp_all
  then have inv3: "faults_inv E s3" and ok3: "outcome_ok E (s_ID src, key) oc s3"
    using q2 by (auto simp: fquiet_def intro: faults_inv_mono outcome_ok_mono)
  from faultTransition_abs [OF tr inv1] obtain act where act: "action_of ev = Some act"
    "d_faults (h_db s2) = d_faults (h_db s1)"
    "(if fo_changed oc then round_of (fo_fault oc) else fst (abs_at (h_db s1) (s_ID src, key)))
      = fst (fsm_step act (ev_Seq ev) (abs_at (h_db s1) (s_ID src, key)))"
    "\<And>k. pend_at (d_pending (h_db s2)) k =
       (if k = (s_ID src, key) then snd (fsm_step act (ev_Seq ev) (abs_at (h_db s1) k))
        else pend_at (d_pending (h_db s1)) k)" by blast
  note chg = faultTransition_changed [OF tr]
  have "abs_at (h_db t) k = (if k = (s_ID src, key) then fsm_step act (ev_Seq ev) (abs_at (h_db s1) k)
      else abs_at (h_db s1) k)" for k
  proof -
    let ?k = "(s_ID src, key)"
    have t: "abs_at (h_db t) k = (round_of (find (\<lambda>r. fkey r = k) (d_faults (h_db s4))),
        pend_at (d_pending (h_db s4)) k)"
      using q3 by (simp add: abs_at_def loadFaultTx_find fquiet_def fview_def)
    have s4: "d_pending (h_db s4) = d_pending (h_db s2)" and s3: "d_faults (h_db s3) = d_faults (h_db s1)"
      using storeFault_abs [OF inv3 ok3 st, of k] q2 act(2) by (simp_all add: fquiet_def fview_def)
    have s1: "abs_at (h_db s1) k = (round_of (find (\<lambda>r. fkey r = k) (d_faults (h_db s1))),
        pend_at (d_pending (h_db s1)) k)"
      by (simp add: abs_at_def loadFaultTx_find)
    note r = storeFault_abs [OF inv3 ok3 st, of k, THEN conjunct1, unfolded s3]
    show ?thesis
    proof (cases "k = ?k")
      case True
      have "fst (abs_at (h_db t) k) = fst (fsm_step act (ev_Seq ev) (abs_at (h_db s1) k))"
        using r act(3) chg s1 t unfolding True by (cases "fo_changed oc") simp_all
      moreover have "snd (abs_at (h_db t) k) = snd (fsm_step act (ev_Seq ev) (abs_at (h_db s1) k))"
        using act(4) [of k] True unfolding t s4 by simp
      ultimately show ?thesis unfolding True by (simp add: prod_eq_iff)
    next
      case False
      with r act(4) [of k] show ?thesis unfolding t s4 s1 by simp
    qed
  qed
  moreover have "abs_at (h_db s1) k = abs_at (h_db s) k" for k
    using q1 by (intro abs_at_fview) (simp add: fquiet_def)
  ultimately show ?thesis using act(1) by (intro exI [of _ act]) simp
qed

section \<open>Valid events are applied\<close>

text \<open>The messages carry identifiers the hub has drawn.\<close>

definition messages_inv :: "env \<Rightarrow> hub \<Rightarrow> bool" where
  "messages_inv E s \<longleftrightarrow> distinct (map m_ID (d_messages (h_db s))) \<and>
     m_ID ` set (d_messages (h_db s)) \<subseteq> used_ids E ''msg_'' (h_ids s)"

definition mquiet :: "hub \<Rightarrow> hub \<Rightarrow> bool" where
  "mquiet s t \<longleftrightarrow> map m_ID (d_messages (h_db t)) = map m_ID (d_messages (h_db s)) \<and> h_ids s \<le> h_ids t"

interpretation mq: tx_rel mquiet
  by unfold_locales (auto simp: mquiet_def)

lemma mquiet_mod_db:
  "(\<And>d. map m_ID (d_messages (f d)) = map m_ID (d_messages d)) \<Longrightarrow> obeys mquiet (mod_db f)"
  by (rule obeysI) (simp add: mquiet_def)

lemma mquiet_get_db: "obeys mquiet (get_db f)"
  by (rule obeysI) (simp add: mquiet_def)

lemma mquiet_nowUTC: "obeys mquiet (nowUTC E)"
  by (rule obeysI) (simp add: mquiet_def)

lemma mquiet_newID: "obeys mquiet (newID E p)"
  by (rule obeysI) (simp add: mquiet_def)

lemma mquiet_push_change: "obeys mquiet (push_change e)"
  by (rule obeysI) (simp add: mquiet_def push_change_def)

lemmas mquiet_base =
  mq.intros mquiet_get_db mquiet_nowUTC mquiet_newID mquiet_push_change mquiet_mod_db

lemma mquiet_emitChangeTx: "obeys mquiet (emitChangeTx E typ i mk nb)"
  unfolding emitChangeTx_def insertChangeObj_def nextChangeSeq_def insert_change_row_def
  by (intro mquiet_base) simp_all

lemma mquiet_insert_event_row: "obeys mquiet (insert_event_row r)"
  unfolding insert_event_row_def by (intro mquiet_base) simp_all

lemma mquiet_faultTransitionTx: "obeys mquiet (faultTransitionTx E src ev key)"
  unfolding faultTransitionTx_def Let_def by (intro mquiet_base) simp_all

lemma mquiet_storeFaultTx: "obeys mquiet (storeFaultTx E name oc)"
  unfolding storeFaultTx_def upsertFaultTx_def
  by (intro mquiet_base mquiet_emitChangeTx) simp_all

lemma mquiet_backfillTx: "obeys mquiet (backfillTx src key oc)"
  unfolding backfillTx_def
  by (auto intro!: mq.ret mquiet_mod_db map_upd_where split: option.split bool.split)

lemma mquiet_nextHubSeqTx: "obeys mquiet nextHubSeqTx"
  unfolding nextHubSeqTx_def by (intro mquiet_base) simp_all

text \<open>Everything a transaction relies on.\<close>

definition hub_inv :: "env \<Rightarrow> hub \<Rightarrow> bool" where
  "hub_inv E s \<longleftrightarrow> changes_wf (h_db s) \<and> faults_inv E s \<and> messages_inv E s"

lemma messages_inv_mono: "messages_inv E s \<Longrightarrow> mquiet s t \<Longrightarrow> messages_inv E t"
  using used_ids_mono [of "h_ids s" "h_ids t" E "''msg_''"]
  by (auto simp: messages_inv_def mquiet_def simp del: set_map simp flip: set_map)

lemma hub_inv_quiet:
  assumes "obeys logged m" "obeys fquiet m" "obeys mquiet m" "hub_inv E s" "m s = (r, t)"
  shows "hub_inv E t"
proof -
  have "changes_wf (h_db t)" using obeysD [OF assms(1,5)] assms(4) by (simp add: logged_def hub_inv_def)
  moreover have "faults_inv E t"
    using obeysD [OF assms(2,5)] assms(4) by (auto simp: fquiet_def hub_inv_def intro: faults_inv_mono)
  moreover have "messages_inv E t"
    using obeysD [OF assms(3,5)] assms(4) by (auto simp: hub_inv_def intro: messages_inv_mono)
  ultimately show ?thesis by (simp add: hub_inv_def)
qed

text \<open>The identifier drawn for the message is free until the row is written.\<close>

definition msg_free :: "string \<Rightarrow> hub \<Rightarrow> bool" where
  "msg_free i s \<longleftrightarrow> i \<notin> m_ID ` set (d_messages (h_db s))"

lemma msg_free_quiet: "msg_free i s \<Longrightarrow> mquiet s t \<Longrightarrow> msg_free i t"
  by (metis list.set_map mquiet_def msg_free_def)

lemma faultTransition_total:
  assumes "action_of ev \<noteq> None"
  shows "\<exists>oc t. faultTransitionTx E src ev key s = (Inr oc, t)"
proof -
  obtain act where act: "action_of ev = Some act" using assms by auto
  show ?thesis
  proof (cases act)
    case Raise
    then show ?thesis using act by (simp add: faultTransition_Raise Let_def)
  next
    case Clear
    then show ?thesis using act by (simp add: faultTransition_Clear Let_def)
  qed
qed

lemma storeFault_total:
  assumes "changes_wf (h_db s)" and "faults_inv E s" and "outcome_ok E k oc s"
  shows "\<exists>x t. storeFaultTx E name oc s = (Inr x, t)"
proof (cases "\<exists>f. fo_fault oc = Some f \<and> fo_changed oc")
  case False
  then show ?thesis by (auto simp: storeFaultTx_def whenT_def split: option.splits)
next
  case True
  then obtain f where f: "fo_fault oc = Some f" "fo_changed oc" by blast
  let ?m = "emitChangeTx E ''fault'' (f_ID f) (\<lambda>q. DFault (toFaultJSON (f\<lparr>f_ChangeSeq := q\<rparr>) name)) None"
  obtain q u where m: "?m s = (Inr q, u)" using emitChangeTx_run [OF assms(1)] by (auto simp: Let_def)
  have v: "fview u = fview s" "h_ids s \<le> h_ids u"
    using obeysD [OF fquiet_emitChangeTx m] by (simp_all add: fquiet_def)
  have "writable E k f u" using writable_mono [OF _ v] assms(3) f by (simp add: outcome_ok_def)
  then have "\<exists>x t. upsertFaultTx (f\<lparr>f_ChangeSeq := q\<rparr>) u = (Inr x, t)"
    by (auto simp: upsertFaultTx_def bindT_def writable_def Let_def fkey_def image_iff) metis
  with m f show ?thesis by (auto simp: storeFaultTx_def whenT_def bindT_def)
qed

lemma insert_message_total: "msg_free (m_ID r) s \<Longrightarrow> \<exists>x t. insert_message_row r s = (Inr x, t)"
  by (simp add: insert_message_row_def bindT_def msg_free_def)

text \<open>An event whose identifier is new for its source and whose action is valid.\<close>

definition applicable :: "hub \<Rightarrow> string \<Rightarrow> eventPayload \<Rightarrow> bool" where
  "applicable s i ev \<longleftrightarrow>
     (\<forall>x \<in> set (d_events (h_db s)). \<not> (e_source_id x = i \<and> e_event_id x = ev_EventID ev)) \<and>
     (null_of (ev_FaultKey ev) \<noteq> None \<longrightarrow> action_of ev \<noteq> None)"

lemma insert_event_total:
  "applicable s i ev \<Longrightarrow> \<exists>x t. insert_event_row (event_row i ev internal ooo now) s = (Inr x, t)"
  by (auto simp: applicable_def insert_event_row_def bindT_def event_row_def)

lemma newID_msg_free:
  assumes "inj (env_ulid E)" and "messages_inv E s" and "newID E ''msg_'' s = (Inr i, t)"
  shows "msg_free i t \<and> i \<in> used_ids E ''msg_'' (h_ids t)"
proof -
  have i: "i = ''msg_'' @ env_ulid E (h_ids s)" and t: "t = s\<lparr>h_ids := Suc (h_ids s)\<rparr>"
    using assms(3) by simp_all
  have "i \<notin> used_ids E ''msg_'' (h_ids s)" using used_ids_fresh [OF assms(1)] i by metis
  then have "msg_free i t" using assms(2) t by (auto simp: msg_free_def messages_inv_def)
  moreover have "i \<in> used_ids E ''msg_'' (h_ids t)" using i t by (auto simp: used_ids_def)
  ultimately show ?thesis by simp
qed

lemma insert_message_inv:
  assumes "hub_inv E s" and "msg_free (m_ID r) s" and "m_ID r \<in> used_ids E ''msg_'' (h_ids s)"
    and "insert_message_row r s = (Inr x, t)"
  shows "hub_inv E t"
proof -
  have t: "t = s\<lparr>h_db := (h_db s)\<lparr>d_messages := d_messages (h_db s) @ [r]\<rparr>\<rparr>"
    using assms(2,4) by (simp add: insert_message_row_def bindT_def msg_free_def)
  have "faults_inv E t" using assms(1) t by (auto simp: hub_inv_def fview_def intro: faults_inv_mono)
  moreover have "messages_inv E t"
    using assms(1-3) t by (auto simp: hub_inv_def messages_inv_def msg_free_def)
  moreover have "changes_wf (h_db t)"
    using assms(1) t by (simp add: hub_inv_def changes_wf_def change_counter_def)
  ultimately show ?thesis by (simp add: hub_inv_def)
qed

text \<open>The invariant between the steps of \<open>applyEventTx\<close>, once the outcome is known.\<close>

lemma fault_move_inv:
  assumes inj: "inj (env_ulid E)" and inv: "hub_inv E s"
    and run: "faultTransitionTx E src ev key s = (Inr oc, t)"
  shows "hub_inv E t \<and> outcome_ok E (src, key) oc t"
proof -
  have "faults_inv E t \<and> outcome_ok E (src, key) oc t"
    using hoareD [OF faultTransition_inv [OF inj] _ run] inv by (simp add: hub_inv_def)
  moreover have "changes_wf (h_db t)"
    using obeysD [OF logged_faultTransitionTx run] inv by (simp add: logged_def hub_inv_def)
  moreover have "messages_inv E t"
    using obeysD [OF mquiet_faultTransitionTx run] inv by (auto simp: hub_inv_def intro: messages_inv_mono)
  ultimately show ?thesis by (simp add: hub_inv_def)
qed

lemma storeFault_step:
  assumes inv: "hub_inv E s" and ok: "outcome_ok E k oc s"
  shows "\<exists>x t. storeFaultTx E name oc s = (Inr x, t) \<and> hub_inv E t \<and> mquiet s t"
proof -
  obtain x t where run: "storeFaultTx E name oc s = (Inr x, t)"
    using storeFault_total [OF _ _ ok] inv by (auto simp: hub_inv_def)
  have "faults_inv E t" using hoareD [OF storeFault_inv _ run] inv ok by (simp add: hub_inv_def)
  moreover have "changes_wf (h_db t)"
    using obeysD [OF logged_storeFaultTx run] inv by (simp add: logged_def hub_inv_def)
  moreover have mq: "mquiet s t" using obeysD [OF mquiet_storeFaultTx run] .
  ultimately show ?thesis using run inv by (auto simp: hub_inv_def intro: messages_inv_mono)
qed

lemma outcome_ok_quiet: "outcome_ok E k oc s \<Longrightarrow> fquiet s t \<Longrightarrow> outcome_ok E k oc t"
  by (auto simp: fquiet_def intro: outcome_ok_mono)

lemma backfillTx_total: "\<exists>t. backfillTx src key oc s = (Inr (), t)"
  by (auto simp: backfillTx_def split: option.split bool.split)

lemma finish_message_total:
  assumes "hub_inv E s" and "msg_free mid s" and "mid \<in> used_ids E ''msg_'' (h_ids s)"
    and "m_ID m = mid"
  shows "\<exists>t. thenT (case key of None \<Rightarrow> retT () | Some key \<Rightarrow> backfillTx src key oc)
      (bindT (emitChangeTx E ''message'' mid mk nb) (\<lambda>q. insert_message_row (m\<lparr>m_ChangeSeq := q\<rparr>))) s
      = (Inr (), t) \<and> hub_inv E t"
proof -
  let ?b = "case key of None \<Rightarrow> retT () | Some key \<Rightarrow> backfillTx src key oc"
  let ?e = "emitChangeTx E ''message'' mid mk nb"
  have b: "obeys logged ?b" "obeys fquiet ?b" "obeys mquiet ?b"
    by (intro lg.intros fq.intros mq.intros logged_backfillTx fquiet_backfillTx mquiet_backfillTx)+
  have "\<exists>s1. ?b s = (Inr (), s1)" by (cases key) (simp_all add: backfillTx_total)
  then obtain s1 where s1: "?b s = (Inr (), s1)" by blast
  have i1: "hub_inv E s1" "msg_free mid s1" "h_ids s \<le> h_ids s1"
    using hub_inv_quiet [OF b assms(1) s1] msg_free_quiet assms(2) obeysD [OF b(3) s1]
    by (auto simp: mquiet_def)
  obtain q s2 where s2: "?e s1 = (Inr q, s2)"
    using i1(1) emitChangeTx_run [of s1] by (auto simp: hub_inv_def Let_def)
  have i2: "hub_inv E s2" "msg_free mid s2" "h_ids s1 \<le> h_ids s2"
    using hub_inv_quiet [OF logged_emitChangeTx fquiet_emitChangeTx mquiet_emitChangeTx i1(1) s2]
      msg_free_quiet i1(2) obeysD [OF mquiet_emitChangeTx s2] by (auto simp: mquiet_def)
  let ?r = "m\<lparr>m_ChangeSeq := q\<rparr>"
  have r: "msg_free (m_ID ?r) s2" "m_ID ?r \<in> used_ids E ''msg_'' (h_ids s2)"
    using i2(2,3) i1(3) assms(3,4) used_ids_mono [of "h_ids s" "h_ids s2" E "''msg_''"] by auto
  obtain x t where t: "insert_message_row ?r s2 = (Inr x, t)" using insert_message_total [OF r(1)] by auto
  have "hub_inv E t" by (rule insert_message_inv [OF i2(1) r t])
  then show ?thesis using s1 s2 t by (auto simp: thenT_def bindT_def)
qed

lemma applyEvent_total:
  assumes inj: "inj (env_ulid E)" and inv: "hub_inv E s" and app: "applicable s (s_ID src) ev"
  shows "\<exists>t. applyEventTx E src ev internal ooo s = (Inr (), t) \<and> hub_inv E t"
proof -
  let ?key = "null_of (ev_FaultKey ev)" and ?k = "(s_ID src, the (null_of (ev_FaultKey ev)))"
  let ?now = "env_clock E (h_clk s)" and ?s1 = "s\<lparr>h_clk := Suc (h_clk s)\<rparr>"
  have now: "nowUTC E s = (Inr ?now, ?s1)" by simp
  have i1: "hub_inv E ?s1" by (rule hub_inv_quiet [OF logged_nowUTC fquiet_nowUTC mquiet_nowUTC inv now])
  have "applicable ?s1 (s_ID src) ev" using app by (simp add: applicable_def)
  then obtain x s2 where e: "insert_event_row (event_row (s_ID src) ev internal ooo ?now) ?s1 = (Inr x, s2)"
    using insert_event_total by blast
  have i2: "hub_inv E s2"
    by (rule hub_inv_quiet [OF logged_insert_event_row fquiet_insert_event_row mquiet_insert_event_row i1 e])
  let ?tr = "case ?key of None \<Rightarrow> retT no_fault | Some key \<Rightarrow> faultTransitionTx E (s_ID src) ev key"
  obtain oc s3 where tr: "?tr s2 = (Inr oc, s3)" and i3: "hub_inv E s3" "outcome_ok E ?k oc s3"
  proof (cases ?key)
    case None
    then show ?thesis using that [of no_fault s2] i2 by (simp add: outcome_ok_def no_fault_def)
  next
    case (Some key)
    then obtain oc t where "faultTransitionTx E (s_ID src) ev key s2 = (Inr oc, t)"
      using faultTransition_total app by (metis applicable_def option.distinct(1))
    then show ?thesis using that [of oc t] fault_move_inv [OF inj i2] Some by simp
  qed
  let ?mid = "''msg_'' @ env_ulid E (h_ids s3)" and ?s4 = "s3\<lparr>h_ids := Suc (h_ids s3)\<rparr>"
  have n: "newID E ''msg_'' s3 = (Inr ?mid, ?s4)" by simp
  have i4: "hub_inv E ?s4" by (rule hub_inv_quiet [OF logged_newID fquiet_newID mquiet_newID i3(1) n])
  have f4: "msg_free ?mid ?s4" "?mid \<in> used_ids E ''msg_'' (h_ids ?s4)"
    using newID_msg_free [OF inj _ n] i3(1) by (simp_all add: hub_inv_def)
  have "outcome_ok E ?k oc ?s4" using outcome_ok_quiet [OF i3(2) obeysD [OF fquiet_newID n]] .
  then obtain y s5 where st: "storeFaultTx E (s_Name src) oc ?s4 = (Inr y, s5)"
    and i5: "hub_inv E s5" "mquiet ?s4 s5" using storeFault_step [OF i4] by blast
  have f5: "msg_free ?mid s5" "?mid \<in> used_ids E ''msg_'' (h_ids s5)"
    using msg_free_quiet [OF f4(1) i5(2)] f4(2) i5(2) used_ids_mono [of "h_ids ?s4" "h_ids s5" E "''msg_''"]
    by (auto simp: mquiet_def)
  have "m_ID (message_row ?mid (s_ID src) ev internal ooo ?now oc) = ?mid" by (simp add: message_row_def)
  from finish_message_total [OF i5(1) f5 this, where key = ?key and src = "s_ID src" and oc = oc] obtain t where
    fin: "thenT (case ?key of None \<Rightarrow> retT () | Some key \<Rightarrow> backfillTx (s_ID src) key oc)
      (bindT (emitChangeTx E ''message'' ?mid
          (\<lambda>q. DMessage (toMessageJSON ((message_row ?mid (s_ID src) ev internal ooo ?now oc)\<lparr>m_ChangeSeq := q\<rparr>) (s_Name src)))
          (Some (notify_of oc)))
        (\<lambda>q. insert_message_row ((message_row ?mid (s_ID src) ev internal ooo ?now oc)\<lparr>m_ChangeSeq := q\<rparr>))) s5
     = (Inr (), t)" and "hub_inv E t" by blast
  have "applyEventTx E src ev internal ooo s = (Inr (), t)"
    unfolding applyEventTx_def Let_def
    by (rule bindT_step, rule now, rule thenT_step, rule e, rule bindT_step, rule tr,
        rule bindT_step, rule n, rule thenT_step, rule st, rule fin)
  then show ?thesis using \<open>hub_inv E t\<close> by blast
qed

section \<open>The event table\<close>

abbreviation events_of :: "hub \<Rightarrow> eventRow list" where
  "events_of s \<equiv> d_events (h_db s)"

lemma same_mod_db: "(\<And>d. v (f d) = v d) \<Longrightarrow> obeys (same (\<lambda>s. v (h_db s))) (mod_db f)"
  by (rule obeysI) (simp add: same_def)

lemma same_get_db: "obeys (same v) (get_db f)"
  by (rule obeysI) (simp add: same_def)

lemma same_nowUTC: "obeys (same (\<lambda>s. v (h_db s))) (nowUTC E)"
  by (rule obeysI) (simp add: same_def)

lemma same_newID: "obeys (same (\<lambda>s. v (h_db s))) (newID E p)"
  by (rule obeysI) (simp add: same_def)

lemma same_push_change: "obeys (same (\<lambda>s. v (h_db s))) (push_change e)"
  by (rule obeysI) (simp add: same_def push_change_def)

lemmas same_base = frame.intros same_get_db same_nowUTC same_newID same_push_change

lemma same_emitChangeTx:
  assumes "\<And>d m. v (d\<lparr>d_meta := m\<rparr>) = v d" and "\<And>d c. v (d\<lparr>d_changes := c\<rparr>) = v d"
  shows "obeys (same (\<lambda>s. v (h_db s))) (emitChangeTx E typ i mk nb)"
  unfolding emitChangeTx_def insertChangeObj_def nextChangeSeq_def insert_change_row_def
  by (intro same_base same_mod_db assms)

lemma same_events_transition: "obeys (same events_of) (faultTransitionTx E src ev key)"
  unfolding faultTransitionTx_def Let_def by (intro same_base same_mod_db) simp_all

lemma same_events_store: "obeys (same events_of) (storeFaultTx E name oc)"
  unfolding storeFaultTx_def upsertFaultTx_def
  by (intro same_base same_mod_db same_emitChangeTx) simp_all

lemma same_events_backfill: "obeys (same events_of) (backfillTx src key oc)"
  unfolding backfillTx_def
  by (auto intro!: frame.ret same_mod_db split: option.split bool.split)

lemma same_events_message: "obeys (same events_of) (insert_message_row m)"
  unfolding insert_message_row_def by (intro same_base same_mod_db) simp_all

lemma applyEvent_events:
  assumes "applyEventTx E src ev internal ooo s = (Inr x, t)"
  shows "applicable s (s_ID src) ev \<and>
    (\<exists>now. events_of t = events_of s @ [event_row (s_ID src) ev internal ooo now])"
proof -
  let ?now = "env_clock E (h_clk s)" and ?s1 = "s\<lparr>h_clk := Suc (h_clk s)\<rparr>"
  let ?row = "event_row (s_ID src) ev internal ooo ?now"
  define rest where "rest = bindT
      (case null_of (ev_FaultKey ev) of None \<Rightarrow> retT no_fault
         | Some key \<Rightarrow> faultTransitionTx E (s_ID src) ev key)
      (\<lambda>oc. bindT (newID E ''msg_'') (\<lambda>mid.
        thenT (storeFaultTx E (s_Name src) oc)
        (thenT (case null_of (ev_FaultKey ev) of None \<Rightarrow> retT () | Some key \<Rightarrow> backfillTx (s_ID src) key oc)
        (bindT (emitChangeTx E ''message'' mid
            (\<lambda>q. DMessage (toMessageJSON ((message_row mid (s_ID src) ev internal ooo ?now oc)\<lparr>m_ChangeSeq := q\<rparr>) (s_Name src)))
            (Some (notify_of oc)))
          (\<lambda>q. insert_message_row ((message_row mid (s_ID src) ev internal ooo ?now oc)\<lparr>m_ChangeSeq := q\<rparr>))))))"
  have "obeys (same events_of) rest"
    unfolding rest_def
    by (intro same_base same_events_transition same_events_store same_events_backfill
        same_emitChangeTx same_events_message) simp_all
  moreover obtain y s2 where row: "insert_event_row ?row ?s1 = (Inr y, s2)" and r: "rest s2 = (Inr x, t)"
    using assms unfolding applyEventTx_def Let_def rest_def
    by (subst (asm) bindT_Inr_iff) (auto simp: thenT_Inr_iff)
  ultimately have "events_of t = events_of s2" by (metis sameD)
  moreover have "events_of s2 = events_of s @ [?row]"
    "\<forall>z \<in> set (events_of s). \<not> (e_source_id z = s_ID src \<and> e_event_id z = ev_EventID ev)"
    using row by (auto simp: insert_event_row_def bindT_def event_row_def split: if_splits)
  moreover have "null_of (ev_FaultKey ev) \<noteq> None \<longrightarrow> action_of ev \<noteq> None"
  proof (intro impI notI)
    assume "null_of (ev_FaultKey ev) \<noteq> None" and a: "action_of ev = None"
    then obtain key where k: "null_of (ev_FaultKey ev) = Some key" by blast
    from faultTransition_None [OF a] r show False
      unfolding rest_def k by (metis (no_types, lifting) Inl_Inr_False bindT_Inr_iff option.simps(5) prod.inject)
  qed
  ultimately show ?thesis unfolding applicable_def by auto
qed

lemma applyEvent_hub_inv:
  assumes "inj (env_ulid E)"
  shows "hoare (hub_inv E) (applyEventTx E src ev internal ooo) (\<lambda>_. hub_inv E)"
proof (rule hoareI)
  fix s x t
  assume inv: "hub_inv E s" and run: "applyEventTx E src ev internal ooo s = (Inr x, t)"
  from applyEvent_total [OF assms inv, of src ev internal ooo] applyEvent_events [OF run] run
  show "hub_inv E t" by auto
qed

lemma applicable_after:
  assumes "applyEventTx E src ev internal ooo s = (Inr x, t)" and "applicable s (s_ID src) ev'"
    and "ev_EventID ev \<noteq> ev_EventID ev'"
  shows "applicable t (s_ID src) ev'"
  using applyEvent_events [OF assms(1)] assms(2,3) by (auto simp: applicable_def event_row_def)

lemma hub_inv_start: "hub_inv E hub_start"
  by (simp add: hub_inv_def faults_inv_def messages_inv_def hub_start_def empty_db_def changes_wf_def
      change_counter_def)

lemma sample_applicable:
  "a \<in> {''open'', ''update'', ''resolve''} \<Longrightarrow> applicable hub_start i (sample_event x q a)"
  by (auto simp: applicable_def hub_start_def empty_db_def sample_event_def action_of_def)

lemma sample_key: "null_of (ev_FaultKey (sample_event x q a)) = Some ''disk''"
  by (simp add: sample_event_def null_of_def)

lemma sample_action:
  "action_of (sample_event x q ''open'') = Some Raise" "action_of (sample_event x q ''update'') = Some Raise"
  "action_of (sample_event x q ''resolve'') = Some Clear"
  by (simp_all add: sample_event_def action_of_def)

lemma sample_fields: "ev_Seq (sample_event x q a) = q" "ev_EventID (sample_event x q a) = x"
  by (simp_all add: sample_event_def)

lemma abs_start: "abs_at (h_db hub_start) k = (AbsentR, {})"
  by (simp add: abs_at_def hub_start_def empty_db_def loadFaultTx_def round_of_def pend_at_def)

lemma later_empty [simp]: "later {} q = {}"
  by (auto simp: later_def)

section \<open>Properties\<close>



text \<open>
  C1: the detailed state machine implements the abstract one.  Whenever an event with a
  fault key is applied, the round and the pending resolves of its key make exactly the
  step of the specification, and no other key is touched.
\<close>

theorem applyEvent_refines:
  assumes "inj (env_ulid E)" and "hub_inv E s"
    and "applyEventTx E src ev internal ooo s = (Inr (), t)"
    and "null_of (ev_FaultKey ev) = Some key"
  shows "\<exists>act. action_of ev = Some act \<and>
    abs_at (h_db t) (s_ID src, key) = fsm_step act (ev_Seq ev) (abs_at (h_db s) (s_ID src, key)) \<and>
    (\<forall>k. k \<noteq> (s_ID src, key) \<longrightarrow> abs_at (h_db t) k = abs_at (h_db s) k)"
  using applyEvent_abs [OF assms(1) _ assms(3,4)] assms(2) by (auto simp: hub_inv_def)

theorem applyEvent_refines_witness:
  "\<exists>t. applyEventTx sample_env sample_source (sample_event ''e1'' 7 ''open'') False False hub_start = (Inr (), t) \<and>
     abs_at (h_db t) (''src_1'', ''disk'') = (OpenR 1 7, {})"
proof -
  obtain t where t: "applyEventTx sample_env sample_source (sample_event ''e1'' 7 ''open'') False False hub_start = (Inr (), t)"
    using applyEvent_total [OF inj_sample_env hub_inv_start sample_applicable] by blast
  have "s_ID sample_source = ''src_1''" by (simp add: sample_source_def)
  with applyEvent_refines [OF inj_sample_env hub_inv_start t sample_key] t show ?thesis
    by (auto simp: abs_start sample_action sample_fields)
qed

text \<open>
  C4: a fault is resolved in whichever order its open and its resolve arrive.  The resolve
  that comes first is remembered, and the late open ends as the same resolved round.
\<close>

theorem open_resolve_any_order:
  assumes inj: "inj (env_ulid E)" and inv: "hub_inv E s"
    and app: "applicable s (s_ID src) opn" "applicable s (s_ID src) res" "ev_EventID opn \<noteq> ev_EventID res"
    and key: "null_of (ev_FaultKey opn) = Some key" "null_of (ev_FaultKey res) = Some key"
    and act: "action_of opn = Some Raise" "action_of res = Some Clear" "ev_Seq opn < ev_Seq res"
    and fresh: "abs_at (h_db s) (s_ID src, key) = (AbsentR, {})"
  shows "\<exists>t u. forT [opn, res] (\<lambda>ev. applyEventTx E src ev False False) s = (Inr (), t) \<and>
    forT [res, opn] (\<lambda>ev. applyEventTx E src ev False False) s = (Inr (), u) \<and>
    fst (abs_at (h_db t) (s_ID src, key)) = ResolvedR 1 (ev_Seq opn) (ev_Seq res) \<and>
    fst (abs_at (h_db u) (s_ID src, key)) = ResolvedR 1 (ev_Seq opn) (ev_Seq res)"
proof -
  let ?ap = "\<lambda>ev. applyEventTx E src ev False False" and ?k = "(s_ID src, key)"
  have two: "\<exists>t. forT [a, b] ?ap s = (Inr (), t) \<and> abs_at (h_db t) ?k =
      fsm_step y (ev_Seq b) (fsm_step x (ev_Seq a) (AbsentR, {}))"
    if h: "applicable s (s_ID src) a" "applicable s (s_ID src) b" "ev_EventID a \<noteq> ev_EventID b"
      "null_of (ev_FaultKey a) = Some key" "null_of (ev_FaultKey b) = Some key"
      "action_of a = Some x" "action_of b = Some y" for a b x y
  proof -
    obtain s1 where s1: "?ap a s = (Inr (), s1)" "hub_inv E s1"
      using applyEvent_total [OF inj inv h(1)] by blast
    have "applicable s1 (s_ID src) b" using applicable_after [OF s1(1) h(2,3)] .
    then obtain s2 where s2: "?ap b s1 = (Inr (), s2)"
      using applyEvent_total [OF inj s1(2)] by blast
    have f: "faults_inv E s" "faults_inv E s1" using inv s1(2) by (simp_all add: hub_inv_def)
    have "abs_at (h_db s2) ?k = fsm_step y (ev_Seq b) (fsm_step x (ev_Seq a) (AbsentR, {}))"
      using applyEvent_abs [OF inj f(1) s1(1) h(4)] applyEvent_abs [OF inj f(2) s2 h(5)]
        h(6,7) fresh by auto
    with s1(1) s2 show ?thesis by (auto simp: thenT_def bindT_def)
  qed
  have l: "later {q} p = (if p < q then {q} else {})" for p q :: int by (auto simp: later_def)
  have e: "later {} p = {}" for p by (auto simp: later_def)
  show ?thesis
    using two [of opn res Raise Clear] two [of res opn Clear Raise] app key act
    by (auto simp: l e)
qed

theorem open_resolve_any_order_witness:
  "\<exists>t u. forT [sample_event ''a'' 3 ''open'', sample_event ''b'' 5 ''resolve'']
      (\<lambda>ev. applyEventTx sample_env sample_source ev False False) hub_start = (Inr (), t) \<and>
    forT [sample_event ''b'' 5 ''resolve'', sample_event ''a'' 3 ''open'']
      (\<lambda>ev. applyEventTx sample_env sample_source ev False False) hub_start = (Inr (), u) \<and>
    fst (abs_at (h_db t) (s_ID sample_source, ''disk'')) = ResolvedR 1 3 5 \<and>
    fst (abs_at (h_db u) (s_ID sample_source, ''disk'')) = ResolvedR 1 3 5"
  using open_resolve_any_order [where E = sample_env and s = hub_start and src = sample_source
      and opn = "sample_event ''a'' 3 ''open''" and res = "sample_event ''b'' 5 ''resolve''" and key = "''disk''"]
  by (simp add: inj_sample_env hub_inv_start sample_applicable sample_key sample_action sample_fields
      abs_start del: forT.simps)

text \<open>
  C5: a resolve that closed an open round is not remembered as pending.  A late event of
  that round (its number lies before the resolve) therefore opens a new incident instead
  of landing in the resolved round, although the contract excludes such ghost openings.
\<close>

theorem late_update_reopens:
  assumes "inj (env_ulid E)" and "hub_inv E s" and "applicable s (s_ID src) ev"
    and "null_of (ev_FaultKey ev) = Some key" and "action_of ev = Some Raise"
    and "abs_at (h_db s) (s_ID src, key) = (ResolvedR n opened r, {})"
    and "opened < ev_Seq ev" and "ev_Seq ev < r"
  shows "\<exists>t. applyEventTx E src ev False False s = (Inr (), t) \<and>
    abs_at (h_db t) (s_ID src, key) = (OpenR (n + 1) (ev_Seq ev), {})"
proof -
  obtain t where t: "applyEventTx E src ev False False s = (Inr (), t)"
    using applyEvent_total [OF assms(1-3)] by blast
  have "later {} p = {}" for p by (auto simp: later_def)
  then show ?thesis
    using applyEvent_abs [OF assms(1) _ t assms(4)] assms(2,5,6) t by (auto simp: hub_inv_def)
qed

theorem late_update_reopens_witness:
  "\<exists>s t. forT [sample_event ''a'' 3 ''open'', sample_event ''c'' 9 ''resolve'']
      (\<lambda>ev. applyEventTx sample_env sample_source ev False False) hub_start = (Inr (), s) \<and>
    applyEventTx sample_env sample_source (sample_event ''b'' 5 ''update'') False False s = (Inr (), t) \<and>
    abs_at (h_db t) (s_ID sample_source, ''disk'') = (OpenR 2 5, {})"
proof -
  let ?ap = "\<lambda>ev. applyEventTx sample_env sample_source ev False False"
  let ?a = "sample_event ''a'' 3 ''open''" and ?b = "sample_event ''b'' 5 ''update''"
    and ?c = "sample_event ''c'' 9 ''resolve''" and ?k = "(s_ID sample_source, ''disk'')"
  note inj = inj_sample_env and key = sample_key
  have app: "applicable hub_start (s_ID sample_source) ?a" "applicable hub_start (s_ID sample_source) ?b"
    "applicable hub_start (s_ID sample_source) ?c" by (simp_all add: sample_applicable)
  obtain s1 where s1: "?ap ?a hub_start = (Inr (), s1)" "hub_inv sample_env s1"
    using applyEvent_total [OF inj hub_inv_start app(1)] by blast
  have app1: "applicable s1 (s_ID sample_source) ?b" "applicable s1 (s_ID sample_source) ?c"
    by (simp_all add: applicable_after [OF s1(1)] app sample_fields)
  obtain s2 where s2: "?ap ?c s1 = (Inr (), s2)" "hub_inv sample_env s2"
    using applyEvent_total [OF inj s1(2) app1(2)] by blast
  have app2: "applicable s2 (s_ID sample_source) ?b"
    by (simp add: applicable_after [OF s2(1)] app1 sample_fields)
  have f: "faults_inv sample_env hub_start" "faults_inv sample_env s1"
    using hub_inv_start s1(2) by (simp_all add: hub_inv_def)
  have "abs_at (h_db s2) ?k = (ResolvedR 1 3 9, {})"
    using applyEvent_abs [OF inj f(1) s1(1) key] applyEvent_abs [OF inj f(2) s2(1) key]
    by (auto simp: abs_start sample_action sample_fields)
  from late_update_reopens [OF inj s2(2) app2 key sample_action(2) this] s1(1) s2(1)
  show ?thesis by (auto simp: sample_fields thenT_def bindT_def)
qed

end
