(* ===== verification/HubInv.thy ===== *)
theory HubInv
  imports FaultSpec
begin

text \<open>
  Transactions that respect the database.  \<open>safe E m\<close> says that \<open>m\<close> extends the change
  log properly, only uses identifiers up, and re-establishes \<open>hub_inv\<close> when it succeeds.
  The rules follow the structure of the code; a safe transaction body gives a handler that
  keeps the invariant on success and on roll-back.
\<close>

definition idmono :: "hub \<Rightarrow> hub \<Rightarrow> bool" where
  "idmono s t \<longleftrightarrow> h_ids s \<le> h_ids t"

interpretation im: tx_rel idmono
  by unfold_locales (auto simp: idmono_def)

lemma idmono_mod_db: "obeys idmono (mod_db f)"
  by (rule obeysI) (simp add: idmono_def)

lemma idmono_fquiet: "obeys fquiet m \<Longrightarrow> obeys idmono m"
  by (auto simp: obeys_def fquiet_def idmono_def)

lemmas idmono_base =
  im.intros idmono_mod_db idmono_fquiet [OF fquiet_get_db] idmono_fquiet [OF fquiet_nowUTC]
  idmono_fquiet [OF fquiet_newID] idmono_fquiet [OF fquiet_push_change]
  idmono_fquiet [OF fquiet_emitChangeTx]

lemma idmono_faultTransitionTx: "obeys idmono (faultTransitionTx E src ev key)"
  unfolding faultTransitionTx_def Let_def by (intro idmono_base)

lemma idmono_storeFaultTx: "obeys idmono (storeFaultTx E name oc)"
  unfolding storeFaultTx_def upsertFaultTx_def by (intro idmono_base)

lemma idmono_applyEventTx: "obeys idmono (applyEventTx E src ev internal ooo)"
  unfolding applyEventTx_def Let_def
  by (intro idmono_base idmono_faultTransitionTx idmono_storeFaultTx
      idmono_fquiet [OF fquiet_backfillTx] idmono_fquiet [OF fquiet_insert_event_row]
      idmono_fquiet [OF fquiet_insert_message_row])

section \<open>Safe computations\<close>

definition safe :: "env \<Rightarrow> 'a htx \<Rightarrow> bool" where
  "safe E m \<longleftrightarrow> obeys logged m \<and> obeys idmono m \<and> hoare (hub_inv E) m (\<lambda>_. hub_inv E)"

lemma safe_quiet: "obeys logged m \<Longrightarrow> obeys fquiet m \<Longrightarrow> obeys mquiet m \<Longrightarrow> safe E m"
  unfolding safe_def by (auto intro: hoareI hub_inv_quiet idmono_fquiet)

lemma safe_ret: "safe E (retT x)"
  by (intro safe_quiet lg.ret fq.ret mq.ret)

lemma safe_fail: "safe E (failT e)"
  by (intro safe_quiet lg.fail fq.fail mq.fail)

lemma safe_getT: "safe E (getT f)"
  by (intro safe_quiet lg.get fq.get mq.get)

lemma safe_get_db: "safe E (get_db f)"
  by (intro safe_quiet logged_get_db fquiet_get_db mquiet_get_db)

lemma safe_bind: "safe E m \<Longrightarrow> (\<And>x. safe E (f x)) \<Longrightarrow> safe E (bindT m f)"
  unfolding safe_def by (blast intro: lg.bind im.bind hoare_bind)

lemma safe_seq: "safe E m \<Longrightarrow> safe E n \<Longrightarrow> safe E (thenT m n)"
  unfolding thenT_def by (rule safe_bind)

lemma safe_cond: "(b \<Longrightarrow> safe E m) \<Longrightarrow> (\<not> b \<Longrightarrow> safe E n) \<Longrightarrow> safe E (if b then m else n)"
  by simp

lemma safe_when: "(b \<Longrightarrow> safe E m) \<Longrightarrow> safe E (whenT b m)"
  by (simp add: whenT_def safe_ret)

lemma safe_opt:
  "(v = None \<Longrightarrow> safe E m) \<Longrightarrow> (\<And>x. v = Some x \<Longrightarrow> safe E (f x)) \<Longrightarrow>
     safe E (case v of None \<Rightarrow> m | Some x \<Rightarrow> f x)"
  by (cases v) simp_all

lemma safe_pair: "(\<And>x y. v = (x, y) \<Longrightarrow> safe E (f x y)) \<Longrightarrow> safe E (case v of (x, y) \<Rightarrow> f x y)"
  by (cases v) simp

lemma safe_loop: "(\<And>x. x \<in> set xs \<Longrightarrow> safe E (f x)) \<Longrightarrow> safe E (forT xs f)"
  by (induction xs) (simp_all add: safe_ret safe_seq)

lemma safe_fold: "(\<And>x a. x \<in> set xs \<Longrightarrow> safe E (f x a)) \<Longrightarrow> safe E (foldT f xs a)"
  by (induction xs arbitrary: a) (simp_all add: safe_ret safe_bind)

lemma safe_nowUTC: "safe E (nowUTC E')"
  by (intro safe_quiet logged_nowUTC fquiet_nowUTC mquiet_nowUTC)

lemma safe_newID: "safe E (newID E' p)"
  by (intro safe_quiet logged_newID fquiet_newID mquiet_newID)

lemma safe_rowT: "safe E (rowT q)"
  unfolding rowT_def by (intro safe_bind safe_get_db safe_opt safe_fail safe_ret)

lemma safe_mod_db:
  assumes "\<And>d. d_changes (f d) = d_changes d \<and> d_meta (f d) ''change_seq'' = d_meta d ''change_seq''"
    and "\<And>d. d_faults (f d) = d_faults d \<and> d_pending (f d) = d_pending d"
    and "\<And>d. map m_ID (d_messages (f d)) = map m_ID (d_messages d)"
  shows "safe E (mod_db f)"
  by (intro safe_quiet logged_mod_db fquiet_mod_db mquiet_mod_db assms)

lemma safe_emitChangeTx: "safe E (emitChangeTx E' typ i mk nb)"
  by (intro safe_quiet logged_emitChangeTx fquiet_emitChangeTx mquiet_emitChangeTx)

lemma safe_emitSourceChangeTx: "safe E (emitSourceChangeTx E' src)"
  unfolding emitSourceChangeTx_def
  by (intro safe_bind safe_seq safe_ret safe_get_db safe_nowUTC safe_emitChangeTx)

lemma safe_loadRules: "safe E loadRules"
  unfolding loadRules_def Let_def
  by (intro safe_bind safe_seq safe_ret safe_get_db safe_opt safe_mod_db) simp_all

lemma safe_nextHubSeqTx: "safe E nextHubSeqTx"
  by (intro safe_quiet logged_nextHubSeqTx fquiet_nextHubSeqTx mquiet_nextHubSeqTx)

lemma safe_modT_mem:
  "(\<And>s. h_db (f s) = h_db s \<and> h_ids (f s) = h_ids s \<and> h_out (f s) = h_out s) \<Longrightarrow> safe E (modT f)"
  by (intro safe_quiet obeysI) (auto simp: fquiet_def fview_def mquiet_def intro!: logged_frame)

lemma safe_applyEventTx: "inj (env_ulid E) \<Longrightarrow> safe E (applyEventTx E src ev internal ooo)"
  unfolding safe_def using logged_applyEventTx idmono_applyEventTx applyEvent_hub_inv by blast

lemma safe_emitHubEventTx: "inj (env_ulid E) \<Longrightarrow> safe E (emitHubEventTx E src k sv fk act t b w)"
  unfolding emitHubEventTx_def
  by (intro safe_bind safe_nextHubSeqTx safe_newID safe_applyEventTx)

lemmas safe_intros =
  safe_ret safe_fail safe_getT safe_get_db safe_bind safe_seq safe_cond safe_when safe_opt safe_pair
  safe_loop safe_fold safe_nowUTC safe_newID safe_rowT safe_emitChangeTx safe_emitSourceChangeTx
  safe_loadRules safe_emitHubEventTx safe_applyEventTx

lemma safe_touchSourceSeenTx: "inj (env_ulid E) \<Longrightarrow> safe E (touchSourceSeenTx E src seen)"
  unfolding touchSourceSeenTx_def Let_def by (intro safe_intros safe_mod_db) simp_all

section \<open>Handlers\<close>

lemma hub_inv_ids: "hub_inv E s \<Longrightarrow> h_db t = h_db s \<Longrightarrow> h_ids s \<le> h_ids t \<Longrightarrow> hub_inv E t"
  by (auto simp: hub_inv_def fview_def mquiet_def intro: faults_inv_mono messages_inv_mono)

lemma withTx_keeps:
  assumes "safe E m"
  shows "obeys (keeps (hub_inv E)) (withTx m)"
proof -
  have "hub_inv E (snd (withTx m s))" if inv: "hub_inv E s" for s
  proof (rule withTx_inv [where I = "hub_inv E"])
    show "hoare (hub_inv E) m (\<lambda>_. hub_inv E)" using assms by (simp add: safe_def)
  next
    fix r t
    assume "m s = (r, t)"
    then have "h_ids s \<le> h_ids t" using assms by (auto simp: safe_def idmono_def dest: obeysD)
    with inv show "hub_inv E (t\<lparr>h_db := h_db s, h_out := h_out s\<rparr>)" by (auto intro: hub_inv_ids)
  qed (rule inv)
  then show ?thesis by (simp add: obeys_def keeps_def)
qed

lemma withTx_logged: "safe E m \<Longrightarrow> obeys logged (withTx m)"
  by (simp add: safe_def logged_withTx)

section \<open>Events of the hub itself\<close>

definition hub_seq :: "hub_db \<Rightarrow> int" where
  "hub_seq d = (case d_meta d ''hub_event_seq'' of None \<Rightarrow> hubSeqBase | Some v \<Rightarrow> v)"

text \<open>No source has used an event identifier the hub will draw.\<close>

definition hub_ids_free :: "env \<Rightarrow> hub \<Rightarrow> bool" where
  "hub_ids_free E s \<longleftrightarrow> (\<forall>x \<in> set (d_events (h_db s)). \<forall>k \<ge> h_ids s. e_event_id x \<noteq> ''hub_'' @ env_ulid E k)"

definition hub_event ::
  "env \<Rightarrow> hub \<Rightarrow> string \<Rightarrow> string \<Rightarrow> string option \<Rightarrow> string option \<Rightarrow> string \<Rightarrow>
   string option \<Rightarrow> time \<Rightarrow> eventPayload" where
  "hub_event E s kind severity faultKey action title body occurredAt =
     \<lparr>ev_EventID = ''hub_'' @ env_ulid E (h_ids s), ev_Seq = hub_seq (h_db s) + 1, ev_Kind = kind,
      ev_OccurredAt = fmtTS occurredAt, ev_Severity = severity, ev_FaultKey = faultKey,
      ev_IncidentAction = action, ev_Title = title, ev_Body = body, ev_Ref = [], ev_Attachments = []\<rparr>"

lemma emitHubEvent_run:
  "emitHubEventTx E src kind sv fk act title body w s =
     applyEventTx E src (hub_event E s kind sv fk act title body w) True False
       (s\<lparr>h_db := (h_db s)\<lparr>d_meta := (d_meta (h_db s))(''hub_event_seq'' \<mapsto> hub_seq (h_db s) + 1)\<rparr>,
          h_ids := Suc (h_ids s)\<rparr>)"
proof -
  have "(case d_meta d ''hub_event_seq'' of None \<Rightarrow> hubSeqBase + 1 | Some v \<Rightarrow> v + 1) = hub_seq d + 1" for d
    by (simp add: hub_seq_def split: option.split)
  then show ?thesis
    by (simp add: emitHubEventTx_def nextHubSeqTx_def bindT_def thenT_def hub_event_def)
qed

lemma emitHubEvent_total:
  assumes "inj (env_ulid E)" and "hub_inv E s" and "hub_ids_free E s"
    and "act \<in> {''open'', ''update'', ''resolve''}" and "key \<noteq> []"
  shows "\<exists>t a. emitHubEventTx E src kind sv (Some key) (Some act) title body w s = (Inr (), t) \<and>
    hub_inv E t \<and> a = (if act = ''resolve'' then Clear else Raise) \<and>
    abs_at (h_db t) (s_ID src, key) = fsm_step a (hub_seq (h_db s) + 1) (abs_at (h_db s) (s_ID src, key)) \<and>
    (\<forall>k. k \<noteq> (s_ID src, key) \<longrightarrow> abs_at (h_db t) k = abs_at (h_db s) k)"
proof -
  define u where "u = s\<lparr>h_db := (h_db s)\<lparr>d_meta := (d_meta (h_db s))(''hub_event_seq'' \<mapsto> hub_seq (h_db s) + 1)\<rparr>,
    h_ids := Suc (h_ids s)\<rparr>"
  define ev where "ev = hub_event E s kind sv (Some key) (Some act) title body w"
  have inv: "hub_inv E u"
    using assms(2) faults_inv_mono [of E s u] messages_inv_mono [of E s u]
    by (auto simp: hub_inv_def u_def fview_def mquiet_def changes_wf_def change_counter_def)
  have act: "action_of ev = Some (if act = ''resolve'' then Clear else Raise)"
    using assms(4) by (auto simp: ev_def hub_event_def action_of_def)
  have "applicable u (s_ID src) ev"
    using assms(3) act by (auto simp: applicable_def hub_ids_free_def u_def ev_def hub_event_def)
  then obtain t where t: "applyEventTx E src ev True False u = (Inr (), t)" "hub_inv E t"
    using applyEvent_total [OF assms(1) inv] by blast
  have "null_of (ev_FaultKey ev) = Some key" using assms(5) by (simp add: ev_def hub_event_def null_of_def)
  from applyEvent_abs [OF assms(1) _ t(1) this] inv act
  have "\<forall>k. abs_at (h_db t) k = (if k = (s_ID src, key)
      then fsm_step (if act = ''resolve'' then Clear else Raise) (ev_Seq ev) (abs_at (h_db u) k) else abs_at (h_db u) k)"
    by (auto simp: hub_inv_def)
  moreover have "abs_at (h_db u) k = abs_at (h_db s) k" for k
    by (intro abs_at_fview) (simp add: u_def fview_def)
  moreover have "ev_Seq ev = hub_seq (h_db s) + 1" by (simp add: ev_def hub_event_def)
  moreover have "emitHubEventTx E src kind sv (Some key) (Some act) title body w s = (Inr (), t)"
    using t(1) by (simp add: emitHubEvent_run u_def ev_def)
  ultimately show ?thesis using t(2) by auto
qed

text \<open>The round of a key is open exactly when the query of the code says so.\<close>

definition is_open :: "round \<times> int set \<Rightarrow> bool" where
  "is_open x = (case fst x of OpenR _ _ \<Rightarrow> True | _ \<Rightarrow> False)"

text \<open>The hub's numbers are beyond every number recorded for the key.\<close>

definition hub_ahead :: "hub \<Rightarrow> string \<times> string \<Rightarrow> bool" where
  "hub_ahead s k =
     (case abs_at (h_db s) k of (r, P) \<Rightarrow>
        (\<forall>p \<in> P. p \<le> hub_seq (h_db s)) \<and>
        (case r of OpenR _ q \<Rightarrow> q \<le> hub_seq (h_db s) | _ \<Rightarrow> True))"

lemma fsm_open:
  assumes "\<forall>p \<in> snd x. p \<le> q"
  shows "is_open (fsm_step Raise (q + 1) x)"
proof -
  have "later (snd x) (q + 1) = {}" using assms by (auto simp: later_def)
  then show ?thesis by (cases x; cases "fst x") (auto simp: is_open_def)
qed

lemma fsm_close:
  assumes "case fst x of OpenR _ o' \<Rightarrow> o' \<le> q | _ \<Rightarrow> True"
  shows "\<not> is_open (fsm_step Clear (q + 1) x)"
  using assms by (cases x; cases "fst x") (auto simp: is_open_def)

lemma emit_open:
  assumes "inj (env_ulid E)" "hub_inv E s" "hub_ids_free E s" "hub_ahead s (s_ID src, key)" "key \<noteq> []"
  shows "\<exists>t. emitHubEventTx E src kind sv (Some key) (Some ''open'') title body w s = (Inr (), t) \<and>
    is_open (abs_at (h_db t) (s_ID src, key))"
proof -
  have "\<forall>p \<in> snd (abs_at (h_db s) (s_ID src, key)). p \<le> hub_seq (h_db s)"
    using assms(4) by (simp add: hub_ahead_def case_prod_beta)
  from fsm_open [OF this] show ?thesis
    using emitHubEvent_total [OF assms(1-3) _ assms(5), of "''open''" src kind sv title body w] by auto
qed

lemma emit_resolve:
  assumes "inj (env_ulid E)" "hub_inv E s" "hub_ids_free E s" "hub_ahead s (s_ID src, key)" "key \<noteq> []"
  shows "\<exists>t. emitHubEventTx E src kind sv (Some key) (Some ''resolve'') title body w s = (Inr (), t) \<and>
    \<not> is_open (abs_at (h_db t) (s_ID src, key))"
proof -
  have "case fst (abs_at (h_db s) (s_ID src, key)) of OpenR _ q \<Rightarrow> q \<le> hub_seq (h_db s) | _ \<Rightarrow> True"
    using assms(4) by (simp add: hub_ahead_def case_prod_beta)
  from fsm_close [OF this] show ?thesis
    using emitHubEvent_total [OF assms(1-3) _ assms(5), of "''resolve''" src kind sv title body w] by auto
qed

lemma emit_update:
  assumes "inj (env_ulid E)" "hub_inv E s" "hub_ids_free E s" "is_open (abs_at (h_db s) (s_ID src, key))" "key \<noteq> []"
  shows "\<exists>t. emitHubEventTx E src kind sv (Some key) (Some ''update'') title body w s = (Inr (), t) \<and>
    is_open (abs_at (h_db t) (s_ID src, key))"
proof -
  have "is_open x \<Longrightarrow> is_open (fsm_step Raise q x)" for q x
    by (cases x; cases "fst x") (auto simp: is_open_def)
  from this [OF assms(4)] show ?thesis
    using emitHubEvent_total [OF assms(1-3) _ assms(5), of "''update''" src kind sv title body w] by auto
qed

section \<open>Timers\<close>

text \<open>Applying an event leaves the timers of the rule engine alone.\<close>

lemma timers_mod_db: "obeys (same h_timers) (mod_db f)"
  by (rule obeysI) (simp add: same_def)

lemma timers_nowUTC: "obeys (same h_timers) (nowUTC E)"
  by (rule obeysI) (simp add: same_def)

lemma timers_newID: "obeys (same h_timers) (newID E p)"
  by (rule obeysI) (simp add: same_def)

lemma timers_push_change: "obeys (same h_timers) (push_change e)"
  by (rule obeysI) (simp add: same_def push_change_def)

lemmas timers_base =
  frame.intros same_get_db timers_mod_db timers_nowUTC timers_newID timers_push_change

lemma timers_emitChangeTx: "obeys (same h_timers) (emitChangeTx E typ i mk nb)"
  unfolding emitChangeTx_def insertChangeObj_def nextChangeSeq_def insert_change_row_def
  by (intro timers_base)

lemma timers_backfillTx: "obeys (same h_timers) (backfillTx src key oc)"
  unfolding backfillTx_def
  by (auto intro!: frame.ret timers_mod_db split: option.split bool.split)

lemma timers_emitHubEventTx: "obeys (same h_timers) (emitHubEventTx E src k sv fk act t b w)"
  unfolding emitHubEventTx_def nextHubSeqTx_def applyEventTx_def Let_def faultTransitionTx_def
    storeFaultTx_def upsertFaultTx_def insert_event_row_def insert_message_row_def
  by (intro timers_base timers_emitChangeTx timers_backfillTx)

end
