(* ===== verification/Rules.thy ===== *)
theory Rules
  imports HubInv
begin

text \<open>
  The rule engine (\<^verbatim>\<open>hub/rules.go\<close>): threshold rules with hold times and hysteresis,
  container, SMART and pool rules, and the heartbeat monitor.  The timers live in memory,
  so a rolled-back transaction leaves them as they are.
\<close>

section \<open>Thresholds\<close>

type_synonym labelValue = "string \<times> rat"

definition extractMetric :: "rule \<Rightarrow> samplePayload \<Rightarrow> labelValue list" where
  "extractMetric r s =
     (if r_Metric r = ''cpu_percent'' then
        (case sp_CPUPercent s of None \<Rightarrow> [] | Some v \<Rightarrow> [(''-'', v)])
      else if r_Metric r = ''mem_percent'' then
        (case sp_MemPercent s of None \<Rightarrow> [] | Some v \<Rightarrow> [(''-'', v)])
      else if r_Metric r = ''disk_percent'' then
        concat (map (\<lambda>d. case dk_Percent d of
            None \<Rightarrow> []
          | Some v \<Rightarrow>
              (let sel = ''mount='' @ dk_Mount d in
               if (case r_Label r of None \<Rightarrow> False | Some l \<Rightarrow> l \<noteq> ''*'' \<and> l \<noteq> sel) then []
               else [(sel, v)])) (sp_Disks s))
      else if r_Metric r = ''net_rx_bps'' then
        (case Option.bind (sp_Net s) np_RxBps of None \<Rightarrow> [] | Some v \<Rightarrow> [(''-'', v)])
      else if r_Metric r = ''net_tx_bps'' then
        (case Option.bind (sp_Net s) np_TxBps of None \<Rightarrow> [] | Some v \<Rightarrow> [(''-'', v)])
      else [])"

definition violates :: "string \<Rightarrow> rat \<Rightarrow> rat \<Rightarrow> bool" where
  "violates op v limit =
     (if op = ''gte'' then limit \<le> v
      else if op = ''lt'' then v < limit
      else if op = ''lte'' then v \<le> limit
      else limit < v)"

definition recovers :: "string \<Rightarrow> rat \<Rightarrow> rat \<Rightarrow> bool" where
  "recovers op v limit = (if op = ''lt'' \<or> op = ''lte'' then limit < v else v < limit)"

definition thresholdTitle :: "rule \<Rightarrow> string \<Rightarrow> string" where
  "thresholdTitle r sel =
     (if sel \<noteq> ''-'' \<and> sel \<noteq> [] then r_Metric r @ ''('' @ sel @ '')'' else r_Metric r)"

definition isFaultOpen :: "hub_db \<Rightarrow> string \<Rightarrow> string \<Rightarrow> bool" where
  "isFaultOpen d src key =
     (0 < length (filter (\<lambda>f. f_SourceID f = src \<and> f_FaultKey f = key \<and> f_State f = ''open'') (d_faults d)))"

definition zeroState :: ruleState where
  "zeroState = \<lparr>st_breach = False, st_breachSince = zero_time, st_recovering = False, st_recoverSince = zero_time\<rparr>"

definition getTimer :: "ruleKey \<Rightarrow> ruleState htx" where
  "getTimer k = getT (\<lambda>s. case h_timers s k of None \<Rightarrow> zeroState | Some st \<Rightarrow> st)"

definition setTimer :: "ruleKey \<Rightarrow> ruleState \<Rightarrow> unit htx" where
  "setTimer k st = modT (\<lambda>s. s\<lparr>h_timers := (h_timers s)(k \<mapsto> st)\<rparr>)"

text \<open>The key \<^verbatim>\<open>rule:<id>:<sel>\<close>.\<close>

definition rule_fault_key :: "rule \<Rightarrow> string \<Rightarrow> string" where
  "rule_fault_key r sel = ''rule:'' @ r_ID r @ '':'' @ sel"

text \<open>The loop body of \<open>evalThreshold\<close>.\<close>

definition thresholdStep ::
  "env \<Rightarrow> sourceRow \<Rightarrow> rule \<Rightarrow> rat \<Rightarrow> rat \<Rightarrow> time \<Rightarrow> labelValue \<Rightarrow> unit htx" where
  "thresholdStep E src r limit recoverLimit evalNow lv =
     (let sel = fst lv; v = snd lv; k = (s_ID src, r_ID r, sel); fk = rule_fault_key r sel in
      bindT (getTimer k) (\<lambda>st.
        if violates (r_Op r) v limit then
          (let st1 = (if st_breach st then st else st\<lparr>st_breach := True, st_breachSince := evalNow\<rparr>)
                       \<lparr>st_recovering := False\<rparr> in
           thenT (setTimer k st1)
             (whenT (seconds (r_ForSeconds r) \<le> time_sub evalNow (st_breachSince st1))
               (bindT (get_db (\<lambda>d. isFaultOpen d (s_ID src) fk)) (\<lambda>opn.
                  whenT (\<not> opn)
                    (emitHubEventTx E src ''threshold'' (r_Severity r) (Some fk) (Some ''open'')
                      (s_Name src @ txt_colon @ thresholdTitle r sel @ txt_over_limit)
                      (Some (sel @ ''='' @ fmt_f 2 v @ txt_exceeds @ fmt_f 0 limit @ txt_for_already
                             @ fmt_d (r_ForSeconds r) @ txt_seconds))
                      evalNow)))))
        else
          (let st1 = st\<lparr>st_breach := False\<rparr> in
           thenT (setTimer k st1)
             (bindT (get_db (\<lambda>d. isFaultOpen d (s_ID src) fk)) (\<lambda>opn.
                whenT opn
                  (if recovers (r_Op r) v recoverLimit then
                     (let st2 = (if st_recovering st1 then st1
                                 else st1\<lparr>st_recovering := True, st_recoverSince := evalNow\<rparr>) in
                      thenT (setTimer k st2)
                        (whenT (seconds (r_RecoverForSeconds r) \<le> time_sub evalNow (st_recoverSince st2))
                          (thenT
                            (emitHubEventTx E src ''threshold_recovered'' ''info'' (Some fk) (Some ''resolve'')
                              (s_Name src @ txt_colon @ thresholdTitle r sel @ txt_normal_again)
                              (Some (sel @ ''='' @ fmt_f 2 v @ txt_fell_to @ fmt_f 0 recoverLimit
                                     @ txt_below_for @ fmt_d (r_RecoverForSeconds r) @ txt_seconds))
                              evalNow)
                            (setTimer k zeroState))))
                   else setTimer k (st1\<lparr>st_recovering := False\<rparr>)))))))"

definition evalThreshold :: "env \<Rightarrow> sourceRow \<Rightarrow> rule \<Rightarrow> samplePayload \<Rightarrow> time \<Rightarrow> unit htx" where
  "evalThreshold E src r s evalNow =
     (case r_Value r of
        None \<Rightarrow> retT ()
      | Some limit \<Rightarrow>
          (let recoverLimit = (case r_RecoverValue r of None \<Rightarrow> limit | Some x \<Rightarrow> x) in
           forT (extractMetric r s) (thresholdStep E src r limit recoverLimit evalNow)))"

section \<open>Containers\<close>

definition rule_match :: "rule \<Rightarrow> string \<Rightarrow> bool" where
  "rule_match r name = (case r_Match r of None \<Rightarrow> True | Some m \<Rightarrow> m = ''*'' \<or> m = name)"

text \<open>The first loop of \<open>evalContainers\<close>, for one container that was already there.\<close>

definition containerStep ::
  "env \<Rightarrow> sourceRow \<Rightarrow> rule \<Rightarrow> time \<Rightarrow> containerPayload \<Rightarrow> containerPayload \<Rightarrow> unit htx" where
  "containerStep E src r evalNow p c =
     (let fk = ''container:'' @ ct_Name c in
      bindT (get_db (\<lambda>d. isFaultOpen d (s_ID src) fk)) (\<lambda>opn.
        if ct_State p = ''running'' \<and> ct_State c \<noteq> ''running'' then
          whenT (\<not> opn)
            (emitHubEventTx E src ''container_exit''
              (if r_Severity r = [] then ''warning'' else r_Severity r) (Some fk) (Some ''open'')
              (txt_container @ ct_Name c @ txt_exited)
              (Some (case ct_ExitCode c of
                 None \<Rightarrow> ''state='' @ ct_State c
               | Some n \<Rightarrow> ''state='' @ ct_State c @ '' exitCode='' @ fmt_d n))
              evalNow)
        else if ct_State p \<noteq> ''running'' \<and> ct_State c = ''running'' then
          whenT opn
            (emitHubEventTx E src ''container_back'' ''info'' (Some fk) (Some ''resolve'')
              (txt_container @ ct_Name c @ txt_running_again) (Some ''state=running'') evalNow)
        else if ct_State p = ''running'' \<and> ct_State c = ''running'' then
          (case (ct_RestartCount c, ct_RestartCount p) of
             (Some n, Some m) \<Rightarrow>
               whenT (m < n \<and> opn)
                 (emitHubEventTx E src ''container_exit'' ''warning'' (Some fk) (Some ''update'')
                   (txt_container @ ct_Name c @ txt_restart_grew)
                   (Some (''restartCount='' @ fmt_d n)) evalNow)
           | _ \<Rightarrow> retT ())
        else retT ()))"

text \<open>The second loop: a container that left the list.\<close>

definition containerGone :: "env \<Rightarrow> sourceRow \<Rightarrow> time \<Rightarrow> containerPayload \<Rightarrow> unit htx" where
  "containerGone E src evalNow p =
     (let fk = ''container:'' @ ct_Name p in
      bindT (get_db (\<lambda>d. isFaultOpen d (s_ID src) fk)) (\<lambda>opn.
        whenT opn
          (emitHubEventTx E src ''container_back'' ''info'' (Some fk) (Some ''resolve'')
            (txt_container @ ct_Name p @ txt_removed) (Some txt_container_removed) evalNow)))"

definition prev_containers :: "samplePayload option \<Rightarrow> containerPayload list" where
  "prev_containers prev =
     (case prev of None \<Rightarrow> [] | Some p \<Rightarrow> (case sp_Containers p of None \<Rightarrow> [] | Some cs \<Rightarrow> cs))"

definition evalContainers ::
  "env \<Rightarrow> sourceRow \<Rightarrow> rule \<Rightarrow> samplePayload option \<Rightarrow> samplePayload \<Rightarrow> time \<Rightarrow> unit htx" where
  "evalContainers E src r prev cur evalNow =
     (case sp_Containers cur of
        None \<Rightarrow> retT ()
      | Some cs \<Rightarrow>
          (let prevByName = map_of (rev (map (\<lambda>c. (ct_Name c, c)) (prev_containers prev))) in
           thenT
             (forT cs (\<lambda>c.
                if \<not> rule_match r (ct_Name c) then retT ()
                else (case prevByName (ct_Name c) of
                        None \<Rightarrow> retT () | Some p \<Rightarrow> containerStep E src r evalNow p c)))
             (forT (prev_containers prev) (\<lambda>p.
                if ct_Name p \<in> ct_Name ` set cs \<or> \<not> rule_match r (ct_Name p) then retT ()
                else containerGone E src evalNow p))))"

section \<open>SMART and pools\<close>

definition smartStep :: "env \<Rightarrow> sourceRow \<Rightarrow> rule \<Rightarrow> time \<Rightarrow> nasDiskPayload \<Rightarrow> unit htx" where
  "smartStep E src r evalNow d =
     (let fk = ''smart:'' @ nd_Dev d;
          sev = (if r_Severity r = [] then ''critical'' else r_Severity r) in
      bindT (get_db (\<lambda>b. isFaultOpen b (s_ID src) fk)) (\<lambda>opn.
        if nd_Smart d = ''failing'' then
          whenT (\<not> opn)
            (emitHubEventTx E src ''smart_failing'' sev (Some fk) (Some ''open'')
              (txt_disk @ nd_Dev d @ txt_smart_bad) (Some ''smart=failing'') evalNow)
        else if nd_Smart d = ''ok'' then
          whenT opn
            (emitHubEventTx E src ''smart_back'' ''info'' (Some fk) (Some ''resolve'')
              (txt_disk @ nd_Dev d @ txt_smart_ok) (Some ''smart=ok'') evalNow)
        else retT ()))"

definition evalSmart :: "env \<Rightarrow> sourceRow \<Rightarrow> rule \<Rightarrow> samplePayload \<Rightarrow> time \<Rightarrow> unit htx" where
  "evalSmart E src r cur evalNow =
     (case sp_NAS cur of None \<Rightarrow> retT () | Some n \<Rightarrow> forT (nas_Disks n) (smartStep E src r evalNow))"

definition poolStep :: "env \<Rightarrow> sourceRow \<Rightarrow> rule \<Rightarrow> time \<Rightarrow> nasPoolPayload \<Rightarrow> unit htx" where
  "poolStep E src r evalNow p =
     (let fk = ''pool:'' @ npl_Name p;
          sev = (if r_Severity r = [] then ''critical'' else r_Severity r) in
      bindT (get_db (\<lambda>b. isFaultOpen b (s_ID src) fk)) (\<lambda>opn.
        if npl_State p = ''degraded'' \<or> npl_State p = ''error'' then
          whenT (\<not> opn)
            (emitHubEventTx E src ''pool_error'' sev (Some fk) (Some ''open'')
              (txt_pool @ npl_Name p @ txt_abnormal) (Some (''state='' @ npl_State p)) evalNow)
        else if npl_State p = ''ok'' then
          whenT opn
            (emitHubEventTx E src ''pool_back'' ''info'' (Some fk) (Some ''resolve'')
              (txt_pool @ npl_Name p @ txt_recovered) (Some ''state=ok'') evalNow)
        else retT ()))"

definition evalPool :: "env \<Rightarrow> sourceRow \<Rightarrow> rule \<Rightarrow> samplePayload \<Rightarrow> time \<Rightarrow> unit htx" where
  "evalPool E src r cur evalNow =
     (case sp_NAS cur of None \<Rightarrow> retT () | Some n \<Rightarrow> forT (nas_Pools n) (poolStep E src r evalNow))"

section \<open>A sample\<close>

text \<open>An unreadable time stamp is Go's zero time, which is never after the arrival.\<close>

definition eval_time :: "samplePayload \<Rightarrow> time \<Rightarrow> time" where
  "eval_time sample arrival =
     (let ts = (case parseTS (sp_TS sample) of None \<Rightarrow> zero_time | Some t \<Rightarrow> t)
      in if arrival < ts then ts else arrival)"

definition evalRule ::
  "env \<Rightarrow> sourceRow \<Rightarrow> samplePayload \<Rightarrow> time \<Rightarrow> rule \<Rightarrow> unit htx" where
  "evalRule E src sample evalNow r =
     (if \<not> r_Enabled r then retT ()
      else if r_Kind r = ''threshold'' then evalThreshold E src r sample evalNow
      else if r_Kind r = ''container_exit'' then evalContainers E src r (s_PrevSample src) sample evalNow
      else if r_Kind r = ''smart'' then evalSmart E src r sample evalNow
      else if r_Kind r = ''pool'' then evalPool E src r sample evalNow
      else retT ())"

definition evalSample ::
  "env \<Rightarrow> sourceRow \<Rightarrow> rulesDoc \<Rightarrow> samplePayload \<Rightarrow> time \<Rightarrow> unit htx" where
  "evalSample E src doc sample arrival =
     forT (rd_Rules doc) (evalRule E src sample (eval_time sample arrival))"

section \<open>Heartbeats\<close>

definition pauseSource :: "string \<Rightarrow> unit htx" where
  "pauseSource src =
     modT (\<lambda>s. s\<lparr>h_timers := (\<lambda>k. if fst k = src then None else h_timers s k)\<rparr>)"

definition seen_of :: "sourceRow \<Rightarrow> time option" where
  "seen_of src = Option.bind (s_LastSeenAt src) parseTS"

text \<open>Enabled device, last report longer ago than the limit.\<close>

definition is_lost :: "time \<Rightarrow> int \<Rightarrow> sourceRow \<Rightarrow> bool" where
  "is_lost now hbSec src =
     (s_Enabled src \<and> s_Kind src = ''device'' \<and>
      (case seen_of src of None \<Rightarrow> False | Some seen \<Rightarrow> seconds hbSec < time_sub now seen))"

text \<open>The transaction of \<open>checkHeartbeats\<close>: it reads the source again.\<close>

definition heartbeatTx :: "env \<Rightarrow> time \<Rightarrow> int \<Rightarrow> string \<Rightarrow> unit htx" where
  "heartbeatTx E now hbSec i =
     bindT (loadSourceTx i) (\<lambda>fresh.
       if s_DeletedAt fresh \<noteq> None \<or> \<not> is_lost now hbSec fresh then retT ()
       else
         bindT (get_db (\<lambda>d. loadFaultTx d (s_ID fresh) ''heartbeat'')) (\<lambda>f.
           if (case f of None \<Rightarrow> False | Some f0 \<Rightarrow> f_State f0 = ''open'') then retT ()
           else
             thenT
               (emitHubEventTx E fresh ''heartbeat_lost'' ''critical'' (Some ''heartbeat'') (Some ''open'')
                 (s_Name fresh @ txt_lost)
                 (Some (txt_silent_for @ fmt_d hbSec @ txt_no_heartbeat)) now)
               (emitSourceChangeTx E fresh)))"

text \<open>One source: the check before the transaction, the transaction, the timers.\<close>

definition checkHeartbeat :: "env \<Rightarrow> time \<Rightarrow> int \<Rightarrow> sourceRow \<Rightarrow> unit htx" where
  "checkHeartbeat E now hbSec src s =
     (if \<not> is_lost now hbSec src \<or> isFaultOpen (h_db s) (s_ID src) ''heartbeat'' then (Inr (), s)
      else (case withTx (heartbeatTx E now hbSec (s_ID src)) s of
              (Inl e, t) \<Rightarrow> (Inr (), t)
            | (Inr _, t) \<Rightarrow> pauseSource (s_ID src) t))"

definition checkHeartbeats :: "env \<Rightarrow> time \<Rightarrow> unit htx" where
  "checkHeartbeats E now =
     bindT (get_db heartbeatSeconds) (\<lambda>hbSec.
     bindT (get_db listSources) (\<lambda>sources.
       forT sources (checkHeartbeat E now hbSec)))"

section \<open>Rule evaluation is safe\<close>

lemma safe_getTimer: "safe E (getTimer k)"
  unfolding getTimer_def by (rule safe_getT)

lemma safe_setTimer: "safe E (setTimer k st)"
  unfolding setTimer_def by (rule safe_modT_mem) simp

lemma safe_thresholdStep: "inj (env_ulid E) \<Longrightarrow> safe E (thresholdStep E src r l rl now lv)"
  unfolding thresholdStep_def Let_def by (intro safe_intros safe_getTimer safe_setTimer)

lemma safe_containerStep: "inj (env_ulid E) \<Longrightarrow> safe E (containerStep E src r now p c)"
  unfolding containerStep_def Let_def by (intro safe_intros)

lemma safe_containerGone: "inj (env_ulid E) \<Longrightarrow> safe E (containerGone E src now p)"
  unfolding containerGone_def Let_def by (intro safe_intros)

lemma safe_evalSample: "inj (env_ulid E) \<Longrightarrow> safe E (evalSample E src doc sample arrival)"
  unfolding evalSample_def evalRule_def evalThreshold_def evalContainers_def evalSmart_def
    evalPool_def smartStep_def poolStep_def Let_def
  by (intro safe_intros safe_thresholdStep safe_containerStep safe_containerGone)

lemma safe_heartbeatTx: "inj (env_ulid E) \<Longrightarrow> safe E (heartbeatTx E now hb i)"
  unfolding heartbeatTx_def loadSourceTx_def by (intro safe_intros)

lemma pauseSource_quiet: "hub_inv E s \<Longrightarrow> hub_inv E (snd (pauseSource i s))"
  by (auto simp: pauseSource_def intro: hub_inv_ids)

lemma checkHeartbeat_keeps:
  assumes "inj (env_ulid E)"
  shows "obeys (keeps (hub_inv E)) (checkHeartbeat E now hb src)"
proof (rule obeysI)
  fix s
  obtain r t where w: "withTx (heartbeatTx E now hb (s_ID src)) s = (r, t)"
    by (cases "withTx (heartbeatTx E now hb (s_ID src)) s")
  have "keeps (hub_inv E) s t" using obeysD [OF withTx_keeps [OF safe_heartbeatTx [OF assms]] w] .
  then show "keeps (hub_inv E) s (snd (checkHeartbeat E now hb src s))"
    using w by (cases r) (auto simp: checkHeartbeat_def keeps_def intro: pauseSource_quiet)
qed

lemma checkHeartbeats_keeps: "inj (env_ulid E) \<Longrightarrow> obeys (keeps (hub_inv E)) (checkHeartbeats E now)"
  unfolding checkHeartbeats_def
  by (intro kept.intros checkHeartbeat_keeps) (simp_all add: obeys_def keeps_def)

section \<open>What the queries of the code see\<close>

lemma isFaultOpen_abs:
  assumes "hub_inv E s"
  shows "isFaultOpen (h_db s) src key \<longleftrightarrow> is_open (abs_at (h_db s) (src, key))"
proof -
  have d: "distinct (map fkey (d_faults (h_db s)))"
    using assms by (simp add: hub_inv_def faults_inv_def Let_def)
  show ?thesis
  proof (cases "loadFaultTx (h_db s) src key")
    case None
    then have "\<forall>f \<in> set (d_faults (h_db s)). \<not> (f_SourceID f = src \<and> f_FaultKey f = key)"
      by (simp add: loadFaultTx_def find_None_set)
    then show ?thesis using None by (auto simp: isFaultOpen_def abs_at_def round_of_def is_open_def filter_empty_conv)
  next
    case (Some f)
    then have f: "f \<in> set (d_faults (h_db s))" "f_SourceID f = src" "f_FaultKey f = key"
      using loadFaultTx_Some [OF Some] by (simp_all add: fkey_def)
    have u: "g = f" if "g \<in> set (d_faults (h_db s))" "f_SourceID g = src" "f_FaultKey g = key" for g
      using loadFaultTx_member [OF d that(1), of src key] Some that(2,3) by (simp add: fkey_def)
    have "isFaultOpen (h_db s) src key \<longleftrightarrow>
        (\<exists>g \<in> set (d_faults (h_db s)). f_SourceID g = src \<and> f_FaultKey g = key \<and> f_State g = ''open'')"
      unfolding isFaultOpen_def by (simp add: filter_empty_conv) blast
    also have "\<dots> \<longleftrightarrow> f_State f = ''open''" using f u by metis
    finally show ?thesis using Some by (simp add: abs_at_def round_of_def is_open_def)
  qed
qed

lemma fault_open_abs:
  "(case loadFaultTx d src key of None \<Rightarrow> False | Some f \<Rightarrow> f_State f = ''open'') \<longleftrightarrow>
     is_open (abs_at d (src, key))"
  by (auto simp: abs_at_def round_of_def is_open_def split: option.splits)

text \<open>Everything the hub needs to raise and clear a fault of this key.\<close>

definition hub_ready :: "env \<Rightarrow> hub \<Rightarrow> string \<times> string \<Rightarrow> bool" where
  "hub_ready E s k \<longleftrightarrow> inj (env_ulid E) \<and> hub_inv E s \<and> hub_ids_free E s \<and> hub_ahead s k"

lemma ready_timers: "hub_ready E s k \<Longrightarrow> hub_ready E (s\<lparr>h_timers := m\<rparr>) k"
  by (auto simp: hub_ready_def hub_ids_free_def hub_ahead_def intro: hub_inv_ids cong: round.case_cong)

lemma ready_open:
  assumes "hub_ready E s (s_ID src, key)" and "key \<noteq> []"
  shows "\<exists>t. whenT (\<not> isFaultOpen (h_db s) (s_ID src) key)
      (emitHubEventTx E src kind sv (Some key) (Some ''open'') title body w) s = (Inr (), t) \<and>
    is_open (abs_at (h_db t) (s_ID src, key))"
  using emit_open [of E s src key kind sv title body w] assms isFaultOpen_abs [of E s]
  by (auto simp: hub_ready_def whenT_def)

lemma ready_resolve:
  assumes "hub_ready E s (s_ID src, key)" and "key \<noteq> []"
  shows "\<exists>t. whenT (isFaultOpen (h_db s) (s_ID src) key)
      (emitHubEventTx E src kind sv (Some key) (Some ''resolve'') title body w) s = (Inr (), t) \<and>
    \<not> is_open (abs_at (h_db t) (s_ID src, key))"
  using emit_resolve [of E s src key kind sv title body w] assms isFaultOpen_abs [of E s]
  by (auto simp: hub_ready_def whenT_def)

section \<open>Threshold timers\<close>

lemma setTimer_run [simp]: "setTimer k st s = (Inr (), s\<lparr>h_timers := (h_timers s)(k \<mapsto> st)\<rparr>)"
  by (simp add: setTimer_def)

lemma getTimer_run [simp]:
  "getTimer k s = (Inr (case h_timers s k of None \<Rightarrow> zeroState | Some st \<Rightarrow> st), s)"
  by (simp add: getTimer_def)

text \<open>One sample and the timer: when the breach began.\<close>

definition timer_next :: "rule \<Rightarrow> rat \<Rightarrow> time \<Rightarrow> rat \<Rightarrow> ruleState \<Rightarrow> bool \<times> time" where
  "timer_next r limit now v st =
     (if violates (r_Op r) v limit then (True, if st_breach st then st_breachSince st else now)
      else (False, st_breachSince st))"

lemma thresholdStep_timer:
  assumes "thresholdStep E src r l rl now (sel, v) s = (Inr x, t)"
  shows "\<exists>st. h_timers t (s_ID src, r_ID r, sel) = Some st \<and>
    st_breach st = violates (r_Op r) v l \<and>
    (violates (r_Op r) v l \<longrightarrow> st_breachSince st =
      snd (timer_next r l now v (case h_timers s (s_ID src, r_ID r, sel) of None \<Rightarrow> zeroState | Some z \<Rightarrow> z)))"
proof -
  define st where "st = (case h_timers s (s_ID src, r_ID r, sel) of None \<Rightarrow> zeroState | Some z \<Rightarrow> z)"
  show ?thesis
  proof (cases "violates (r_Op r) v l")
    case True
    with assms show ?thesis
      unfolding thresholdStep_def Let_def st_def [symmetric] timer_next_def
      by (auto simp: bindT_Inr_iff thenT_Inr_iff whenT_run st_def [symmetric]
          dest!: sameD [OF timers_emitHubEventTx] split: if_splits)
  next
    case False
    with assms show ?thesis
      unfolding thresholdStep_def Let_def st_def [symmetric]
      by (auto simp: bindT_Inr_iff thenT_Inr_iff whenT_run st_def [symmetric] zeroState_def
          dest!: sameD [OF timers_emitHubEventTx] split: if_splits)
  qed
qed

text \<open>A series of samples of one label: pairs of evaluation time and value.\<close>

definition threshold_run ::
  "env \<Rightarrow> sourceRow \<Rightarrow> rule \<Rightarrow> rat \<Rightarrow> rat \<Rightarrow> string \<Rightarrow> (time \<times> rat) list \<Rightarrow> unit htx" where
  "threshold_run E src r limit recoverLimit sel hs =
     forT hs (\<lambda>h. thresholdStep E src r limit recoverLimit (fst h) (sel, snd h))"

lemma forT_snoc: "forT (xs @ [x]) f s = thenT (forT xs f) (f x) s"
  by (induction xs arbitrary: s) (simp_all add: thenT_def bindT_def split: prod.split sum.split)

lemma seconds_elapsed:
  "0 \<le> n \<Longrightarrow> n \<le> 9000000000 \<Longrightarrow> seconds n \<le> time_sub now since \<longleftrightarrow> since + n * 1000000000 \<le> now"
  by (subst seconds_small, assumption, assumption, subst time_sub_ge_small) auto

lemma rule_fault_key_nonempty [simp]: "rule_fault_key r sel \<noteq> []"
  by (simp add: rule_fault_key_def)

lemma thresholdStep_breach:
  assumes "violates (r_Op r) v l"
  shows "\<exists>m. thresholdStep E src r l rl now (sel, v) s =
    whenT (seconds (r_ForSeconds r) \<le> time_sub now (snd (timer_next r l now v
        (case h_timers s (s_ID src, r_ID r, sel) of None \<Rightarrow> zeroState | Some z \<Rightarrow> z))))
      (bindT (get_db (\<lambda>d. isFaultOpen d (s_ID src) (rule_fault_key r sel))) (\<lambda>opn. whenT (\<not> opn)
         (emitHubEventTx E src ''threshold'' (r_Severity r) (Some (rule_fault_key r sel)) (Some ''open'')
           (s_Name src @ txt_colon @ thresholdTitle r sel @ txt_over_limit)
           (Some (sel @ ''='' @ fmt_f 2 v @ txt_exceeds @ fmt_f 0 l @ txt_for_already
                  @ fmt_d (r_ForSeconds r) @ txt_seconds)) now))) (s\<lparr>h_timers := m\<rparr>)"
  using assms unfolding thresholdStep_def Let_def timer_next_def
  by (auto simp: bindT_def [where m = "getTimer _"] thenT_def bindT_def [where m = "setTimer _ _"])

lemma thresholdStep_clear:
  assumes "\<not> violates (r_Op r) v l" and "is_open (abs_at (h_db s) (s_ID src, rule_fault_key r sel))"
    and "hub_inv E s" and "recovers (r_Op r) v rl"
  shows "\<exists>m k. thresholdStep E src r l rl now (sel, v) s =
    whenT (seconds (r_RecoverForSeconds r) \<le> time_sub now
        (case h_timers s (s_ID src, r_ID r, sel) of None \<Rightarrow> now
         | Some z \<Rightarrow> if st_recovering z then st_recoverSince z else now))
      (thenT (emitHubEventTx E src ''threshold_recovered'' ''info'' (Some (rule_fault_key r sel)) (Some ''resolve'')
           (s_Name src @ txt_colon @ thresholdTitle r sel @ txt_normal_again)
           (Some (sel @ ''='' @ fmt_f 2 v @ txt_fell_to @ fmt_f 0 rl
                  @ txt_below_for @ fmt_d (r_RecoverForSeconds r) @ txt_seconds)) now)
         (setTimer k zeroState)) (s\<lparr>h_timers := m\<rparr>)"
proof -
  have "isFaultOpen (h_db s) (s_ID src) (rule_fault_key r sel)"
    using isFaultOpen_abs [OF assms(3)] assms(2) by simp
  with assms(1,4) show ?thesis
    unfolding thresholdStep_def Let_def
    by (auto simp: bindT_def [where m = "getTimer _"] thenT_def bindT_def [where m = "setTimer _ _"]
        bindT_def [where m = "get_db _"] whenT_run zeroState_def split: option.split)
qed

section \<open>Properties\<close>

text \<open>
  C10: the breach timer means what its name says.  After any series of samples of one label,
  evaluated from a fresh timer, the timer is in breach exactly when the last samples are
  over the limit, and it then began with the first sample of that final unbroken run.
\<close>

theorem breach_since_run:
  assumes "threshold_run E src r l rl sel hs s = (Inr (), t)"
    and "h_timers s (s_ID src, r_ID r, sel) = None" and "hs \<noteq> []"
  shows "\<exists>st. h_timers t (s_ID src, r_ID r, sel) = Some st \<and>
    (let over = takeWhile (\<lambda>h. violates (r_Op r) (snd h) l) (rev hs) in
     st_breach st = (over \<noteq> []) \<and> (over \<noteq> [] \<longrightarrow> st_breachSince st = fst (last over)))"
  using assms
proof (induction hs arbitrary: t rule: rev_induct)
  case Nil
  then show ?case by simp
next
  case (snoc h hs)
  let ?k = "(s_ID src, r_ID r, sel)" and ?over = "takeWhile (\<lambda>h. violates (r_Op r) (snd h) l) (rev hs)"
  from snoc.prems(1) obtain u where u: "threshold_run E src r l rl sel hs s = (Inr (), u)"
    and step: "thresholdStep E src r l rl (fst h) (sel, snd h) u = (Inr (), t)"
    by (auto simp: threshold_run_def forT_snoc thenT_Inr_iff)
  from thresholdStep_timer [OF step] obtain st where st: "h_timers t ?k = Some st"
    "st_breach st = violates (r_Op r) (snd h) l"
    "violates (r_Op r) (snd h) l \<Longrightarrow> st_breachSince st =
      snd (timer_next r l (fst h) (snd h) (case h_timers u ?k of None \<Rightarrow> zeroState | Some z \<Rightarrow> z))"
    by auto
  show ?case
  proof (cases "hs = []")
    case True
    then have "h_timers u ?k = None" using u snoc.prems(2) by (simp add: threshold_run_def)
    then show ?thesis using st True by (auto simp: timer_next_def zeroState_def)
  next
    case False
    from snoc.IH [OF u snoc.prems(2) False] obtain z where "h_timers u ?k = Some z"
      "st_breach z = (?over \<noteq> [])" "?over \<noteq> [] \<Longrightarrow> st_breachSince z = fst (last ?over)"
      by (auto simp: Let_def)
    then show ?thesis using st by (auto simp: timer_next_def Let_def)
  qed
qed


text \<open>
  While the fault of a threshold rule is open and a sample is not over the limit, the
  fault closes exactly when the value is beyond the recovery limit and has been so for at
  least \<^verbatim>\<open>recoverForSeconds\<close>.
\<close>

theorem threshold_recovers_after_hold:
  assumes "hub_ready E s (s_ID src, rule_fault_key r sel)" and "\<not> violates (r_Op r) v l"
    and "is_open (abs_at (h_db s) (s_ID src, rule_fault_key r sel))"
    and "0 \<le> r_RecoverForSeconds r" and "r_RecoverForSeconds r \<le> 9000000000"
    and "h_timers s (s_ID src, r_ID r, sel) = Some st" and "st_recovering st"
  shows "\<exists>t. thresholdStep E src r l rl now (sel, v) s = (Inr (), t) \<and>
    (is_open (abs_at (h_db t) (s_ID src, rule_fault_key r sel)) \<longleftrightarrow>
       \<not> (recovers (r_Op r) v rl \<and> st_recoverSince st + r_RecoverForSeconds r * 1000000000 \<le> now))"
proof (cases "recovers (r_Op r) v rl")
  case False
  have "isFaultOpen (h_db s) (s_ID src) (rule_fault_key r sel)"
    using isFaultOpen_abs [of E s] assms(1,3) by (simp add: hub_ready_def)
  with assms(2,3) False show ?thesis
    unfolding thresholdStep_def Let_def
    by (simp add: bindT_def [where m = "getTimer _"] thenT_def bindT_def [where m = "setTimer _ _"]
        bindT_def [where m = "get_db _"] whenT_run)
next
  case True
  let ?fk = "rule_fault_key r sel"
  have inv: "hub_inv E s" using assms(1) by (simp add: hub_ready_def)
  from thresholdStep_clear [OF assms(2,3) inv True, of now] assms(6,7)
  obtain m k where m: "thresholdStep E src r l rl now (sel, v) s =
    whenT (seconds (r_RecoverForSeconds r) \<le> time_sub now (st_recoverSince st))
      (thenT (emitHubEventTx E src ''threshold_recovered'' ''info'' (Some ?fk) (Some ''resolve'')
           (s_Name src @ txt_colon @ thresholdTitle r sel @ txt_normal_again)
           (Some (sel @ ''='' @ fmt_f 2 v @ txt_fell_to @ fmt_f 0 rl
                  @ txt_below_for @ fmt_d (r_RecoverForSeconds r) @ txt_seconds)) now)
         (setTimer k zeroState)) (s\<lparr>h_timers := m\<rparr>)" by auto
  have r: "hub_ready E (s\<lparr>h_timers := m\<rparr>) (s_ID src, ?fk)" using ready_timers [OF assms(1)] .
  show ?thesis
  proof (cases "st_recoverSince st + r_RecoverForSeconds r * 1000000000 \<le> now")
    case late: True
    then have e: "seconds (r_RecoverForSeconds r) \<le> time_sub now (st_recoverSince st)"
      using seconds_elapsed [OF assms(4,5)] by simp
    from r obtain t where "emitHubEventTx E src ''threshold_recovered'' ''info'' (Some ?fk) (Some ''resolve'')
           (s_Name src @ txt_colon @ thresholdTitle r sel @ txt_normal_again)
           (Some (sel @ ''='' @ fmt_f 2 v @ txt_fell_to @ fmt_f 0 rl
                  @ txt_below_for @ fmt_d (r_RecoverForSeconds r) @ txt_seconds)) now (s\<lparr>h_timers := m\<rparr>) = (Inr (), t)"
      "\<not> is_open (abs_at (h_db t) (s_ID src, ?fk))"
      using emit_resolve [of E "s\<lparr>h_timers := m\<rparr>" src ?fk] unfolding hub_ready_def by (metis rule_fault_key_nonempty)
    then show ?thesis using e late True unfolding m by (simp add: whenT_run thenT_def bindT_def)
  next
    case early: False
    then have "\<not> seconds (r_RecoverForSeconds r) \<le> time_sub now (st_recoverSince st)"
      using seconds_elapsed [OF assms(4,5)] by simp
    then show ?thesis using early assms(3) unfolding m by (simp add: whenT_run)
  qed
qed

text \<open>
  No upper bound is checked on a rule's hold time, and its product with
  \<^verbatim>\<open>time.Second\<close> wraps around.  With ten thousand million seconds the hold time is
  negative: the first sample over the limit opens the fault at once.
\<close>

theorem hold_time_wraps:
  assumes "hub_ready E s (s_ID src, rule_fault_key r sel)" and "violates (r_Op r) v l"
    and "r_ForSeconds r = 10000000000" and "h_timers s (s_ID src, r_ID r, sel) = None"
  shows "\<exists>t. thresholdStep E src r l rl now (sel, v) s = (Inr (), t) \<and>
    is_open (abs_at (h_db t) (s_ID src, rule_fault_key r sel))"
proof -
  let ?fk = "rule_fault_key r sel"
  obtain m where m: "thresholdStep E src r l rl now (sel, v) s =
    whenT (seconds (r_ForSeconds r) \<le> time_sub now now)
      (bindT (get_db (\<lambda>d. isFaultOpen d (s_ID src) ?fk)) (\<lambda>opn. whenT (\<not> opn)
         (emitHubEventTx E src ''threshold'' (r_Severity r) (Some ?fk) (Some ''open'')
           (s_Name src @ txt_colon @ thresholdTitle r sel @ txt_over_limit)
           (Some (sel @ ''='' @ fmt_f 2 v @ txt_exceeds @ fmt_f 0 l @ txt_for_already
                  @ fmt_d (r_ForSeconds r) @ txt_seconds)) now))) (s\<lparr>h_timers := m\<rparr>)"
    using thresholdStep_breach [OF assms(2), of E src rl now sel s] assms(2,4)
    by (auto simp: timer_next_def zeroState_def)
  have r: "hub_ready E (s\<lparr>h_timers := m\<rparr>) (s_ID src, ?fk)" using ready_timers [OF assms(1)] .
  have "seconds (r_ForSeconds r) \<le> time_sub now now"
    unfolding assms(3) seconds_def wrap64_def by simp
  then show ?thesis using ready_open [OF r, of "''threshold''"] unfolding m
    by (simp add: whenT_run [of True] bindT_def [where m = "get_db _"])
qed

text \<open>
  After a disk or a pool was evaluated, its fault is open when the report says failing
  (degraded, error), closed when it says ok, and as before in every other case, such as a
  disk that sleeps or a state the hub does not know.
\<close>

theorem smart_and_pool_follow_state:
  assumes "hub_ready E s (s_ID src, ''smart:'' @ nd_Dev d)" and "hub_ready E s (s_ID src, ''pool:'' @ npl_Name p)"
  shows "\<exists>t u. smartStep E src r now d s = (Inr (), t) \<and> poolStep E src r now p s = (Inr (), u) \<and>
    (is_open (abs_at (h_db t) (s_ID src, ''smart:'' @ nd_Dev d)) \<longleftrightarrow>
       nd_Smart d = ''failing'' \<or>
       nd_Smart d \<noteq> ''ok'' \<and> is_open (abs_at (h_db s) (s_ID src, ''smart:'' @ nd_Dev d))) \<and>
    (is_open (abs_at (h_db u) (s_ID src, ''pool:'' @ npl_Name p)) \<longleftrightarrow>
       npl_State p \<in> {''degraded'', ''error''} \<or>
       npl_State p \<noteq> ''ok'' \<and> is_open (abs_at (h_db s) (s_ID src, ''pool:'' @ npl_Name p)))"
proof -
  have "\<exists>t. smartStep E src r now d s = (Inr (), t) \<and>
    (is_open (abs_at (h_db t) (s_ID src, ''smart:'' @ nd_Dev d)) \<longleftrightarrow>
       nd_Smart d = ''failing'' \<or>
       nd_Smart d \<noteq> ''ok'' \<and> is_open (abs_at (h_db s) (s_ID src, ''smart:'' @ nd_Dev d)))"
    using ready_open [OF assms(1), of "''smart_failing''"] ready_resolve [OF assms(1), of "''smart_back''"]
    unfolding smartStep_def Let_def by (simp add: bindT_def [where m = "get_db _"])
  moreover have "\<exists>u. poolStep E src r now p s = (Inr (), u) \<and>
    (is_open (abs_at (h_db u) (s_ID src, ''pool:'' @ npl_Name p)) \<longleftrightarrow>
       npl_State p \<in> {''degraded'', ''error''} \<or>
       npl_State p \<noteq> ''ok'' \<and> is_open (abs_at (h_db s) (s_ID src, ''pool:'' @ npl_Name p)))"
    using ready_open [OF assms(2), of "''pool_error''"] ready_resolve [OF assms(2), of "''pool_back''"]
    unfolding poolStep_def Let_def by (simp add: bindT_def [where m = "get_db _"])
  ultimately show ?thesis by blast
qed

text \<open>
  A container that was running and no longer is has an open fault afterwards, one
  that runs again or left the list has none, and a container that stays in its state keeps
  the state of its fault.
\<close>

theorem container_follows_state:
  assumes "hub_ready E s (s_ID src, ''container:'' @ ct_Name c)"
  shows "\<exists>t u. containerStep E src r now p c s = (Inr (), t) \<and> containerGone E src now c s = (Inr (), u) \<and>
    (is_open (abs_at (h_db t) (s_ID src, ''container:'' @ ct_Name c)) \<longleftrightarrow>
       (if ct_State p = ''running'' \<and> ct_State c \<noteq> ''running'' then True
        else if ct_State p \<noteq> ''running'' \<and> ct_State c = ''running'' then False
        else is_open (abs_at (h_db s) (s_ID src, ''container:'' @ ct_Name c)))) \<and>
    \<not> is_open (abs_at (h_db u) (s_ID src, ''container:'' @ ct_Name c))"
proof -
  define fk where "fk = ''container:'' @ ct_Name c"
  have fk: "fk \<noteq> []" by (simp add: fk_def)
  have r: "hub_ready E s (s_ID src, fk)" using assms by (simp add: fk_def)
  have ready: "inj (env_ulid E)" "hub_inv E s" "hub_ids_free E s" using r by (simp_all add: hub_ready_def)
  have "\<exists>t. containerStep E src r now p c s = (Inr (), t) \<and>
    (is_open (abs_at (h_db t) (s_ID src, fk)) \<longleftrightarrow>
       (if ct_State p = ''running'' \<and> ct_State c \<noteq> ''running'' then True
        else if ct_State p \<noteq> ''running'' \<and> ct_State c = ''running'' then False
        else is_open (abs_at (h_db s) (s_ID src, fk))))"
    using ready_open [OF r fk, of "''container_exit''"] ready_resolve [OF r fk, of "''container_back''"]
      isFaultOpen_abs [OF ready(2), of "s_ID src" fk] emit_update [OF ready _ fk]
    unfolding containerStep_def Let_def fk_def [symmetric]
    by (simp add: bindT_def [where m = "get_db _"] whenT_run [where b = "_ < _ \<and> _"] split: option.split)
  moreover have "\<exists>u. containerGone E src now c s = (Inr (), u) \<and> \<not> is_open (abs_at (h_db u) (s_ID src, fk))"
    using ready_resolve [OF r fk, of "''container_back''"]
    unfolding containerGone_def Let_def fk_def [symmetric] by (simp add: bindT_def [where m = "get_db _"])
  ultimately show ?thesis unfolding fk_def by blast
qed

lemma heartbeat_runs:
  assumes "hub_ready E s (i, ''heartbeat'')" and "find (\<lambda>r. s_ID r = i) (d_sources (h_db s)) = Some src"
    and "s_DeletedAt src = None"
  shows "\<exists>t. heartbeatTx E now hb i s = (Inr (), t) \<and>
    (is_open (abs_at (h_db t) (i, ''heartbeat'')) \<longleftrightarrow>
       is_open (abs_at (h_db s) (i, ''heartbeat'')) \<or> is_lost now hb src) \<and>
    (is_open (abs_at (h_db s) (i, ''heartbeat'')) \<longrightarrow> t = s)"
proof -
  let ?k = "(i, ''heartbeat'')"
  let ?emit = "emitHubEventTx E src ''heartbeat_lost'' ''critical'' (Some ''heartbeat'') (Some ''open'')
     (s_Name src @ txt_lost) (Some (txt_silent_for @ fmt_d hb @ txt_no_heartbeat)) now"
  have i: "s_ID src = i" using find_SomeD [OF assms(2)] by simp
  have run: "heartbeatTx E now hb i s = (if \<not> is_lost now hb src \<or> is_open (abs_at (h_db s) ?k) then (Inr (), s)
      else thenT ?emit (emitSourceChangeTx E src) s)"
    using assms(2,3) i
    by (simp add: heartbeatTx_def loadSourceTx_def rowT_def bindT_def [where m = "bindT _ _"]
        bindT_def [where m = "get_db _"] fault_open_abs)
  show ?thesis
  proof (cases "\<not> is_lost now hb src \<or> is_open (abs_at (h_db s) ?k)")
    case True
    then show ?thesis using run by auto
  next
    case False
    from assms(1) i obtain t where t: "?emit s = (Inr (), t)" "is_open (abs_at (h_db t) ?k)"
      using emit_open [of E s src "''heartbeat''"] unfolding hub_ready_def by (metis list.distinct(1))
    have "hoare (hub_inv E) ?emit (\<lambda>_. hub_inv E)"
      using assms(1) safe_emitHubEventTx unfolding hub_ready_def safe_def by blast
    from hoareD [OF this _ t(1)] assms(1) have "hub_inv E t" by (simp add: hub_ready_def)
    then obtain u where u: "emitSourceChangeTx E src t = (Inr (), u)"
      using emitChangeTx_run [of "t\<lparr>h_clk := Suc (h_clk t)\<rparr>"]
      by (auto simp: emitSourceChangeTx_def bindT_def thenT_def hub_inv_def Let_def)
    have "obeys fquiet (emitSourceChangeTx E src)"
      unfolding emitSourceChangeTx_def by (intro fquiet_base fquiet_emitChangeTx)
    then have "abs_at (h_db u) ?k = abs_at (h_db t) ?k"
      using u by (intro abs_at_fview) (auto simp: fquiet_def dest: obeysD)
    then show ?thesis using run False t u by (auto simp: thenT_def bindT_def)
  qed
qed

text \<open>
  C11: the transaction of the heartbeat monitor works for every state the source and its
  fault may be in when it starts, so also for an ingest that was committed after the
  monitor's first check.  The heartbeat fault is open afterwards exactly when it was open or
  the source is an enabled device that has been silent for longer than the limit; when it
  was open, nothing is written, so one outage is reported once.
\<close>

theorem heartbeat_follows_silence:
  assumes "hub_ready E s (i, ''heartbeat'')" and "find (\<lambda>r. s_ID r = i) (d_sources (h_db s)) = Some src"
    and "s_DeletedAt src = None"
  shows "\<exists>t. heartbeatTx E now hb i s = (Inr (), t) \<and>
    (is_open (abs_at (h_db t) (i, ''heartbeat'')) \<longleftrightarrow>
       is_open (abs_at (h_db s) (i, ''heartbeat'')) \<or>
       (s_Enabled src \<and> s_Kind src = ''device'' \<and>
        (\<exists>seen. seen_of src = Some seen \<and> seconds hb < time_sub now seen))) \<and>
    (is_open (abs_at (h_db s) (i, ''heartbeat'')) \<longrightarrow> t = s)"
proof -
  have "is_lost now hb src \<longleftrightarrow> s_Enabled src \<and> s_Kind src = ''device'' \<and>
      (\<exists>seen. seen_of src = Some seen \<and> seconds hb < time_sub now seen)"
    by (auto simp: is_lost_def split: option.split)
  with heartbeat_runs [OF assms, of now hb] show ?thesis by simp
qed

lemma touch_closes:
  assumes "hub_ready E s (s_ID src, ''heartbeat'')"
  shows "\<exists>src' t. touchSourceSeenTx E src seen s = (Inr src', t) \<and> s_LastSeenAt src' = Some (fmtTS seen) \<and>
    \<not> is_open (abs_at (h_db t) (s_ID src, ''heartbeat''))"
proof -
  let ?src = "src\<lparr>s_LastSeenAt := Some (fmtTS seen)\<rparr>" and ?k = "(s_ID src, ''heartbeat'')"
  define u where "u = s\<lparr>h_db := (h_db s)\<lparr>d_sources := upd_where (\<lambda>r. s_ID r = s_ID src)
    (\<lambda>r. r\<lparr>s_LastSeenAt := Some (fmtTS seen)\<rparr>) (d_sources (h_db s))\<rparr>\<rparr>"
  have abs: "abs_at (h_db u) k = abs_at (h_db s) k" for k by (intro abs_at_fview) (simp add: u_def fview_def)
  have inv: "hub_inv E u"
    using assms faults_inv_mono [of E s u] messages_inv_mono [of E s u]
    by (auto simp: hub_ready_def hub_inv_def u_def fview_def mquiet_def changes_wf_def change_counter_def)
  have "hub_seq (h_db u) = hub_seq (h_db s)" by (simp add: u_def hub_seq_def)
  then have "hub_ready E u (s_ID ?src, ''heartbeat'')"
    using assms inv by (simp add: hub_ready_def hub_ahead_def abs cong: round.case_cong)
      (simp add: u_def hub_ids_free_def)
  from ready_resolve [OF this, of "''heartbeat_back''"] have
    "\<exists>t. whenT (is_open (abs_at (h_db u) ?k))
      (emitHubEventTx E ?src ''heartbeat_back'' ''info'' (Some ''heartbeat'') (Some ''resolve'')
        (s_Name src @ txt_ingest_resumed) (Some (txt_source_reports @ s_Kind src @ txt_close_paren)) seen) u
       = (Inr (), t) \<and> \<not> is_open (abs_at (h_db t) ?k)"
    by (simp add: isFaultOpen_abs [OF inv])
  then show ?thesis
    unfolding touchSourceSeenTx_def Let_def
    by (auto simp: thenT_def bindT_def u_def [symmetric] fault_open_abs)
qed

text \<open>
  Any report of a source closes its heartbeat fault and moves its \<^verbatim>\<open>last_seen_at\<close>.
\<close>

theorem report_ends_outage:
  assumes "hub_ready E s (s_ID src, ''heartbeat'')"
  shows "\<exists>src' t. touchSourceSeenTx E src seen s = (Inr src', t) \<and> s_LastSeenAt src' = Some (fmtTS seen) \<and>
    \<not> is_open (abs_at (h_db t) (s_ID src, ''heartbeat''))"
  by (rule touch_closes [OF assms])

section \<open>Witnesses\<close>

definition open_hub :: "string \<Rightarrow> (ruleKey \<Rightarrow> ruleState option) \<Rightarrow> hub" where
  "open_hub key timers =
     hub_start\<lparr>h_db := empty_db\<lparr>d_faults := [newFaultRow ''flt_'' ''src_1'' key (sample_event ''e'' 5 ''open'')],
                                d_sources := [sample_source]\<rparr>,
               h_ids := 1, h_timers := timers\<rparr>"

definition cpu_rule :: rule where
  "cpu_rule = blank_rule\<lparr>r_ID := ''cpu'', r_Kind := ''threshold'', r_Metric := ''cpu_percent'',
     r_Op := ''gt'', r_Value := Some 90, r_ForSeconds := 60, r_RecoverForSeconds := 60, r_Enabled := True\<rparr>"

lemma hub_ready_start: "hub_ready sample_env (hub_start\<lparr>h_timers := m\<rparr>) k"
proof -
  have "hub_ready sample_env hub_start k"
    using inj_sample_env hub_inv_start [of sample_env]
    by (simp add: hub_ready_def hub_ids_free_def hub_ahead_def abs_start)
      (simp add: hub_start_def empty_db_def)
  then show ?thesis by (rule ready_timers)
qed

lemma abs_open_hub: "abs_at (h_db (open_hub key m)) (''src_1'', key) = (OpenR 1 5, {})"
  by (simp add: open_hub_def abs_at_def loadFaultTx_def round_of_def newFaultRow_def pend_at_def
      sample_event_def empty_db_def)

lemma hub_ready_open: "hub_ready sample_env (open_hub key m) (''src_1'', key)"
proof -
  have "hub_inv sample_env (open_hub key m)"
    by (simp add: hub_inv_def faults_inv_def messages_inv_def open_hub_def hub_start_def empty_db_def
        changes_wf_def change_counter_def fault_wf_def ghost_free_def newFaultRow_def used_ids_def
        sample_env_def)
  moreover have "hub_seq (h_db (open_hub key m)) = 2 ^ 62"
    by (simp add: open_hub_def hub_seq_def hubSeqBase_def empty_db_def)
  moreover have "hub_ids_free sample_env (open_hub key m)"
    by (simp add: hub_ids_free_def open_hub_def empty_db_def)
  ultimately show ?thesis
    using inj_sample_env by (simp add: hub_ready_def hub_ahead_def abs_open_hub)
qed

theorem breach_since_run_witness:
  "\<exists>t st. threshold_run sample_env sample_source cpu_rule 90 90 ''-'' [(0, 95), (1, 50), (2, 96), (3, 97)]
      hub_start = (Inr (), t) \<and> h_timers t (''src_1'', ''cpu'', ''-'') = Some st \<and>
    st_breach st \<and> st_breachSince st = 2"
proof -
  let ?hs = "[(0, 95), (1, 50), (2, 96), (3, 97)] :: (time \<times> rat) list"
  have s60: "seconds 60 = 60000000000" using seconds_small [of 60] by simp
  have "\<exists>t. threshold_run sample_env sample_source cpu_rule 90 90 ''-'' ?hs hub_start = (Inr (), t)"
    by (simp add: threshold_run_def thresholdStep_def Let_def thenT_def bindT_def whenT_run violates_def
        cpu_rule_def blank_rule_def s60 time_sub_def hub_start_def empty_db_def isFaultOpen_def zeroState_def)
  then obtain t where t: "threshold_run sample_env sample_source cpu_rule 90 90 ''-'' ?hs hub_start = (Inr (), t)"
    by blast
  have "h_timers hub_start (s_ID sample_source, r_ID cpu_rule, ''-'') = None" by (simp add: hub_start_def)
  from breach_since_run [OF t this] t show ?thesis
    by (auto simp: violates_def cpu_rule_def blank_rule_def sample_source_def)
qed


theorem threshold_recovers_after_hold_witness:
  "\<exists>t. thresholdStep sample_env sample_source cpu_rule 90 80 60000000000 (''-'', 70)
      (open_hub (rule_fault_key cpu_rule ''-'')
        [(''src_1'', ''cpu'', ''-'') \<mapsto> zeroState\<lparr>st_recovering := True, st_recoverSince := 0\<rparr>])
      = (Inr (), t) \<and> \<not> is_open (abs_at (h_db t) (''src_1'', rule_fault_key cpu_rule ''-''))"
proof -
  let ?m = "[(''src_1'', ''cpu'', ''-'') \<mapsto> zeroState\<lparr>st_recovering := True, st_recoverSince := 0\<rparr>]"
  let ?s = "open_hub (rule_fault_key cpu_rule ''-'') ?m"
  have i: "s_ID sample_source = ''src_1''" "r_ID cpu_rule = ''cpu''"
    by (simp_all add: sample_source_def cpu_rule_def)
  have "is_open (abs_at (h_db ?s) (''src_1'', rule_fault_key cpu_rule ''-''))"
    by (simp add: abs_open_hub is_open_def)
  moreover have "h_timers ?s (''src_1'', ''cpu'', ''-'') =
      Some (zeroState\<lparr>st_recovering := True, st_recoverSince := 0\<rparr>)" by (simp add: open_hub_def)
  moreover have "\<not> violates (r_Op cpu_rule) 70 90" "recovers (r_Op cpu_rule) 70 80"
    "r_RecoverForSeconds cpu_rule = 60"
    by (simp_all add: violates_def recovers_def cpu_rule_def)
  ultimately show ?thesis
    using threshold_recovers_after_hold [of sample_env ?s sample_source cpu_rule "''-''" 70 90
        "zeroState\<lparr>st_recovering := True, st_recoverSince := 0\<rparr>" 80 60000000000]
      hub_ready_open [of "rule_fault_key cpu_rule ''-''" ?m] unfolding i by simp
qed

theorem hold_time_wraps_witness:
  "\<exists>t. thresholdStep sample_env sample_source (cpu_rule\<lparr>r_ForSeconds := 10000000000\<rparr>) 90 90 0 (''-'', 95)
      (hub_start\<lparr>h_timers := (\<lambda>_. None)\<rparr>) = (Inr (), t) \<and>
    is_open (abs_at (h_db t) (s_ID sample_source, rule_fault_key (cpu_rule\<lparr>r_ForSeconds := 10000000000\<rparr>) ''-''))"
  by (rule hold_time_wraps [OF hub_ready_start]) (simp_all add: violates_def cpu_rule_def)

theorem smart_and_pool_follow_state_witness:
  "\<exists>t. smartStep sample_env sample_source blank_rule 0 \<lparr>nd_Dev = ''sda'', nd_Smart = ''failing'', nd_TempC = None\<rparr>
      (hub_start\<lparr>h_timers := (\<lambda>_. None)\<rparr>) = (Inr (), t) \<and>
    is_open (abs_at (h_db t) (s_ID sample_source, ''smart:sda''))"
  using smart_and_pool_follow_state [OF hub_ready_start hub_ready_start, where src = sample_source
      and d = "\<lparr>nd_Dev = ''sda'', nd_Smart = ''failing'', nd_TempC = None\<rparr>"
      and p = "\<lparr>npl_Name = ''p'', npl_State = ''ok''\<rparr>" and r = blank_rule and now = 0
      and m1 = "\<lambda>_. None"]
  by auto

theorem container_follows_state_witness:
  "\<exists>u. containerGone sample_env sample_source 0
      \<lparr>ct_Name = ''db'', ct_State = ''exited'', ct_ExitCode = None, ct_StartedAt = None, ct_RestartCount = None\<rparr>
      (open_hub ''container:db'' (\<lambda>_. None)) = (Inr (), u) \<and>
    \<not> is_open (abs_at (h_db u) (''src_1'', ''container:db''))"
proof -
  let ?c = "\<lparr>ct_Name = ''db'', ct_State = ''exited'', ct_ExitCode = None, ct_StartedAt = None, ct_RestartCount = None\<rparr>"
  have i: "s_ID sample_source = ''src_1''" by (simp add: sample_source_def)
  have "hub_ready sample_env (open_hub ''container:db'' (\<lambda>_. None)) (s_ID sample_source, ''container:'' @ ct_Name ?c)"
    using hub_ready_open [of "''container:db''" "\<lambda>_. None"] i by simp
  from container_follows_state [OF this, of blank_rule 0 ?c] show ?thesis by (auto simp: i)
qed

theorem heartbeat_follows_silence_witness:
  "\<exists>t. heartbeatTx sample_env 0 180 ''src_1'' (open_hub ''heartbeat'' (\<lambda>_. None)) = (Inr (), t) \<and>
     t = open_hub ''heartbeat'' (\<lambda>_. None)"
proof -
  have "find (\<lambda>r. s_ID r = ''src_1'') (d_sources (h_db (open_hub ''heartbeat'' (\<lambda>_. None)))) = Some sample_source"
    "s_DeletedAt sample_source = None"
    by (simp_all add: open_hub_def sample_source_def)
  from heartbeat_follows_silence [OF hub_ready_open this, of 0 180] show ?thesis
    by (auto simp: abs_open_hub is_open_def)
qed

theorem report_ends_outage_witness:
  "\<exists>src' t. touchSourceSeenTx sample_env sample_source 0 (open_hub ''heartbeat'' (\<lambda>_. None)) = (Inr src', t) \<and>
     \<not> is_open (abs_at (h_db t) (''src_1'', ''heartbeat''))"
proof -
  have i: "s_ID sample_source = ''src_1''" by (simp add: sample_source_def)
  have "hub_ready sample_env (open_hub ''heartbeat'' (\<lambda>_. None)) (s_ID sample_source, ''heartbeat'')"
    using hub_ready_open i by simp
  from report_ends_outage [OF this, of 0] show ?thesis unfolding i by blast
qed

end
