(* ===== verification/Ingest.thy ===== *)
theory Ingest
  imports Rules "HOL-Library.Multiset"
begin

text \<open>
  The ingest endpoints (\<^verbatim>\<open>hub/ingest.go\<close>).  A handler gets the decoded request and the
  source that \<^verbatim>\<open>requireSource\<close> found for the key; it runs one write transaction and
  answers with a status.  Of an error answer the status and the code are modelled.
\<close>

datatype 'a answer = AnswerErr int string | AnswerOk int 'a

section \<open>Metrics\<close>

definition raw_key :: "rawRow \<Rightarrow> string \<times> string \<times> string \<times> string" where
  "raw_key r = (mw_source_id r, mw_ts r, mw_metric r, mw_label r)"

definition opt_point :: "string \<Rightarrow> string \<Rightarrow> rat option \<Rightarrow> (string \<times> string \<times> rat) list" where
  "opt_point metric label v = (case v of None \<Rightarrow> [] | Some x \<Rightarrow> [(metric, label, x)])"

text \<open>The calls of \<^verbatim>\<open>ins\<close> in order: metric, label and value.\<close>

definition raw_points :: "samplePayload \<Rightarrow> (string \<times> string \<times> rat) list" where
  "raw_points s =
     opt_point ''cpu_percent'' [] (sp_CPUPercent s) @
     opt_point ''mem_percent'' [] (sp_MemPercent s) @
     concat (map (\<lambda>d. opt_point ''disk_percent'' (''mount='' @ dk_Mount d) (dk_Percent d)) (sp_Disks s)) @
     opt_point ''net_rx_bps'' [] (Option.bind (sp_Net s) np_RxBps) @
     opt_point ''net_tx_bps'' [] (Option.bind (sp_Net s) np_TxBps)"

definition insertRawMetrics :: "string \<Rightarrow> samplePayload \<Rightarrow> unit htx" where
  "insertRawMetrics src s =
     forT (raw_points s) (\<lambda>(metric, label, v).
       mod_db (\<lambda>d. d\<lparr>d_raw := ins_replace raw_key
         \<lparr>mw_source_id = src, mw_ts = sp_TS s, mw_metric = metric, mw_label = label, mw_value = v\<rparr> (d_raw d)\<rparr>))"

definition buildSummary :: "samplePayload \<Rightarrow> summary" where
  "buildSummary s =
     \<lparr>sm_ts = sp_TS s, sm_cpuPercent = sp_CPUPercent s, sm_memPercent = sp_MemPercent s,
      sm_disks = concat (map (\<lambda>d. case dk_Percent d of None \<Rightarrow> [] | Some v \<Rightarrow> [(dk_Mount d, v)]) (sp_Disks s)),
      sm_uptimeSeconds = sp_UptimeSeconds s\<rparr>"

definition nullStr :: "string \<Rightarrow> string option" where
  "nullStr s = (if s = [] then None else Some s)"

text \<open>\<^verbatim>\<open>UPDATE sources SET ... WHERE id=?\<close>.\<close>

definition updateSource :: "string \<Rightarrow> (sourceRow \<Rightarrow> sourceRow) \<Rightarrow> unit htx" where
  "updateSource i f = mod_db (\<lambda>d. d\<lparr>d_sources := upd_where (\<lambda>r. s_ID r = i) f (d_sources d)\<rparr>)"

definition sample_key :: "sampleRow \<Rightarrow> string \<times> string" where
  "sample_key r = (ms_source_id r, ms_ts r)"

definition putSample :: "sampleRow \<Rightarrow> unit htx" where
  "putSample r = mod_db (\<lambda>d. d\<lparr>d_samples := ins_replace sample_key r (d_samples d)\<rparr>)"

text \<open>A changed boot time: an independent message, unless it is the first one.\<close>

definition bootTimeTx :: "env \<Rightarrow> sourceRow \<Rightarrow> samplePayload \<Rightarrow> time \<Rightarrow> unit htx" where
  "bootTimeTx E cur sample arrival =
     (case sp_BootTime sample of
        None \<Rightarrow> retT ()
      | Some b \<Rightarrow>
          whenT (b \<noteq> [] \<and> s_LastBootTime cur \<noteq> Some b)
            (thenT
              (case s_LastBootTime cur of
                 None \<Rightarrow> retT ()
               | Some old \<Rightarrow>
                   emitHubEventTx E cur ''host_reboot'' ''info'' None None (s_Name cur @ txt_rebooted)
                     (Some (''bootTime '' @ old @ txt_arrow @ b)) arrival)
              (updateSource (s_ID cur) (\<lambda>r. r\<lparr>s_LastBootTime := Some b\<rparr>))))"

text \<open>The updates of the source's row after a new sample.\<close>

definition recordSampleTx :: "sourceRow \<Rightarrow> ingestMetricsReq \<Rightarrow> samplePayload \<Rightarrow> time \<Rightarrow> unit htx" where
  "recordSampleTx cur req sample arrival =
     thenT (updateSource (s_ID cur) (\<lambda>r. r\<lparr>s_LastMetricsSeq := mr_Seq req,
              s_LastSummary := Some (buildSummary sample), s_UpdatedAt := fmtTS arrival\<rparr>)) (
     thenT (case mr_Agent req of
              None \<Rightarrow> retT ()
            | Some a \<Rightarrow> updateSource (s_ID cur) (\<lambda>r. r\<lparr>s_AgentVersion := nullStr (ai_Version a),
                s_AgentOS := nullStr (ai_OS a), s_AgentArch := nullStr (ai_Arch a),
                s_Hostname := nullStr (ai_Hostname a)\<rparr>))
           (case mr_Capabilities req of
              None \<Rightarrow> retT ()
            | Some c \<Rightarrow> updateSource (s_ID cur) (\<lambda>r. r\<lparr>s_Capabilities := Some c\<rparr>)))"

text \<open>The part of the transaction that a batch with a new number runs.\<close>

definition newSampleTx ::
  "env \<Rightarrow> sourceRow \<Rightarrow> ingestMetricsReq \<Rightarrow> samplePayload \<Rightarrow> time \<Rightarrow> unit htx" where
  "newSampleTx E cur req sample arrival =
     thenT (putSample \<lparr>ms_source_id = s_ID cur, ms_ts = sp_TS sample,
              ms_received_at = fmtTS arrival, ms_sample = sample\<rparr>) (
     thenT (insertRawMetrics (s_ID cur) sample) (
     thenT (bootTimeTx E cur sample arrival) (
     thenT (recordSampleTx cur req sample arrival) (
     bindT loadRules (\<lambda>rules.
     thenT (evalSample E
              (cur\<lparr>s_LastMetricsSeq := mr_Seq req, s_LastSummary := Some (buildSummary sample),
                   s_Capabilities := (case mr_Capabilities req of None \<Rightarrow> s_Capabilities cur | c \<Rightarrow> c)\<rparr>)
              rules sample arrival)
           (updateSource (s_ID cur) (\<lambda>r. r\<lparr>s_PrevSample := Some sample\<rparr>)))))))"

text \<open>The transaction; it returns whether the batch is a duplicate.\<close>

definition ingestMetricsTx ::
  "env \<Rightarrow> string \<Rightarrow> ingestMetricsReq \<Rightarrow> samplePayload \<Rightarrow> time \<Rightarrow> bool htx" where
  "ingestMetricsTx E i req sample arrival =
     bindT (loadSourceTx i) (\<lambda>cur0.
     bindT (touchSourceSeenTx E cur0 arrival) (\<lambda>cur.
     thenT (whenT (s_LastMetricsSeq cur < mr_Seq req) (newSampleTx E cur req sample arrival)) (
     bindT (loadSourceTx (s_ID cur)) (\<lambda>fresh.
     thenT (emitSourceChangeTx E fresh) (retT (mr_Seq req \<le> s_LastMetricsSeq cur))))))"

record metricsAnswer =
  ma_accepted :: bool
  ma_duplicate :: bool
  ma_serverTime :: string
  ma_reportIntervalSeconds :: int

definition handleIngestMetrics ::
  "env \<Rightarrow> sourceRow \<Rightarrow> ingestMetricsReq \<Rightarrow> hub \<Rightarrow> metricsAnswer answer \<times> hub" where
  "handleIngestMetrics E src req s =
     (case mr_Sample req of
        None \<Rightarrow> (AnswerErr 400 ''invalid_request'', s)
      | Some sample \<Rightarrow>
          if sp_TS sample = [] \<or> parseTS (sp_TS sample) = None
          then (AnswerErr 400 ''invalid_request'', s)
          else
            (let arrival = env_clock E (h_clk s); s1 = s\<lparr>h_clk := Suc (h_clk s)\<rparr> in
             case withTx (ingestMetricsTx E (s_ID src) req sample arrival) s1 of
               (Inl e, t) \<Rightarrow> (AnswerErr 500 ''internal'', t)
             | (Inr dup, t) \<Rightarrow>
                 (AnswerOk 202 \<lparr>ma_accepted = \<not> dup, ma_duplicate = dup,
                    ma_serverTime = fmtTS (env_clock E (h_clk t)),
                    ma_reportIntervalSeconds = reportInterval (h_db t)\<rparr>,
                  t\<lparr>h_clk := Suc (h_clk t)\<rparr>)))"

section \<open>Events\<close>

definition maxBackfillAge :: duration where
  "maxBackfillAge = 90 * 24 * 3600 * 1000000000"

definition action_valid :: "string \<Rightarrow> bool" where
  "action_valid a = (a = ''open'' \<or> a = ''update'' \<or> a = ''resolve'')"

text \<open>\<open>validateEvent\<close>: the empty text means valid; \<open>now\<close> is the reading of \<^verbatim>\<open>time.Since\<close>.\<close>

definition validateEvent :: "time \<Rightarrow> eventPayload \<Rightarrow> string" where
  "validateEvent now ev =
     (if \<not> id_matches 128 (ev_EventID ev) then txt_bad_event_id
      else if ev_Kind ev = [] then txt_kind_required
      else (case parseTS (ev_OccurredAt ev) of
        None \<Rightarrow> txt_bad_occurred
      | Some t \<Rightarrow>
          if maxBackfillAge < time_sub now t then txt_too_old
          else if ev_Severity ev \<noteq> ''info'' \<and> ev_Severity ev \<noteq> ''warning'' \<and> ev_Severity ev \<noteq> ''critical''
            then txt_bad_severity
          else if ev_Title ev = [] \<or> 200 < rune_count (ev_Title ev) then txt_bad_title
          else if (case ev_Body ev of None \<Rightarrow> False | Some b \<Rightarrow> 20000 < rune_count b) then txt_body_long
          else
            (let hasFK = (null_of (ev_FaultKey ev) \<noteq> None);
                 hasAct = (null_of (ev_IncidentAction ev) \<noteq> None) in
             if hasAct \<and> \<not> action_valid (case ev_IncidentAction ev of None \<Rightarrow> [] | Some a \<Rightarrow> a)
               then txt_bad_action
             else if hasFK \<and> \<not> hasAct then txt_action_required
             else if \<not> hasFK \<and> hasAct then txt_key_required
             else [])))"

text \<open>The variables of the first loop; items carry their index in the request.\<close>

record classified =
  cl_seen :: "string list"
  cl_valid :: "(nat \<times> eventPayload) list"
  cl_dup :: "nat list"
  cl_rejected :: "(string \<times> string \<times> string) list"

definition event_exists :: "hub_db \<Rightarrow> string \<Rightarrow> string \<Rightarrow> bool" where
  "event_exists d src i = (\<exists>x \<in> set (d_events d). e_source_id x = src \<and> e_event_id x = i)"

definition classifyEvent ::
  "env \<Rightarrow> string \<Rightarrow> nat \<times> eventPayload \<Rightarrow> classified \<Rightarrow> classified htx" where
  "classifyEvent E src it acc =
     (let ev = snd it in
      bindT (nowUTC E) (\<lambda>now.
        if validateEvent now ev \<noteq> [] then
          retT (acc\<lparr>cl_rejected := cl_rejected acc @ [(ev_EventID ev, ''invalid_request'', validateEvent now ev)]\<rparr>)
        else if ev_EventID ev \<in> set (cl_seen acc) then retT (acc\<lparr>cl_dup := cl_dup acc @ [fst it]\<rparr>)
        else
          bindT (get_db (\<lambda>d. event_exists d src (ev_EventID ev))) (\<lambda>exists.
            if exists then retT (acc\<lparr>cl_dup := cl_dup acc @ [fst it]\<rparr>)
            else retT (acc\<lparr>cl_seen := cl_seen acc @ [ev_EventID ev], cl_valid := cl_valid acc @ [it]\<rparr>))))"

definition applyItem :: "env \<Rightarrow> sourceRow \<Rightarrow> nat \<times> eventPayload \<Rightarrow> int \<times> nat list \<Rightarrow> (int \<times> nat list) htx" where
  "applyItem E cur it acc =
     (let ev = snd it; lastSeq = fst acc in
      thenT (applyEventTx E (cur\<lparr>s_LastEventSeq := lastSeq\<rparr>) ev False (ev_Seq ev \<le> lastSeq))
        (retT (if lastSeq < ev_Seq ev then ev_Seq ev else lastSeq, snd acc @ [fst it])))"

definition ingestEventsTx ::
  "env \<Rightarrow> string \<Rightarrow> eventPayload list \<Rightarrow> time \<Rightarrow> (classified \<times> int \<times> nat list) htx" where
  "ingestEventsTx E i events arrival =
     bindT (loadSourceTx i) (\<lambda>cur0.
     bindT (touchSourceSeenTx E cur0 arrival) (\<lambda>cur.
     bindT (foldT (classifyEvent E (s_ID cur)) (enumerate 0 events)
              \<lparr>cl_seen = [], cl_valid = [], cl_dup = [], cl_rejected = []\<rparr>) (\<lambda>cl.
     bindT (foldT (applyItem E cur) (env_sort E (cl_valid cl)) (s_LastEventSeq cur, [])) (\<lambda>res.
     thenT (updateSource (s_ID cur) (\<lambda>r. r\<lparr>s_LastEventSeq := fst res\<rparr>)) (
     bindT (loadSourceTx (s_ID cur)) (\<lambda>fresh.
     thenT (emitSourceChangeTx E fresh) (retT (cl, res))))))))"

record eventsAnswer =
  ea_accepted :: "string list"
  ea_duplicates :: "string list"
  ea_rejected :: "(string \<times> string \<times> string) list"
  ea_lastSeq :: int
  ea_serverTime :: string

text \<open>The identifiers of the items whose index is in the list, in the order of the request.\<close>

definition pick :: "nat list \<Rightarrow> eventPayload list \<Rightarrow> string list" where
  "pick is events = map (\<lambda>it. ev_EventID (snd it)) (filter (\<lambda>it. fst it \<in> set is) (enumerate 0 events))"

definition handleIngestEvents ::
  "env \<Rightarrow> sourceRow \<Rightarrow> ingestEventsReq \<Rightarrow> hub \<Rightarrow> eventsAnswer answer \<times> hub" where
  "handleIngestEvents E src req s =
     (if 100 < length (er_Events req) then (AnswerErr 400 ''invalid_request'', s)
      else
        (let arrival = env_clock E (h_clk s); s1 = s\<lparr>h_clk := Suc (h_clk s)\<rparr> in
         case withTx (ingestEventsTx E (s_ID src) (er_Events req) arrival) s1 of
           (Inl e, t) \<Rightarrow> (AnswerErr 500 ''internal'', t)
         | (Inr (cl, lastSeq, acc), t) \<Rightarrow>
             (AnswerOk 200 \<lparr>ea_accepted = pick acc (er_Events req),
                ea_duplicates = pick (cl_dup cl) (er_Events req), ea_rejected = cl_rejected cl,
                ea_lastSeq = lastSeq, ea_serverTime = fmtTS (env_clock E (h_clk t))\<rparr>,
              t\<lparr>h_clk := Suc (h_clk t)\<rparr>)))"

section \<open>Safety\<close>

lemma safe_updateSource: "safe E (updateSource i f)"
  unfolding updateSource_def by (rule safe_mod_db) simp_all

lemma safe_insertRawMetrics: "safe E (insertRawMetrics src s)"
  unfolding insertRawMetrics_def by (intro safe_intros safe_mod_db) simp_all

lemma safe_ingestMetricsTx: "inj (env_ulid E) \<Longrightarrow> safe E (ingestMetricsTx E i req sample arrival)"
  unfolding ingestMetricsTx_def newSampleTx_def bootTimeTx_def recordSampleTx_def loadSourceTx_def putSample_def
  by (intro safe_intros safe_updateSource safe_insertRawMetrics safe_touchSourceSeenTx safe_evalSample
      safe_mod_db) simp_all

lemma safe_applyItem: "inj (env_ulid E) \<Longrightarrow> safe E (applyItem E cur it acc)"
  unfolding applyItem_def Let_def by (intro safe_intros)

lemma safe_classifyEvent: "safe E (classifyEvent E' src it acc)"
  unfolding classifyEvent_def Let_def by (intro safe_intros)

lemma safe_ingestEventsTx: "inj (env_ulid E) \<Longrightarrow> safe E (ingestEventsTx E i events arrival)"
  unfolding ingestEventsTx_def loadSourceTx_def
  by (intro safe_intros safe_updateSource safe_touchSourceSeenTx safe_classifyEvent safe_applyItem)

section \<open>The event table grows\<close>

definition evgrow :: "hub \<Rightarrow> hub \<Rightarrow> bool" where
  "evgrow s t \<longleftrightarrow> (\<exists>rows. events_of t = events_of s @ rows)"

interpretation eg: tx_rel evgrow
  by unfold_locales (auto simp: evgrow_def)

lemma evgrow_same: "obeys (same events_of) m \<Longrightarrow> obeys evgrow m"
  by (auto simp: obeys_def same_def evgrow_def)

lemma evgrow_insert_event_row: "obeys evgrow (insert_event_row r)"
  by (rule obeysI) (auto simp: insert_event_row_def bindT_def evgrow_def)

lemma same_events_mod_sources: "obeys (same events_of) (mod_db (\<lambda>d. d\<lparr>d_sources := f d\<rparr>))"
  by (rule same_mod_db) simp

lemma same_events_emitChange: "obeys (same events_of) (emitChangeTx E typ i mk nb)"
  by (rule same_emitChangeTx) simp_all

lemma same_events_emitSource: "obeys (same events_of) (emitSourceChangeTx E src)"
  unfolding emitSourceChangeTx_def by (intro same_base same_events_emitChange)

lemma same_events_nextHubSeq: "obeys (same events_of) nextHubSeqTx"
  unfolding nextHubSeqTx_def by (intro same_base same_mod_db) simp

lemma evgrow_applyEventTx: "obeys evgrow (applyEventTx E src ev internal ooo)"
  unfolding applyEventTx_def Let_def
  by (intro eg.intros evgrow_insert_event_row evgrow_same same_nowUTC same_newID same_events_transition
      same_events_store same_events_backfill same_events_emitChange same_events_message)

lemma evgrow_touch: "obeys evgrow (touchSourceSeenTx E src seen)"
  unfolding touchSourceSeenTx_def emitHubEventTx_def Let_def
  by (intro eg.intros evgrow_applyEventTx evgrow_same same_get_db same_events_mod_sources
      same_events_nextHubSeq same_newID)

section \<open>What an event cannot change\<close>

text \<open>A view of the database that does not read the tables applying an event writes.\<close>

definition event_free :: "(hub_db \<Rightarrow> 'v) \<Rightarrow> bool" where
  "event_free v \<longleftrightarrow>
     (\<forall>d x. v (d\<lparr>d_meta := x\<rparr>) = v d) \<and> (\<forall>d x. v (d\<lparr>d_events := x\<rparr>) = v d) \<and>
     (\<forall>d x. v (d\<lparr>d_faults := x\<rparr>) = v d) \<and> (\<forall>d x. v (d\<lparr>d_pending := x\<rparr>) = v d) \<and>
     (\<forall>d x. v (d\<lparr>d_messages := x\<rparr>) = v d) \<and> (\<forall>d x. v (d\<lparr>d_changes := x\<rparr>) = v d)"

abbreviation untouched :: "(hub_db \<Rightarrow> 'v) \<Rightarrow> 'a htx \<Rightarrow> bool" where
  "untouched v m \<equiv> obeys (same (\<lambda>s. v (h_db s))) m"

lemma untouched_emitChangeTx: "event_free v \<Longrightarrow> untouched v (emitChangeTx E typ i mk nb)"
  by (rule same_emitChangeTx) (simp_all add: event_free_def)

lemma untouched_backfillTx: "event_free v \<Longrightarrow> untouched v (backfillTx src key oc)"
  unfolding backfillTx_def event_free_def
  by (auto intro!: frame.ret same_mod_db split: option.split bool.split)

lemma untouched_applyEventTx:
  assumes "event_free v"
  shows "untouched v (applyEventTx E src ev internal ooo)"
  unfolding applyEventTx_def Let_def faultTransitionTx_def storeFaultTx_def upsertFaultTx_def
    insert_event_row_def insert_message_row_def
  by (intro same_base same_mod_db untouched_emitChangeTx untouched_backfillTx assms)
    (use assms in \<open>simp_all add: event_free_def\<close>)

lemma untouched_emitHubEventTx:
  assumes "event_free v"
  shows "untouched v (emitHubEventTx E src k sv fk act t b w)"
  unfolding emitHubEventTx_def nextHubSeqTx_def
  by (intro same_base same_mod_db untouched_applyEventTx assms) (use assms in \<open>simp add: event_free_def\<close>)

lemma untouched_emitSourceChangeTx: "event_free v \<Longrightarrow> untouched v (emitSourceChangeTx E src)"
  unfolding emitSourceChangeTx_def by (intro same_base untouched_emitChangeTx)

lemma untouched_touch:
  assumes "event_free v" and "\<And>d f. v (d\<lparr>d_sources := upd_where (\<lambda>r. s_ID r = s_ID src)
    (\<lambda>r. r\<lparr>s_LastSeenAt := Some (fmtTS seen)\<rparr>) (d_sources d)\<rparr>) = v d"
  shows "untouched v (touchSourceSeenTx E src seen)"
  unfolding touchSourceSeenTx_def Let_def
  by (intro same_base same_mod_db untouched_emitHubEventTx assms)

lemma untouched_getTimer: "untouched v (getTimer k)"
  by (rule obeysI) (simp add: same_def)

lemma untouched_setTimer: "untouched v (setTimer k st)"
  by (rule obeysI) (simp add: same_def)

lemma untouched_evalSample:
  assumes "event_free v"
  shows "untouched v (evalSample E src doc sample arrival)"
  unfolding evalSample_def evalRule_def evalThreshold_def thresholdStep_def evalContainers_def
    containerStep_def containerGone_def evalSmart_def evalPool_def smartStep_def poolStep_def Let_def
  by (intro same_base untouched_emitHubEventTx untouched_getTimer untouched_setTimer assms)

lemma untouched_loadRules: "(\<And>d x. v (d\<lparr>d_rules := x\<rparr>) = v d) \<Longrightarrow> untouched v loadRules"
  unfolding loadRules_def Let_def by (intro same_base same_mod_db)

section \<open>Classification\<close>

lemma validateEvent_action:
  assumes "validateEvent now ev = []" and "null_of (ev_FaultKey ev) \<noteq> None"
  shows "action_of ev \<noteq> None"
proof -
  have "null_of (ev_IncidentAction ev) \<noteq> None"
    "action_valid (case ev_IncidentAction ev of None \<Rightarrow> [] | Some a \<Rightarrow> a)"
    using assms reject_texts_nonempty
    by (auto simp: validateEvent_def Let_def split: if_splits option.splits)
  then show ?thesis by (auto simp: null_of_def action_of_def action_valid_def split: option.splits if_splits)
qed

text \<open>What the first loop knows after the items of \<open>done\<close>.\<close>

definition classified_ok :: "hub_db \<Rightarrow> string \<Rightarrow> (nat \<times> eventPayload) list \<Rightarrow> classified \<Rightarrow> bool" where
  "classified_ok d src items cl \<longleftrightarrow>
     cl_seen cl = map (\<lambda>it. ev_EventID (snd it)) (cl_valid cl) \<and> distinct (cl_seen cl) \<and>
     set (cl_valid cl) \<subseteq> set items \<and> set (cl_dup cl) \<subseteq> fst ` set items \<and>
     distinct (map fst (cl_valid cl)) \<and> distinct (cl_dup cl) \<and>
     fst ` set (cl_valid cl) \<inter> set (cl_dup cl) = {} \<and>
     length (cl_valid cl) + length (cl_dup cl) + length (cl_rejected cl) = length items \<and>
     (\<forall>it \<in> set (cl_valid cl). \<not> event_exists d src (ev_EventID (snd it)) \<and>
        (null_of (ev_FaultKey (snd it)) \<noteq> None \<longrightarrow> action_of (snd it) \<noteq> None)) \<and>
     (\<forall>it \<in> set items. fst it \<in> set (cl_dup cl) \<longrightarrow>
        ev_EventID (snd it) \<in> set (cl_seen cl) \<or> event_exists d src (ev_EventID (snd it))) \<and>
     (\<forall>it \<in> set items. ev_EventID (snd it) \<in> set (cl_seen cl) \<or> fst it \<in> set (cl_dup cl) \<or>
        ev_EventID (snd it) \<in> fst ` set (cl_rejected cl))"

lemma classifyEvent_run:
  "\<exists>cl'. classifyEvent E src it cl s = (Inr cl', s\<lparr>h_clk := Suc (h_clk s)\<rparr>)"
  by (auto simp: classifyEvent_def Let_def bindT_def)

lemma classifyEvent_ok:
  assumes "classified_ok (h_db s) src items cl" and "classifyEvent E src it cl s = (Inr cl', t)"
    and "fst it \<notin> fst ` set items"
  shows "classified_ok (h_db s) src (items @ [it]) cl'"
proof -
  obtain i ev where it: "it = (i, ev)" by (cases it)
  let ?now = "env_clock E (h_clk s)"
  have i: "i \<notin> fst ` set items" using assms(3) it by simp
  then have new: "i \<notin> set (cl_dup cl)" "i \<notin> fst ` set (cl_valid cl)"
    using assms(1) unfolding classified_ok_def by auto
  consider (rej) "cl' = cl\<lparr>cl_rejected := cl_rejected cl @ [(ev_EventID ev, ''invalid_request'', validateEvent ?now ev)]\<rparr>" "validateEvent ?now ev \<noteq> []"
    | (dup) "cl' = cl\<lparr>cl_dup := cl_dup cl @ [i]\<rparr>" "ev_EventID ev \<in> set (cl_seen cl) \<or> event_exists (h_db s) src (ev_EventID ev)"
    | (val) "cl' = cl\<lparr>cl_seen := cl_seen cl @ [ev_EventID ev], cl_valid := cl_valid cl @ [(i, ev)]\<rparr>"
        "validateEvent ?now ev = []" "ev_EventID ev \<notin> set (cl_seen cl)" "\<not> event_exists (h_db s) src (ev_EventID ev)"
    using assms(2) it by (auto simp: classifyEvent_def Let_def bindT_def split: if_splits)
  then show ?thesis
  proof cases
    case rej
    show ?thesis using assms(1) new unfolding classified_ok_def rej(1) it by auto
  next
    case dup
    show ?thesis using assms(1) new i dup(2) unfolding classified_ok_def dup(1) it by auto
  next
    case val
    show ?thesis
      using assms(1) new i val(3,4) validateEvent_action [OF val(2)]
      unfolding classified_ok_def val(1) it by auto
  qed
qed

lemma classify_loop:
  assumes "classified_ok (h_db s) src items cl" and "distinct (map fst (items @ its))"
  shows "\<exists>cl' t. foldT (classifyEvent E src) its cl s = (Inr cl', t) \<and>
    classified_ok (h_db s) src (items @ its) cl' \<and> h_db t = h_db s \<and> h_ids t = h_ids s"
  using assms
proof (induction its arbitrary: s items cl)
  case Nil
  then show ?case by simp
next
  case (Cons it its)
  obtain cl1 where r: "classifyEvent E src it cl s = (Inr cl1, s\<lparr>h_clk := Suc (h_clk s)\<rparr>)"
    using classifyEvent_run by blast
  have "fst it \<notin> fst ` set items" using Cons.prems(2) by auto
  from classifyEvent_ok [OF Cons.prems(1) r this]
  have "classified_ok (h_db (s\<lparr>h_clk := Suc (h_clk s)\<rparr>)) src (items @ [it]) cl1" by simp
  from Cons.IH [OF this] Cons.prems(2) show ?case by (auto simp: bindT_def r)
qed

section \<open>Application\<close>

lemma applyItem_iff:
  "applyItem E cur it (l, acc) s = (Inr r, t) \<longleftrightarrow>
     applyEventTx E (cur\<lparr>s_LastEventSeq := l\<rparr>) (snd it) False (ev_Seq (snd it) \<le> l) s = (Inr (), t) \<and>
     r = (max l (ev_Seq (snd it)), acc @ [fst it])"
  by (auto simp: applyItem_def Let_def thenT_Inr_iff max_def)

lemma applyItems_run:
  assumes "foldT (applyItem E cur) its (l, acc) s = (Inr res, t)"
  shows "\<exists>rows. events_of t = events_of s @ rows \<and>
    map (\<lambda>r. (e_source_id r, e_event_id r)) rows = map (\<lambda>it. (s_ID cur, ev_EventID (snd it))) its \<and>
    snd res = acc @ map fst its \<and> fst res = fold (\<lambda>it m. max m (ev_Seq (snd it))) its l"
  using assms
proof (induction its arbitrary: l acc s)
  case Nil
  then show ?case by auto
next
  case (Cons it its)
  let ?ev = "snd it" and ?cur = "cur\<lparr>s_LastEventSeq := l\<rparr>"
  from Cons.prems obtain x u where a: "applyEventTx E ?cur ?ev False (ev_Seq ?ev \<le> l) s = (Inr x, u)"
    and r: "foldT (applyItem E cur) its (max l (ev_Seq ?ev), acc @ [fst it]) u = (Inr res, t)"
    by (auto simp: bindT_Inr_iff applyItem_iff)
  from applyEvent_events [OF a] obtain now where
    e: "events_of u = events_of s @ [event_row (s_ID cur) ?ev False (ev_Seq ?ev \<le> l) now]" by auto
  from Cons.IH [OF r] obtain rows where "events_of t = events_of u @ rows"
    "map (\<lambda>r. (e_source_id r, e_event_id r)) rows = map (\<lambda>it. (s_ID cur, ev_EventID (snd it))) its"
    "snd res = (acc @ [fst it]) @ map fst its"
    "fst res = fold (\<lambda>it m. max m (ev_Seq (snd it))) its (max l (ev_Seq ?ev))" by blast
  with e show ?case
    by (intro exI [of _ "event_row (s_ID cur) ?ev False (ev_Seq ?ev \<le> l) now # rows"])
      (simp add: event_row_def)
qed

lemma applyItems_total:
  assumes "inj (env_ulid E)" and "hub_inv E s" and "distinct (map (\<lambda>it. ev_EventID (snd it)) its)"
    and "\<And>it. it \<in> set its \<Longrightarrow> applicable s (s_ID cur) (snd it)"
  shows "\<exists>res t. foldT (applyItem E cur) its (l, acc) s = (Inr res, t) \<and> hub_inv E t"
  using assms(2-)
proof (induction its arbitrary: l acc s)
  case Nil
  then show ?case by simp
next
  case (Cons it its)
  let ?ev = "snd it" and ?cur = "cur\<lparr>s_LastEventSeq := l\<rparr>"
  have "applicable s (s_ID ?cur) ?ev" using Cons.prems(3) [of it] by simp
  from applyEvent_total [OF assms(1) Cons.prems(1) this] obtain u where
    u: "applyEventTx E ?cur ?ev False (ev_Seq ?ev \<le> l) s = (Inr (), u)" "hub_inv E u" by blast
  have "applicable u (s_ID cur) (snd x)" if "x \<in> set its" for x
    using applicable_after [OF u(1), of "snd x"] Cons.prems(2,3) that by (auto simp: image_iff)
  moreover have "distinct (map (\<lambda>it. ev_EventID (snd it)) its)" using Cons.prems(2) by simp
  ultimately obtain res t where
    "foldT (applyItem E cur) its (max l (ev_Seq ?ev), acc @ [fst it]) u = (Inr res, t)" "hub_inv E t"
    using Cons.IH [OF u(2)] by blast
  then show ?case using u(1) by (auto simp: bindT_Inr_iff applyItem_iff)
qed

text \<open>The documented behaviour of \<^verbatim>\<open>sort.Slice\<close>: a permutation, ordered by the key.\<close>

definition sorts :: "env \<Rightarrow> bool" where
  "sorts E \<longleftrightarrow> (\<forall>xs. mset (env_sort E xs) = mset xs \<and> sorted (map (\<lambda>it. ev_Seq (snd it)) (env_sort E xs)))"

lemma sorts_set: "sorts E \<Longrightarrow> set (env_sort E xs) = set xs"
  by (metis sorts_def set_mset_mset)

lemma sorts_distinct: "sorts E \<Longrightarrow> distinct (map f xs) \<Longrightarrow> distinct (map f (env_sort E xs))"
  by (metis mset_eq_imp_distinct_iff mset_map sorts_def)

lemma pick_indices:
  "map fst (filter (\<lambda>it. fst it \<in> S) (enumerate n xs)) = filter (\<lambda>k. k \<in> S) [n..<n + length xs]"
proof -
  have "map fst (filter (\<lambda>it. fst it \<in> S) ys) = filter (\<lambda>k. k \<in> S) (map fst ys)" for ys :: "(nat \<times> 'a) list"
    by (induction ys) auto
  then show ?thesis by simp
qed

lemma length_pick:
  assumes "distinct is" and "set is \<subseteq> {..<length events}"
  shows "length (pick is events) = length is"
proof -
  have "length (pick is events) = length (map fst (filter (\<lambda>it. fst it \<in> set is) (enumerate 0 events)))"
    by (simp add: pick_def)
  also have "\<dots> = card (set (filter (\<lambda>k. k \<in> set is) [0..<length events]))"
    unfolding pick_indices by (subst distinct_card) simp_all
  also have "set (filter (\<lambda>k. k \<in> set is) [0..<length events]) = set is" using assms(2) by auto
  finally show ?thesis using assms(1) by (simp add: distinct_card)
qed

lemma set_pick: "set (pick is events) = (\<lambda>k. ev_EventID (events ! k)) ` (set is \<inter> {..<length events})"
  by (force simp: pick_def in_set_enumerate_eq image_iff)

lemma touch_result:
  assumes "touchSourceSeenTx E src seen s = (Inr src', t)"
  shows "src' = src\<lparr>s_LastSeenAt := Some (fmtTS seen)\<rparr>"
  using assms by (auto simp: touchSourceSeenTx_def Let_def bindT_Inr_iff thenT_Inr_iff)

lemma loadSource_result: "loadSourceTx i s = (Inr src, t) \<Longrightarrow> s_ID src = i \<and> t = s"
  by (auto simp: loadSourceTx_def rowT_def bindT_Inr_iff dest: find_SomeD split: option.splits)

lemma ingestEventsTx_result:
  assumes run: "ingestEventsTx E i events arrival s = (Inr (cl, lastSeq, acc), t)"
  obtains s1 l0 rows where "evgrow s s1" "classified_ok (h_db s1) i (enumerate 0 events) cl"
    "events_of t = events_of s1 @ rows"
    "map (\<lambda>r. (e_source_id r, e_event_id r)) rows = map (\<lambda>it. (i, ev_EventID (snd it))) (env_sort E (cl_valid cl))"
    "acc = map fst (env_sort E (cl_valid cl))"
    "lastSeq = fold (\<lambda>it m. max m (ev_Seq (snd it))) (env_sort E (cl_valid cl)) l0"
    "\<exists>cur. find (\<lambda>r. s_ID r = i) (d_sources (h_db s)) = Some cur \<and> l0 = s_LastEventSeq cur"
proof -
  from run obtain cur0 s0 cur s1 s2 s3 x s4 fresh s5 y where
    load: "loadSourceTx i s = (Inr cur0, s0)" and touch0: "touchSourceSeenTx E cur0 arrival s0 = (Inr cur, s1)"
    and cls: "foldT (classifyEvent E (s_ID cur)) (enumerate 0 events)
        \<lparr>cl_seen = [], cl_valid = [], cl_dup = [], cl_rejected = []\<rparr> s1 = (Inr cl, s2)"
    and app: "foldT (applyItem E cur) (env_sort E (cl_valid cl)) (s_LastEventSeq cur, []) s2 = (Inr (lastSeq, acc), s3)"
    and upd: "updateSource (s_ID cur) (\<lambda>r. r\<lparr>s_LastEventSeq := lastSeq\<rparr>) s3 = (Inr x, s4)"
    and load': "loadSourceTx (s_ID cur) s4 = (Inr fresh, s5)" and emit0: "emitSourceChangeTx E fresh s5 = (Inr y, t)"
    unfolding ingestEventsTx_def by (auto simp: bindT_Inr_iff thenT_Inr_iff)
  have touch: "touchSourceSeenTx E cur0 arrival s = (Inr cur, s1)" and emit: "emitSourceChangeTx E fresh s4 = (Inr y, t)"
    and l0: "loadSourceTx i s = (Inr cur0, s)"
    using touch0 emit0 load loadSource_result [OF load] loadSource_result [OF load'] by simp_all
  have cur: "cur = cur0\<lparr>s_LastSeenAt := Some (fmtTS arrival)\<rparr>" and id: "s_ID cur = i"
    using touch_result [OF touch] loadSource_result [OF l0] by simp_all
  have "classified_ok (h_db s1) i [] \<lparr>cl_seen = [], cl_valid = [], cl_dup = [], cl_rejected = []\<rparr>"
    by (simp add: classified_ok_def)
  from classify_loop [OF this, of "enumerate 0 events" E] cls id
  have ok: "classified_ok (h_db s1) i (enumerate 0 events) cl" "h_db s2 = h_db s1" by simp_all
  from applyItems_run [OF app] id obtain rows where rows: "events_of s3 = events_of s2 @ rows"
    "map (\<lambda>r. (e_source_id r, e_event_id r)) rows = map (\<lambda>it. (i, ev_EventID (snd it))) (env_sort E (cl_valid cl))"
    "acc = map fst (env_sort E (cl_valid cl))"
    "lastSeq = fold (\<lambda>it m. max m (ev_Seq (snd it))) (env_sort E (cl_valid cl)) (s_LastEventSeq cur)" by auto
  have "events_of s4 = events_of s3" using upd by (auto simp: updateSource_def)
  moreover have "events_of t = events_of s4" using sameD [OF same_events_emitSource emit] .
  moreover have "evgrow s s1" using obeysD [OF evgrow_touch touch] .
  moreover have "find (\<lambda>r. s_ID r = i) (d_sources (h_db s)) = Some cur0"
    using l0 by (auto simp: loadSourceTx_def rowT_def bindT_Inr_iff split: option.splits)
  ultimately show ?thesis using that [OF _ ok(1) _ rows(2,3,4)] rows(1) ok(2) cur by simp
qed

lemma handleEvents_ok:
  assumes "handleIngestEvents E src req s = (AnswerOk c a, t)"
  obtains cl acc u where "ingestEventsTx E (s_ID src) (er_Events req) (env_clock E (h_clk s))
      (s\<lparr>h_clk := Suc (h_clk s)\<rparr>) = (Inr (cl, ea_lastSeq a, acc), u)" "h_db t = h_db u" "c = 200"
    "ea_accepted a = pick acc (er_Events req)" "ea_duplicates a = pick (cl_dup cl) (er_Events req)"
    "ea_rejected a = cl_rejected cl"
  using assms
  by (auto simp: handleIngestEvents_def withTx_def Let_def split: if_splits prod.splits sum.splits)

lemma classified_items:
  assumes "classified_ok d src (enumerate 0 events) cl" and "it \<in> set (cl_valid cl)"
  shows "fst it < length events \<and> snd it = events ! fst it"
  using assms by (auto simp: classified_ok_def in_set_enumerate_eq dest!: subsetD)

lemma accepted_ids:
  assumes "classified_ok d src (enumerate 0 events) cl" and "sorts E"
  shows "set (pick (map fst (env_sort E (cl_valid cl))) events) = set (cl_seen cl)"
proof -
  have "set (pick (map fst (env_sort E (cl_valid cl))) events) =
      (\<lambda>k. ev_EventID (events ! k)) ` (fst ` set (cl_valid cl) \<inter> {..<length events})"
    by (simp add: set_pick sorts_set [OF assms(2)])
  also have "\<dots> = (\<lambda>it. ev_EventID (snd it)) ` set (cl_valid cl)"
    using classified_items [OF assms(1)] by (force simp: image_iff)
  finally show ?thesis using assms(1) by (simp add: classified_ok_def)
qed

lemma duplicate_ids:
  assumes "classified_ok d src (enumerate 0 events) cl" and "x \<in> set (pick (cl_dup cl) events)"
  shows "x \<in> set (cl_seen cl) \<or> event_exists d src x"
proof -
  from assms(2) obtain k where k: "k \<in> set (cl_dup cl)" "k < length events" "x = ev_EventID (events ! k)"
    by (auto simp: set_pick)
  then have "(k, events ! k) \<in> set (enumerate 0 events)" by (simp add: in_set_enumerate_eq)
  with assms(1) k show ?thesis unfolding classified_ok_def by fastforce
qed

lemma event_exists_grow: "evgrow s t \<Longrightarrow> event_exists (h_db s) src x \<Longrightarrow> event_exists (h_db t) src x"
  by (auto simp: evgrow_def event_exists_def)

lemma event_exists_count:
  "event_exists d src x \<longleftrightarrow> 0 < length (filter (\<lambda>r. e_source_id r = src \<and> e_event_id r = x) (d_events d))"
  by (auto simp: event_exists_def filter_empty_conv)

lemma count_rows:
  "length (filter (\<lambda>r. e_source_id r = i \<and> e_event_id r = x) rows) =
     length (filter (\<lambda>k. k = (i, x)) (map (\<lambda>r. (e_source_id r, e_event_id r)) rows))"
  by (induction rows) auto

lemma count_distinct: "distinct xs \<Longrightarrow> x \<in> set xs \<Longrightarrow> length (filter (\<lambda>k. k = x) xs) = 1"
proof (induction xs)
  case (Cons a xs)
  then show ?case by (auto simp: filter_empty_conv)
qed simp

text \<open>Everything an answer of the events endpoint says, in one lemma.\<close>

lemma ingest_answer:
  assumes run: "handleIngestEvents E src req s = (AnswerOk c a, t)" and srt: "sorts E"
  obtains s1 cl where "evgrow s s1" "classified_ok (h_db s1) (s_ID src) (enumerate 0 (er_Events req)) cl"
    "ea_accepted a = pick (map fst (env_sort E (cl_valid cl))) (er_Events req)"
    "ea_duplicates a = pick (cl_dup cl) (er_Events req)" "ea_rejected a = cl_rejected cl"
    "set (ea_accepted a) = set (cl_seen cl)" "evgrow s1 t"
    "\<forall>x. length (filter (\<lambda>r. e_source_id r = s_ID src \<and> e_event_id r = x) (events_of t)) =
       length (filter (\<lambda>r. e_source_id r = s_ID src \<and> e_event_id r = x) (events_of s1)) +
       (if x \<in> set (cl_seen cl) then 1 else 0)"
proof -
  from handleEvents_ok [OF run] obtain cl acc u where
    tx: "ingestEventsTx E (s_ID src) (er_Events req) (env_clock E (h_clk s)) (s\<lparr>h_clk := Suc (h_clk s)\<rparr>) =
      (Inr (cl, ea_lastSeq a, acc), u)" and t: "h_db t = h_db u"
    and a: "ea_accepted a = pick acc (er_Events req)" "ea_duplicates a = pick (cl_dup cl) (er_Events req)"
      "ea_rejected a = cl_rejected cl" by blast
  obtain s1 l0 rows where g: "evgrow (s\<lparr>h_clk := Suc (h_clk s)\<rparr>) s1"
    and ok: "classified_ok (h_db s1) (s_ID src) (enumerate 0 (er_Events req)) cl"
    and rows: "events_of u = events_of s1 @ rows" "map (\<lambda>r. (e_source_id r, e_event_id r)) rows =
      map (\<lambda>it. (s_ID src, ev_EventID (snd it))) (env_sort E (cl_valid cl))"
    and acc: "acc = map fst (env_sort E (cl_valid cl))"
      "ea_lastSeq a = fold (\<lambda>it m. max m (ev_Seq (snd it))) (env_sort E (cl_valid cl)) l0"
      "\<exists>cur. find (\<lambda>r. s_ID r = s_ID src) (d_sources (h_db (s\<lparr>h_clk := Suc (h_clk s)\<rparr>))) = Some cur \<and> l0 = s_LastEventSeq cur"
    by (rule ingestEventsTx_result [OF tx])
  let ?ks = "map (\<lambda>it. (s_ID src, ev_EventID (snd it))) (env_sort E (cl_valid cl))"
  have seen: "cl_seen cl = map (\<lambda>it. ev_EventID (snd it)) (cl_valid cl)" "distinct (cl_seen cl)"
    using ok unfolding classified_ok_def by blast+
  then have "distinct (map (Pair (s_ID src)) (map (\<lambda>it. ev_EventID (snd it)) (cl_valid cl)))"
    by (simp add: distinct_map inj_on_def)
  then have d: "distinct ?ks" using sorts_distinct [OF srt, of "\<lambda>it. (s_ID src, ev_EventID (snd it))" "cl_valid cl"]
    by (simp add: comp_def)
  have mem: "(s_ID src, x) \<in> set ?ks \<longleftrightarrow> x \<in> set (cl_seen cl)" for x
    using seen(1) by (auto simp: sorts_set [OF srt])
  have cnt: "length (filter (\<lambda>r. e_source_id r = s_ID src \<and> e_event_id r = x) rows) =
      (if x \<in> set (cl_seen cl) then 1 else 0)" for x
    unfolding count_rows rows(2) using count_distinct [OF d, of "(s_ID src, x)"] mem [of x]
    by (auto simp: filter_empty_conv)
  show ?thesis
  proof (rule that [OF _ ok])
    show "evgrow s s1" using g by (simp add: evgrow_def)
    show "evgrow s1 t" using rows(1) t by (simp add: evgrow_def)
    show "set (ea_accepted a) = set (cl_seen cl)" using accepted_ids [OF ok srt] a(1) acc by simp
    show "\<forall>x. length (filter (\<lambda>r. e_source_id r = s_ID src \<and> e_event_id r = x) (events_of t)) =
       length (filter (\<lambda>r. e_source_id r = s_ID src \<and> e_event_id r = x) (events_of s1)) +
       (if x \<in> set (cl_seen cl) then 1 else 0)"
      using cnt rows(1) t by simp
  qed (use a acc in simp_all)
qed

lemma accepted_fresh:
  assumes "handleIngestEvents E src req s = (AnswerOk c a, t)" and "sorts E" and "x \<in> set (ea_accepted a)"
  shows "\<not> event_exists (h_db s) (s_ID src) x \<and>
    length (filter (\<lambda>r. e_source_id r = s_ID src \<and> e_event_id r = x) (events_of t)) = 1"
proof -
  obtain s1 cl where g: "evgrow s s1"
    and ok: "classified_ok (h_db s1) (s_ID src) (enumerate 0 (er_Events req)) cl"
    and a: "ea_accepted a = pick (map fst (env_sort E (cl_valid cl))) (er_Events req)"
      "ea_duplicates a = pick (cl_dup cl) (er_Events req)" "ea_rejected a = cl_rejected cl"
    and acc: "set (ea_accepted a) = set (cl_seen cl)" and g': "evgrow s1 t"
    and cnt: "\<forall>x. length (filter (\<lambda>r. e_source_id r = s_ID src \<and> e_event_id r = x) (events_of t)) =
       length (filter (\<lambda>r. e_source_id r = s_ID src \<and> e_event_id r = x) (events_of s1)) +
       (if x \<in> set (cl_seen cl) then 1 else 0)"
    by (rule ingest_answer [OF assms(1,2)])
  have x: "x \<in> set (cl_seen cl)" using assms(3) acc by simp
  have none: "\<not> event_exists (h_db s1) (s_ID src) x"
    using x ok unfolding classified_ok_def by auto
  then have "length (filter (\<lambda>r. e_source_id r = s_ID src \<and> e_event_id r = x) (events_of s1)) = 0"
    unfolding event_exists_count by simp
  then have "length (filter (\<lambda>r. e_source_id r = s_ID src \<and> e_event_id r = x) (events_of t)) = 1"
    using cnt [THEN spec, of x] x by simp
  moreover have "\<not> event_exists (h_db s) (s_ID src) x" using none event_exists_grow [OF g] by blast
  ultimately show ?thesis by simp
qed

lemma acknowledged_exist:
  assumes "handleIngestEvents E src req s = (AnswerOk c a, t)" and "sorts E"
    and "x \<in> set (ea_accepted a) \<union> set (ea_duplicates a)"
  shows "event_exists (h_db t) (s_ID src) x"
proof -
  obtain s1 cl where g: "evgrow s s1"
    and ok: "classified_ok (h_db s1) (s_ID src) (enumerate 0 (er_Events req)) cl"
    and a: "ea_accepted a = pick (map fst (env_sort E (cl_valid cl))) (er_Events req)"
      "ea_duplicates a = pick (cl_dup cl) (er_Events req)" "ea_rejected a = cl_rejected cl"
    and acc: "set (ea_accepted a) = set (cl_seen cl)" and g': "evgrow s1 t"
    and cnt: "\<forall>x. length (filter (\<lambda>r. e_source_id r = s_ID src \<and> e_event_id r = x) (events_of t)) =
       length (filter (\<lambda>r. e_source_id r = s_ID src \<and> e_event_id r = x) (events_of s1)) +
       (if x \<in> set (cl_seen cl) then 1 else 0)"
    by (rule ingest_answer [OF assms(1,2)])
  have seen: "event_exists (h_db t) (s_ID src) x" if "x \<in> set (cl_seen cl)"
    using cnt [THEN spec, of x] that unfolding event_exists_count by simp
  show ?thesis
  proof (cases "x \<in> set (cl_seen cl)")
    case True
    then show ?thesis by (rule seen)
  next
    case False
    with assms(3) acc have "x \<in> set (ea_duplicates a)" by simp
    then have "event_exists (h_db s1) (s_ID src) x"
      using duplicate_ids [OF ok, of x] False unfolding a(2) by simp
    then show ?thesis by (rule event_exists_grow [OF g'])
  qed
qed

section \<open>Properties\<close>

text \<open>
  Every event of a batch is answered exactly once: as accepted, as a duplicate or as
  rejected.
\<close>

theorem ingest_answers_every_event:
  assumes "handleIngestEvents E src req s = (AnswerOk c a, t)" and "sorts E"
  shows "length (ea_accepted a) + length (ea_duplicates a) + length (ea_rejected a) = length (er_Events req)"
proof -
  obtain s1 cl where g: "evgrow s s1"
    and ok: "classified_ok (h_db s1) (s_ID src) (enumerate 0 (er_Events req)) cl"
    and a: "ea_accepted a = pick (map fst (env_sort E (cl_valid cl))) (er_Events req)"
      "ea_duplicates a = pick (cl_dup cl) (er_Events req)" "ea_rejected a = cl_rejected cl"
    and acc: "set (ea_accepted a) = set (cl_seen cl)" and g': "evgrow s1 t"
    and cnt: "\<forall>x. length (filter (\<lambda>r. e_source_id r = s_ID src \<and> e_event_id r = x) (events_of t)) =
       length (filter (\<lambda>r. e_source_id r = s_ID src \<and> e_event_id r = x) (events_of s1)) +
       (if x \<in> set (cl_seen cl) then 1 else 0)"
    by (rule ingest_answer [OF assms])
  let ?acc = "map fst (env_sort E (cl_valid cl))"
  have "distinct ?acc" using sorts_distinct [OF assms(2)] ok by (auto simp: classified_ok_def)
  moreover have "set ?acc \<subseteq> {..<length (er_Events req)}"
    using classified_items [OF ok] sorts_set [OF assms(2), of "cl_valid cl"] by auto
  moreover have "length ?acc = length (cl_valid cl)"
    using assms(2) by (metis length_map mset_eq_length sorts_def)
  moreover have "distinct (cl_dup cl)" "set (cl_dup cl) \<subseteq> {..<length (er_Events req)}"
    using ok by (auto simp: classified_ok_def in_set_enumerate_eq)
  ultimately show ?thesis using ok by (simp add: a length_pick classified_ok_def)
qed

text \<open>
  C6: an accepted event was not stored before and is stored exactly once afterwards, and
  every event answered as accepted or duplicate is stored.  This is what lets an agent
  drop an acknowledged event from its queue.
\<close>

theorem acknowledged_events_stored_once:
  assumes "handleIngestEvents E src req s = (AnswerOk c a, t)" and "sorts E"
  shows "(\<forall>x \<in> set (ea_accepted a). \<not> event_exists (h_db s) (s_ID src) x \<and>
      length (filter (\<lambda>r. e_source_id r = s_ID src \<and> e_event_id r = x) (d_events (h_db t))) = 1) \<and>
    (\<forall>x \<in> set (ea_accepted a) \<union> set (ea_duplicates a). event_exists (h_db t) (s_ID src) x)"
  using accepted_fresh [OF assms] acknowledged_exist [OF assms] by blast

text \<open>
  Repeating a batch is harmless.  Whatever the first delivery of an event answered as
  accepted or duplicate, a later delivery to a hub that still has its events does not
  accept it again.
\<close>

theorem replay_accepts_nothing_new:
  assumes "handleIngestEvents E src req s = (AnswerOk c a, t)" and "sorts E"
    and "handleIngestEvents E src req' u = (AnswerOk c' b, v)" and "evgrow t u"
  shows "set (ea_accepted b) \<inter> (set (ea_accepted a) \<union> set (ea_duplicates a)) = {}"
proof -
  have "event_exists (h_db u) (s_ID src) x" if "x \<in> set (ea_accepted a) \<union> set (ea_duplicates a)" for x
    using event_exists_grow [OF assms(4) acknowledged_exist [OF assms(1,2) that]] .
  moreover have "\<not> event_exists (h_db u) (s_ID src) x" if "x \<in> set (ea_accepted b)" for x
    using accepted_fresh [OF assms(3,2) that] by blast
  ultimately show ?thesis by blast
qed

lemma event_free_source_ids: "event_free (\<lambda>d. map s_ID (d_sources d))"
  by (simp add: event_free_def)

lemma untouched_ids_updateSource:
  "(\<And>r. s_ID (f r) = s_ID r) \<Longrightarrow> untouched (\<lambda>d. map s_ID (d_sources d)) (updateSource i f)"
  unfolding updateSource_def by (rule same_mod_db) (simp add: map_upd_where)

lemma loadSource_found:
  "i \<in> set (map s_ID (d_sources (h_db s))) \<Longrightarrow> \<exists>src. loadSourceTx i s = (Inr src, s)"
  by (auto simp: loadSourceTx_def rowT_def bindT_def find_None_set split: option.split)

lemma emitSourceChange_total: "hub_inv E s \<Longrightarrow> \<exists>t. emitSourceChangeTx E' src s = (Inr (), t)"
  using emitChangeTx_run [of "s\<lparr>h_clk := Suc (h_clk s)\<rparr>"]
  by (simp add: emitSourceChangeTx_def bindT_def thenT_def hub_inv_def Let_def)

lemma touch_total:
  assumes "hub_ready E s (s_ID src, ''heartbeat'')"
  shows "\<exists>t. touchSourceSeenTx E src seen s = (Inr (src\<lparr>s_LastSeenAt := Some (fmtTS seen)\<rparr>), t)"
  using touch_closes [OF assms, of seen] touch_result by blast

lemma safe_inv: "safe E m \<Longrightarrow> hub_inv E s \<Longrightarrow> m s = (Inr x, t) \<Longrightarrow> hub_inv E t"
  by (auto simp: safe_def dest: hoareD)

lemma ingestEventsTx_total:
  assumes ready: "hub_ready E s (i, ''heartbeat'')" and src: "i \<in> set (map s_ID (d_sources (h_db s)))"
    and srt: "sorts E"
  shows "\<exists>r t. ingestEventsTx E i events arrival s = (Inr r, t) \<and> hub_inv E t"
proof -
  let ?ids = "\<lambda>d. map s_ID (d_sources d)"
  have inj: "inj (env_ulid E)" and inv: "hub_inv E s" using ready by (simp_all add: hub_ready_def)
  obtain cur0 where l0: "loadSourceTx i s = (Inr cur0, s)" using loadSource_found [OF src] by blast
  have i: "s_ID cur0 = i" using loadSource_result [OF l0] by simp
  define cur where "cur = cur0\<lparr>s_LastSeenAt := Some (fmtTS arrival)\<rparr>"
  obtain s1 where t1: "touchSourceSeenTx E cur0 arrival s = (Inr cur, s1)"
    using touch_total [of E s cur0 arrival] ready i cur_def by auto
  have inv1: "hub_inv E s1" by (rule safe_inv [OF safe_touchSourceSeenTx [OF inj] inv t1])
  have "untouched ?ids (touchSourceSeenTx E cur0 arrival)"
    by (rule untouched_touch [OF event_free_source_ids]) (simp add: map_upd_where)
  from sameD [OF this t1] have ids1: "?ids (h_db s1) = ?ids (h_db s)" by simp
  have cid: "s_ID cur = i" using i by (simp add: cur_def)
  have "classified_ok (h_db s1) i [] \<lparr>cl_seen = [], cl_valid = [], cl_dup = [], cl_rejected = []\<rparr>"
    by (simp add: classified_ok_def)
  from classify_loop [OF this, of "enumerate 0 events" E] obtain cl s2 where
    c2: "foldT (classifyEvent E i) (enumerate 0 events)
      \<lparr>cl_seen = [], cl_valid = [], cl_dup = [], cl_rejected = []\<rparr> s1 = (Inr cl, s2)"
    and ok: "classified_ok (h_db s1) i (enumerate 0 events) cl" and s2: "h_db s2 = h_db s1" "h_ids s2 = h_ids s1"
    by auto
  have inv2: "hub_inv E s2" using hub_inv_ids [OF inv1] s2 by simp
  let ?its = "env_sort E (cl_valid cl)"
  have "distinct (map (\<lambda>it. ev_EventID (snd it)) (cl_valid cl))" using ok unfolding classified_ok_def by metis
  then have "distinct (map (\<lambda>it. ev_EventID (snd it)) ?its)" by (rule sorts_distinct [OF srt])
  moreover have "applicable s2 (s_ID cur) (snd it)" if "it \<in> set ?its" for it
    using that ok s2(1) cid unfolding sorts_set [OF srt] classified_ok_def applicable_def event_exists_def by auto
  ultimately obtain res s3 where a3: "foldT (applyItem E cur) ?its (s_LastEventSeq cur, []) s2 = (Inr res, s3)"
    and inv3: "hub_inv E s3" using applyItems_total [OF inj inv2] by blast
  have "untouched ?ids (foldT (applyItem E cur) ?its (s_LastEventSeq cur, []))"
    unfolding applyItem_def Let_def by (intro same_base untouched_applyEventTx event_free_source_ids)
  from sameD [OF this a3] have ids3: "?ids (h_db s3) = ?ids (h_db s)" using s2(1) ids1 by simp
  obtain s4 where u4: "updateSource i (\<lambda>r. r\<lparr>s_LastEventSeq := fst res\<rparr>) s3 = (Inr (), s4)"
    by (simp add: updateSource_def)
  have inv4: "hub_inv E s4" by (rule safe_inv [OF safe_updateSource inv3 u4])
  have "untouched ?ids (updateSource i (\<lambda>r. r\<lparr>s_LastEventSeq := fst res\<rparr>))"
    by (rule untouched_ids_updateSource) simp
  from sameD [OF this u4] ids3 src obtain fresh where l4: "loadSourceTx i s4 = (Inr fresh, s4)"
    using loadSource_found [of i s4] by auto
  obtain t where e5: "emitSourceChangeTx E fresh s4 = (Inr (), t)" using emitSourceChange_total [OF inv4] by blast
  have "hub_inv E t" by (rule safe_inv [OF safe_emitSourceChangeTx inv4 e5])
  moreover have "ingestEventsTx E i events arrival s = (Inr (cl, res), t)"
    unfolding ingestEventsTx_def
    by (rule bindT_step, rule l0, rule bindT_step, rule t1, unfold cid, rule bindT_step, rule c2,
        rule bindT_step, rule a3, rule thenT_step, rule u4, rule bindT_step, rule l4, rule thenT_step, rule e5) simp
  ultimately show ?thesis by blast
qed

lemma handleEvents_total:
  assumes "hub_ready E s (s_ID src, ''heartbeat'')" and "s_ID src \<in> set (map s_ID (d_sources (h_db s)))"
    and "sorts E" and "length (er_Events req) \<le> 100"
  shows "\<exists>a t. handleIngestEvents E src req s = (AnswerOk 200 a, t) \<and> hub_inv E t"
proof -
  let ?s = "s\<lparr>h_clk := Suc (h_clk s)\<rparr>"
  have "hub_ready E ?s (s_ID src, ''heartbeat'')"
    using assms(1) by (auto simp: hub_ready_def hub_ids_free_def hub_ahead_def intro: hub_inv_ids cong: round.case_cong)
  moreover have "s_ID src \<in> set (map s_ID (d_sources (h_db ?s)))" using assms(2) by simp
  ultimately obtain cl l acc t where
    "ingestEventsTx E (s_ID src) (er_Events req) (env_clock E (h_clk s)) ?s = (Inr (cl, l, acc), t)" "hub_inv E t"
    using ingestEventsTx_total [OF _ _ assms(3)] by (metis prod.exhaust)
  then show ?thesis
    using assms(4) by (auto simp: handleIngestEvents_def withTx_def Let_def intro: hub_inv_ids)
qed

text \<open>
  C7: a known source that posts at most a hundred events always gets an answer 200, never
  an internal error, whatever the events contain and in whatever order they come.
\<close>

theorem ingest_events_succeeds:
  assumes "hub_ready E s (s_ID src, ''heartbeat'')" and "s_ID src \<in> set (map s_ID (d_sources (h_db s)))"
    and "sorts E" and "length (er_Events req) \<le> 100"
  shows "\<exists>a t. handleIngestEvents E src req s = (AnswerOk 200 a, t) \<and> hub_inv E t"
  by (rule handleEvents_total [OF assms])

section \<open>Metrics\<close>

definition metric_seqs :: "hub_db \<Rightarrow> (string \<times> int) list" where
  "metric_seqs d = map (\<lambda>r. (s_ID r, s_LastMetricsSeq r)) (d_sources d)"

lemma event_free_views: "event_free metric_seqs" "event_free d_samples" "event_free d_raw"
  by (simp_all add: event_free_def metric_seqs_def)

lemma untouched_seqs_updateSource:
  "(\<And>r. s_ID (f r) = s_ID r \<and> s_LastMetricsSeq (f r) = s_LastMetricsSeq r) \<Longrightarrow>
     untouched metric_seqs (updateSource i f)"
  unfolding updateSource_def metric_seqs_def by (rule same_mod_db) (simp add: map_upd_where)

lemma untouched_tables_updateSource:
  "untouched d_samples (updateSource i f)" "untouched d_raw (updateSource i f)"
  unfolding updateSource_def by (rule same_mod_db, simp)+

lemma untouched_insertRaw:
  "untouched metric_seqs (insertRawMetrics src s)" "untouched d_samples (insertRawMetrics src s)"
  unfolding insertRawMetrics_def metric_seqs_def by (intro same_base same_mod_db, simp)+

lemma find_map_of: "map_option g (find (\<lambda>r. k r = i) xs) = map_of (map (\<lambda>r. (k r, g r)) xs) i"
  by (induction xs) auto

lemma find_metric_seqs:
  "map_of (metric_seqs d) i = map_option s_LastMetricsSeq (find (\<lambda>r. s_ID r = i) (d_sources d))"
  unfolding metric_seqs_def by (rule find_map_of [symmetric])

lemma find_ins_replace: "find (\<lambda>x. key x = key r) (ins_replace key r rs) = Some r"
proof -
  have "find (\<lambda>x. key x = key r) (del_where (\<lambda>x. key x = key r) rs) = None" by (auto simp: find_None_set)
  then show ?thesis by (simp add: ins_replace_def find_append)
qed

lemma untouched_bootTimeTx:
  assumes "event_free v" and "\<And>i f. (\<And>r. s_ID (f r) = s_ID r \<and> s_LastMetricsSeq (f r) = s_LastMetricsSeq r) \<Longrightarrow>
    untouched v (updateSource i f)"
  shows "untouched v (bootTimeTx E cur sample arrival)"
  unfolding bootTimeTx_def by (intro same_base untouched_emitHubEventTx assms) simp

lemma recordSample_seq:
  assumes "recordSampleTx cur req sample arrival s = (Inr x, t)"
  shows "map_of (metric_seqs (h_db t)) (s_ID cur) =
      map_option (\<lambda>_. mr_Seq req) (map_of (metric_seqs (h_db s)) (s_ID cur)) \<and>
    d_samples (h_db t) = d_samples (h_db s)"
proof -
  let ?f = "\<lambda>r. r\<lparr>s_LastMetricsSeq := mr_Seq req, s_LastSummary := Some (buildSummary sample), s_UpdatedAt := fmtTS arrival\<rparr>"
  define rest where "rest = thenT (case mr_Agent req of
              None \<Rightarrow> retT ()
            | Some a \<Rightarrow> updateSource (s_ID cur) (\<lambda>r. r\<lparr>s_AgentVersion := nullStr (ai_Version a),
                s_AgentOS := nullStr (ai_OS a), s_AgentArch := nullStr (ai_Arch a),
                s_Hostname := nullStr (ai_Hostname a)\<rparr>))
           (case mr_Capabilities req of
              None \<Rightarrow> retT ()
            | Some c \<Rightarrow> updateSource (s_ID cur) (\<lambda>r. r\<lparr>s_Capabilities := Some c\<rparr>))"
  from assms obtain u where u: "updateSource (s_ID cur) ?f s = (Inr (), u)" and r: "rest u = (Inr x, t)"
    unfolding recordSampleTx_def rest_def by (auto simp: thenT_Inr_iff [of "updateSource _ _"])
  have "untouched metric_seqs rest" "untouched d_samples rest"
    unfolding rest_def by (intro same_base untouched_seqs_updateSource untouched_tables_updateSource; simp)+
  from this [THEN sameD, OF r] have "metric_seqs (h_db t) = metric_seqs (h_db u)"
    "d_samples (h_db t) = d_samples (h_db u)" by simp_all
  moreover have "map_of (metric_seqs (h_db u)) (s_ID cur) =
      map_option (\<lambda>_. mr_Seq req) (map_of (metric_seqs (h_db s)) (s_ID cur))"
    using u by (cases "find (\<lambda>r. s_ID r = s_ID cur) (d_sources (h_db s))")
      (auto simp: updateSource_def metric_seqs_def find_map_of [symmetric] find_upd_where dest: find_SomeD)
  ultimately show ?thesis using u by (auto simp: updateSource_def)
qed

lemma newSample_result:
  assumes "newSampleTx E cur req sample arrival s = (Inr x, t)"
  shows "map_of (metric_seqs (h_db t)) (s_ID cur) =
      map_option (\<lambda>_. mr_Seq req) (map_of (metric_seqs (h_db s)) (s_ID cur)) \<and>
    find (\<lambda>r. sample_key r = (s_ID cur, sp_TS sample)) (d_samples (h_db t)) =
      Some \<lparr>ms_source_id = s_ID cur, ms_ts = sp_TS sample, ms_received_at = fmtTS arrival, ms_sample = sample\<rparr>"
proof -
  let ?row = "\<lparr>ms_source_id = s_ID cur, ms_ts = sp_TS sample, ms_received_at = fmtTS arrival, ms_sample = sample\<rparr>"
  define first where "first = thenT (insertRawMetrics (s_ID cur) sample) (bootTimeTx E cur sample arrival)"
  define rest where "rest = bindT loadRules (\<lambda>rules.
     thenT (evalSample E
              (cur\<lparr>s_LastMetricsSeq := mr_Seq req, s_LastSummary := Some (buildSummary sample),
                   s_Capabilities := (case mr_Capabilities req of None \<Rightarrow> s_Capabilities cur | c \<Rightarrow> c)\<rparr>)
              rules sample arrival)
           (updateSource (s_ID cur) (\<lambda>r. r\<lparr>s_PrevSample := Some sample\<rparr>)))"
  from assms obtain s1 s2 s3 y z where p: "putSample ?row s = (Inr (), s1)" and f: "first s1 = (Inr y, s2)"
    and r: "recordSampleTx cur req sample arrival s2 = (Inr z, s3)" and t: "rest s3 = (Inr x, t)"
    unfolding newSampleTx_def first_def rest_def by (auto simp: thenT_Inr_iff bindT_Inr_iff)
  have "untouched metric_seqs first" "untouched d_samples first"
    unfolding first_def
    by (intro frame.seq untouched_insertRaw untouched_bootTimeTx event_free_views untouched_seqs_updateSource
        untouched_tables_updateSource; simp)+
  from this [THEN sameD, OF f] have e2: "metric_seqs (h_db s2) = metric_seqs (h_db s1)"
    "d_samples (h_db s2) = d_samples (h_db s1)" by simp_all
  have "untouched metric_seqs rest" "untouched d_samples rest"
    unfolding rest_def
    by (intro same_base untouched_loadRules untouched_evalSample event_free_views untouched_seqs_updateSource
        untouched_tables_updateSource; simp add: metric_seqs_def)+
  from this [THEN sameD, OF t] have e4: "metric_seqs (h_db t) = metric_seqs (h_db s3)"
    "d_samples (h_db t) = d_samples (h_db s3)" by simp_all
  have k: "sample_key ?row = (s_ID cur, sp_TS sample)" by (simp add: sample_key_def)
  have "metric_seqs (h_db s1) = metric_seqs (h_db s)" "d_samples (h_db s1) = ins_replace sample_key ?row (d_samples (h_db s))"
    using p by (auto simp: putSample_def metric_seqs_def)
  then show ?thesis using recordSample_seq [OF r] e2 e4 find_ins_replace [of sample_key ?row] unfolding k by simp
qed

lemma ingestMetricsTx_result:
  assumes run: "ingestMetricsTx E i req sample arrival s = (Inr dup, t)"
    and src: "find (\<lambda>r. s_ID r = i) (d_sources (h_db s)) = Some cur"
  shows "dup = (mr_Seq req \<le> s_LastMetricsSeq cur) \<and>
    map_of (metric_seqs (h_db t)) i = Some (max (s_LastMetricsSeq cur) (mr_Seq req)) \<and>
    (dup \<longrightarrow> d_samples (h_db t) = d_samples (h_db s) \<and> d_raw (h_db t) = d_raw (h_db s)) \<and>
    (\<not> dup \<longrightarrow> find (\<lambda>r. sample_key r = (i, sp_TS sample)) (d_samples (h_db t)) =
       Some \<lparr>ms_source_id = i, ms_ts = sp_TS sample, ms_received_at = fmtTS arrival, ms_sample = sample\<rparr>)"
proof -
  have i: "s_ID cur = i" using find_SomeD [OF src] by simp
  have load: "loadSourceTx i s = (Inr cur, s)" using src by (simp add: loadSourceTx_def rowT_def bindT_def)
  from run load obtain cur' s1 s2 x fresh y where t1: "touchSourceSeenTx E cur arrival s = (Inr cur', s1)"
    and t2: "whenT (s_LastMetricsSeq cur' < mr_Seq req) (newSampleTx E cur' req sample arrival) s1 = (Inr x, s2)"
    and t3: "emitSourceChangeTx E fresh s2 = (Inr y, t)" and d: "dup = (mr_Seq req \<le> s_LastMetricsSeq cur')"
    unfolding ingestMetricsTx_def by (auto simp: bindT_Inr_iff thenT_Inr_iff dest!: loadSource_result)
  have c: "s_ID cur' = i" "s_LastMetricsSeq cur' = s_LastMetricsSeq cur" using touch_result [OF t1] i by simp_all
  have "untouched metric_seqs (touchSourceSeenTx E cur arrival)" "untouched d_samples (touchSourceSeenTx E cur arrival)"
    "untouched d_raw (touchSourceSeenTx E cur arrival)"
    by (intro untouched_touch event_free_views; simp add: metric_seqs_def map_upd_where)+
  from this [THEN sameD, OF t1] have e1: "metric_seqs (h_db s1) = metric_seqs (h_db s)"
    "d_samples (h_db s1) = d_samples (h_db s)" "d_raw (h_db s1) = d_raw (h_db s)" by simp_all
  from untouched_emitSourceChangeTx [OF event_free_views(1), THEN sameD, OF t3]
    untouched_emitSourceChangeTx [OF event_free_views(2), THEN sameD, OF t3]
    untouched_emitSourceChangeTx [OF event_free_views(3), THEN sameD, OF t3]
  have e3: "metric_seqs (h_db t) = metric_seqs (h_db s2)" "d_samples (h_db t) = d_samples (h_db s2)"
    "d_raw (h_db t) = d_raw (h_db s2)" by simp_all
  have old: "map_of (metric_seqs (h_db s)) i = Some (s_LastMetricsSeq cur)" by (simp add: find_metric_seqs src)
  show ?thesis
  proof (cases "mr_Seq req \<le> s_LastMetricsSeq cur")
    case True
    then have "s2 = s1" using t2 c(2) by (simp add: whenT_run)
    then show ?thesis using True d c e1 e3 old by simp
  next
    case False
    then have "newSampleTx E cur' req sample arrival s1 = (Inr x, s2)" using t2 c(2) by (simp add: whenT_run)
    from newSample_result [OF this] show ?thesis using False d c e1 e3 old by simp
  qed
qed

text \<open>
  A batch of metrics is applied once.  A batch whose number is not above the recorded
  one is answered as a duplicate and stores no sample and no time series point; any other
  one stores its sample, and the recorded number becomes the larger of the two.
\<close>

theorem metrics_applied_once:
  assumes "handleIngestMetrics E src req s = (AnswerOk c a, t)"
    and "find (\<lambda>r. s_ID r = s_ID src) (d_sources (h_db s)) = Some cur" and "mr_Sample req = Some sample"
  shows "ma_duplicate a = (mr_Seq req \<le> s_LastMetricsSeq cur) \<and> ma_accepted a = (\<not> ma_duplicate a) \<and>
    map_option s_LastMetricsSeq (find (\<lambda>r. s_ID r = s_ID src) (d_sources (h_db t))) =
      Some (max (s_LastMetricsSeq cur) (mr_Seq req)) \<and>
    (if ma_duplicate a then d_samples (h_db t) = d_samples (h_db s) \<and> d_raw (h_db t) = d_raw (h_db s)
     else map_option ms_sample (find (\<lambda>r. sample_key r = (s_ID src, sp_TS sample)) (d_samples (h_db t))) = Some sample)"
proof -
  let ?s = "s\<lparr>h_clk := Suc (h_clk s)\<rparr>"
  from assms(1,3) obtain dup u where
    "ingestMetricsTx E (s_ID src) req sample (env_clock E (h_clk s)) ?s = (Inr dup, u)"
    "ma_duplicate a = dup" "ma_accepted a = (\<not> dup)" "h_db t = h_db u"
    by (auto simp: handleIngestMetrics_def withTx_def Let_def split: if_splits prod.splits sum.splits)
  with ingestMetricsTx_result [OF this(1), of cur] assms(2) show ?thesis
    by (simp add: find_metric_seqs [symmetric])
qed

section \<open>Witnesses\<close>

definition source_hub :: hub where
  "source_hub = hub_start\<lparr>h_db := empty_db\<lparr>d_sources := [sample_source]\<rparr>\<rparr>"

definition sample_batch :: "eventPayload list \<Rightarrow> ingestEventsReq" where
  "sample_batch evs = \<lparr>er_SentAt = [], er_Events = evs\<rparr>"

lemma sorts_sample_env: "sorts sample_env"
  by (simp add: sorts_def sample_env_def)

lemma ready_source_hub: "hub_ready sample_env source_hub k"
proof -
  have "hub_inv sample_env source_hub"
    by (simp add: hub_inv_def faults_inv_def messages_inv_def source_hub_def hub_start_def empty_db_def
        changes_wf_def change_counter_def)
  moreover have "abs_at (h_db source_hub) k = (AbsentR, {})"
    by (simp add: abs_at_def source_hub_def empty_db_def loadFaultTx_def round_of_def pend_at_def)
  ultimately show ?thesis
    using inj_sample_env by (simp add: hub_ready_def hub_ids_free_def hub_ahead_def)
      (simp add: source_hub_def empty_db_def)
qed

lemma source_known: "s_ID sample_source \<in> set (map s_ID (d_sources (h_db source_hub)))"
  by (simp add: source_hub_def)

lemma sample_delivery:
  "length evs \<le> 100 \<Longrightarrow>
     \<exists>a t. handleIngestEvents sample_env sample_source (sample_batch evs) source_hub = (AnswerOk 200 a, t)"
  using handleEvents_total [OF ready_source_hub source_known sorts_sample_env, of "sample_batch evs"]
  by (auto simp: sample_batch_def)

theorem ingest_answers_every_event_witness:
  "\<exists>a t. handleIngestEvents sample_env sample_source
      (sample_batch [sample_event ''a'' 1 ''open'', sample_event ''a'' 2 ''open'', sample_event [] 3 ''open'']) source_hub
      = (AnswerOk 200 a, t) \<and>
    length (ea_accepted a) + length (ea_duplicates a) + length (ea_rejected a) = 3"
proof -
  let ?evs = "[sample_event ''a'' 1 ''open'', sample_event ''a'' 2 ''open'', sample_event [] 3 ''open'']"
  obtain a t where r: "handleIngestEvents sample_env sample_source (sample_batch ?evs) source_hub = (AnswerOk 200 a, t)"
    using sample_delivery [of ?evs] by auto
  from ingest_answers_every_event [OF r sorts_sample_env] r show ?thesis by (auto simp: sample_batch_def)
qed

theorem acknowledged_events_stored_once_witness:
  "\<exists>a t. handleIngestEvents sample_env sample_source (sample_batch [sample_event ''a'' 1 ''open'']) source_hub
      = (AnswerOk 200 a, t) \<and> (\<forall>x \<in> set (ea_accepted a) \<union> set (ea_duplicates a). event_exists (h_db t) ''src_1'' x)"
proof -
  obtain a t where r: "handleIngestEvents sample_env sample_source (sample_batch [sample_event ''a'' 1 ''open'']) source_hub
      = (AnswerOk 200 a, t)"
    using sample_delivery [of "[sample_event ''a'' 1 ''open'']"] by auto
  have "s_ID sample_source = ''src_1''" by (simp add: sample_source_def)
  with acknowledged_events_stored_once [OF r sorts_sample_env] r show ?thesis by auto
qed

lemma sample_empty_delivery:
  "\<exists>a t. handleIngestEvents sample_env sample_source (sample_batch []) source_hub = (AnswerOk 200 a, t) \<and>
     events_of t = [] \<and> abs_at (h_db t) (''src_1'', ''heartbeat'') = (AbsentR, {}) \<and> hub_inv sample_env t \<and>
     ''src_1'' \<in> set (map s_ID (d_sources (h_db t)))"
proof -
  have e: "env_sort sample_env [] = []" by (simp add: sample_env_def)
  obtain a t where r: "handleIngestEvents sample_env sample_source (sample_batch []) source_hub = (AnswerOk 200 a, t)"
    "hub_inv sample_env t"
    using handleEvents_total [OF ready_source_hub source_known sorts_sample_env, of "sample_batch []"]
    by (auto simp: sample_batch_def)
  have "events_of t = [] \<and> d_faults (h_db t) = [] \<and> d_pending (h_db t) = [] \<and> map s_ID (d_sources (h_db t)) = [''src_1'']"
    using r(1)
    by (simp add: handleIngestEvents_def sample_batch_def withTx_def ingestEventsTx_def loadSourceTx_def rowT_def
        touchSourceSeenTx_def updateSource_def emitSourceChangeTx_def emitChangeTx_def insertChangeObj_def
        nextChangeSeq_def insert_change_row_def push_change_def bindT_def thenT_def whenT_def Let_def e
        source_hub_def hub_start_def empty_db_def loadFaultTx_def upd_where_def sample_source_def)
      auto
  then show ?thesis using r by (auto simp: abs_at_def loadFaultTx_def round_of_def pend_at_def)
qed

theorem replay_accepts_nothing_new_witness:
  "\<exists>a t b v. handleIngestEvents sample_env sample_source (sample_batch []) source_hub = (AnswerOk 200 a, t) \<and>
     handleIngestEvents sample_env sample_source (sample_batch [sample_event ''a'' 1 ''open'']) t = (AnswerOk 200 b, v) \<and>
     set (ea_accepted b) \<inter> (set (ea_accepted a) \<union> set (ea_duplicates a)) = {}"
proof -
  have i: "s_ID sample_source = ''src_1''" by (simp add: sample_source_def)
  obtain a t where r: "handleIngestEvents sample_env sample_source (sample_batch []) source_hub = (AnswerOk 200 a, t)"
    and t: "events_of t = []" "abs_at (h_db t) (''src_1'', ''heartbeat'') = (AbsentR, {})" "hub_inv sample_env t"
      "''src_1'' \<in> set (map s_ID (d_sources (h_db t)))" using sample_empty_delivery by blast
  have "hub_ready sample_env t (s_ID sample_source, ''heartbeat'')"
    using t i inj_sample_env by (simp add: hub_ready_def hub_ids_free_def hub_ahead_def)
  from handleEvents_total [OF this _ sorts_sample_env, of "sample_batch [sample_event ''a'' 1 ''open'']"] t(4) i
  obtain b v where r2: "handleIngestEvents sample_env sample_source (sample_batch [sample_event ''a'' 1 ''open'']) t
      = (AnswerOk 200 b, v)" by (auto simp: sample_batch_def)
  have "evgrow t t" by (rule eg.R_refl)
  from replay_accepts_nothing_new [OF r sorts_sample_env r2 this] r r2 show ?thesis by blast
qed

theorem ingest_events_succeeds_witness:
  "\<exists>a t. handleIngestEvents sample_env sample_source (sample_batch [sample_event ''a'' 1 ''open'']) source_hub
      = (AnswerOk 200 a, t) \<and> hub_inv sample_env t"
  by (rule ingest_events_succeeds [OF ready_source_hub source_known sorts_sample_env]) (simp add: sample_batch_def)

definition blank_sample :: samplePayload where
  "blank_sample = \<lparr>sp_TS = ''2024-01-01T00:00:00.000Z'', sp_CPUPercent = None, sp_MemPercent = None,
     sp_MemUsedBytes = None, sp_MemTotalBytes = None, sp_Load1 = None, sp_UptimeSeconds = None,
     sp_BootTime = None, sp_Disks = [], sp_Net = None, sp_Containers = None, sp_NAS = None\<rparr>"

theorem metrics_applied_once_witness:
  "\<exists>a t. handleIngestMetrics sample_env sample_source
      \<lparr>mr_Seq = 0, mr_SentAt = [], mr_Agent = None, mr_Capabilities = None, mr_Sample = Some blank_sample\<rparr> source_hub
      = (AnswerOk 202 a, t) \<and> ma_duplicate a \<and> d_samples (h_db t) = d_samples (h_db source_hub)"
proof -
  let ?req = "\<lparr>mr_Seq = 0, mr_SentAt = [], mr_Agent = None, mr_Capabilities = None, mr_Sample = Some blank_sample\<rparr>"
  have p: "parseTS ''2024-01-01T00:00:00.000Z'' \<noteq> None" by code_simp
  have "\<exists>a t. handleIngestMetrics sample_env sample_source ?req source_hub = (AnswerOk 202 a, t)"
    using p
    by (auto simp: handleIngestMetrics_def blank_sample_def withTx_def ingestMetricsTx_def loadSourceTx_def rowT_def
        touchSourceSeenTx_def emitSourceChangeTx_def emitChangeTx_def insertChangeObj_def
        nextChangeSeq_def insert_change_row_def push_change_def bindT_def thenT_def whenT_def Let_def
        source_hub_def hub_start_def empty_db_def loadFaultTx_def upd_where_def sample_source_def)
  then obtain a t where r: "handleIngestMetrics sample_env sample_source ?req source_hub = (AnswerOk 202 a, t)" by blast
  have "find (\<lambda>r. s_ID r = s_ID sample_source) (d_sources (h_db source_hub)) = Some sample_source"
    "s_LastMetricsSeq sample_source = 0"
    by (simp_all add: source_hub_def sample_source_def)
  moreover have "mr_Sample ?req = Some blank_sample" by simp
  ultimately show ?thesis using metrics_applied_once [OF r] r by (auto split: if_splits)
qed

end
