(* ===== verification/Retention.thy ===== *)
theory Retention
  imports Ingest
begin

text \<open>
  Retention and roll-up (\<^verbatim>\<open>hub/retention.go\<close>).  Old rows go, removed faults and messages
  leave tombstones in the change log, and the log itself keeps its window.
\<close>

section \<open>Retention\<close>

record retentionCfg =
  rc_rawDays :: int
  rc_rollupDays :: int
  rc_messagesDays :: int
  rc_changesDays :: int
  rc_changesMinSeq :: int

text \<open>\<^verbatim>\<open>fmtTS(now.Add(-time.Duration(days) * 24 * time.Hour))\<close>.\<close>

definition cut_before :: "time \<Rightarrow> int \<Rightarrow> string" where
  "cut_before now days = fmtTS (now + wrap64 (- days * 24 * 3600000000000))"

definition tombstoneTx :: "env \<Rightarrow> string \<Rightarrow> string \<Rightarrow> unit htx" where
  "tombstoneTx E typ i = bindT (insertTombstone E typ i) push_change"

definition dropMessage :: "env \<Rightarrow> string \<Rightarrow> unit htx" where
  "dropMessage E i =
     thenT (tombstoneTx E ''message'' i)
       (mod_db (\<lambda>d. d\<lparr>d_messages := del_where (\<lambda>m. m_ID m = i) (d_messages d)\<rparr>))"

definition dropFault :: "env \<Rightarrow> faultRow \<Rightarrow> unit htx" where
  "dropFault E f =
     bindT (get_db (\<lambda>d. map m_ID (filter (\<lambda>m. m_FaultID m = Some (f_ID f)) (d_messages d)))) (\<lambda>mids.
     thenT (forT mids (dropMessage E)) (
     thenT (tombstoneTx E ''fault'' (f_ID f)) (
     thenT (mod_db (\<lambda>d. d\<lparr>d_faults := del_where (\<lambda>r. f_ID r = f_ID f) (d_faults d)\<rparr>))
       (mod_db (\<lambda>d. d\<lparr>d_pending := del_where
          (\<lambda>p. p_source_id p = f_SourceID f \<and> p_fault_key p = f_FaultKey f) (d_pending d)\<rparr>)))))"

text \<open>A resolved fault whose resolve is older than the cut.\<close>

definition expired :: "string \<Rightarrow> faultRow \<Rightarrow> bool" where
  "expired before f = (f_State f = ''resolved'' \<and> (case f_ResolvedAt f of None \<Rightarrow> False | Some r \<Rightarrow> r < before))"

definition trimChanges :: "retentionCfg \<Rightarrow> string \<Rightarrow> unit htx" where
  "trimChanges cfg chgCut =
     mod_db (\<lambda>d. if d_changes d = [] then d
       else d\<lparr>d_changes := del_where
         (\<lambda>c. cr_created_at c < chgCut \<and> cr_seq c \<le> maxChangeSeq d - rc_changesMinSeq cfg) (d_changes d)\<rparr>)"

definition retentionTx :: "env \<Rightarrow> retentionCfg \<Rightarrow> time \<Rightarrow> unit htx" where
  "retentionTx E cfg now =
     (let rawCut = cut_before now (rc_rawDays cfg); rollCut = cut_before now (rc_rollupDays cfg);
          msgCut = cut_before now (rc_messagesDays cfg); chgCut = cut_before now (rc_changesDays cfg) in
      thenT (mod_db (\<lambda>d. d\<lparr>d_raw := del_where (\<lambda>r. mw_ts r < rawCut) (d_raw d)\<rparr>)) (
      thenT (mod_db (\<lambda>d. d\<lparr>d_5m := del_where (\<lambda>r. rr_bucket r < rollCut) (d_5m d)\<rparr>)) (
      thenT (mod_db (\<lambda>d. d\<lparr>d_samples := del_where (\<lambda>r. ms_ts r < rawCut) (d_samples d)\<rparr>)) (
      thenT (mod_db (\<lambda>d. d\<lparr>d_events := del_where (\<lambda>r. e_received_at r < msgCut) (d_events d)\<rparr>)) (
      thenT (mod_db (\<lambda>d. d\<lparr>d_pending := del_where (\<lambda>r. p_occurred_at r < msgCut) (d_pending d)\<rparr>)) (
      bindT (get_db (\<lambda>d. filter (expired msgCut) (d_faults d))) (\<lambda>fids.
      thenT (forT fids (dropFault E)) (
      bindT (get_db (\<lambda>d. map m_ID (filter (\<lambda>m. m_FaultID m = None \<and> m_ReceivedAt m < msgCut) (d_messages d)))) (\<lambda>mids.
      thenT (forT mids (dropMessage E))
        (trimChanges cfg chgCut))))))))))"

definition runRetention :: "env \<Rightarrow> retentionCfg \<Rightarrow> time \<Rightarrow> unit htx" where
  "runRetention E cfg now = withTx (retentionTx E cfg now)"

section \<open>Roll-up\<close>

text \<open>
  \<open>runRollup\<close>.  The bucket of a time stamp is computed by SQLite's date functions, which
  are a parameter; they give NULL for a text they cannot read, and the column does not
  take NULL.
\<close>

type_synonym rollKey = "string \<times> string \<times> string \<times> string"

definition roll_key :: "rollRow \<Rightarrow> rollKey" where
  "roll_key r = (rr_source_id r, rr_bucket r, rr_metric r, rr_label r)"

definition raw_roll_key :: "(string \<Rightarrow> string option) \<Rightarrow> rawRow \<Rightarrow> rollKey" where
  "raw_roll_key bucket r =
     (mw_source_id r, (case bucket (mw_ts r) of None \<Rightarrow> [] | Some b \<Rightarrow> b), mw_metric r, mw_label r)"

text \<open>One row of the aggregate query: the group of a key.\<close>

definition aggregate :: "rollKey \<Rightarrow> rat list \<Rightarrow> rollRow" where
  "aggregate k vs =
     (case k of (src, b, metric, label) \<Rightarrow>
       \<lparr>rr_source_id = src, rr_bucket = b, rr_metric = metric, rr_label = label,
        rr_avg = sum_list vs / of_nat (length vs),
        rr_min = (case vs of [] \<Rightarrow> 0 | v # ws \<Rightarrow> fold min ws v),
        rr_max = (case vs of [] \<Rightarrow> 0 | v # ws \<Rightarrow> fold max ws v),
        rr_n = int (length vs)\<rparr>)"

definition group_values :: "(string \<Rightarrow> string option) \<Rightarrow> rawRow list \<Rightarrow> rollKey \<Rightarrow> rat list" where
  "group_values bucket rows k = map mw_value (filter (\<lambda>r. raw_roll_key bucket r = k) rows)"

text \<open>\<^verbatim>\<open>now.Truncate(5 * time.Minute).Add(-24 * time.Hour)\<close>.\<close>

definition rollup_earliest :: "time \<Rightarrow> time" where
  "rollup_earliest now = now - now mod 300000000000 - 86400000000000"

definition putBucket :: "rollRow \<Rightarrow> unit htx" where
  "putBucket r = mod_db (\<lambda>d. d\<lparr>d_5m := ins_replace roll_key r (d_5m d)\<rparr>)"

definition rollupTx :: "(string \<Rightarrow> string option) \<Rightarrow> time \<Rightarrow> unit htx" where
  "rollupTx bucket now =
     bindT (get_db (\<lambda>d. filter (\<lambda>r. fmtTS (rollup_earliest now) \<le> mw_ts r) (d_raw d))) (\<lambda>rows.
       if \<exists>r \<in> set rows. bucket (mw_ts r) = None then failT (ErrConstraint ''metrics_5m'')
       else forT (remdups (map (raw_roll_key bucket) rows)) (\<lambda>k.
         putBucket (aggregate k (group_values bucket rows k))))"

definition runRollup :: "(string \<Rightarrow> string option) \<Rightarrow> time \<Rightarrow> unit htx" where
  "runRollup bucket now = withTx (rollupTx bucket now)"

section \<open>What a removal does\<close>

text \<open>The state apart from the clock, the log, messages, faults and pending resolves.\<close>

definition log_only :: "hub \<Rightarrow> hub \<Rightarrow> changeData list \<Rightarrow> bool" where
  "log_only s t ds \<longleftrightarrow> changes_wf (h_db t) \<and> h_ids t = h_ids s \<and>
     (\<exists>new. d_changes (h_db t) = d_changes (h_db s) @ new \<and> map cr_data new = ds \<and>
            h_out t = h_out s @ map entry_of new)"

lemma log_only_trans: "log_only s t ds \<Longrightarrow> log_only t u es \<Longrightarrow> log_only s u (ds @ es)"
  by (auto simp: log_only_def)

lemma log_only_wf: "log_only s t ds \<Longrightarrow> changes_wf (h_db t)"
  by (simp add: log_only_def)

lemma tombstone_run:
  assumes "changes_wf (h_db s)"
  shows "\<exists>t. tombstoneTx E typ i s = (Inr (), t) \<and> log_only s t [DTombstone typ i] \<and>
    d_messages (h_db t) = d_messages (h_db s) \<and> d_faults (h_db t) = d_faults (h_db s) \<and>
    d_pending (h_db t) = d_pending (h_db s)"
proof -
  define r where "r = \<lparr>cr_seq = change_counter (h_db s) + 1, cr_type = ''tombstone'', cr_ref_id = i,
    cr_data = DTombstone typ i, cr_notify = None, cr_created_at = fmtTS (env_clock E (h_clk s))\<rparr>"
  define t where "t = s\<lparr>h_clk := Suc (h_clk s),
    h_db := (h_db s)\<lparr>d_meta := (d_meta (h_db s))(''change_seq'' \<mapsto> cr_seq r), d_changes := d_changes (h_db s) @ [r]\<rparr>,
    h_out := h_out s @ [entry_of r]\<rparr>"
  have q: "cr_seq r = change_counter (h_db s) + 1" by (simp add: r_def)
  have "tombstoneTx E typ i s = (Inr (), t)"
    by (simp add: tombstoneTx_def insertTombstone_def insertChange_def bindT_def insertChangeObj_run [OF assms]
        push_change_def Let_def t_def r_def)
  moreover have "log_only s t [DTombstone typ i]"
    unfolding log_only_def using changes_wf_snoc [OF assms q]
    by (auto simp: t_def r_def)
  ultimately show ?thesis by (auto simp: t_def)
qed

lemma dropMessage_run:
  assumes "changes_wf (h_db s)"
  shows "\<exists>t. dropMessage E i s = (Inr (), t) \<and> log_only s t [DTombstone ''message'' i] \<and>
    d_messages (h_db t) = filter (\<lambda>m. m_ID m \<noteq> i) (d_messages (h_db s)) \<and>
    d_faults (h_db t) = d_faults (h_db s) \<and> d_pending (h_db t) = d_pending (h_db s)"
  using tombstone_run [OF assms, of E "''message''" i]
  by (auto simp: dropMessage_def thenT_def bindT_def del_where_def log_only_def changes_wf_def change_counter_def)

lemma dropMessages_run:
  assumes "changes_wf (h_db s)"
  shows "\<exists>t. forT ids (dropMessage E) s = (Inr (), t) \<and> log_only s t (map (DTombstone ''message'') ids) \<and>
    d_messages (h_db t) = filter (\<lambda>m. m_ID m \<notin> set ids) (d_messages (h_db s)) \<and>
    d_faults (h_db t) = d_faults (h_db s) \<and> d_pending (h_db t) = d_pending (h_db s)"
  using assms
proof (induction ids arbitrary: s)
  case Nil
  then show ?case by (simp add: log_only_def)
next
  case (Cons i ids)
  obtain u where u: "dropMessage E i s = (Inr (), u)" "log_only s u [DTombstone ''message'' i]"
    "d_messages (h_db u) = filter (\<lambda>m. m_ID m \<noteq> i) (d_messages (h_db s))"
    "d_faults (h_db u) = d_faults (h_db s)" "d_pending (h_db u) = d_pending (h_db s)"
    using dropMessage_run [OF Cons.prems] by blast
  then obtain t where t: "forT ids (dropMessage E) u = (Inr (), t)" "log_only u t (map (DTombstone ''message'') ids)"
    "d_messages (h_db t) = filter (\<lambda>m. m_ID m \<notin> set ids) (d_messages (h_db u))"
    "d_faults (h_db t) = d_faults (h_db u)" "d_pending (h_db t) = d_pending (h_db u)"
    using Cons.IH [OF log_only_wf [OF u(2)]] by blast
  have "log_only s t (map (DTombstone ''message'') (i # ids))" using log_only_trans [OF u(2) t(2)] by simp
  then show ?case using u t by (auto simp: thenT_def bindT_def conj_commute)
qed

lemma filter_by_id:
  assumes "distinct (map k xs)"
  shows "filter (\<lambda>x. k x \<notin> set (map k (filter P xs))) xs = filter (\<lambda>x. \<not> P x) xs"
proof (rule filter_cong [OF refl])
  fix x assume "x \<in> set xs"
  then show "(k x \<notin> set (map k (filter P xs))) = (\<not> P x)"
    using assms by (auto simp: distinct_map dest: inj_onD)
qed

text \<open>The tombstones a fault leaves: its messages, then itself.\<close>

definition fault_tombs :: "messageRow list \<Rightarrow> faultRow \<Rightarrow> changeData list" where
  "fault_tombs ms f =
     map (DTombstone ''message'') (map m_ID (filter (\<lambda>m. m_FaultID m = Some (f_ID f)) ms)) @ [DTombstone ''fault'' (f_ID f)]"

lemma dropFault_run:
  assumes wf: "changes_wf (h_db s)" and d: "distinct (map m_ID (d_messages (h_db s)))"
  shows "\<exists>t. dropFault E f s = (Inr (), t) \<and> log_only s t (fault_tombs (d_messages (h_db s)) f) \<and>
    d_messages (h_db t) = filter (\<lambda>m. m_FaultID m \<noteq> Some (f_ID f)) (d_messages (h_db s)) \<and>
    d_faults (h_db t) = filter (\<lambda>r. f_ID r \<noteq> f_ID f) (d_faults (h_db s)) \<and>
    d_pending (h_db t) = filter (\<lambda>p. (p_source_id p, p_fault_key p) \<noteq> fkey f) (d_pending (h_db s))"
proof -
  let ?mids = "map m_ID (filter (\<lambda>m. m_FaultID m = Some (f_ID f)) (d_messages (h_db s)))"
  obtain u where u: "forT ?mids (dropMessage E) s = (Inr (), u)" "log_only s u (map (DTombstone ''message'') ?mids)"
    "d_messages (h_db u) = filter (\<lambda>m. m_ID m \<notin> set ?mids) (d_messages (h_db s))"
    "d_faults (h_db u) = d_faults (h_db s)" "d_pending (h_db u) = d_pending (h_db s)"
    using dropMessages_run [OF wf] by blast
  then obtain v where v: "tombstoneTx E ''fault'' (f_ID f) u = (Inr (), v)" "log_only u v [DTombstone ''fault'' (f_ID f)]"
    "d_messages (h_db v) = d_messages (h_db u)" "d_faults (h_db v) = d_faults (h_db u)"
    "d_pending (h_db v) = d_pending (h_db u)"
    using tombstone_run [OF log_only_wf [OF u(2)]] by blast
  define t where "t = v\<lparr>h_db := (h_db v)\<lparr>d_faults := del_where (\<lambda>r. f_ID r = f_ID f) (d_faults (h_db v)),
    d_pending := del_where (\<lambda>p. p_source_id p = f_SourceID f \<and> p_fault_key p = f_FaultKey f) (d_pending (h_db v))\<rparr>\<rparr>"
  have "log_only s v (fault_tombs (d_messages (h_db s)) f)"
    using log_only_trans [OF u(2) v(2)] by (simp add: fault_tombs_def)
  then have "log_only s t (fault_tombs (d_messages (h_db s)) f)"
    by (simp add: log_only_def t_def changes_wf_def change_counter_def)
  moreover have "dropFault E f s = (Inr (), t)"
    using u(1) v(1) by (simp add: dropFault_def thenT_def bindT_def t_def)
  moreover have "d_messages (h_db t) = filter (\<lambda>m. m_FaultID m \<noteq> Some (f_ID f)) (d_messages (h_db s))"
    using u(3) v(3) filter_by_id [OF d, of "\<lambda>m. m_FaultID m = Some (f_ID f)"] by (simp add: t_def)
  ultimately show ?thesis
    using u(4,5) v(4,5) by (auto simp: t_def del_where_def fkey_def intro!: filter_cong)
qed

lemma dropFaults_run:
  assumes "changes_wf (h_db s)" and "distinct (map m_ID (d_messages (h_db s)))"
  shows "\<exists>t ds. forT fs (dropFault E) s = (Inr (), t) \<and> log_only s t ds \<and>
    set ds = DTombstone ''fault'' ` f_ID ` set fs \<union>
      DTombstone ''message'' ` {m_ID m |m. m \<in> set (d_messages (h_db s)) \<and> m_FaultID m \<in> Some ` f_ID ` set fs} \<and>
    d_messages (h_db t) = filter (\<lambda>m. m_FaultID m \<notin> Some ` f_ID ` set fs) (d_messages (h_db s)) \<and>
    d_faults (h_db t) = filter (\<lambda>r. f_ID r \<notin> f_ID ` set fs) (d_faults (h_db s)) \<and>
    d_pending (h_db t) = filter (\<lambda>p. (p_source_id p, p_fault_key p) \<notin> fkey ` set fs) (d_pending (h_db s))"
  using assms
proof (induction fs arbitrary: s)
  case Nil
  then show ?case by (intro exI [of _ s] exI [of _ "[]"]) (simp add: log_only_def)
next
  case (Cons f fs)
  obtain u where u: "dropFault E f s = (Inr (), u)" "log_only s u (fault_tombs (d_messages (h_db s)) f)"
    "d_messages (h_db u) = filter (\<lambda>m. m_FaultID m \<noteq> Some (f_ID f)) (d_messages (h_db s))"
    "d_faults (h_db u) = filter (\<lambda>r. f_ID r \<noteq> f_ID f) (d_faults (h_db s))"
    "d_pending (h_db u) = filter (\<lambda>p. (p_source_id p, p_fault_key p) \<noteq> fkey f) (d_pending (h_db s))"
    using dropFault_run [OF Cons.prems] by blast
  have "changes_wf (h_db u)" "distinct (map m_ID (d_messages (h_db u)))"
    using u(2,3) Cons.prems(2) by (simp_all add: log_only_def distinct_map_filter)
  note ih = Cons.IH [OF this]
  obtain t ds where t: "forT fs (dropFault E) u = (Inr (), t)" "log_only u t ds"
    "set ds = DTombstone ''fault'' ` f_ID ` set fs \<union>
      DTombstone ''message'' ` {m_ID m |m. m \<in> set (d_messages (h_db u)) \<and> m_FaultID m \<in> Some ` f_ID ` set fs}"
    "d_messages (h_db t) = filter (\<lambda>m. m_FaultID m \<notin> Some ` f_ID ` set fs) (d_messages (h_db u))"
    "d_faults (h_db t) = filter (\<lambda>r. f_ID r \<notin> f_ID ` set fs) (d_faults (h_db u))"
    "d_pending (h_db t) = filter (\<lambda>p. (p_source_id p, p_fault_key p) \<notin> fkey ` set fs) (d_pending (h_db u))"
    using ih by (elim exE conjE) (rule that)
  let ?ds = "fault_tombs (d_messages (h_db s)) f @ ds"
  have "set ?ds = DTombstone ''fault'' ` f_ID ` set (f # fs) \<union>
      DTombstone ''message'' ` {m_ID m |m. m \<in> set (d_messages (h_db s)) \<and> m_FaultID m \<in> Some ` f_ID ` set (f # fs)}"
  proof -
    define A where "A = {m_ID m |m. m \<in> set (d_messages (h_db s)) \<and> m_FaultID m = Some (f_ID f)}"
    define B where "B = {m_ID m |m. m \<in> set (d_messages (h_db u)) \<and> m_FaultID m \<in> Some ` f_ID ` set fs}"
    have tombs: "set (fault_tombs (d_messages (h_db s)) f) = insert (DTombstone ''fault'' (f_ID f)) (DTombstone ''message'' ` A)"
      by (auto simp: fault_tombs_def A_def)
    have all: "{m_ID m |m. m \<in> set (d_messages (h_db s)) \<and> m_FaultID m \<in> Some ` f_ID ` set (f # fs)} = A \<union> B"
      unfolding A_def B_def u(3) by auto
    have rest: "set ds = DTombstone ''fault'' ` f_ID ` set fs \<union> DTombstone ''message'' ` B"
      unfolding B_def by (rule t(3))
    show ?thesis unfolding set_append tombs all rest by (simp add: image_Un Un_ac)
  qed
  moreover have "forT (f # fs) (dropFault E) s = (Inr (), t)" using u(1) t(1) by (simp add: thenT_def bindT_def)
  moreover have "log_only s t ?ds" by (rule log_only_trans [OF u(2) t(2)])
  ultimately show ?case
  proof (intro exI conjI)
    show "d_messages (h_db t) = filter (\<lambda>m. m_FaultID m \<notin> Some ` f_ID ` set (f # fs)) (d_messages (h_db s))"
      unfolding t(4) u(3) filter_filter by (rule filter_cong) auto
    show "d_faults (h_db t) = filter (\<lambda>r. f_ID r \<notin> f_ID ` set (f # fs)) (d_faults (h_db s))"
      unfolding t(5) u(4) filter_filter by (rule filter_cong) auto
    show "d_pending (h_db t) = filter (\<lambda>p. (p_source_id p, p_fault_key p) \<notin> fkey ` set (f # fs)) (d_pending (h_db s))"
      unfolding t(6) u(5) filter_filter by (rule filter_cong) auto
  qed
qed

section \<open>The whole transaction\<close>

definition message_gone :: "string \<Rightarrow> faultRow list \<Rightarrow> messageRow \<Rightarrow> bool" where
  "message_gone before fs m =
     (case m_FaultID m of
        None \<Rightarrow> m_ReceivedAt m < before
      | Some i \<Rightarrow> i \<in> f_ID ` set (filter (expired before) fs))"

lemma trim_run:
  "\<exists>t. trimChanges cfg before s = (Inr (), t) \<and> h_ids t = h_ids s \<and> h_out t = h_out s \<and>
     d_messages (h_db t) = d_messages (h_db s) \<and> d_faults (h_db t) = d_faults (h_db s) \<and>
     d_pending (h_db t) = d_pending (h_db s) \<and> d_meta (h_db t) = d_meta (h_db s) \<and>
     d_changes (h_db t) = filter (\<lambda>c. \<not> (cr_created_at c < before \<and>
       cr_seq c \<le> maxChangeSeq (h_db s) - rc_changesMinSeq cfg)) (d_changes (h_db s))"
  by (auto simp: trimChanges_def del_where_def)

lemma retention_run:
  assumes inv: "hub_inv E s"
  shows "\<exists>t ds u. retentionTx E' cfg now s = (Inr (), t) \<and>
    d_faults (h_db t) = filter (\<lambda>f. \<not> expired (cut_before now (rc_messagesDays cfg)) f) (d_faults (h_db s)) \<and>
    d_messages (h_db t) = filter (\<lambda>m. \<not> message_gone (cut_before now (rc_messagesDays cfg)) (d_faults (h_db s)) m)
      (d_messages (h_db s)) \<and>
    set (d_pending (h_db t)) \<subseteq> set (d_pending (h_db s)) \<and>
    log_only s u ds \<and> h_out t = h_out u \<and> h_ids t = h_ids s \<and> d_meta (h_db t) = d_meta (h_db u) \<and>
    set ds = DTombstone ''fault'' ` f_ID ` set (filter (expired (cut_before now (rc_messagesDays cfg))) (d_faults (h_db s))) \<union>
      DTombstone ''message'' ` m_ID ` set (filter (message_gone (cut_before now (rc_messagesDays cfg)) (d_faults (h_db s)))
        (d_messages (h_db s))) \<and>
    d_changes (h_db t) = filter (\<lambda>c. \<not> (cr_created_at c < cut_before now (rc_changesDays cfg) \<and>
       cr_seq c \<le> maxChangeSeq (h_db u) - rc_changesMinSeq cfg)) (d_changes (h_db u))"
proof -
  define before where "before = cut_before now (rc_messagesDays cfg)"
  define s1 where "s1 = s\<lparr>h_db := (h_db s)
    \<lparr>d_raw := del_where (\<lambda>r. mw_ts r < cut_before now (rc_rawDays cfg)) (d_raw (h_db s)),
     d_5m := del_where (\<lambda>r. rr_bucket r < cut_before now (rc_rollupDays cfg)) (d_5m (h_db s)),
     d_samples := del_where (\<lambda>r. ms_ts r < cut_before now (rc_rawDays cfg)) (d_samples (h_db s)),
     d_events := del_where (\<lambda>r. e_received_at r < before) (d_events (h_db s)),
     d_pending := del_where (\<lambda>r. p_occurred_at r < before) (d_pending (h_db s))\<rparr>\<rparr>"
  let ?fs = "filter (expired before) (d_faults (h_db s))"
  have wf: "changes_wf (h_db s1)" and dm: "distinct (map m_ID (d_messages (h_db s1)))"
    and df: "distinct (map f_ID (d_faults (h_db s)))"
    using inv by (simp_all add: s1_def hub_inv_def messages_inv_def faults_inv_def Let_def changes_wf_def change_counter_def)
  obtain s2 ds1 where s2: "forT ?fs (dropFault E') s1 = (Inr (), s2)" "log_only s1 s2 ds1"
    "set ds1 = DTombstone ''fault'' ` f_ID ` set ?fs \<union>
      DTombstone ''message'' ` {m_ID m |m. m \<in> set (d_messages (h_db s1)) \<and> m_FaultID m \<in> Some ` f_ID ` set ?fs}"
    "d_messages (h_db s2) = filter (\<lambda>m. m_FaultID m \<notin> Some ` f_ID ` set ?fs) (d_messages (h_db s1))"
    "d_faults (h_db s2) = filter (\<lambda>r. f_ID r \<notin> f_ID ` set ?fs) (d_faults (h_db s1))"
    "d_pending (h_db s2) = filter (\<lambda>p. (p_source_id p, p_fault_key p) \<notin> fkey ` set ?fs) (d_pending (h_db s1))"
    using dropFaults_run [OF wf dm, of ?fs E'] by (elim exE conjE) (rule that)
  let ?Q = "\<lambda>m. m_FaultID m = None \<and> m_ReceivedAt m < before"
  let ?mids = "map m_ID (filter ?Q (d_messages (h_db s2)))"
  obtain s3 where s3: "forT ?mids (dropMessage E') s2 = (Inr (), s3)" "log_only s2 s3 (map (DTombstone ''message'') ?mids)"
    "d_messages (h_db s3) = filter (\<lambda>m. m_ID m \<notin> set ?mids) (d_messages (h_db s2))"
    "d_faults (h_db s3) = d_faults (h_db s2)" "d_pending (h_db s3) = d_pending (h_db s2)"
    using dropMessages_run [OF log_only_wf [OF s2(2)]] by blast
  obtain t where t: "trimChanges cfg (cut_before now (rc_changesDays cfg)) s3 = (Inr (), t)" "h_ids t = h_ids s3"
    "h_out t = h_out s3" "d_messages (h_db t) = d_messages (h_db s3)" "d_faults (h_db t) = d_faults (h_db s3)"
    "d_pending (h_db t) = d_pending (h_db s3)" "d_meta (h_db t) = d_meta (h_db s3)"
    "d_changes (h_db t) = filter (\<lambda>c. \<not> (cr_created_at c < cut_before now (rc_changesDays cfg) \<and>
       cr_seq c \<le> maxChangeSeq (h_db s3) - rc_changesMinSeq cfg)) (d_changes (h_db s3))"
    using trim_run by blast
  have "distinct (map m_ID (d_messages (h_db s2)))" using s2(4) dm by (simp add: distinct_map_filter)
  from filter_by_id [OF this, of ?Q] have ms3: "d_messages (h_db s3) = filter (\<lambda>m. \<not> ?Q m) (d_messages (h_db s2))"
    using s3(3) by simp
  have run: "retentionTx E' cfg now s = (Inr (), t)"
    using s2(1) s3(1) t(1)
    by (simp add: retentionTx_def Let_def thenT_def bindT_def s1_def before_def)
  have "log_only s s2 ds1" using s2(2) by (simp add: log_only_def s1_def)
  from log_only_trans [OF this s3(2)] have log: "log_only s s3 (ds1 @ map (DTombstone ''message'') ?mids)" .
  have gone: "message_gone before (d_faults (h_db s)) m \<longleftrightarrow> m_FaultID m \<in> Some ` f_ID ` set ?fs \<or> ?Q m" for m
    by (cases "m_FaultID m") (auto simp: message_gone_def)
  have ms: "d_messages (h_db t) = filter (\<lambda>m. \<not> message_gone before (d_faults (h_db s)) m) (d_messages (h_db s))"
    unfolding t(4) ms3 s2(4) filter_filter gone by (simp add: s1_def)
  have fs: "d_faults (h_db t) = filter (\<lambda>f. \<not> expired before f) (d_faults (h_db s))"
    using t(5) s3(4) s2(5) filter_by_id [OF df, of "expired before"] by (simp add: s1_def)
  have ps: "set (d_pending (h_db t)) \<subseteq> set (d_pending (h_db s))"
    using t(6) s3(5) s2(6) by (auto simp: s1_def)
  have ds: "set (ds1 @ map (DTombstone ''message'') ?mids) = DTombstone ''fault'' ` f_ID ` set ?fs \<union>
      DTombstone ''message'' ` m_ID ` set (filter (message_gone before (d_faults (h_db s))) (d_messages (h_db s)))"
  proof -
    define A where "A = {m \<in> set (d_messages (h_db s)). m_FaultID m \<in> Some ` f_ID ` set ?fs}"
    define B where "B = {m \<in> set (d_messages (h_db s)). ?Q m}"
    have "set (map (DTombstone ''message'') ?mids) = DTombstone ''message'' ` m_ID ` B"
      unfolding B_def s2(4) by (auto simp: s1_def image_image)
    moreover have "{m_ID m |m. m \<in> set (d_messages (h_db s1)) \<and> m_FaultID m \<in> Some ` f_ID ` set ?fs} = m_ID ` A"
      unfolding A_def by (auto simp: s1_def)
    moreover have "set (filter (message_gone before (d_faults (h_db s))) (d_messages (h_db s))) = A \<union> B"
      unfolding A_def B_def set_filter gone by blast
    ultimately show ?thesis unfolding set_append s2(3) by (simp add: Un_assoc image_Un)
  qed
  have ids: "h_ids t = h_ids s" using t(2) log by (simp add: log_only_def)
  show ?thesis
    by (intro exI conjI, fold before_def) (rule run fs ms ps log t(3) ids t(7) ds t(8))+
qed

lemma retention_total:
  assumes "hub_inv E s"
  shows "\<exists>t. retentionTx E' cfg now s = (Inr (), t)"
  using retention_run [OF assms, of E' cfg now] by (elim exE conjE) (rule exI)

lemma retention_hub_inv:
  assumes "hub_inv E s" and "retentionTx E' cfg now s = (Inr x, t)"
  shows "hub_inv E t"
proof -
  from retention_run [OF assms(1), of E' cfg now] assms(2) obtain ds u where
    f: "d_faults (h_db t) = filter (\<lambda>f. \<not> expired (cut_before now (rc_messagesDays cfg)) f) (d_faults (h_db s))"
    and m: "d_messages (h_db t) = filter (\<lambda>m. \<not> message_gone (cut_before now (rc_messagesDays cfg)) (d_faults (h_db s)) m)
      (d_messages (h_db s))"
    and p: "set (d_pending (h_db t)) \<subseteq> set (d_pending (h_db s))" and l: "log_only s u ds"
    and ids: "h_ids t = h_ids s" "d_meta (h_db t) = d_meta (h_db u)"
    and c: "d_changes (h_db t) = filter (\<lambda>c. \<not> (cr_created_at c < cut_before now (rc_changesDays cfg) \<and>
       cr_seq c \<le> maxChangeSeq (h_db u) - rc_changesMinSeq cfg)) (d_changes (h_db u))" by auto
  have "sorted_wrt (<) (map cr_seq (filter P xs))" if "sorted_wrt (<) (map cr_seq xs)" for P xs
    using that by (simp add: sorted_wrt_map sorted_wrt_filter)
  then have "changes_wf (h_db t)" using l c ids(2) by (auto simp: log_only_def changes_wf_def change_counter_def)
  moreover have "faults_inv E t"
    using assms(1) f p ids(1)
    by (auto simp: hub_inv_def faults_inv_def Let_def distinct_map_filter ghost_free_def)
  moreover have "messages_inv E t"
    using assms(1) m ids(1) by (auto simp: hub_inv_def messages_inv_def distinct_map_filter)
  ultimately show ?thesis by (simp add: hub_inv_def)
qed

lemma maxChangeSeq_le: "changes_wf d \<Longrightarrow> maxChangeSeq d \<le> change_counter d"
proof -
  assume wf: "changes_wf d"
  have f: "fold max qs q \<le> n" if "q \<le> n" "\<forall>x \<in> set qs. x \<le> n" for q n :: int and qs
    using that by (induction qs arbitrary: q) auto
  show ?thesis
  proof (cases "map cr_seq (d_changes d)")
    case Nil
    then show ?thesis using wf by (simp add: maxChangeSeq_def changes_wf_def)
  next
    case (Cons q qs)
    have "set (map cr_seq (d_changes d)) \<subseteq> {..change_counter d}" using wf by (auto simp: changes_wf_def)
    then show ?thesis unfolding maxChangeSeq_def Cons by (auto intro: f)
  qed
qed

lemma withTx_Inr: "m s = (Inr x, t) \<Longrightarrow> withTx m s = (Inr x, t)"
  by (simp add: withTx_def)

section \<open>Properties\<close>

text \<open>
  C12: retention removes exactly the faults resolved before the cut with their messages and
  the old messages of no fault, it does not fail, and it announces each removal, and
  nothing else, by a tombstone.
\<close>

theorem retention_removes_exactly:
  assumes "hub_inv E s"
  shows "\<exists>t new. runRetention E' cfg now s = (Inr (), t) \<and> hub_inv E t \<and>
    d_faults (h_db t) = filter (\<lambda>f. \<not> expired (cut_before now (rc_messagesDays cfg)) f) (d_faults (h_db s)) \<and>
    d_messages (h_db t) = filter (\<lambda>m. \<not> message_gone (cut_before now (rc_messagesDays cfg)) (d_faults (h_db s)) m)
      (d_messages (h_db s)) \<and>
    h_out t = h_out s @ new \<and>
    c_Data ` set new =
      DTombstone ''fault'' ` f_ID ` set (filter (expired (cut_before now (rc_messagesDays cfg))) (d_faults (h_db s))) \<union>
      DTombstone ''message'' ` m_ID ` set (filter (message_gone (cut_before now (rc_messagesDays cfg)) (d_faults (h_db s)))
        (d_messages (h_db s)))"
proof -
  from retention_run [OF assms, of E' cfg now] obtain t ds u where
    run: "retentionTx E' cfg now s = (Inr (), t)"
    and f: "d_faults (h_db t) = filter (\<lambda>f. \<not> expired (cut_before now (rc_messagesDays cfg)) f) (d_faults (h_db s))"
    and m: "d_messages (h_db t) = filter (\<lambda>m. \<not> message_gone (cut_before now (rc_messagesDays cfg)) (d_faults (h_db s)) m)
      (d_messages (h_db s))"
    and l: "log_only s u ds" "h_out t = h_out u"
    and d: "set ds = DTombstone ''fault'' ` f_ID ` set (filter (expired (cut_before now (rc_messagesDays cfg))) (d_faults (h_db s))) \<union>
      DTombstone ''message'' ` m_ID ` set (filter (message_gone (cut_before now (rc_messagesDays cfg)) (d_faults (h_db s)))
        (d_messages (h_db s)))" by (elim exE conjE) (rule that)
  from l obtain new where new: "h_out t = h_out s @ map entry_of new" "map cr_data new = ds"
    by (auto simp: log_only_def)
  have "c_Data ` set (map entry_of new) = set ds" unfolding new(2) [symmetric] by (simp add: image_image entry_of_def)
  with withTx_Inr [where m = "retentionTx E' cfg now", OF run] retention_hub_inv [OF assms run] f m new(1) d
  show ?thesis unfolding runRetention_def by (intro exI [of _ t] exI [of _ "map entry_of new"]) simp
qed

text \<open>
  Retention never touches an open fault, nor a message that belongs to one, however old
  they are.
\<close>

theorem retention_keeps_open_faults:
  assumes "hub_inv E s" and "f \<in> set (d_faults (h_db s))" and "f_State f = ''open''"
    and "m \<in> set (d_messages (h_db s))" and "m_FaultID m = Some (f_ID f)"
    and "runRetention E' cfg now s = (Inr (), t)"
  shows "f \<in> set (d_faults (h_db t)) \<and> m \<in> set (d_messages (h_db t))"
proof -
  let ?c = "cut_before now (rc_messagesDays cfg)"
  from retention_run [OF assms(1), of E' cfg now] obtain t' where
    run: "retentionTx E' cfg now s = (Inr (), t')"
    and f: "d_faults (h_db t') = filter (\<lambda>f. \<not> expired ?c f) (d_faults (h_db s))"
    and m: "d_messages (h_db t') = filter (\<lambda>m. \<not> message_gone ?c (d_faults (h_db s)) m) (d_messages (h_db s))"
    by (elim exE conjE) (rule that)
  have "t' = t" using withTx_Inr [where m = "retentionTx E' cfg now", OF run] assms(6) by (simp add: runRetention_def)
  moreover have "distinct (map f_ID (d_faults (h_db s)))"
    using assms(1) by (simp add: hub_inv_def faults_inv_def Let_def)
  then have "g = f" if "g \<in> set (d_faults (h_db s))" "f_ID g = f_ID f" for g
    using that assms(2) by (auto simp: distinct_map dest: inj_onD)
  then have "\<not> message_gone ?c (d_faults (h_db s)) m"
    using assms(3,5) by (auto simp: message_gone_def expired_def)
  ultimately show ?thesis using f m assms(2-4) by (auto simp: expired_def)
qed

text \<open>
  The window of the change log.  A change that is younger than the retention time or
  among the last \<^verbatim>\<open>changesMinSeq\<close> numbers survives, so a client that was away no longer
  than the window can catch up without a full resynchronisation.
\<close>

theorem retention_keeps_change_window:
  assumes "hub_inv E s" and "c \<in> set (d_changes (h_db s))"
    and "cut_before now (rc_changesDays cfg) \<le> cr_created_at c \<or>
      change_counter (h_db t) - rc_changesMinSeq cfg < cr_seq c"
    and "runRetention E' cfg now s = (Inr (), t)"
  shows "c \<in> set (d_changes (h_db t))"
proof -
  from retention_run [OF assms(1), of E' cfg now] obtain t' ds u where
    run: "retentionTx E' cfg now s = (Inr (), t')" and l: "log_only s u ds"
    and meta: "d_meta (h_db t') = d_meta (h_db u)"
    and ch: "d_changes (h_db t') = filter (\<lambda>c. \<not> (cr_created_at c < cut_before now (rc_changesDays cfg) \<and>
       cr_seq c \<le> maxChangeSeq (h_db u) - rc_changesMinSeq cfg)) (d_changes (h_db u))"
    by (elim exE conjE) (rule that)
  have t: "t' = t" using withTx_Inr [where m = "retentionTx E' cfg now", OF run] assms(4) by (simp add: runRetention_def)
  have "maxChangeSeq (h_db u) \<le> change_counter (h_db t)"
    using maxChangeSeq_le [OF log_only_wf [OF l]] meta t by (simp add: change_counter_def)
  moreover have "c \<in> set (d_changes (h_db u))" using l assms(2) by (auto simp: log_only_def)
  ultimately show ?thesis using assms(3) ch t by (auto simp: not_less)
qed

lemma find_ins_replace_key:
  "find (\<lambda>x. key x = k) (ins_replace key r rs) = (if key r = k then Some r else find (\<lambda>x. key x = k) rs)"
proof -
  have "find (\<lambda>x. key x = k) (filter (\<lambda>x. key x \<noteq> key r) rs) = find (\<lambda>x. key x = k) rs" if "key r \<noteq> k"
    using that by (induction rs) auto
  then show ?thesis
    using find_ins_replace [of key r rs]
    by (auto simp: ins_replace_def del_where_def find_append split: option.split)
qed

lemma roll_key_aggregate [simp]: "roll_key (aggregate k vs) = k"
  by (cases k) (simp add: roll_key_def aggregate_def)

lemma putBucket_run:
  "putBucket r s = (Inr (), s\<lparr>h_db := (h_db s)\<lparr>d_5m := ins_replace roll_key r (d_5m (h_db s))\<rparr>\<rparr>)"
  by (simp add: putBucket_def)

lemma rollup_loop:
  "\<exists>t. forT ks (\<lambda>k. putBucket (aggregate k (g k))) s = (Inr (), t) \<and>
     (\<forall>k. find (\<lambda>r. roll_key r = k) (d_5m (h_db t)) =
       (if k \<in> set ks then Some (aggregate k (g k)) else find (\<lambda>r. roll_key r = k) (d_5m (h_db s))))"
proof (induction ks arbitrary: s)
  case Nil
  then show ?case by simp
next
  case (Cons k ks)
  define u where "u = s\<lparr>h_db := (h_db s)\<lparr>d_5m := ins_replace roll_key (aggregate k (g k)) (d_5m (h_db s))\<rparr>\<rparr>"
  have r: "putBucket (aggregate k (g k)) s = (Inr (), u)" by (simp add: putBucket_run u_def)
  obtain t where t: "forT ks (\<lambda>k. putBucket (aggregate k (g k))) u = (Inr (), t)"
    "\<forall>k'. find (\<lambda>r. roll_key r = k') (d_5m (h_db t)) = (if k' \<in> set ks then Some (aggregate k' (g k'))
       else find (\<lambda>r. roll_key r = k') (d_5m (h_db u)))" using Cons.IH [of u] by blast
  have "find (\<lambda>r. roll_key r = k') (d_5m (h_db u)) =
      (if k = k' then Some (aggregate k (g k)) else find (\<lambda>r. roll_key r = k') (d_5m (h_db s)))" for k'
    by (simp add: u_def find_ins_replace_key)
  with r t show ?case by (auto simp: thenT_def bindT_def)
qed


text \<open>
  One stored point whose time stamp SQLite's date functions cannot read stops the
  roll-up of every source: the statement fails and no bucket is written.
\<close>

theorem unreadable_point_stops_rollup:
  assumes "r \<in> set (d_raw (h_db s))" and "bucket (mw_ts r) = None"
    and "fmtTS (rollup_earliest now) \<le> mw_ts r"
  shows "runRollup bucket now s = (Inl (ErrConstraint ''metrics_5m''), s)"
  using assms by (auto simp: runRollup_def rollupTx_def withTx_def bindT_def)

section \<open>Witnesses\<close>

definition default_cfg :: retentionCfg where
  "default_cfg = \<lparr>rc_rawDays = 7, rc_rollupDays = 90, rc_messagesDays = 90, rc_changesDays = 7, rc_changesMinSeq = 100000\<rparr>"

definition old_fault :: faultRow where
  "old_fault = (newFaultRow ''flt_'' ''src_1'' ''k'' (sample_event ''e'' 5 ''open''))
     \<lparr>f_State := ''resolved'', f_ResolvedAt := Some ''2000-01-01T00:00:00.000Z'', f_ResolvedBySeq := Some 6,
      f_ResolvedBy := Some ''e2''\<rparr>"

definition old_hub :: hub where
  "old_hub = hub_start\<lparr>h_db := empty_db\<lparr>d_faults := [old_fault]\<rparr>, h_ids := 1\<rparr>"

lemma hub_inv_old: "hub_inv sample_env old_hub"
  by (simp add: hub_inv_def faults_inv_def messages_inv_def old_hub_def old_fault_def hub_start_def empty_db_def
      changes_wf_def change_counter_def fault_wf_def ghost_free_def newFaultRow_def used_ids_def sample_env_def
      sample_event_def)

lemma old_fault_expired: "expired (cut_before 1700000000000000000 90) old_fault"
proof -
  have c: "cut_before 1700000000000000000 90 = ''2023-08-16T22:13:20.000Z''" by code_simp
  show ?thesis unfolding c by (simp add: expired_def old_fault_def)
qed

theorem retention_removes_exactly_witness:
  "\<exists>t new. runRetention sample_env default_cfg 1700000000000000000 old_hub = (Inr (), t) \<and>
     d_faults (h_db t) = [] \<and> h_out t = h_out old_hub @ new \<and> DTombstone ''fault'' ''flt_'' \<in> c_Data ` set new"
  using retention_removes_exactly [OF hub_inv_old, of sample_env default_cfg 1700000000000000000] old_fault_expired
  by (auto simp: default_cfg_def old_hub_def) (simp add: old_fault_def newFaultRow_def)

definition sample_message :: messageRow where
  "sample_message = message_row ''msg_'' ''src_1'' (sample_event ''e'' 5 ''open'') False False 0
     \<lparr>fo_fault = Some (newFaultRow ''flt_'' ''src_1'' ''disk'' (sample_event ''e'' 5 ''open'')), fo_incident = Some 1,
      fo_notify = [], fo_changed = True\<rparr>"

definition open_message_hub :: hub where
  "open_message_hub = hub_start\<lparr>h_db := empty_db\<lparr>d_messages := [sample_message],
     d_faults := [newFaultRow ''flt_'' ''src_1'' ''disk'' (sample_event ''e'' 5 ''open'')]\<rparr>, h_ids := 1\<rparr>"

lemma hub_inv_open_message: "hub_inv sample_env open_message_hub"
  by (simp add: hub_inv_def faults_inv_def messages_inv_def open_message_hub_def hub_start_def empty_db_def
      changes_wf_def change_counter_def fault_wf_def ghost_free_def newFaultRow_def used_ids_def sample_env_def
      sample_message_def message_row_def)

theorem retention_keeps_open_faults_witness:
  "\<exists>t. runRetention sample_env default_cfg 1700000000000000000 open_message_hub = (Inr (), t) \<and>
     sample_message \<in> set (d_messages (h_db t))"
proof -
  obtain t where run: "retentionTx sample_env default_cfg 1700000000000000000 open_message_hub = (Inr (), t)"
    using retention_total [OF hub_inv_open_message] by blast
  have r: "runRetention sample_env default_cfg 1700000000000000000 open_message_hub = (Inr (), t)"
    unfolding runRetention_def by (rule withTx_Inr) (rule run)
  let ?f = "newFaultRow ''flt_'' ''src_1'' ''disk'' (sample_event ''e'' 5 ''open'')"
  have "?f \<in> set (d_faults (h_db open_message_hub))" "f_State ?f = ''open''"
    "sample_message \<in> set (d_messages (h_db open_message_hub))" "m_FaultID sample_message = Some (f_ID ?f)"
    by (simp_all add: open_message_hub_def newFaultRow_def sample_message_def message_row_def)
  from retention_keeps_open_faults [OF hub_inv_open_message this r] r show ?thesis by blast
qed

definition logged_hub :: hub where
  "logged_hub = hub_start\<lparr>h_db := empty_db\<lparr>d_meta := [''change_seq'' \<mapsto> 1],
     d_changes := [\<lparr>cr_seq = 1, cr_type = ''tombstone'', cr_ref_id = ''m'', cr_data = DTombstone ''message'' ''m'',
       cr_notify = None, cr_created_at = ''2099-01-01T00:00:00.000Z''\<rparr>]\<rparr>\<rparr>"

theorem retention_keeps_change_window_witness:
  "\<exists>t. runRetention sample_env default_cfg 1700000000000000000 logged_hub = (Inr (), t) \<and> d_changes (h_db t) \<noteq> []"
proof -
  have inv: "hub_inv sample_env logged_hub"
    by (simp add: hub_inv_def faults_inv_def messages_inv_def logged_hub_def hub_start_def empty_db_def
        changes_wf_def change_counter_def)
  obtain t where run: "retentionTx sample_env default_cfg 1700000000000000000 logged_hub = (Inr (), t)"
    using retention_total [OF inv] by blast
  have r: "runRetention sample_env default_cfg 1700000000000000000 logged_hub = (Inr (), t)"
    unfolding runRetention_def by (rule withTx_Inr) (rule run)
  let ?c = "hd (d_changes (h_db logged_hub))"
  have cut: "cut_before 1700000000000000000 7 = ''2023-11-07T22:13:20.000Z''" by code_simp
  have "?c \<in> set (d_changes (h_db logged_hub))"
    "cut_before 1700000000000000000 (rc_changesDays default_cfg) \<le> cr_created_at ?c"
    by (simp_all add: logged_hub_def default_cfg_def cut)
  with retention_keeps_change_window [OF inv _ _ r] have "?c \<in> set (d_changes (h_db t))" by blast
  then show ?thesis using r by auto
qed

definition raw_hub :: "string \<Rightarrow> hub" where
  "raw_hub ts = hub_start\<lparr>h_db := empty_db\<lparr>d_raw := [\<lparr>mw_source_id = ''src_1'', mw_ts = ts,
     mw_metric = ''cpu_percent'', mw_label = [], mw_value = 50\<rparr>]\<rparr>\<rparr>"

lemma earliest_sample: "fmtTS (rollup_earliest 1700000000000000000) = ''2023-11-13T22:10:00.000Z''"
  by code_simp


theorem unreadable_point_stops_rollup_witness:
  "parseTS ''2023-11-14T00:00:00,5Z'' \<noteq> None \<and>
   runRollup (\<lambda>_. None) 1700000000000000000 (raw_hub ''2023-11-14T00:00:00,5Z'') =
     (Inl (ErrConstraint ''metrics_5m''), raw_hub ''2023-11-14T00:00:00,5Z'')"
proof
  show "parseTS ''2023-11-14T00:00:00,5Z'' \<noteq> None" by code_simp
  show "runRollup (\<lambda>_. None) 1700000000000000000 (raw_hub ''2023-11-14T00:00:00,5Z'') =
     (Inl (ErrConstraint ''metrics_5m''), raw_hub ''2023-11-14T00:00:00,5Z'')"
    by (rule unreadable_point_stops_rollup [of "hd (d_raw (h_db (raw_hub ''2023-11-14T00:00:00,5Z'')))"])
      (simp_all add: earliest_sample, simp_all add: raw_hub_def)
qed

end
