(* ===== verification/Sync.thy ===== *)
theory Sync
  imports Ingest
begin

text \<open>
  The change log as its clients see it: \<^verbatim>\<open>GET /api/v1/sync\<close> (\<^verbatim>\<open>handleSync\<close> of
  \<^verbatim>\<open>hub/api.go\<close>).  A query string is the function \<^verbatim>\<open>r.URL.Query().Get\<close>, empty for an
  absent parameter.  \<open>handleSync\<close> reads the database twice outside any transaction, the
  page first and the highest number when the page is empty; the two databases are two
  arguments, because another request may commit in between.
\<close>

type_synonym query = "string \<Rightarrow> string"

text \<open>A decimal parameter with a default: \<open>None\<close> is the answer \<^verbatim>\<open>invalid\<close>.\<close>

definition int_param :: "(int \<Rightarrow> bool) \<Rightarrow> int \<Rightarrow> string \<Rightarrow> int option" where
  "int_param ok deflt s =
     (if s = [] then Some deflt
      else case parse_int64 s of None \<Rightarrow> None | Some v \<Rightarrow> if ok v then Some v else None)"

record changeJSON =
  cj_ChangeSeq :: int
  cj_Type :: string
  cj_Data :: changeData

record syncJSON =
  sy_cursor :: int
  sy_hasMore :: bool
  sy_changes :: "changeJSON list"

definition changeJSON_of :: "changeRow \<Rightarrow> changeJSON" where
  "changeJSON_of r = \<lparr>cj_ChangeSeq = cr_seq r, cj_Type = cr_type r, cj_Data = cr_data r\<rparr>"

text \<open>\<^verbatim>\<open>WHERE seq > ? ORDER BY seq\<close>.\<close>

definition rows_after :: "hub_db \<Rightarrow> int \<Rightarrow> changeRow list" where
  "rows_after d since = sort_key cr_seq (filter (\<lambda>r. since < cr_seq r) (d_changes d))"

text \<open>The loop over the rows; the last component says that a row was left over.\<close>

fun sync_loop :: "int \<Rightarrow> changeRow list \<Rightarrow> changeJSON list \<Rightarrow> int \<Rightarrow> changeJSON list \<times> int \<times> bool" where
  "sync_loop limit [] items lastSeq = (items, lastSeq, False)"
| "sync_loop limit (r # rs) items lastSeq =
     (if limit \<le> int (length items) then (items, lastSeq, True)
      else sync_loop limit rs (items @ [changeJSON_of r]) (cr_seq r))"

definition handleSync :: "query \<Rightarrow> hub_db \<Rightarrow> hub_db \<Rightarrow> syncJSON answer" where
  "handleSync q d d' =
     (case int_param (\<lambda>v. 0 \<le> v) 0 (q ''since'') of
        None \<Rightarrow> AnswerErr 400 ''invalid_request''
      | Some since \<Rightarrow>
          case int_param (\<lambda>v. 0 < v) 500 (q ''limit'') of
            None \<Rightarrow> AnswerErr 400 ''invalid_request''
          | Some v \<Rightarrow>
              (let limit = (if v > 1000 then 1000 else v);
                   (items, lastSeq, more) = sync_loop limit (take (nat (limit + 1)) (rows_after d since)) [] 0 in
               if more then AnswerOk 200 \<lparr>sy_cursor = lastSeq, sy_hasMore = True, sy_changes = items\<rparr>
               else AnswerOk 200
                 \<lparr>sy_cursor = (if items = [] then (if maxChangeSeq d' > since then maxChangeSeq d' else since) else lastSeq),
                  sy_hasMore = False, sy_changes = items\<rparr>))"

section \<open>Paging\<close>

lemma rows_after_wf: "changes_wf d \<Longrightarrow> rows_after d c = filter (\<lambda>r. c < cr_seq r) (d_changes d)"
  unfolding rows_after_def
  by (intro sort_key_id_if_sorted)
    (auto simp: changes_wf_def sorted_wrt_map intro!: sorted_wrt_filter elim: sorted_wrt_mono_rel [rotated])

lemma sync_loop_run:
  "sync_loop limit rows items q =
     (let k = nat (limit - int (length items)) in
      (items @ map changeJSON_of (take k rows),
       (if take k rows = [] then q else cr_seq (last (take k rows))), k < length rows))"
proof (induction limit rows items q rule: sync_loop.induct)
  case (2 limit r rs items q)
  show ?case
  proof (cases "limit \<le> int (length items)")
    case True
    then show ?thesis by simp
  next
    case False
    define k where "k = nat (limit - int (length (items @ [changeJSON_of r])))"
    have k: "nat (limit - int (length items)) = Suc k" using False by (simp add: k_def)
    have ih: "sync_loop limit rs (items @ [changeJSON_of r]) (cr_seq r) =
      ((items @ [changeJSON_of r]) @ map changeJSON_of (take k rs),
       (if take k rs = [] then cr_seq r else cr_seq (last (take k rs))), k < length rs)"
      using 2 [OF False] by (simp only: k_def Let_def)
    have "take (Suc k) (r # rs) = r # take k rs" by simp
    with False show ?thesis unfolding k Let_def by (simp only: sync_loop.simps ih if_False) simp
  qed
qed simp

text \<open>One page: the first \<open>limit\<close> rows after the cursor.\<close>

definition page_limit :: "int \<Rightarrow> nat" where
  "page_limit L = nat (if L > 1000 then 1000 else L)"

definition sync_query :: "int \<Rightarrow> int \<Rightarrow> query" where
  "sync_query c L k = (if k = ''since'' then dec_int c else if k = ''limit'' then dec_int L else [])"

lemma handleSync_page:
  assumes "0 \<le> c" "c < 2 ^ 63" "1 \<le> L" "L < 2 ^ 63" and page: "page = take (page_limit L) (rows_after d c)"
  shows "handleSync (sync_query c L) d d' = AnswerOk 200
    \<lparr>sy_cursor = (if page = [] then max c (maxChangeSeq d') else cr_seq (last page)),
     sy_hasMore = (page_limit L < length (rows_after d c)), sy_changes = map changeJSON_of page\<rparr>"
proof -
  define l where "l = (if L > 1000 then 1000 else L)"
  have l: "0 < l" "nat l = page_limit L" "nat (l + 1) = Suc (page_limit L)" using assms(3) by (auto simp: l_def page_limit_def)
  have p: "int_param (\<lambda>v. 0 \<le> v) 0 (sync_query c L ''since'') = Some c"
    "int_param (\<lambda>v. 0 < v) 500 (sync_query c L ''limit'') = Some L"
    using assms dec_int_head [of c] dec_int_head [of L]
    by (simp_all add: int_param_def sync_query_def parse_int64_dec)
  have t: "take (page_limit L) (take (Suc (page_limit L)) (rows_after d c)) = page" by (simp add: page)
  have e: "page = [] \<longleftrightarrow> rows_after d c = []" using l(1,2) by (auto simp: page)
  show ?thesis
    unfolding handleSync_def p option.case l_def [symmetric] sync_loop_run l(3) Let_def
    using l(2) t e by (auto simp: max_def)
qed

text \<open>A client that asks for page after page until there is no more.\<close>

fun sync_follow :: "nat \<Rightarrow> int \<Rightarrow> int \<Rightarrow> hub_db \<Rightarrow> (changeJSON list \<times> int) option" where
  "sync_follow 0 L c d = None"
| "sync_follow (Suc n) L c d =
     (case handleSync (sync_query c L) d d of
        AnswerErr _ _ \<Rightarrow> None
      | AnswerOk _ p \<Rightarrow>
          if sy_hasMore p then
            map_option (\<lambda>(xs, e). (sy_changes p @ xs, e)) (sync_follow n L (sy_cursor p) d)
          else Some (sy_changes p, sy_cursor p))"

lemma maxChangeSeq_eq: "d_changes d \<noteq> [] \<Longrightarrow> maxChangeSeq d = Max (cr_seq ` set (d_changes d))"
  by (cases "d_changes d") (simp_all add: maxChangeSeq_def Max.set_eq_fold [symmetric] del: Max_insert)

lemma maxChangeSeq_ge: "r \<in> set (d_changes d) \<Longrightarrow> cr_seq r \<le> maxChangeSeq d"
  using maxChangeSeq_eq [of d] by (cases "d_changes d = []") auto

lemma maxChangeSeq_last: "changes_wf d \<Longrightarrow> d_changes d \<noteq> [] \<Longrightarrow> maxChangeSeq d = cr_seq (last (d_changes d))"
proof -
  assume w: "changes_wf d" and ne: "d_changes d \<noteq> []"
  from ne obtain xs r where x: "d_changes d = xs @ [r]" using rev_exhaust by blast
  then show ?thesis using w ne
    unfolding maxChangeSeq_eq [OF ne] by (intro Max_eqI) (auto simp: changes_wf_def sorted_wrt_append less_imp_le)
qed

lemma rows_after_split:
  assumes "changes_wf d" and "0 < k" and "k < length (rows_after d c)"
  shows "rows_after d (cr_seq (last (take k (rows_after d c)))) = drop k (rows_after d c)"
    and "c < cr_seq (last (take k (rows_after d c)))"
proof -
  define xs where "xs = rows_after d c"
  define m where "m = cr_seq (last (take k xs))"
  have ne: "take k xs \<noteq> []" using assms by (auto simp: xs_def)
  have so: "sorted_wrt (\<lambda>a b. cr_seq a < cr_seq b) xs"
    using assms(1) unfolding xs_def rows_after_wf [OF assms(1)]
    by (auto simp: changes_wf_def sorted_wrt_map intro: sorted_wrt_filter)
  have split: "sorted_wrt (\<lambda>a b. cr_seq a < cr_seq b) (take k xs @ drop k xs)" using so by simp
  have lo: "cr_seq r \<le> m" if "r \<in> set (take k xs)" for r
  proof -
    obtain ys z where y: "take k xs = ys @ [z]" using ne rev_exhaust by blast
    with split that show ?thesis unfolding m_def y by (auto simp: sorted_wrt_append)
  qed
  have hi: "m < cr_seq r" if "r \<in> set (drop k xs)" for r
    using split that last_in_set [OF ne] unfolding m_def sorted_wrt_append by blast
  have c: "c < m"
    using last_in_set [OF ne] set_take_subset [of k xs] by (auto simp: m_def xs_def rows_after_def)
  have "rows_after d m = filter (\<lambda>r. m < cr_seq r) xs"
    unfolding xs_def rows_after_wf [OF assms(1)] filter_filter by (rule filter_cong) (use c in auto)
  also have "\<dots> = filter (\<lambda>r. m < cr_seq r) (take k xs) @ filter (\<lambda>r. m < cr_seq r) (drop k xs)"
    by (metis append_take_drop_id filter_append)
  also have "filter (\<lambda>r. m < cr_seq r) (take k xs) = []" using lo by (fastforce simp: filter_empty_conv)
  also have "filter (\<lambda>r. m < cr_seq r) (drop k xs) = drop k xs" using hi by (simp add: filter_id_conv)
  finally show "rows_after d (cr_seq (last (take k (rows_after d c)))) = drop k (rows_after d c)"
    by (simp add: m_def xs_def)
  show "c < cr_seq (last (take k (rows_after d c)))" using c by (simp add: m_def xs_def)
qed

lemma sync_follow_rows:
  assumes "changes_wf d" "change_counter d < 2 ^ 63" "1 \<le> L" "L < 2 ^ 63"
    and "0 \<le> c" "c < 2 ^ 63" and "length (rows_after d c) \<le> n"
  shows "sync_follow (Suc n) L c d = Some (map changeJSON_of (rows_after d c), max c (maxChangeSeq d))"
  using assms(5-7)
proof (induction n arbitrary: c)
  case 0
  then have "rows_after d c = []" by simp
  with 0 show ?case using assms(3,4) by (simp add: handleSync_page [OF _ _ _ _ refl])
next
  case (Suc n)
  define k where "k = page_limit L"
  have k: "0 < k" using assms(3) by (simp add: k_def page_limit_def)
  show ?case
  proof (cases "k < length (rows_after d c)")
    case True
    define m where "m = cr_seq (last (take k (rows_after d c)))"
    have ne: "take k (rows_after d c) \<noteq> []" using True k by auto
    have m: "rows_after d m = drop k (rows_after d c)" "c < m" 
      using rows_after_split [OF assms(1) k True] by (simp_all add: m_def)
    have "last (take k (rows_after d c)) \<in> set (d_changes d)"
      using last_in_set [OF ne] set_take_subset [of k "rows_after d c"] by (auto simp: rows_after_def)
    then have b: "m \<le> change_counter d" "m \<le> maxChangeSeq d"
      using assms(1) by (auto simp: m_def changes_wf_def maxChangeSeq_ge)
    have "sync_follow (Suc n) L m d = Some (map changeJSON_of (drop k (rows_after d c)), max m (maxChangeSeq d))"
      using Suc.IH [of m] Suc.prems m b(1) assms(2) True k by (simp add: m(1))
    moreover have "handleSync (sync_query c L) d d = AnswerOk 200
        \<lparr>sy_cursor = m, sy_hasMore = True, sy_changes = map changeJSON_of (take k (rows_after d c))\<rparr>"
      using handleSync_page [OF Suc.prems(1,2) assms(3,4) refl, of d d] True ne by (simp add: k_def m_def)
    ultimately show ?thesis
      using m b by (simp add: max_def flip: map_append)
  next
    case False
    then have t: "take k (rows_after d c) = rows_after d c" by simp
    have "cr_seq (last (rows_after d c)) = max c (maxChangeSeq d)" if ne: "rows_after d c \<noteq> []"
    proof -
      have nn: "d_changes d \<noteq> []" using ne by (auto simp: rows_after_def)
      have "last (rows_after d c) = last (d_changes d)"
      proof -
        from nn obtain xs r where x: "d_changes d = xs @ [r]" using rev_exhaust by blast
        from ne obtain z where z: "z \<in> set (d_changes d)" "c < cr_seq z"
          unfolding rows_after_wf [OF assms(1)] filter_empty_conv by blast
        then have "cr_seq z \<le> cr_seq r" using assms(1) x by (auto simp: changes_wf_def sorted_wrt_append less_imp_le)
        with z(2) x show ?thesis unfolding rows_after_wf [OF assms(1)] by simp
      qed
      moreover have "c < cr_seq (last (rows_after d c))" using last_in_set [OF ne] by (auto simp: rows_after_def)
      ultimately show ?thesis using maxChangeSeq_last [OF assms(1) nn] by simp
    qed
    then show ?thesis
      using handleSync_page [OF Suc.prems(1,2) assms(3,4) refl, of d d] False t by (simp add: k_def)
  qed
qed

text \<open>
  C14: a client that follows the pages of \<^verbatim>\<open>/api/v1/sync\<close> from a cursor, with any page
  size, gets every retained change after the cursor exactly once and in order, ends with
  the highest number as its cursor, and needs at most one request more than there are
  changes.
\<close>

theorem sync_pages_complete:
  assumes "changes_wf d" and "change_counter d < 2 ^ 63" and "1 \<le> L" and "L < 2 ^ 63"
    and "0 \<le> c" and "c < 2 ^ 63"
  shows "sync_follow (Suc (length (d_changes d))) L c d =
    Some (map changeJSON_of (filter (\<lambda>r. c < cr_seq r) (d_changes d)), max c (maxChangeSeq d))"
  using sync_follow_rows [OF assms, of "length (d_changes d)"] by (simp add: rows_after_wf [OF assms(1)])

text \<open>
  C15: a change committed between the two reads of \<open>handleSync\<close> is lost for a client that
  was up to date: the page is empty, but the cursor already points behind the new change,
  so that no later page contains it.
\<close>

theorem sync_skips_concurrent_change:
  assumes "changes_wf d" and "changes_wf d'" and "d_changes d' = d_changes d @ new" and "new \<noteq> []"
    and "\<forall>r \<in> set (d_changes d). cr_seq r \<le> c" and "\<forall>r \<in> set new. c < cr_seq r"
    and "0 \<le> c" and "c < 2 ^ 63" and "1 \<le> L" and "L < 2 ^ 63"
  shows "\<exists>e. handleSync (sync_query c L) d d' =
      AnswerOk 200 \<lparr>sy_cursor = e, sy_hasMore = False, sy_changes = []\<rparr> \<and> (\<forall>r \<in> set new. r \<notin> set (rows_after d' e))"
proof -
  have e: "rows_after d c = []"
    using assms(5) by (auto simp: rows_after_wf [OF assms(1)] filter_empty_conv not_less)
  then have "handleSync (sync_query c L) d d' =
      AnswerOk 200 \<lparr>sy_cursor = max c (maxChangeSeq d'), sy_hasMore = False, sy_changes = []\<rparr>"
    using assms by (simp add: handleSync_page [OF _ _ _ _ refl])
  moreover have "r \<notin> set (rows_after d' (max c (maxChangeSeq d')))" for r
    by (auto simp: rows_after_def dest: maxChangeSeq_ge)
  ultimately show ?thesis by blast
qed

section \<open>Witnesses\<close>

definition sample_change :: "int \<Rightarrow> changeRow" where
  "sample_change q = \<lparr>cr_seq = q, cr_type = ''tombstone'', cr_ref_id = ''m'', cr_data = DTombstone ''message'' ''m'',
     cr_notify = None, cr_created_at = ''2023-11-14T00:00:00.000Z''\<rparr>"

definition change_db :: "int list \<Rightarrow> hub_db" where
  "change_db qs = empty_db\<lparr>d_meta := [''change_seq'' \<mapsto> 9], d_changes := map sample_change qs\<rparr>"

lemma change_db_wf: "changes_wf (change_db [2, 4, 5, 9])" "changes_wf (change_db [2, 4])" "changes_wf (change_db [2, 4, 5])"
  by (simp_all add: changes_wf_def change_db_def change_counter_def sample_change_def)

theorem sync_pages_complete_witness:
  "sync_follow 5 2 2 (change_db [2, 4, 5, 9]) = Some (map changeJSON_of (map sample_change [4, 5, 9]), 9)"
proof -
  have c: "change_counter (change_db [2, 4, 5, 9]) < 2 ^ 63" by (simp add: change_db_def change_counter_def)
  have l: "Suc (length (d_changes (change_db [2, 4, 5, 9]))) = 5" by (simp add: change_db_def)
  have f: "filter (\<lambda>r. 2 < cr_seq r) (d_changes (change_db [2, 4, 5, 9])) = map sample_change [4, 5, 9]"
    by (simp add: change_db_def sample_change_def)
  have m: "maxChangeSeq (change_db [2, 4, 5, 9]) = 9" by (simp add: change_db_def sample_change_def maxChangeSeq_def)
  show ?thesis
    using sync_pages_complete [OF change_db_wf(1) c, of 2 2] unfolding l f m by simp
qed

theorem sync_skips_concurrent_change_witness:
  "\<exists>e. handleSync (sync_query 4 10) (change_db [2, 4]) (change_db [2, 4, 5]) =
     AnswerOk 200 \<lparr>sy_cursor = e, sy_hasMore = False, sy_changes = []\<rparr> \<and>
     sample_change 5 \<notin> set (rows_after (change_db [2, 4, 5]) e)"
  using sync_skips_concurrent_change [OF change_db_wf(2,3), of "[sample_change 5]" 4 10]
  by (simp add: change_db_def sample_change_def)

end
