(* ===== verification/Sse.thy ===== *)
theory Sse
  imports Sync
begin

text \<open>
  The server-sent event stream (\<^verbatim>\<open>hub/sse.go\<close>): the text of a frame, the broker with its
  bounded channels, and \<^verbatim>\<open>handleStream\<close> as a state machine that interleaves with the
  handlers that commit changes and publish them afterwards.
\<close>

section \<open>Frames\<close>

fun splitLines :: "string \<Rightarrow> string list" where
  "splitLines [] = [[]]"
| "splitLines (c # s) =
     (if c = CHR 0x0A then [] # splitLines s
      else case splitLines s of [] \<Rightarrow> [[c]] | l # ls \<Rightarrow> (c # l) # ls)"

definition nl :: string where
  "nl = [CHR 0x0A]"

definition sseWrite :: "string \<Rightarrow> int \<Rightarrow> string \<Rightarrow> string" where
  "sseWrite event i data =
     (if 0 < i then ''id: '' @ fmt_d i @ nl else []) @ ''event: '' @ event @ nl @
     concat (map (\<lambda>l. ''data: '' @ l @ nl) (splitLines data)) @ nl"

text \<open>
  What an event-stream client makes of a block of lines: \<^verbatim>\<open>id\<close> and \<^verbatim>\<open>event\<close> set a
  field, every \<^verbatim>\<open>data\<close> line is appended with a line feed, and the last line feed goes
  when the empty line ends the block.
\<close>

record sseBlock =
  sb_id :: "string option"
  sb_event :: string
  sb_data :: string

definition sse_line :: "string \<Rightarrow> sseBlock \<Rightarrow> sseBlock" where
  "sse_line l b =
     (case strip_prefix ''id: '' l of
        Some v \<Rightarrow> b\<lparr>sb_id := Some v\<rparr>
      | None \<Rightarrow>
          case strip_prefix ''event: '' l of
            Some v \<Rightarrow> b\<lparr>sb_event := v\<rparr>
          | None \<Rightarrow>
              case strip_prefix ''data: '' l of
                Some v \<Rightarrow> b\<lparr>sb_data := sb_data b @ v @ nl\<rparr>
              | None \<Rightarrow> b)"

definition sse_read :: "string \<Rightarrow> sseBlock" where
  "sse_read s =
     (let b = fold sse_line (splitLines s) \<lparr>sb_id = None, sb_event = [], sb_data = []\<rparr>
      in b\<lparr>sb_data := butlast (sb_data b)\<rparr>)"

lemma splitLines_ne [simp]: "splitLines s \<noteq> []"
  by (cases s) (auto split: list.split)

lemma splitLines_line: "CHR 0x0A \<notin> set l \<Longrightarrow> splitLines (l @ CHR 0x0A # s) = l # splitLines s"
  by (induction l) auto

lemma splitLines_no_nl: "l \<in> set (splitLines s) \<Longrightarrow> CHR 0x0A \<notin> set l"
  by (induction s arbitrary: l rule: splitLines.induct) (auto split: if_splits list.splits)

lemma join_splitLines: "concat (map (\<lambda>l. l @ nl) (splitLines s)) = s @ nl"
proof (induction s rule: splitLines.induct)
  case (2 c s)
  then show ?case by (cases "splitLines s") (auto simp: nl_def)
qed (simp add: nl_def)

lemma splitLines_data:
  "\<forall>l \<in> set ls. CHR 0x0A \<notin> set l \<Longrightarrow>
     splitLines (concat (map (\<lambda>l. ''data: '' @ l @ nl) ls) @ r) = map (\<lambda>l. ''data: '' @ l) ls @ splitLines r"
proof (induction ls)
  case (Cons l ls)
  then show ?case using splitLines_line [of "''data: '' @ l"] by (simp add: nl_def)
qed simp

lemma fold_sse_data:
  "fold sse_line (map (\<lambda>l. ''data: '' @ l) ls) b = b\<lparr>sb_data := sb_data b @ concat (map (\<lambda>l. l @ nl) ls)\<rparr>"
  by (induction ls arbitrary: b) (simp_all add: sse_line_def strip_prefix_def)

lemma digit_not_nl: "0 \<le> k \<Longrightarrow> k \<le> 9 \<Longrightarrow> digit_char k \<noteq> CHR 0x0A"
  using digit_val_char [of k] by (auto simp: digit_val_def)

lemma dec_int_no_nl: "0 \<le> n \<Longrightarrow> CHR 0x0A \<notin> set (dec_int n)"
proof (induction n rule: dec_int.induct)
  case (1 n)
  have "n mod 10 \<le> 9" using pos_mod_bound [of 10 n] by simp
  with 1 show ?case
    using digit_not_nl [of n] digit_not_nl [of "n mod 10"]
    by (cases "n < 10") (auto simp: dec_int.simps [of n])
qed

text \<open>
  A client reads back from a frame the event name, the number (when it is positive)
  and the data, byte for byte, also when the data has several lines.
\<close>

theorem sse_roundtrip:
  assumes "CHR 0x0A \<notin> set event"
  shows "sse_read (sseWrite event i data) =
    \<lparr>sb_id = (if 0 < i then Some (fmt_d i) else None), sb_event = event, sb_data = data\<rparr>"
proof -
  have d: "splitLines (concat (map (\<lambda>l. ''data: '' @ l @ nl) (splitLines data)) @ nl) =
      map (\<lambda>l. ''data: '' @ l) (splitLines data) @ [[], []]"
    by (subst splitLines_data) (auto simp: nl_def dest: splitLines_no_nl)
  have e: "splitLines (''event: '' @ event @ nl @ concat (map (\<lambda>l. ''data: '' @ l @ nl) (splitLines data)) @ nl) =
      (''event: '' @ event) # map (\<lambda>l. ''data: '' @ l) (splitLines data) @ [[], []]"
    using splitLines_line [of "''event: '' @ event"] assms d by (simp add: nl_def)
  have i: "splitLines (''id: '' @ fmt_d i @ nl @ r) = (''id: '' @ fmt_d i) # splitLines r" if "0 < i" for r
    using that splitLines_line [of "''id: '' @ fmt_d i"] dec_int_no_nl [of i] by (simp add: nl_def fmt_d_def)
  have "splitLines (sseWrite event i data) =
      (if 0 < i then [''id: '' @ fmt_d i] else []) @ (''event: '' @ event) #
        map (\<lambda>l. ''data: '' @ l) (splitLines data) @ [[], []]"
    unfolding sseWrite_def using i e by (simp del: splitLines.simps)
  then show ?thesis
    unfolding sse_read_def Let_def
    by (simp only: fold_append fold_Cons comp_def fold_sse_data join_splitLines)
      (simp add: sse_line_def strip_prefix_def nl_def)
qed

section \<open>The broker\<close>

text \<open>A buffered channel is the list of what it holds; a subscriber is known by its number.\<close>

record broker =
  b_subs :: "nat \<Rightarrow> changeEntry list option"
  b_next :: nat

definition newBroker :: broker where
  "newBroker = \<lparr>b_subs = (\<lambda>_. None), b_next = 0\<rparr>"

definition chan_cap :: nat where
  "chan_cap = 256"

definition Subscribe :: "broker \<Rightarrow> nat \<times> broker" where
  "Subscribe b = (b_next b, b\<lparr>b_subs := (b_subs b)(b_next b \<mapsto> []), b_next := Suc (b_next b)\<rparr>)"

definition unsubscribe :: "nat \<Rightarrow> broker \<Rightarrow> broker" where
  "unsubscribe ch b = b\<lparr>b_subs := (b_subs b)(ch := None)\<rparr>"

definition offer :: "changeEntry \<Rightarrow> changeEntry list \<Rightarrow> changeEntry list" where
  "offer e buf = (if length buf < chan_cap then buf @ [e] else buf)"

definition Publish :: "broker \<Rightarrow> changeEntry \<Rightarrow> broker" where
  "Publish b e = b\<lparr>b_subs := (\<lambda>ch. map_option (offer e) (b_subs b ch))\<rparr>"

section \<open>One connection\<close>

datatype sseBody = BChange changeData "notifyBlock option" | BResync string | BPing string

record frame =
  fr_event :: string
  fr_id :: int
  fr_body :: sseBody

text \<open>\<open>changeSSEData\<close>: a message carries its notify block.\<close>

definition changeSSEData :: "changeEntry \<Rightarrow> sseBody" where
  "changeSSEData e = BChange (c_Data e) (if c_Type e \<noteq> ''message'' then None else c_Notify e)"

definition change_frame :: "changeEntry \<Rightarrow> frame" where
  "change_frame e = \<lparr>fr_event = c_Type e, fr_id = c_Seq e, fr_body = changeSSEData e\<rparr>"

definition resync_frame :: "string \<Rightarrow> frame" where
  "resync_frame reason = \<lparr>fr_event = ''resync'', fr_id = 0, fr_body = BResync reason\<rparr>"

definition changesSince :: "hub_db \<Rightarrow> int \<Rightarrow> changeEntry list" where
  "changesSince d since = map entry_of (rows_after d since)"

datatype phase = Fresh | Subscribed nat | Live nat | Closed

record conn =
  co_since :: int
  co_phase :: phase
  co_last :: int
  co_out :: "frame list"

text \<open>The parameter \<^verbatim>\<open>since\<close> wins over the header \<^verbatim>\<open>Last-Event-ID\<close>.\<close>

definition stream_since :: "string \<Rightarrow> string \<Rightarrow> int option" where
  "stream_since since header =
     (if since \<noteq> [] then int_param (\<lambda>v. 0 \<le> v) 0 since
      else if header \<noteq> [] then Some (case int_param (\<lambda>v. 0 \<le> v) 0 header of None \<Rightarrow> 0 | Some v \<Rightarrow> v)
      else Some 0)"

definition stream_start :: "int \<Rightarrow> conn" where
  "stream_start since = \<lparr>co_since = since, co_phase = Fresh, co_last = since, co_out = []\<rparr>"

text \<open>The window check, then the subscription.\<close>

definition stream_open :: "hub_db \<Rightarrow> conn \<Rightarrow> broker \<Rightarrow> conn \<times> broker" where
  "stream_open d c b =
     (case minChangeSeq d of
        Some m \<Rightarrow> if co_since c + 1 < m
                  then (c\<lparr>co_phase := Closed, co_out := co_out c @ [resync_frame ''cursor_expired'']\<rparr>, b)
                  else (case Subscribe b of (ch, b') \<Rightarrow> (c\<lparr>co_phase := Subscribed ch\<rparr>, b'))
      | None \<Rightarrow> (case Subscribe b of (ch, b') \<Rightarrow> (c\<lparr>co_phase := Subscribed ch\<rparr>, b')))"

text \<open>The replay of what the log holds.\<close>

definition stream_replay :: "hub_db \<Rightarrow> nat \<Rightarrow> conn \<Rightarrow> conn" where
  "stream_replay d ch c =
     c\<lparr>co_phase := Live ch,
       co_out := co_out c @ map change_frame (changesSince d (co_since c)),
       co_last := fold (\<lambda>e _. c_Seq e) (changesSince d (co_since c)) (co_since c)\<rparr>"

text \<open>One value received from the channel.\<close>

definition stream_recv :: "changeEntry \<Rightarrow> conn \<Rightarrow> conn" where
  "stream_recv e c =
     (if c_Seq e \<le> co_last c then c
      else c\<lparr>co_out := co_out c @ [change_frame e], co_last := c_Seq e\<rparr>)"

definition stream_ping :: "string \<Rightarrow> conn \<Rightarrow> conn" where
  "stream_ping now c = c\<lparr>co_out := co_out c @ [\<lparr>fr_event = ''ping'', fr_id = 0, fr_body = BPing now\<rparr>]\<rparr>"

section \<open>The connection among the handlers\<close>

text \<open>
  \<open>w_flight\<close> holds the slices of the handlers that have committed and are still publishing:
  \<^verbatim>\<open>publish\<close> runs after the transaction has released the store's lock, so nothing orders
  one handler's publications against another's.
\<close>

record world =
  w_hub :: hub
  w_flight :: "changeEntry list list"
  w_broker :: broker
  w_conn :: conn

definition stream_world :: "hub \<Rightarrow> int \<Rightarrow> world" where
  "stream_world h since = \<lparr>w_hub = h, w_flight = [], w_broker = newBroker, w_conn = stream_start since\<rparr>"

text \<open>
  Any handler whose transaction extends the log properly may commit; a slice may publish
  its next entry; the connection may go on.  The flag says whether a publication keeps
  to the order of the commits and finds room in every channel.
\<close>

inductive stream_step :: "bool \<Rightarrow> world \<Rightarrow> world \<Rightarrow> bool" where
  commit: "changes_wf (h_db h) \<Longrightarrow> log_step (w_hub w) h \<Longrightarrow>
    stream_step ord w (w\<lparr>w_hub := h, w_flight := w_flight w @ [drop (length (h_out (w_hub w))) (h_out h)]\<rparr>)"
| publish: "w_flight w = before @ (e # es) # behind \<Longrightarrow>
    ord \<longrightarrow> concat before = [] \<and> (\<forall>ch buf. b_subs (w_broker w) ch = Some buf \<longrightarrow> length buf < chan_cap) \<Longrightarrow>
    stream_step ord w (w\<lparr>w_flight := before @ es # behind, w_broker := Publish (w_broker w) e\<rparr>)"
| opened: "co_phase (w_conn w) = Fresh \<Longrightarrow> stream_open (h_db (w_hub w)) (w_conn w) (w_broker w) = (c, b) \<Longrightarrow>
    stream_step ord w (w\<lparr>w_conn := c, w_broker := b\<rparr>)"
| replayed: "co_phase (w_conn w) = Subscribed ch \<Longrightarrow>
    stream_step ord w (w\<lparr>w_conn := stream_replay (h_db (w_hub w)) ch (w_conn w)\<rparr>)"
| received: "co_phase (w_conn w) = Live ch \<Longrightarrow> b_subs (w_broker w) ch = Some (e # buf) \<Longrightarrow>
    stream_step ord w (w\<lparr>w_conn := stream_recv e (w_conn w),
      w_broker := (w_broker w)\<lparr>b_subs := (b_subs (w_broker w))(ch \<mapsto> buf)\<rparr>\<rparr>)"
| pinged: "co_phase (w_conn w) = Live ch \<Longrightarrow>
    stream_step ord w (w\<lparr>w_conn := stream_ping now (w_conn w)\<rparr>)"
| left: "co_phase (w_conn w) = Live ch \<Longrightarrow>
    stream_step ord w (w\<lparr>w_conn := (w_conn w)\<lparr>co_phase := Closed\<rparr>, w_broker := unsubscribe ch (w_broker w)\<rparr>)"

inductive_cases stream_step_elims: "stream_step ord w v"

definition stream_run :: "bool \<Rightarrow> world \<Rightarrow> world \<Rightarrow> bool" where
  "stream_run ord = (stream_step ord)\<^sup>*\<^sup>*"


section \<open>What a connection may write\<close>

text \<open>Only frames of changes carry a positive number.\<close>

definition sent :: "conn \<Rightarrow> frame list" where
  "sent c = filter (\<lambda>f. 0 < fr_id f) (co_out c)"

definition all_entries :: "world \<Rightarrow> changeEntry list" where
  "all_entries w = map entry_of (d_changes (h_db (w_hub w)))"

definition buffered :: "broker \<Rightarrow> changeEntry set" where
  "buffered b = {e. \<exists>ch buf. b_subs b ch = Some buf \<and> e \<in> set buf}"

definition conn_safe :: "int \<Rightarrow> int \<Rightarrow> changeEntry set \<Rightarrow> conn \<Rightarrow> bool" where
  "conn_safe since hi es c \<longleftrightarrow> co_since c = since \<and> since \<le> co_last c \<and> (co_last c = since \<or> co_last c \<le> hi) \<and>
     sorted_wrt (<) (map fr_id (sent c)) \<and>
     (\<forall>f \<in> set (sent c). since < fr_id f \<and> fr_id f \<le> co_last c \<and> f \<in> change_frame ` es) \<and>
     (\<forall>ch. co_phase c = Fresh \<or> co_phase c = Subscribed ch \<longrightarrow> sent c = [] \<and> co_last c = since)"

definition stream_safe :: "int \<Rightarrow> world \<Rightarrow> bool" where
  "stream_safe since w \<longleftrightarrow> changes_wf (h_db (w_hub w)) \<and>
     buffered (w_broker w) \<union> set (concat (w_flight w)) \<subseteq> set (all_entries w) \<and>
     conn_safe since (change_counter (h_db (w_hub w))) (set (all_entries w)) (w_conn w)"

lemma conn_safe_mono: "conn_safe since hi es c \<Longrightarrow> hi \<le> hi' \<Longrightarrow> es \<subseteq> es' \<Longrightarrow> conn_safe since hi' es' c"
  unfolding conn_safe_def by (blast intro: order_trans)

lemma fold_last: "fold (\<lambda>e _. g e) xs a = (if xs = [] then a else g (last xs))"
  by (induction xs arbitrary: a) auto

lemma fr_id_change_frame [simp]: "fr_id (change_frame e) = c_Seq e"
  by (simp add: change_frame_def)

lemma c_Seq_entry_of [simp]: "c_Seq (entry_of r) = cr_seq r"
  by (simp add: entry_of_def)

lemma entries_sorted: "changes_wf (h_db (w_hub w)) \<Longrightarrow> sorted_wrt (\<lambda>a b. c_Seq a < c_Seq b) (all_entries w)"
  by (simp add: changes_wf_def all_entries_def sorted_wrt_map)

lemma entries_bounds:
  "changes_wf (h_db (w_hub w)) \<Longrightarrow> e \<in> set (all_entries w) \<Longrightarrow> 1 \<le> c_Seq e \<and> c_Seq e \<le> change_counter (h_db (w_hub w))"
  by (auto simp: changes_wf_def all_entries_def)

lemma changesSince_entries:
  "changes_wf (h_db (w_hub w)) \<Longrightarrow> changesSince (h_db (w_hub w)) c = filter (\<lambda>e. c < c_Seq e) (all_entries w)"
  by (simp add: changesSince_def rows_after_wf all_entries_def filter_map comp_def)

lemma log_step_entries:
  assumes "log_step (w_hub w) h" and "changes_wf (h_db h)"
  shows "\<exists>new. map entry_of (d_changes (h_db h)) = all_entries w @ new \<and>
    drop (length (h_out (w_hub w))) (h_out h) = new \<and> change_counter (h_db (w_hub w)) \<le> change_counter (h_db h) \<and>
    (\<forall>e \<in> set new. change_counter (h_db (w_hub w)) < c_Seq e)"
proof -
  from assms(1) obtain new where new: "change_counter (h_db (w_hub w)) \<le> change_counter (h_db h)"
    "d_changes (h_db h) = d_changes (h_db (w_hub w)) @ new"
    "map cr_seq new = [change_counter (h_db (w_hub w)) + 1 .. change_counter (h_db h)]"
    "h_out h = h_out (w_hub w) @ map entry_of new" by (auto simp: log_step_def)
  have "cr_seq r \<in> set (map cr_seq new)" if "r \<in> set new" for r using that by simp
  then have "change_counter (h_db (w_hub w)) < cr_seq r" if "r \<in> set new" for r
    using that unfolding new(3) by force
  with new show ?thesis by (auto simp: all_entries_def)
qed

lemma buffered_Publish: "buffered (Publish b e) \<subseteq> insert e (buffered b)"
  by (auto simp: buffered_def Publish_def offer_def split: if_splits)

lemma buffered_Subscribe: "buffered (snd (Subscribe b)) \<subseteq> buffered b"
  unfolding buffered_def Subscribe_def by (auto split: if_splits)

lemma bufferedI: "b_subs b ch = Some buf \<Longrightarrow> e \<in> set buf \<Longrightarrow> e \<in> buffered b"
  unfolding buffered_def by blast

lemma conn_safe_replay:
  assumes "conn_safe since (change_counter (h_db (w_hub w))) (set (all_entries w)) (w_conn w)"
    and "changes_wf (h_db (w_hub w))" and "0 \<le> since" and "co_phase (w_conn w) = Subscribed ch"
  shows "conn_safe since (change_counter (h_db (w_hub w))) (set (all_entries w))
    (stream_replay (h_db (w_hub w)) ch (w_conn w))"
    and "sent (stream_replay (h_db (w_hub w)) ch (w_conn w)) =
      map change_frame (filter (\<lambda>e. since < c_Seq e) (all_entries w))"
    and "co_last (stream_replay (h_db (w_hub w)) ch (w_conn w)) =
      fold (\<lambda>e _. c_Seq e) (filter (\<lambda>e. since < c_Seq e) (all_entries w)) since"
proof -
  define xs where "xs = filter (\<lambda>e. since < c_Seq e) (all_entries w)"
  define c where "c = stream_replay (h_db (w_hub w)) ch (w_conn w)"
  have old: "co_since (w_conn w) = since" "filter (\<lambda>f. 0 < fr_id f) (co_out (w_conn w)) = []"
    using assms(1,4) by (auto simp: conn_safe_def sent_def)
  have pos: "filter (\<lambda>f. 0 < fr_id f) (map change_frame xs) = map change_frame xs"
    using assms(3) by (intro filter_True) (auto simp: xs_def)
  have c: "co_since c = since" "co_phase c = Live ch" "sent c = map change_frame xs"
    "co_last c = fold (\<lambda>e _. c_Seq e) xs since"
    using old pos by (simp_all add: c_def stream_replay_def sent_def changesSince_entries [OF assms(2)] xs_def)
  show "sent (stream_replay (h_db (w_hub w)) ch (w_conn w)) =
      map change_frame (filter (\<lambda>e. since < c_Seq e) (all_entries w))"
    "co_last (stream_replay (h_db (w_hub w)) ch (w_conn w)) =
      fold (\<lambda>e _. c_Seq e) (filter (\<lambda>e. since < c_Seq e) (all_entries w)) since"
    using c by (simp_all add: c_def xs_def)
  have so: "sorted_wrt (\<lambda>a b. c_Seq a < c_Seq b) xs"
    unfolding xs_def by (rule sorted_wrt_filter) (rule entries_sorted [OF assms(2)])
  have mem: "since < c_Seq e \<and> e \<in> set (all_entries w)" if "e \<in> set xs" for e using that by (simp add: xs_def)
  have top: "c_Seq e \<le> c_Seq (last xs)" if "e \<in> set xs" for e
  proof -
    from that have "xs \<noteq> []" by auto
    then obtain ys z where "xs = ys @ [z]" using rev_exhaust by blast
    with so that show ?thesis by (auto simp: sorted_wrt_append)
  qed
  have l: "co_last c = (if xs = [] then since else c_Seq (last xs))" by (simp add: c(4) fold_last)
  have la: "since < c_Seq (last xs)" "c_Seq (last xs) \<le> change_counter (h_db (w_hub w))" if "xs \<noteq> []"
    using mem [OF last_in_set [OF that]] entries_bounds [OF assms(2)] by auto
  have a: "since \<le> co_last c \<and> (co_last c = since \<or> co_last c \<le> change_counter (h_db (w_hub w)))"
    using la by (auto simp: l)
  have b: "sorted_wrt (<) (map fr_id (sent c))" using so by (simp add: c(3) sorted_wrt_map)
  have d: "\<forall>f \<in> set (sent c). since < fr_id f \<and> fr_id f \<le> co_last c \<and> f \<in> change_frame ` set (all_entries w)"
  proof
    fix f assume "f \<in> set (sent c)"
    then obtain e where "e \<in> set xs" "f = change_frame e" by (auto simp: c(3))
    with mem [of e] top [of e] show "since < fr_id f \<and> fr_id f \<le> co_last c \<and> f \<in> change_frame ` set (all_entries w)"
      by (auto simp: l)
  qed
  show "conn_safe since (change_counter (h_db (w_hub w))) (set (all_entries w))
    (stream_replay (h_db (w_hub w)) ch (w_conn w))"
    unfolding c_def [symmetric] conn_safe_def using a b d c(1,2) by auto
qed

lemma conn_safe_recv:
  assumes "conn_safe since hi es c" and "e \<in> es" and "c_Seq e \<le> hi" and "0 \<le> since" and "co_phase c = Live ch"
  shows "conn_safe since hi es (stream_recv e c)"
proof (cases "c_Seq e \<le> co_last c")
  case True
  then show ?thesis using assms(1) by (simp add: stream_recv_def)
next
  case False
  have k: "since \<le> co_last c" "sorted_wrt (<) (map fr_id (sent c))"
    "\<forall>f \<in> set (sent c). since < fr_id f \<and> fr_id f \<le> co_last c \<and> f \<in> change_frame ` es" "co_since c = since"
    using assms(1) by (auto simp: conn_safe_def)
  have s: "sent (stream_recv e c) = sent c @ [change_frame e]"
    using False k(1) assms(4) by (simp add: stream_recv_def sent_def)
  have l: "co_last (stream_recv e c) = c_Seq e" "co_since (stream_recv e c) = since" "co_phase (stream_recv e c) = Live ch"
    using False assms(5) k(4) by (simp_all add: stream_recv_def)
  have "sorted_wrt (<) (map fr_id (sent (stream_recv e c)))"
    using k(2,3) False by (auto simp: s sorted_wrt_append)
  moreover have "\<forall>f \<in> set (sent (stream_recv e c)). since < fr_id f \<and> fr_id f \<le> c_Seq e \<and> f \<in> change_frame ` es"
    using k(1,3) False assms(2) by (auto simp: s)
  ultimately show ?thesis using l k(1) False assms(3) by (simp add: conn_safe_def)
qed

lemma stream_safe_step:
  assumes "stream_step ord w v" and "stream_safe since w" and "0 \<le> since"
  shows "stream_safe since v"
  using assms(1)
proof cases
  case (commit h)
  then obtain new where n: "map entry_of (d_changes (h_db h)) = all_entries w @ new"
    "drop (length (h_out (w_hub w))) (h_out h) = new" "change_counter (h_db (w_hub w)) \<le> change_counter (h_db h)"
    using log_step_entries [of w h] by blast
  then have a: "all_entries v = all_entries w @ new" by (simp add: commit(1) all_entries_def)
  have "conn_safe since (change_counter (h_db h)) (set (all_entries v)) (w_conn w)"
    by (rule conn_safe_mono [of _ "change_counter (h_db (w_hub w))" "set (all_entries w)"])
      (use assms(2) n(3) a in \<open>auto simp: stream_safe_def\<close>)
  then show ?thesis
    using assms(2) a n(2) commit by (auto simp: stream_safe_def)
next
  case (publish before e es behind)
  have "all_entries v = all_entries w" by (simp add: publish(1) all_entries_def)
  moreover have "insert e (buffered (w_broker w)) \<union> set (concat (before @ es # behind)) \<subseteq> set (all_entries w)"
    using assms(2) by (auto simp: stream_safe_def publish(2))
  ultimately show ?thesis
    using assms(2) buffered_Publish [of "w_broker w" e] by (auto simp: stream_safe_def publish(1))
next
  case (opened c b)
  have "buffered b \<subseteq> buffered (w_broker w)" "sent c = sent (w_conn w)" "co_since c = co_since (w_conn w)"
    "co_last c = co_last (w_conn w)" "co_phase c \<noteq> Fresh"
    using opened(3) buffered_Subscribe [of "w_broker w"]
    by (auto simp: stream_open_def sent_def resync_frame_def split: option.splits if_splits prod.splits)
  then show ?thesis
    using assms(2) opened(2) by (auto simp: stream_safe_def opened(1) all_entries_def conn_safe_def)
next
  case (replayed ch)
  then show ?thesis
    using assms(2,3) conn_safe_replay(1) [of since w ch] by (simp add: stream_safe_def all_entries_def)
next
  case (received ch e buf)
  have e: "e \<in> set (all_entries w)" "\<forall>x \<in> set buf. x \<in> buffered (w_broker w)"
    using assms(2) bufferedI [OF received(3)] by (auto simp: stream_safe_def)
  have "c_Seq e \<le> change_counter (h_db (w_hub w))" using entries_bounds [OF _ e(1)] assms(2) by (simp add: stream_safe_def)
  with e(1) have "conn_safe since (change_counter (h_db (w_hub w))) (set (all_entries w)) (stream_recv e (w_conn w))"
    using assms(2,3) received(2) by (intro conn_safe_recv) (auto simp: stream_safe_def)
  moreover have "buffered (w_broker v) \<subseteq> buffered (w_broker w)"
    using e(2) by (auto simp: received(1) buffered_def split: if_splits)
  ultimately show ?thesis using assms(2) by (auto simp: stream_safe_def received(1) all_entries_def)
next
  case (pinged ch now)
  then show ?thesis using assms(2) by (simp add: stream_safe_def conn_safe_def stream_ping_def sent_def all_entries_def)
next
  case (left ch)
  have "buffered (unsubscribe ch (w_broker w)) \<subseteq> buffered (w_broker w)"
    by (auto simp: buffered_def unsubscribe_def split: if_splits)
  then show ?thesis using assms(2) by (auto simp: stream_safe_def left conn_safe_def sent_def all_entries_def)
qed

lemma stream_safe_run:
  assumes "stream_run ord w v" and "stream_safe since w" and "0 \<le> since"
  shows "stream_safe since v"
  using assms(1) unfolding stream_run_def by induction (use assms(2,3) stream_safe_step in blast)+

lemma stream_safe_start: "changes_wf (h_db h) \<Longrightarrow> stream_safe since (stream_world h since)"
  by (simp add: stream_safe_def stream_world_def newBroker_def buffered_def conn_safe_def stream_start_def sent_def)



section \<open>When nothing is lost\<close>

text \<open>
  With publications in commit order and room in the channels, the buffer followed by what
  is still in flight is always the end of the log, and what was written together with what
  will be written is everything after the cursor.
\<close>

definition tail_of :: "world \<Rightarrow> changeEntry list \<Rightarrow> bool" where
  "tail_of w xs \<longleftrightarrow> (\<exists>old. all_entries w = old @ xs)"

definition to_come :: "world \<Rightarrow> changeEntry list \<Rightarrow> frame list" where
  "to_come w xs = map change_frame (filter (\<lambda>e. co_last (w_conn w) < c_Seq e) xs)"

definition flying :: "world \<Rightarrow> changeEntry list" where
  "flying w = concat (w_flight w)"

definition orderly :: "int \<Rightarrow> world \<Rightarrow> bool" where
  "orderly since w \<longleftrightarrow>
     (case co_phase (w_conn w) of
        Fresh \<Rightarrow> tail_of w (flying w)
      | Closed \<Rightarrow> tail_of w (flying w)
      | Subscribed ch \<Rightarrow> (\<exists>B. b_subs (w_broker w) ch = Some B \<and> tail_of w (B @ flying w))
      | Live ch \<Rightarrow> (\<exists>B. b_subs (w_broker w) ch = Some B \<and> tail_of w (B @ flying w) \<and>
          sent (w_conn w) @ to_come w (B @ flying w) = map change_frame (filter (\<lambda>e. since < c_Seq e) (all_entries w))))"

lemma orderly_commit:
  assumes w: "v = w\<lparr>w_hub := h, w_flight := w_flight w @ [drop (length (h_out (w_hub w))) (h_out h)]\<rparr>"
    and "changes_wf (h_db h)" "log_step (w_hub w) h" and o: "orderly since w" and s: "stream_safe since w"
  shows "orderly since v"
proof -
  from log_step_entries [OF assms(3,2)] obtain new where n: "map entry_of (d_changes (h_db h)) = all_entries w @ new"
    "drop (length (h_out (w_hub w))) (h_out h) = new" "\<forall>e \<in> set new. change_counter (h_db (w_hub w)) < c_Seq e" by blast
  have a: "all_entries v = all_entries w @ new" "flying v = flying w @ new"
    "w_conn v = w_conn w" "w_broker v = w_broker w" using n(1,2) by (simp_all add: w all_entries_def flying_def)
  have t: "tail_of v (xs @ flying v)" if "tail_of w (xs @ flying w)" for xs
    using that by (auto simp: tail_of_def a)
  have l: "co_last (w_conn w) = since \<or> co_last (w_conn w) \<le> change_counter (h_db (w_hub w))" "since \<le> co_last (w_conn w)"
    using s by (simp_all add: stream_safe_def conn_safe_def)
  have "filter (\<lambda>e. co_last (w_conn w) < c_Seq e) new = filter (\<lambda>e. since < c_Seq e) new"
    by (rule filter_cong [OF refl]) (use n(3) l in force)
  then have c: "to_come v (xs @ flying v) =
      to_come w (xs @ flying w) @ map change_frame (filter (\<lambda>e. since < c_Seq e) new)" for xs
    by (simp add: to_come_def a)
  show ?thesis
    using o t [of "[]"] t c unfolding orderly_def a(3,4) by (auto split: phase.splits simp: a(1) append_assoc [symmetric] simp del: append_assoc)
qed

lemma orderly_publish:
  assumes w: "v = w\<lparr>w_flight := before @ es # behind, w_broker := Publish (w_broker w) e\<rparr>"
    and f: "w_flight w = before @ (e # es) # behind" and b: "concat before = []"
    and room: "\<forall>ch buf. b_subs (w_broker w) ch = Some buf \<longrightarrow> length buf < chan_cap" and o: "orderly since w"
  shows "orderly since v"
proof -
  have F: "flying w = e # flying v" unfolding f w flying_def concat_append b by (simp add: b del: concat_eq_Nil_conv)
  have a: "all_entries v = all_entries w" "w_conn v = w_conn w" by (simp_all add: w all_entries_def)
  have B: "b_subs (w_broker v) ch = Some (buf @ [e])" if "b_subs (w_broker w) ch = Some buf" for ch buf
    using that room by (simp add: w Publish_def offer_def)
  have t: "tail_of v ((buf @ [e]) @ flying v) = tail_of w (buf @ flying w)"
    "to_come v ((buf @ [e]) @ flying v) = to_come w (buf @ flying w)" for buf
    by (simp_all add: tail_of_def a F to_come_def)
  have d: "tail_of v (flying v)" if "tail_of w (flying w)"
    using that unfolding F tail_of_def a by (metis append.assoc append_Cons append_Nil)
  show ?thesis
  proof (cases "co_phase (w_conn w)")
    case (Subscribed ch)
    with o obtain buf where "b_subs (w_broker w) ch = Some buf" "tail_of w (buf @ flying w)"
      by (auto simp: orderly_def)
    with B t show ?thesis using Subscribed unfolding orderly_def a(2) by (auto simp del: append_assoc)
  next
    case (Live ch)
    with o obtain buf where "b_subs (w_broker w) ch = Some buf" "tail_of w (buf @ flying w)"
      "sent (w_conn w) @ to_come w (buf @ flying w) = map change_frame (filter (\<lambda>e. since < c_Seq e) (all_entries w))"
      by (auto simp: orderly_def)
    with B t show ?thesis using Live unfolding orderly_def a by (auto simp del: append_assoc)
  qed (use o d in \<open>auto simp: orderly_def a(2)\<close>)
qed

lemma orderly_replay:
  assumes w: "v = w\<lparr>w_conn := stream_replay (h_db (w_hub w)) ch (w_conn w)\<rparr>"
    and p: "co_phase (w_conn w) = Subscribed ch" and s: "stream_safe since w" "0 \<le> since" and o: "orderly since w"
  shows "orderly since v"
proof -
  define xs where "xs = filter (\<lambda>e. since < c_Seq e) (all_entries w)"
  have r: "sent (w_conn v) = map change_frame xs" "co_last (w_conn v) = fold (\<lambda>e _. c_Seq e) xs since"
    using s p conn_safe_replay(2,3) [of since w ch] by (simp_all add: w stream_safe_def xs_def)
  have a: "all_entries v = all_entries w" "flying v = flying w" "w_broker v = w_broker w" "co_phase (w_conn v) = Live ch"
    by (simp_all add: w all_entries_def stream_replay_def flying_def)
  from o p obtain B where B: "b_subs (w_broker w) ch = Some B" "tail_of w (B @ flying w)"
    by (auto simp: orderly_def)
  have top: "c_Seq e \<le> co_last (w_conn v)" if "e \<in> set (all_entries w)" for e
  proof (cases "since < c_Seq e")
    case True
    with that have m: "e \<in> set xs" by (simp add: xs_def)
    then obtain ys z where x: "xs = ys @ [z]" by (metis empty_iff empty_set rev_exhaust)
    have "sorted_wrt (\<lambda>a b. c_Seq a < c_Seq b) xs"
      unfolding xs_def by (rule sorted_wrt_filter) (rule entries_sorted, use s in \<open>simp add: stream_safe_def\<close>)
    with m show ?thesis by (auto simp: r(2) x sorted_wrt_append)
  next
    case False
    have "since \<le> co_last (w_conn v)"
      using s p conn_safe_replay(1) [of since w ch] by (simp add: w stream_safe_def conn_safe_def)
    with False show ?thesis by simp
  qed
  then have "to_come v (B @ flying w) = []"
    using B(2) by (auto simp: to_come_def tail_of_def filter_empty_conv not_less simp del: filter_append)
  with B show ?thesis unfolding orderly_def a tail_of_def by (simp add: a r(1) xs_def)
qed

lemma orderly_recv:
  assumes w: "v = w\<lparr>w_conn := stream_recv e (w_conn w),
      w_broker := (w_broker w)\<lparr>b_subs := (b_subs (w_broker w))(ch \<mapsto> buf)\<rparr>\<rparr>"
    and p: "co_phase (w_conn w) = Live ch" "b_subs (w_broker w) ch = Some (e # buf)"
    and s: "stream_safe since w" and o: "orderly since w"
  shows "orderly since v"
proof -
  define F where "F = flying w"
  define l where "l = co_last (w_conn w)"
  have a: "all_entries v = all_entries w" "flying v = F" "b_subs (w_broker v) ch = Some buf"
    "co_phase (w_conn v) = Live ch" using p by (simp_all add: w all_entries_def stream_recv_def F_def flying_def)
  from o p obtain t: "tail_of w (e # buf @ F)" and
    q: "sent (w_conn w) @ to_come w (e # buf @ F) = map change_frame (filter (\<lambda>e. since < c_Seq e) (all_entries w))"
    by (auto simp: orderly_def F_def)
  from t obtain old where old: "all_entries w = old @ e # buf @ F" by (auto simp: tail_of_def)
  have hi: "c_Seq e < c_Seq x" if "x \<in> set (buf @ F)" for x
    using entries_sorted [of w] s that by (auto simp: old stream_safe_def sorted_wrt_append)
  have pos: "1 \<le> c_Seq e" using s entries_bounds [of w e] by (simp add: old stream_safe_def)
  have "sent (w_conn v) @ to_come v (buf @ F) = sent (w_conn w) @ to_come w (e # buf @ F)"
  proof (cases "c_Seq e \<le> l")
    case True
    then show ?thesis by (simp add: w stream_recv_def l_def to_come_def)
  next
    case False
    have "filter (\<lambda>x. l < c_Seq x) (buf @ F) = buf @ F" "filter (\<lambda>x. c_Seq e < c_Seq x) (buf @ F) = buf @ F"
      using hi False by (force intro!: filter_True)+
    moreover have "sent (w_conn v) = sent (w_conn w) @ [change_frame e]"
      using False pos by (simp add: w stream_recv_def l_def sent_def)
    ultimately show ?thesis
      using False by (simp add: w stream_recv_def l_def to_come_def del: filter_append)
  qed
  moreover have "tail_of v (buf @ F)" unfolding tail_of_def a old by (metis append.assoc append_Cons append_Nil)
  ultimately show ?thesis using q unfolding orderly_def a by (simp add: a)
qed

lemma orderly_step:
  assumes "stream_step True w v" and s: "stream_safe since w" and z: "0 \<le> since" and o: "orderly since w"
  shows "orderly since v"
  using assms(1)
proof cases
  case (commit h)
  then show ?thesis using orderly_commit o s by blast
next
  case (publish before e es behind)
  then show ?thesis using orderly_publish [OF publish(1,2) _ _ o] by simp
next
  case (opened c b)
  have "co_phase c = Closed \<or> (\<exists>ch. co_phase c = Subscribed ch \<and> b_subs b ch = Some [])"
    using opened(3) by (auto simp: stream_open_def Subscribe_def split: option.splits if_splits)
  then show ?thesis using o opened(2) by (auto simp: orderly_def opened(1) tail_of_def all_entries_def flying_def)
next
  case (replayed ch)
  then show ?thesis using orderly_replay o s z by blast
next
  case (received ch e buf)
  then show ?thesis using orderly_recv o s by blast
next
  case (pinged ch now)
  then show ?thesis
    using o by (simp add: orderly_def tail_of_def all_entries_def to_come_def stream_ping_def sent_def flying_def)
next
  case (left ch)
  have "tail_of w (flying w)" using o left(2) by (auto simp: orderly_def tail_of_def intro: append.assoc [symmetric])
  then show ?thesis by (simp add: orderly_def tail_of_def all_entries_def left(1) flying_def)
qed

lemma orderly_run:
  assumes "stream_run True (stream_world h since) w" and "changes_wf (h_db h)" and "0 \<le> since"
  shows "orderly since w"
proof -
  have "stream_safe since w \<and> orderly since w"
    using assms(1) unfolding stream_run_def
  proof (induction rule: rtranclp_induct)
    case base
    then show ?case using stream_safe_start [OF assms(2)]
      by (simp add: orderly_def stream_world_def stream_start_def tail_of_def all_entries_def flying_def)
  next
    case (step u v)
    then show ?case using stream_safe_step [OF _ _ assms(3)] orderly_step [OF _ _ assms(3)] by blast
  qed
  then show ?thesis ..
qed

text \<open>
  As long as handlers publish in the order of their commits and no channel is full, a
  stream loses nothing: once it has drained its channel and no publication is pending, it
  has written exactly the changes of the log after its cursor.
\<close>

theorem stream_complete:
  assumes "stream_run True (stream_world h since) w" and "changes_wf (h_db h)" and "0 \<le> since"
    and "co_phase (w_conn w) = Live ch" and "b_subs (w_broker w) ch = Some []" and "concat (w_flight w) = []"
  shows "sent (w_conn w) = map change_frame (changesSince (h_db (w_hub w)) since)"
proof -
  have "changes_wf (h_db (w_hub w))"
    using stream_safe_run [OF assms(1) stream_safe_start [OF assms(2)] assms(3)] by (simp add: stream_safe_def)
  with orderly_run [OF assms(1-3)] assms(4-6) show ?thesis
    by (simp add: orderly_def to_come_def changesSince_entries flying_def)
qed

section \<open>When something is lost\<close>

definition change_hub :: "int list \<Rightarrow> hub" where
  "change_hub qs = hub_start\<lparr>h_db := empty_db\<lparr>d_meta := [''change_seq'' \<mapsto> int (length qs)], d_changes := map sample_change qs\<rparr>,
     h_out := map (\<lambda>q. entry_of (sample_change q)) qs\<rparr>"

lemma change_hub_wf: "changes_wf (h_db (change_hub []))" "changes_wf (h_db (change_hub [1]))" "changes_wf (h_db (change_hub [1, 2]))"
  by (simp_all add: changes_wf_def change_hub_def change_counter_def sample_change_def)

lemma change_hub_steps: "log_step (change_hub []) (change_hub [1])" "log_step (change_hub [1]) (change_hub [1, 2])"
  by (simp_all add: log_step_def change_hub_def change_counter_def sample_change_def upto.simps)

definition open_conn :: "int \<Rightarrow> frame list \<Rightarrow> conn" where
  "open_conn q out = \<lparr>co_since = 0, co_phase = Live 0, co_last = q, co_out = out\<rparr>"

definition sub_broker :: "changeEntry list \<Rightarrow> broker" where
  "sub_broker buf = \<lparr>b_subs = [0 \<mapsto> buf], b_next = 1\<rparr>"

definition example_world :: "int list \<Rightarrow> changeEntry list list \<Rightarrow> changeEntry list \<Rightarrow> conn \<Rightarrow> world" where
  "example_world qs fl buf c = \<lparr>w_hub = change_hub qs, w_flight = fl, w_broker = sub_broker buf, w_conn = c\<rparr>"

definition entry1 :: changeEntry where
  "entry1 = entry_of (sample_change 1)"

definition entry2 :: changeEntry where
  "entry2 = entry_of (sample_change 2)"

lemma run_trans: "stream_run ord u v \<Longrightarrow> stream_step ord v w \<Longrightarrow> stream_run ord u w"
  unfolding stream_run_def by (rule rtranclp.rtrancl_into_rtrancl)

text \<open>A connection that is live before the first change.\<close>

lemma example_live: "stream_run ord (stream_world (change_hub []) 0) (example_world [] [] [] (open_conn 0 []))"
proof -
  let ?w = "stream_world (change_hub []) 0"
  let ?c = "(w_conn ?w)\<lparr>co_phase := Subscribed 0\<rparr>"
  have "stream_run ord ?w ?w" by (simp add: stream_run_def)
  moreover have "stream_open (h_db (w_hub ?w)) (w_conn ?w) (w_broker ?w) = (?c, sub_broker [])"
    by (simp add: stream_open_def stream_world_def change_hub_def minChangeSeq_def Subscribe_def newBroker_def sub_broker_def)
  then have "stream_step ord ?w (?w\<lparr>w_conn := ?c, w_broker := sub_broker []\<rparr>)"
    by (intro stream_step.opened) (simp add: stream_world_def stream_start_def)
  ultimately have "stream_run ord ?w (?w\<lparr>w_conn := ?c, w_broker := sub_broker []\<rparr>)" by (rule run_trans)
  from run_trans [OF this stream_step.replayed [of _ 0]] show ?thesis
    by (simp add: stream_world_def example_world_def stream_replay_def change_hub_def changesSince_def rows_after_def
        stream_start_def open_conn_def)
qed

lemma example_committed:
  "stream_run ord (stream_world (change_hub []) 0) (example_world [1, 2] [[entry1], [entry2]] [] (open_conn 0 []))"
proof -
  have "stream_step ord (example_world [] [] [] (open_conn 0 [])) (example_world [1] [[entry1]] [] (open_conn 0 []))"
    using stream_step.commit [OF change_hub_wf(2), of "example_world [] [] [] (open_conn 0 [])" ord]
    by (simp add: example_world_def change_hub_steps) (simp add: change_hub_def entry1_def)
  moreover have "stream_step ord (example_world [1] [[entry1]] [] (open_conn 0 []))
      (example_world [1, 2] [[entry1], [entry2]] [] (open_conn 0 []))"
    using stream_step.commit [OF change_hub_wf(3), of "example_world [1] [[entry1]] [] (open_conn 0 [])" ord]
    by (simp add: example_world_def change_hub_steps) (simp add: change_hub_def entry2_def)
  ultimately show ?thesis using example_live run_trans by blast
qed

lemma example_publish:
  assumes "fl = before @ (e # es) # behind" and "ord \<longrightarrow> concat before = []" and "length buf < chan_cap"
  shows "stream_step ord (example_world qs fl buf c) (example_world qs (before @ es # behind) (buf @ [e]) c)"
proof -
  have "Publish (sub_broker buf) e = sub_broker (buf @ [e])"
    using assms(3) by (auto simp: Publish_def sub_broker_def offer_def fun_eq_iff)
  with assms stream_step.publish [of "example_world qs fl buf c" before e es behind ord] show ?thesis
    by (simp add: example_world_def sub_broker_def split: if_splits)
qed

lemma example_recv:
  "stream_step ord (example_world qs fl (e # buf) (open_conn q out))
     (example_world qs fl buf (stream_recv e (open_conn q out)))"
  using stream_step.received [of "example_world qs fl (e # buf) (open_conn q out)" 0 e buf ord]
  by (simp add: example_world_def open_conn_def sub_broker_def)

text \<open>
  C17: a stream can lose a change for good.  Two handlers commit change 1 and change 2 and
  publish in the opposite order; the stream writes change 2 and drops change 1 as already
  seen.  Nothing is pending any more, and the client is not told to resynchronize.
\<close>

theorem stream_loses_change:
  "\<exists>w ch. stream_run False (stream_world (change_hub []) 0) w \<and> co_phase (w_conn w) = Live ch \<and>
     b_subs (w_broker w) ch = Some [] \<and> concat (w_flight w) = [] \<and> cr_seq ` set (d_changes (h_db (w_hub w))) = {1, 2} \<and>
     map fr_id (co_out (w_conn w)) = [2]"
proof -
  let ?c = "open_conn 2 [change_frame entry2]"
  have e: "c_Seq entry1 = 1" "c_Seq entry2 = 2" by (simp_all add: entry1_def entry2_def sample_change_def)
  have r: "stream_recv entry2 (open_conn 0 []) = ?c" "stream_recv entry1 ?c = ?c"
    by (simp_all add: stream_recv_def open_conn_def e)
  have 1: "stream_step False (example_world [1, 2] [[entry1], [entry2]] [] (open_conn 0 []))
      (example_world [1, 2] [[entry1], []] [entry2] (open_conn 0 []))"
    using example_publish [of "[[entry1], [entry2]]" "[[entry1]]" entry2 "[]" "[]" False "[]"] by (simp add: chan_cap_def)
  have 2: "stream_step False (example_world [1, 2] [[entry1], []] [entry2] (open_conn 0 []))
      (example_world [1, 2] [[], []] [entry2, entry1] (open_conn 0 []))"
    using example_publish [of "[[entry1], []]" "[]" entry1 "[]" "[[]]" False "[entry2]"] by (simp add: chan_cap_def)
  have 3: "stream_step False (example_world [1, 2] [[], []] [entry2, entry1] (open_conn 0 []))
      (example_world [1, 2] [[], []] [entry1] ?c)" using example_recv [of False "[1, 2]"] r by metis
  have 4: "stream_step False (example_world [1, 2] [[], []] [entry1] ?c) (example_world [1, 2] [[], []] [] ?c)"
    using example_recv [of False "[1, 2]"] r by metis
  have "stream_run False (stream_world (change_hub []) 0) (example_world [1, 2] [[], []] [] ?c)"
    using run_trans [OF run_trans [OF run_trans [OF run_trans [OF example_committed 1] 2] 3] 4] .
  then show ?thesis
    by (intro exI [of _ "example_world [1, 2] [[], []] [] ?c"] exI [of _ 0])
      (simp add: example_world_def open_conn_def sub_broker_def change_hub_def e sample_change_def)
qed

section \<open>Witnesses\<close>

theorem sse_roundtrip_witness:
  "sse_read (sseWrite ''message'' 7 (''a'' @ nl @ ''b'')) =
     \<lparr>sb_id = Some ''7'', sb_event = ''message'', sb_data = ''a'' @ nl @ ''b''\<rparr>"
proof -
  have "fmt_d 7 = ''7''" by code_simp
  with sse_roundtrip [of "''message''" 7 "''a'' @ nl @ ''b''"] show ?thesis by simp
qed


theorem stream_complete_witness:
  "\<exists>w. stream_run True (stream_world (change_hub []) 0) w \<and>
     sent (w_conn w) = map change_frame (changesSince (h_db (change_hub [1, 2])) 0)"
proof -
  have 1: "stream_step True (example_world [1, 2] [[entry1], [entry2]] [] (open_conn 0 []))
      (example_world [1, 2] [[], [entry2]] [entry1] (open_conn 0 []))"
    using example_publish [of "[[entry1], [entry2]]" "[]" entry1 "[]" "[[entry2]]" True "[]"] by (simp add: chan_cap_def)
  have 2: "stream_step True (example_world [1, 2] [[], [entry2]] [entry1] (open_conn 0 []))
      (example_world [1, 2] [[], []] [entry1, entry2] (open_conn 0 []))"
    using example_publish [of "[[], [entry2]]" "[[]]" entry2 "[]" "[]" True "[entry1]"] by (simp add: chan_cap_def)
  let ?c = "open_conn 1 [change_frame entry1]" let ?e = "open_conn 2 [change_frame entry1, change_frame entry2]"
  have e: "c_Seq entry1 = 1" "c_Seq entry2 = 2" by (simp_all add: entry1_def entry2_def sample_change_def)
  have r: "stream_recv entry1 (open_conn 0 []) = ?c" "stream_recv entry2 ?c = ?e"
    by (simp_all add: stream_recv_def open_conn_def e)
  have 3: "stream_step True (example_world [1, 2] [[], []] [entry1, entry2] (open_conn 0 []))
      (example_world [1, 2] [[], []] [entry2] ?c)" using example_recv [of True "[1, 2]"] r by metis
  have 4: "stream_step True (example_world [1, 2] [[], []] [entry2] ?c) (example_world [1, 2] [[], []] [] ?e)"
    using example_recv [of True "[1, 2]"] r by metis
  have run: "stream_run True (stream_world (change_hub []) 0) (example_world [1, 2] [[], []] [] ?e)"
    using run_trans [OF run_trans [OF run_trans [OF run_trans [OF example_committed 1] 2] 3] 4] .
  have "sent (w_conn (example_world [1, 2] [[], []] [] ?e)) =
      map change_frame (changesSince (h_db (w_hub (example_world [1, 2] [[], []] [] ?e))) 0)"
    by (rule stream_complete [OF run change_hub_wf(1), of 0])
      (simp_all add: example_world_def open_conn_def sub_broker_def)
  with run show ?thesis by (auto simp: example_world_def)
qed

end
