(* ===== verification/Paging.thy ===== *)
theory Paging
  imports Sync "HOL-Library.Product_Lexorder"
begin

text \<open>
  The message and fault lists of the client API (\<^verbatim>\<open>handleMessages\<close>, \<^verbatim>\<open>handleFaults\<close> and
  \<^verbatim>\<open>handleMessageDetail\<close> of \<^verbatim>\<open>hub/api.go\<close>).  Both lists are paged by a cursor that is
  the key of the last row delivered; the locale \<open>keyset\<close> states that contract once.
\<close>

section \<open>Paging by key\<close>

text \<open>\<^verbatim>\<open>ORDER BY key DESC\<close>; the keys below are unique.\<close>

definition desc_by :: "('r \<Rightarrow> 'k::linorder) \<Rightarrow> 'r list \<Rightarrow> 'r list" where
  "desc_by key rs = rev (sort_key key rs)"

text \<open>The loop over at most \<^verbatim>\<open>limit+1\<close> rows: a row too many sets the next cursor.\<close>

fun page_loop :: "int \<Rightarrow> 'r list \<Rightarrow> 'r list \<Rightarrow> 'r list \<times> 'r option" where
  "page_loop limit [] items = (items, None)"
| "page_loop limit (r # rs) items =
     (if limit \<le> int (length items) then (items, Some (last items))
      else page_loop limit rs (items @ [r]))"

text \<open>The rows behind a cursor, and a client that follows the cursors from page to page.\<close>

definition rows_behind :: "('r \<Rightarrow> 'k::linorder) \<Rightarrow> 'r list \<Rightarrow> 'k option \<Rightarrow> 'r list" where
  "rows_behind key rows c = desc_by key (filter (\<lambda>r. case c of None \<Rightarrow> True | Some k \<Rightarrow> key r < k) rows)"

primrec follow_pages :: "('k option \<Rightarrow> nat \<Rightarrow> 'r list \<times> 'k option) \<Rightarrow> nat \<Rightarrow> nat \<Rightarrow> 'k option \<Rightarrow> 'r list option" where
  "follow_pages fetch 0 n c = None"
| "follow_pages fetch (Suc k) n c =
     (case fetch c n of
        (xs, None) \<Rightarrow> Some xs
      | (xs, Some c') \<Rightarrow> map_option ((@) xs) (follow_pages fetch k n (Some c')))"

text \<open>
  A list endpoint: the rows it lists, their keys, and the page it answers for a cursor and
  a page size.  A cursor has to be readable and the page size within the endpoint's cap.
\<close>

locale keyset =
  fixes key :: "'r \<Rightarrow> 'k::linorder"
    and rows :: "'r list"
    and fetch :: "'k option \<Rightarrow> nat \<Rightarrow> 'r list \<times> 'k option"
    and readable :: "'k \<Rightarrow> bool"
    and cap :: nat
  assumes fetch_page: "0 < n \<Longrightarrow> n \<le> cap \<Longrightarrow> \<forall>r \<in> set rows. readable (key r) \<Longrightarrow> \<forall>k. c = Some k \<longrightarrow> readable k \<Longrightarrow> fetch c n =
      (let xs = rows_behind key rows c
       in (take n xs, if n < length xs then Some (key (last (take n xs))) else None))"
begin

abbreviation after :: "'k option \<Rightarrow> 'r list" where
  "after \<equiv> rows_behind key rows"

lemma after_sorted:
  assumes "distinct (map key rows)"
  shows "sorted_wrt (\<lambda>a b. key b < key a) (after c)"
proof -
  define ys where "ys = filter (\<lambda>r. case c of None \<Rightarrow> True | Some k \<Rightarrow> key r < k) rows"
  have "distinct (map key ys)" using assms by (simp add: ys_def distinct_map_filter)
  then have "sorted_wrt (<) (map key (sort_key key ys))"
    by (simp add: strict_sorted_iff distinct_map)
  then show ?thesis by (simp add: rows_behind_def desc_by_def ys_def sorted_wrt_rev sorted_wrt_map)
qed

lemma set_after: "set (after c) = {r \<in> set rows. case c of None \<Rightarrow> True | Some k \<Rightarrow> key r < k}"
  by (simp add: rows_behind_def desc_by_def)

lemma sorted_eq:
  assumes "sorted_wrt (\<lambda>a b. key b < key a) xs" "sorted_wrt (\<lambda>a b. key b < key a) ys" "set xs = set ys"
  shows "xs = ys"
proof -
  have "sorted_wrt (<) (map key (rev xs))" "sorted_wrt (<) (map key (rev ys))"
    using assms by (simp_all add: sorted_wrt_map sorted_wrt_rev)
  then have "map key (rev xs) = map key (rev ys)"
    by (intro sorted_distinct_set_unique) (use assms(3) in \<open>simp_all add: strict_sorted_iff\<close>)
  moreover have "inj_on key (set (rev xs) \<union> set (rev ys))"
  proof -
    have "distinct (map key (rev ys))" using \<open>sorted_wrt (<) (map key (rev ys))\<close> strict_sorted_iff by blast
    then have "inj_on key (set ys)" by (simp add: distinct_map)
    then show ?thesis using assms(3) by simp
  qed
  ultimately have "rev xs = rev ys" by (simp add: inj_on_map_eq_map)
  then show ?thesis by simp
qed

lemma after_step:
  assumes "0 < n" and "n < length (after c)" and d: "distinct (map key rows)"
  shows "after (Some (key (last (take n (after c))))) = drop n (after c)"
proof -
  define xs where "xs = after c"
  have "take n xs \<noteq> []" using assms by (auto simp: xs_def)
  then obtain ys z where y: "take n xs = ys @ [z]" using rev_exhaust by blast
  define zs where "zs = drop n xs"
  have x: "after c = ys @ z # zs" using append_take_drop_id [of n xs] unfolding y zs_def [symmetric] by (simp add: xs_def)
  have so: "sorted_wrt (\<lambda>a b. key b < key a) (ys @ z # zs)" using after_sorted [OF d, of c] x by simp
  have hi: "key z < key r" if "r \<in> set ys" for r using so that by (simp add: sorted_wrt_append)
  have lo: "key r < key z" if "r \<in> set (zs)" for r using so that by (simp add: sorted_wrt_append)
  have zc: "case c of None \<Rightarrow> True | Some k \<Rightarrow> key z < k" using set_after [of c] x by auto
  have s: "r \<in> set rows \<and> (case c of None \<Rightarrow> True | Some k \<Rightarrow> key r < k) \<longleftrightarrow> r \<in> set ys \<or> r = z \<or> r \<in> set (zs)" for r
  proof -
    have "set (after c) = set (ys @ z # zs)" using x by simp
    then show ?thesis unfolding set_after by auto
  qed
  have "set (after (Some (key z))) = set (zs)"
  proof (intro set_eqI)
    fix r
    have "key r < key z \<Longrightarrow> (case c of None \<Rightarrow> True | Some k \<Rightarrow> key r < k)" using zc by (auto split: option.splits)
    then show "r \<in> set (after (Some (key z))) \<longleftrightarrow> r \<in> set (zs)"
      using s [of r] hi lo by (auto simp: set_after dest: less_asym)
  qed
  then have "after (Some (key z)) = zs"
    by (intro sorted_eq [OF after_sorted [OF d]]) (use so in \<open>simp_all add: sorted_wrt_append\<close>)
  then show ?thesis using y by (simp add: xs_def zs_def)
qed

lemma follow_all:
  assumes "0 < n" "n \<le> cap" and d: "distinct (map key rows)" and ok: "\<forall>r \<in> set rows. readable (key r)"
    and "length (after c) \<le> k" and "\<forall>k. c = Some k \<longrightarrow> readable k"
  shows "follow_pages fetch (Suc k) n c = Some (after c)"
  using assms(5,6)
proof (induction k arbitrary: c)
  case 0
  then show ?case using fetch_page [OF assms(1,2) ok 0(2)] by simp
next
  case (Suc k)
  note page = fetch_page [OF assms(1,2) ok Suc.prems(2)]
  show ?case
  proof (cases "n < length (after c)")
    case True
    let ?z = "last (take n (after c))"
    have "?z \<in> set (take n (after c))" using True assms(1) by (intro last_in_set) auto
    then have "?z \<in> set rows" using set_take_subset [of n "after c"] by (auto simp: set_after)
    then have r: "\<forall>k. Some (key ?z) = Some k \<longrightarrow> readable k" using ok by simp
    have st: "after (Some (key ?z)) = drop n (after c)" by (rule after_step [OF assms(1) True d])
    have "length (drop n (after c)) \<le> k" using Suc.prems assms(1) by simp
    then have f: "follow_pages fetch (Suc k) n (Some (key ?z)) = Some (drop n (after c))"
      using Suc.IH [OF _ r] st by simp
    have p: "fetch c n = (take n (after c), Some (key ?z))" using True page by (simp add: Let_def)
    have "follow_pages fetch (Suc (Suc k)) n c =
        map_option ((@) (take n (after c))) (follow_pages fetch (Suc k) n (Some (key ?z)))"
      by (subst follow_pages.simps(2)) (simp only: p prod.case option.case)
    then show ?thesis by (simp add: f del: follow_pages.simps)
  next
    case False
    then show ?thesis using page by simp
  qed
qed

end

lemma page_loop_run:
  "page_loop limit rs items =
     (let k = nat (limit - int (length items)) in
      (items @ take k rs, if k < length rs then Some (last (items @ take k rs)) else None))"
proof (induction limit rs items rule: page_loop.induct)
  case (2 limit r rs items)
  show ?case
  proof (cases "limit \<le> int (length items)")
    case False
    define k where "k = nat (limit - int (length (items @ [r])))"
    have k: "nat (limit - int (length items)) = Suc k" using False by (simp add: k_def)
    have "page_loop limit rs (items @ [r]) =
        ((items @ [r]) @ take k rs, if k < length rs then Some (last ((items @ [r]) @ take k rs)) else None)"
      using 2 [OF False] by (simp only: k_def Let_def)
    with False show ?thesis unfolding k Let_def by simp
  qed simp
qed simp

section \<open>Messages\<close>

text \<open>The parameter \<^verbatim>\<open>limit\<close>: 50 when absent, at most 200.\<close>

definition limit_param :: "query \<Rightarrow> int option" where
  "limit_param q = map_option (\<lambda>v. if v > 200 then 200 else v) (int_param (\<lambda>v. 0 < v) 50 (q ''limit''))"

definition message_matches :: "hub_db \<Rightarrow> string \<Rightarrow> string \<Rightarrow> messageRow \<Rightarrow> bool" where
  "message_matches d flt src m \<longleftrightarrow>
     (if flt = ''unread'' then m_ReadAt m = None
      else if flt = ''feedback'' then
        (\<exists>s \<in> set (d_sources d). s_ID s = m_SourceID m \<and> s_Kind s = ''feedback'') \<and> m_FaultID m = None
      else if flt = ''faults'' then m_FaultID m \<noteq> None
      else True) \<and>
     (src = [] \<or> m_SourceID m = src)"

definition message_filters :: "string list" where
  "message_filters = [''all'', ''unread'', ''feedback'', ''faults'']"

definition or_all :: "string \<Rightarrow> string" where
  "or_all v = (if v = [] then ''all'' else v)"

definition handleMessages :: "query \<Rightarrow> hub_db \<Rightarrow> (messageJSON list \<times> string option) answer" where
  "handleMessages q d =
     (let flt = or_all (q ''filter'') in
      if flt \<notin> set message_filters then AnswerErr 400 ''invalid_request''
      else case limit_param q of
        None \<Rightarrow> AnswerErr 400 ''invalid_request''
      | Some limit \<Rightarrow>
          (let rows = take (nat (limit + 1)) (desc_by m_ID (filter (\<lambda>m. message_matches d flt (q ''source'') m \<and>
                        (q ''cursor'' = [] \<or> m_ID m < q ''cursor'')) (d_messages d)));
               (items, over) = page_loop limit rows []
           in AnswerOk 200 (map (\<lambda>m. toMessageJSON m (sourceName d (m_SourceID m))) items, map_option m_ID over)))"

definition handleMessageDetail :: "string \<Rightarrow> hub_db \<Rightarrow> (messageJSON \<times> faultJSON option) answer" where
  "handleMessageDetail i d =
     (case find (\<lambda>m. m_ID m = i) (d_messages d) of
        None \<Rightarrow> AnswerErr 404 ''not_found''
      | Some m \<Rightarrow>
          AnswerOk 200 (toMessageJSON m (sourceName d (m_SourceID m)),
            Option.bind (m_FaultID m) (\<lambda>f. map_option (\<lambda>r. toFaultJSON r (sourceName d (f_SourceID r)))
              (find (\<lambda>r. f_ID r = f) (d_faults d)))))"

section \<open>Faults\<close>

text \<open>\<^verbatim>\<open>strings.SplitN(c, "|", 2)\<close>: \<open>None\<close> when there is no bar.\<close>

fun split_bar :: "string \<Rightarrow> (string \<times> string) option" where
  "split_bar [] = None"
| "split_bar (c # s) =
     (if c = CHR ''|'' then Some ([], s) else map_option (\<lambda>(a, b). (c # a, b)) (split_bar s))"

definition fault_key_of :: "faultRow \<Rightarrow> string \<times> string" where
  "fault_key_of f = (f_LastEventAt f, f_ID f)"

definition handleFaults :: "query \<Rightarrow> hub_db \<Rightarrow> (faultJSON list \<times> string option) answer" where
  "handleFaults q d =
     (let st = or_all (q ''state'') in
      if st \<notin> set [''open'', ''resolved'', ''all''] then AnswerErr 400 ''invalid_request''
      else case limit_param q of
        None \<Rightarrow> AnswerErr 400 ''invalid_request''
      | Some limit \<Rightarrow>
          if q ''cursor'' \<noteq> [] \<and> split_bar (q ''cursor'') = None then AnswerErr 400 ''invalid_request''
          else
            (let before = (if q ''cursor'' = [] then None else split_bar (q ''cursor''));
                 rows = take (nat (limit + 1)) (desc_by fault_key_of (filter (\<lambda>f. (st = ''all'' \<or> f_State f = st) \<and>
                   (case before of None \<Rightarrow> True
                    | Some (a, b) \<Rightarrow> f_LastEventAt f < a \<or> f_LastEventAt f = a \<and> f_ID f < b)) (d_faults d)));
                 (items, over) = page_loop limit rows []
             in AnswerOk 200 (map (\<lambda>f. toFaultJSON f (sourceName d (f_SourceID f))) items,
                  map_option (\<lambda>f. f_LastEventAt f @ ''|'' @ f_ID f) over)))"


section \<open>The contract holds for both lists\<close>

lemma insort_key_map: "insort_key f (g x) (map g xs) = map g (insort_key (\<lambda>y. f (g y)) x xs)"
  by (induction xs) simp_all

lemma desc_by_map: "desc_by f (map g xs) = map g (desc_by (\<lambda>y. f (g y)) xs)"
proof -
  have "sort_key f (map g xs) = map g (sort_key (\<lambda>y. f (g y)) xs)"
    by (induction xs) (simp_all add: insort_key_map)
  then show ?thesis by (simp add: desc_by_def rev_map)
qed

definition fj_key :: "faultJSON \<Rightarrow> string \<times> string" where
  "fj_key j = (fj_LastEventAt j, fj_ID j)"

lemma fj_key_toFaultJSON [simp]: "fj_key (toFaultJSON f n) = fault_key_of f"
  by (simp add: fj_key_def toFaultJSON_def fault_key_of_def)

lemma mj_ID_toMessageJSON [simp]: "mj_ID (toMessageJSON m n) = m_ID m"
  by (simp add: toMessageJSON_def)

lemma desc_by_messages:
  "desc_by mj_ID (map (\<lambda>m. toMessageJSON m (name m)) ms) = map (\<lambda>m. toMessageJSON m (name m)) (desc_by m_ID ms)"
  using desc_by_map [of mj_ID "\<lambda>m. toMessageJSON m (name m)" ms] by (simp add: toMessageJSON_def)

lemma desc_by_faults:
  "desc_by fj_key (map (\<lambda>f. toFaultJSON f (name f)) fs) = map (\<lambda>f. toFaultJSON f (name f)) (desc_by fault_key_of fs)"
  using desc_by_map [of fj_key "\<lambda>f. toFaultJSON f (name f)" fs] by simp

lemma page_loop_page:
  assumes "0 < n"
  shows "page_loop (int n) (take (Suc n) rs) [] = (take n rs, if n < length rs then Some (last (take n rs)) else None)"
  using assms by (auto simp: page_loop_run Let_def)

definition list_query :: "(string \<times> string) list \<Rightarrow> query" where
  "list_query ps k = (case map_of ps k of None \<Rightarrow> [] | Some v \<Rightarrow> v)"

lemma limit_param_dec:
  assumes "0 < n" and "n \<le> 200" and "q ''limit'' = dec_int (int n)"
  shows "limit_param q = Some (int n)"
  using assms dec_int_head [of "int n"] by (simp add: limit_param_def int_param_def parse_int64_dec)

definition message_fetch :: "hub_db \<Rightarrow> string \<Rightarrow> string \<Rightarrow> string option \<Rightarrow> nat \<Rightarrow> messageJSON list \<times> string option" where
  "message_fetch d flt src c n =
     (case handleMessages (list_query [(''filter'', flt), (''source'', src), (''limit'', dec_int (int n)),
         (''cursor'', case c of None \<Rightarrow> [] | Some k \<Rightarrow> k)]) d of
        AnswerErr _ _ \<Rightarrow> ([], None) | AnswerOk _ p \<Rightarrow> p)"

definition message_list :: "hub_db \<Rightarrow> string \<Rightarrow> string \<Rightarrow> messageJSON list" where
  "message_list d flt src =
     (if or_all flt \<in> set message_filters
      then map (\<lambda>m. toMessageJSON m (sourceName d (m_SourceID m))) (filter (message_matches d (or_all flt) src) (d_messages d))
      else [])"

lemma rows_behind_Nil [simp]: "rows_behind key [] c = []"
  by (simp add: rows_behind_def desc_by_def)

lemma message_fetch_page:
  assumes "0 < n" "n \<le> 200" "\<forall>k. c = Some k \<longrightarrow> k \<noteq> []"
  shows "message_fetch d flt src c n =
    (let xs = rows_behind mj_ID (message_list d flt src) c
     in (take n xs, if n < length xs then Some (mj_ID (last (take n xs))) else None))"
proof (cases "or_all flt \<in> set message_filters")
  case False
  then show ?thesis by (simp add: message_fetch_def handleMessages_def list_query_def message_list_def)
next
  case True
  let ?q = "list_query [(''filter'', flt), (''source'', src), (''limit'', dec_int (int n)),
    (''cursor'', case c of None \<Rightarrow> [] | Some k \<Rightarrow> k)]"
  define J where "J m = toMessageJSON m (sourceName d (m_SourceID m))" for m :: messageRow
  define M where "M = message_matches d (or_all flt) src"
  define rs where "rs = desc_by m_ID (filter (\<lambda>m. M m \<and> (case c of None \<Rightarrow> True | Some k \<Rightarrow> m_ID m < k)) (d_messages d))"
  have q: "?q ''filter'' = flt" "?q ''source'' = src" "?q ''cursor'' = (case c of None \<Rightarrow> [] | Some k \<Rightarrow> k)"
    "limit_param ?q = Some (int n)"
    using assms(1,2) by (auto simp: list_query_def intro!: limit_param_dec)
  have cur: "((case c of None \<Rightarrow> [] | Some k \<Rightarrow> k) = [] \<or> m_ID m < (case c of None \<Rightarrow> [] | Some k \<Rightarrow> k)) =
      (case c of None \<Rightarrow> True | Some k \<Rightarrow> m_ID m < k)" for m
    using assms(3) by (cases c) auto
  have n: "nat (int n + 1) = Suc n" by simp
  have h: "message_fetch d flt src c n = (map J (take n rs), map_option m_ID (if n < length rs then Some (last (take n rs)) else None))"
    unfolding message_fetch_def handleMessages_def q option.case Let_def
    using True assms(1) by (simp only: n cur M_def [symmetric] rs_def [symmetric] J_def [symmetric] page_loop_page if_False simp_thms) simp
  have x: "rows_behind mj_ID (message_list d flt src) c = map J rs"
    unfolding rows_behind_def message_list_def if_P [OF True] filter_map comp_def mj_ID_toMessageJSON filter_filter
      desc_by_messages rs_def M_def J_def by (simp only: conj_commute)
  have "last (map J (take n rs)) = J (last (take n rs))" if "n < length rs"
    using that assms(1) by (intro last_map) auto
  then show ?thesis unfolding h x Let_def by (auto simp: take_map J_def)
qed

interpretation mp: keyset mj_ID "message_list d flt src" "message_fetch d flt src" "\<lambda>k. k \<noteq> []" 200 for d flt src
  by unfold_locales (rule message_fetch_page)

definition fault_fetch :: "hub_db \<Rightarrow> string \<Rightarrow> (string \<times> string) option \<Rightarrow> nat \<Rightarrow> faultJSON list \<times> (string \<times> string) option" where
  "fault_fetch d st c n =
     (case handleFaults (list_query [(''state'', st), (''limit'', dec_int (int n)),
         (''cursor'', case c of None \<Rightarrow> [] | Some (a, b) \<Rightarrow> a @ ''|'' @ b)]) d of
        AnswerErr _ _ \<Rightarrow> ([], None) | AnswerOk _ (xs, cur) \<Rightarrow> (xs, Option.bind cur split_bar))"

definition fault_list :: "hub_db \<Rightarrow> string \<Rightarrow> faultJSON list" where
  "fault_list d st =
     (if or_all st \<in> set [''open'', ''resolved'', ''all'']
      then map (\<lambda>f. toFaultJSON f (sourceName d (f_SourceID f)))
        (filter (\<lambda>f. or_all st = ''all'' \<or> f_State f = or_all st) (d_faults d))
      else [])"

lemma split_bar_join: "CHR ''|'' \<notin> set a \<Longrightarrow> split_bar (a @ CHR ''|'' # b) = Some (a, b)"
  by (induction a) auto

definition bar_free :: "string \<times> string \<Rightarrow> bool" where
  "bar_free k \<longleftrightarrow> CHR ''|'' \<notin> set (fst k)"

lemma fault_fetch_page:
  assumes "0 < n" "n \<le> 200" "\<forall>r \<in> set (fault_list d st). bar_free (fj_key r)" "\<forall>k. c = Some k \<longrightarrow> bar_free k"
  shows "fault_fetch d st c n =
    (let xs = rows_behind fj_key (fault_list d st) c
     in (take n xs, if n < length xs then Some (fj_key (last (take n xs))) else None))"
proof (cases "or_all st \<in> set [''open'', ''resolved'', ''all'']")
  case False
  then show ?thesis by (simp add: fault_fetch_def handleFaults_def list_query_def fault_list_def)
next
  case True
  let ?c = "case c of None \<Rightarrow> [] | Some (a, b) \<Rightarrow> a @ ''|'' @ b"
  let ?q = "list_query [(''state'', st), (''limit'', dec_int (int n)), (''cursor'', ?c)]"
  define J where "J f = toFaultJSON f (sourceName d (f_SourceID f))" for f :: faultRow
  define M where "M f = (or_all st = ''all'' \<or> f_State f = or_all st)" for f :: faultRow
  define rs where "rs = desc_by fault_key_of (filter (\<lambda>f. M f \<and> (case c of None \<Rightarrow> True | Some k \<Rightarrow> fault_key_of f < k)) (d_faults d))"
  have q: "?q ''state'' = st" "?q ''cursor'' = ?c" "limit_param ?q = Some (int n)"
    using assms(1,2) by (auto simp: list_query_def intro!: limit_param_dec)
  have c: "(if ?c = [] then None else split_bar ?c) = c" "(?c \<noteq> [] \<and> split_bar ?c = None) = False"
    using assms(4) split_bar_join by (auto simp: bar_free_def split: option.splits prod.splits)
  have lex: "(case c of None \<Rightarrow> True | Some (a, b) \<Rightarrow> f_LastEventAt f < a \<or> f_LastEventAt f = a \<and> f_ID f < b) =
      (case c of None \<Rightarrow> True | Some k \<Rightarrow> fault_key_of f < k)" for f
    by (auto simp: fault_key_of_def less_prod_def' split: option.splits)
  have n: "nat (int n + 1) = Suc n" by simp
  have h: "fault_fetch d st c n = (map J (take n rs),
      Option.bind (map_option (\<lambda>f. f_LastEventAt f @ ''|'' @ f_ID f) (if n < length rs then Some (last (take n rs)) else None)) split_bar)"
    unfolding fault_fetch_def handleFaults_def q option.case Let_def
    using True assms(1) by (simp only: c lex n M_def [symmetric] rs_def [symmetric] J_def [symmetric] page_loop_page if_False simp_thms) simp
  have x: "rows_behind fj_key (fault_list d st) c = map J rs"
    unfolding rows_behind_def fault_list_def if_P [OF True] filter_map comp_def fj_key_toFaultJSON filter_filter
      desc_by_faults rs_def M_def J_def by (simp only: conj_commute)
  have l: "last (map J (take n rs)) = J (last (take n rs))" "split_bar (f_LastEventAt (last (take n rs)) @ ''|'' @ f_ID (last (take n rs))) =
      Some (fault_key_of (last (take n rs)))" if "n < length rs"
  proof -
    have ne: "take n rs \<noteq> []" using that assms(1) by auto
    then show "last (map J (take n rs)) = J (last (take n rs))" by (rule last_map)
    have "last (take n rs) \<in> set rs" by (rule in_set_takeD [OF last_in_set [OF ne]])
    then have "J (last (take n rs)) \<in> set (fault_list d st)"
      unfolding fault_list_def if_P [OF True] J_def rs_def desc_by_def M_def [symmetric] set_map set_rev set_sort set_filter
      by blast
    then have "bar_free (fault_key_of (last (take n rs)))" using assms(3) by (force simp: J_def)
    then show "split_bar (f_LastEventAt (last (take n rs)) @ ''|'' @ f_ID (last (take n rs))) =
      Some (fault_key_of (last (take n rs)))" by (simp add: bar_free_def fault_key_of_def split_bar_join)
  qed
  then show ?thesis unfolding h x Let_def by (auto simp: take_map J_def)
qed

interpretation fp: keyset fj_key "fault_list d st" "fault_fetch d st" bar_free 200 for d st
  by unfold_locales (rule fault_fetch_page)

lemma follow_length:
  "length (rows_behind key rows c) \<le> length rows"
  by (simp add: rows_behind_def desc_by_def)

text \<open>
  Following the cursors of the message list, with any filter, source and page size up
  to 200, delivers every matching message exactly once, newest identifier first, within one
  request more than there are messages.
\<close>

theorem message_pages_complete:
  assumes "distinct (map m_ID (d_messages d))" and "\<forall>m \<in> set (d_messages d). m_ID m \<noteq> []"
    and "flt \<in> set message_filters" and "0 < n" and "n \<le> 200"
  shows "follow_pages (message_fetch d flt src) (Suc (length (d_messages d))) n None =
    Some (map (\<lambda>m. toMessageJSON m (sourceName d (m_SourceID m)))
      (rev (sort_key m_ID (filter (message_matches d flt src) (d_messages d)))))"
proof -
  have f: "or_all flt = flt" using assms(3) by (auto simp: message_filters_def or_all_def)
  have l: "message_list d flt src = map (\<lambda>m. toMessageJSON m (sourceName d (m_SourceID m))) (filter (message_matches d flt src) (d_messages d))"
    using assms(3) by (simp add: message_list_def f)
  have k: "length (rows_behind mj_ID (message_list d flt src) None) \<le> length (d_messages d)"
    using follow_length [of mj_ID "message_list d flt src" None] length_filter_le [of "message_matches d flt src" "d_messages d"]
    unfolding l length_map by (rule order_trans)
  have "distinct (map mj_ID (message_list d flt src))" "\<forall>r \<in> set (message_list d flt src). mj_ID r \<noteq> []"
    using assms(1,2) by (simp_all add: l comp_def distinct_map_filter)
  from mp.follow_all [OF assms(4,5) this k] show ?thesis
    by (simp add: rows_behind_def l desc_by_messages del: follow_pages.simps) (simp add: desc_by_def)
qed

text \<open>
  The same for the fault list: following its compound cursors delivers every fault of
  the requested state exactly once, most recently active first.
\<close>

theorem fault_pages_complete:
  assumes "distinct (map f_ID (d_faults d))" and "\<forall>f \<in> set (d_faults d). CHR ''|'' \<notin> set (f_LastEventAt f)"
    and "st \<in> set [''open'', ''resolved'', ''all'']" and "0 < n" and "n \<le> 200"
  shows "follow_pages (fault_fetch d st) (Suc (length (d_faults d))) n None =
    Some (map (\<lambda>f. toFaultJSON f (sourceName d (f_SourceID f)))
      (rev (sort_key fault_key_of (filter (\<lambda>f. st = ''all'' \<or> f_State f = st) (d_faults d)))))"
proof -
  have f: "or_all st = st" using assms(3) by (auto simp: or_all_def)
  define fs where "fs = filter (\<lambda>f. st = ''all'' \<or> f_State f = st) (d_faults d)"
  have l: "fault_list d st = map (\<lambda>f. toFaultJSON f (sourceName d (f_SourceID f))) fs"
    using assms(3) by (simp add: fault_list_def f fs_def)
  have k: "length (rows_behind fj_key (fault_list d st) None) \<le> length (d_faults d)"
    using follow_length [of fj_key "fault_list d st" None] length_filter_le [of "\<lambda>f. st = ''all'' \<or> f_State f = st" "d_faults d"]
    unfolding l length_map fs_def by (rule order_trans)
  have "distinct (map fault_key_of fs)"
    using distinct_map_filter [OF assms(1)] unfolding fs_def by (auto simp: distinct_map fault_key_of_def inj_on_def)
  then have u: "distinct (map fj_key (fault_list d st))" by (simp add: l comp_def)
  have r: "\<forall>r \<in> set (fault_list d st). bar_free (fj_key r)"
    using assms(2) by (simp add: l fs_def bar_free_def fault_key_of_def)
  from fp.follow_all [OF assms(4,5) u r k] show ?thesis
    by (simp add: rows_behind_def l desc_by_faults fs_def del: follow_pages.simps) (simp add: desc_by_def)
qed


section \<open>Witnesses\<close>

definition list_message :: "string \<Rightarrow> messageRow" where
  "list_message i = \<lparr>m_ID = i, m_SourceID = ''src_1'', m_Kind = ''incident'', m_Severity = ''info'', m_Title = ''t'',
     m_Body = None, m_OccurredAt = ''2023-11-14T00:00:00.000Z'', m_ReceivedAt = ''2023-11-14T00:00:00.000Z'',
     m_ReadAt = None, m_FaultID = None, m_Incident = None, m_Ref = None, m_Attachments = [], m_EventID = i,
     m_EventSeq = 1, m_FaultKey = None, m_OutOfOrder = False, m_ChangeSeq = 1\<rparr>"

definition list_db :: hub_db where
  "list_db = empty_db\<lparr>d_messages := map list_message [''b'', ''a'', ''c''],
     d_faults := [newFaultRow ''f1'' ''src_1'' ''k1'' (sample_event ''e'' 5 ''open''),
                  newFaultRow ''f2'' ''src_1'' ''k2'' (sample_event ''e'' 5 ''open'')]\<rparr>"

theorem message_pages_complete_witness:
  "map_option (map mj_ID) (follow_pages (message_fetch list_db ''unread'' []) 4 2 None) = Some [''c'', ''b'', ''a'']"
proof -
  have l: "Suc (length (d_messages list_db)) = 4" by (simp add: list_db_def)
  have "distinct (map m_ID (d_messages list_db))" "\<forall>m \<in> set (d_messages list_db). m_ID m \<noteq> []"
    "''unread'' \<in> set message_filters" "0 < (2 :: nat)" "(2 :: nat) \<le> 200"
    by (simp_all add: list_db_def list_message_def message_filters_def)
  from message_pages_complete [OF this, of "[]"]
  have f: "follow_pages (message_fetch list_db ''unread'' []) 4 2 None =
    Some (map (\<lambda>m. toMessageJSON m (sourceName list_db (m_SourceID m)))
      (rev (sort_key m_ID (filter (message_matches list_db ''unread'' []) (d_messages list_db)))))"
    unfolding l .
  have "rev (sort_key m_ID (filter (message_matches list_db ''unread'' []) (d_messages list_db))) =
      map list_message [''c'', ''b'', ''a'']"
    by (simp add: list_db_def list_message_def message_matches_def)
  then show ?thesis unfolding f by (simp add: list_message_def)
qed

theorem fault_pages_complete_witness:
  "map_option (map fj_ID) (follow_pages (fault_fetch list_db ''open'') 3 1 None) = Some [''f2'', ''f1'']"
proof -
  have l: "Suc (length (d_faults list_db)) = 3" by (simp add: list_db_def)
  have "distinct (map f_ID (d_faults list_db))" "\<forall>f \<in> set (d_faults list_db). CHR ''|'' \<notin> set (f_LastEventAt f)"
    "''open'' \<in> set [''open'', ''resolved'', ''all'']" "0 < (1 :: nat)" "(1 :: nat) \<le> 200"
    by (simp_all add: list_db_def newFaultRow_def sample_event_def)
  from fault_pages_complete [OF this]
  have f: "follow_pages (fault_fetch list_db ''open'') 3 1 None =
    Some (map (\<lambda>f. toFaultJSON f (sourceName list_db (f_SourceID f)))
      (rev (sort_key fault_key_of (filter (\<lambda>f. ''open'' = ''all'' \<or> f_State f = ''open'') (d_faults list_db)))))"
    unfolding l .
  have "map f_ID (rev (sort_key fault_key_of (filter (\<lambda>f. ''open'' = ''all'' \<or> f_State f = ''open'') (d_faults list_db)))) =
      [''f2'', ''f1'']"
    by (simp add: list_db_def newFaultRow_def sample_event_def fault_key_of_def)
  then show ?thesis unfolding f by (simp add: comp_def toFaultJSON_def)
qed

end
