(* ===== verification/Flags.thy ===== *)
theory Flags
  imports Paging
begin

text \<open>
  The marks a client sets (\<^verbatim>\<open>setMessageRead\<close>, \<^verbatim>\<open>handleMessagesReadAll\<close> and
  \<^verbatim>\<open>updateFaultFlags\<close> of \<^verbatim>\<open>hub/api.go\<close>) and the overview.  A mark that is
  already as requested writes nothing; any other writes the row and one change.
\<close>

section \<open>Operations\<close>

definition finish :: "'a htx \<Rightarrow> hub \<Rightarrow> 'a answer \<times> hub" where
  "finish m s =
     (case withTx m s of
        (Inl e, t) \<Rightarrow> (if e = ErrNoRows then AnswerErr 404 ''not_found'' else AnswerErr 500 ''internal'', t)
      | (Inr x, t) \<Rightarrow> (AnswerOk 200 x, t))"

text \<open>The row \<open>m\<close> with its new \<^verbatim>\<open>read_at\<close>: update, change entry, change number.\<close>

definition storeReadTx :: "env \<Rightarrow> messageRow \<Rightarrow> string option \<Rightarrow> messageJSON htx" where
  "storeReadTx E m ra =
     thenT (mod_db (\<lambda>d. d\<lparr>d_messages := upd_where (\<lambda>r. m_ID r = m_ID m) (\<lambda>r. r\<lparr>m_ReadAt := ra\<rparr>) (d_messages d)\<rparr>)) (
     bindT (get_db (\<lambda>d. toMessageJSON (m\<lparr>m_ReadAt := ra\<rparr>) (sourceName d (m_SourceID m)))) (\<lambda>mj.
     bindT (emitChangeTx E ''message'' (m_ID m) (\<lambda>q. DMessage (mj\<lparr>mj_ChangeSeq := q\<rparr>)) None) (\<lambda>q.
     thenT (mod_db (\<lambda>d. d\<lparr>d_messages := upd_where (\<lambda>r. m_ID r = m_ID m) (\<lambda>r. r\<lparr>m_ChangeSeq := q\<rparr>) (d_messages d)\<rparr>))
       (retT (mj\<lparr>mj_ChangeSeq := q\<rparr>)))))"

definition setMessageReadTx :: "env \<Rightarrow> string \<Rightarrow> bool \<Rightarrow> messageJSON htx" where
  "setMessageReadTx E i rd =
     bindT (loadMessageTx i) (\<lambda>m.
       if rd = (m_ReadAt m \<noteq> None) then get_db (\<lambda>d. toMessageJSON m (sourceName d (m_SourceID m)))
       else if rd then bindT (nowUTC E) (\<lambda>now. storeReadTx E m (Some (fmtTS now)))
       else storeReadTx E m None)"

definition setMessageRead :: "env \<Rightarrow> string \<Rightarrow> bool \<Rightarrow> hub \<Rightarrow> messageJSON answer \<times> hub" where
  "setMessageRead E i rd = finish (setMessageReadTx E i rd)"

definition handleMessageRead :: "env \<Rightarrow> string \<Rightarrow> hub \<Rightarrow> messageJSON answer \<times> hub" where
  "handleMessageRead E i = setMessageRead E i True"

definition handleMessageUnread :: "env \<Rightarrow> string \<Rightarrow> hub \<Rightarrow> messageJSON answer \<times> hub" where
  "handleMessageUnread E i = setMessageRead E i False"

text \<open>\<^verbatim>\<open>WHERE read_at IS NULL AND received_at <= ?\<close>.\<close>

definition unread_before :: "time option \<Rightarrow> messageRow \<Rightarrow> bool" where
  "unread_before bts m \<longleftrightarrow>
     m_ReadAt m = None \<and> (case bts of None \<Rightarrow> True | Some t \<Rightarrow> m_ReceivedAt m \<le> fmtTS t)"

definition readAllTx :: "env \<Rightarrow> time option \<Rightarrow> int htx" where
  "readAllTx E bts =
     bindT (get_db (\<lambda>d. sort (map m_ID (filter (unread_before bts) (d_messages d))))) (\<lambda>ids.
     bindT (nowUTC E) (\<lambda>now.
     foldT (\<lambda>i updated. bindT (loadMessageTx i) (\<lambda>m.
       thenT (storeReadTx E m (Some (fmtTS now))) (retT (updated + 1)))) ids 0))"

definition handleMessagesReadAll :: "env \<Rightarrow> string option \<Rightarrow> hub \<Rightarrow> int answer \<times> hub" where
  "handleMessagesReadAll E before s =
     (let run = (\<lambda>bts. case withTx (readAllTx E bts) s of
          (Inl e, t) \<Rightarrow> (AnswerErr 500 ''internal'', t) | (Inr n, t) \<Rightarrow> (AnswerOk 200 n, t)) in
      case before of
        None \<Rightarrow> run None
      | Some b \<Rightarrow> if b = [] then run None
          else case parseTS b of None \<Rightarrow> (AnswerErr 400 ''invalid_request'', s) | Some t \<Rightarrow> run (Some t))"

text \<open>The \<^verbatim>\<open>switch op\<close>: \<open>None\<close> is the early return that writes nothing.\<close>

definition flag_step :: "string \<Rightarrow> string \<Rightarrow> faultRow \<Rightarrow> faultRow option" where
  "flag_step op now f =
     (if op = ''read'' then (if f_ReadAt f = None then Some (f\<lparr>f_ReadAt := Some now\<rparr>) else None)
      else if op = ''mute'' then
        (if f_MutedAt f = None then Some (f\<lparr>f_MutedAt := Some now, f_MutedUntil := None\<rparr>) else None)
      else if op = ''unmute'' then
        (if f_MutedAt f \<noteq> None then Some (f\<lparr>f_MutedAt := None, f_MutedUntil := None\<rparr>) else None)
      else Some f)"

definition updateFaultFlagsTx :: "env \<Rightarrow> string \<Rightarrow> string \<Rightarrow> faultJSON htx" where
  "updateFaultFlagsTx E i op =
     bindT (loadFaultByID i) (\<lambda>f.
     bindT (nowUTC E) (\<lambda>now.
     case flag_step op (fmtTS now) f of
       None \<Rightarrow> get_db (\<lambda>d. toFaultJSON f (sourceName d (f_SourceID f)))
     | Some g \<Rightarrow>
         thenT (mod_db (\<lambda>d. d\<lparr>d_faults := upd_where (\<lambda>r. f_ID r = f_ID g)
           (\<lambda>r. r\<lparr>f_ReadAt := f_ReadAt g, f_MutedAt := f_MutedAt g, f_MutedUntil := f_MutedUntil g\<rparr>) (d_faults d)\<rparr>)) (
         bindT (get_db (\<lambda>d. toFaultJSON g (sourceName d (f_SourceID g)))) (\<lambda>fj.
         bindT (emitChangeTx E ''fault'' (f_ID g) (\<lambda>q. DFault (fj\<lparr>fj_ChangeSeq := q\<rparr>)) None) (\<lambda>q.
         thenT (mod_db (\<lambda>d. d\<lparr>d_faults := upd_where (\<lambda>r. f_ID r = f_ID g) (\<lambda>r. r\<lparr>f_ChangeSeq := q\<rparr>) (d_faults d)\<rparr>))
           (retT (fj\<lparr>fj_ChangeSeq := q\<rparr>)))))))"

definition updateFaultFlags :: "env \<Rightarrow> string \<Rightarrow> string \<Rightarrow> hub \<Rightarrow> faultJSON answer \<times> hub" where
  "updateFaultFlags E i op = finish (updateFaultFlagsTx E i op)"

definition handleFaultRead :: "env \<Rightarrow> string \<Rightarrow> hub \<Rightarrow> faultJSON answer \<times> hub" where
  "handleFaultRead E i = updateFaultFlags E i ''read''"

definition handleFaultMute :: "env \<Rightarrow> string \<Rightarrow> hub \<Rightarrow> faultJSON answer \<times> hub" where
  "handleFaultMute E i = updateFaultFlags E i ''mute''"

definition handleFaultUnmute :: "env \<Rightarrow> string \<Rightarrow> hub \<Rightarrow> faultJSON answer \<times> hub" where
  "handleFaultUnmute E i = updateFaultFlags E i ''unmute''"

section \<open>Overview\<close>

record openFault =
  of_id :: string
  of_sourceId :: string
  of_sourceName :: string
  of_faultKey :: string
  of_severity :: string
  of_title :: string
  of_openedAt :: string
  of_lastEventAt :: string
  of_incident :: int
  of_eventCount :: int
  of_muted :: bool
  of_read :: bool

record overview =
  ov_serverTime :: string
  ov_sources :: "sourceJSON list"
  ov_openFaults :: "openFault list"
  ov_unreadMessages :: int
  ov_rulesVersion :: int
  ov_settingsVersion :: int
  ov_dnd :: dndConfig

definition open_view :: "hub_db \<Rightarrow> faultRow \<Rightarrow> openFault" where
  "open_view d f =
     \<lparr>of_id = f_ID f, of_sourceId = f_SourceID f, of_sourceName = sourceName d (f_SourceID f),
      of_faultKey = f_FaultKey f, of_severity = f_Severity f, of_title = f_Title f, of_openedAt = f_OpenedAt f,
      of_lastEventAt = f_LastEventAt f, of_incident = f_Incident f, of_eventCount = f_EventCount f,
      of_muted = (f_MutedAt f \<noteq> None), of_read = (f_ReadAt f \<noteq> None)\<rparr>"

text \<open>
  \<open>handleOverview\<close>; \<^verbatim>\<open>toSourceJSON\<close> reads the clock for every source.  Faults with
  equal \<^verbatim>\<open>last_event_at\<close> may come in any order; the model takes the reverse of their
  rowid order.
\<close>

definition handleOverview :: "env \<Rightarrow> overview htx" where
  "handleOverview E =
     bindT (get_db heartbeatSeconds) (\<lambda>hb.
     bindT (get_db listSources) (\<lambda>srcs.
     bindT (foldT (\<lambda>s acc. bindT (nowUTC E) (\<lambda>now. retT (acc @ [toSourceJSON now s hb]))) srcs []) (\<lambda>sj.
     bindT (get_db (\<lambda>d. map (open_view d) (desc_by f_LastEventAt (filter (\<lambda>f. f_State f = ''open'') (d_faults d))))) (\<lambda>faults.
     bindT (get_db (\<lambda>d. int (length (filter (\<lambda>m. m_ReadAt m = None) (d_messages d))))) (\<lambda>unread.
     bindT loadRules (\<lambda>rules.
     bindT loadSettings (\<lambda>settings.
     bindT (nowUTC E) (\<lambda>now.
     retT \<lparr>ov_serverTime = fmtTS now, ov_sources = sj, ov_openFaults = faults, ov_unreadMessages = unread,
       ov_rulesVersion = rd_Version rules, ov_settingsVersion = sd_Version settings, ov_dnd = sd_DND settings\<rparr>))))))))"

section \<open>The invariant\<close>

lemma safe_upd_messages:
  "(\<And>r. m_ID (g r) = m_ID r) \<Longrightarrow> safe E (mod_db (\<lambda>d. d\<lparr>d_messages := upd_where p g (d_messages d)\<rparr>))"
  by (intro safe_mod_db) (simp_all add: map_upd_where)

lemma safe_storeReadTx: "safe E (storeReadTx E' m ra)"
  unfolding storeReadTx_def by (intro safe_intros safe_upd_messages) simp_all

lemma safe_setMessageReadTx: "safe E (setMessageReadTx E' i rd)"
  unfolding setMessageReadTx_def loadMessageTx_def by (intro safe_intros safe_storeReadTx)

lemma safe_readAllTx: "safe E (readAllTx E' bts)"
  unfolding readAllTx_def loadMessageTx_def by (intro safe_intros safe_storeReadTx)

lemma safe_upd_faults:
  assumes "\<And>r. f_ID (g r) = f_ID r \<and> fkey (g r) = fkey r \<and> f_State (g r) = f_State r \<and>
      f_OpenedBySeq (g r) = f_OpenedBySeq r \<and> (fault_wf r \<longrightarrow> fault_wf (g r))"
  shows "safe E (mod_db (\<lambda>d. d\<lparr>d_faults := upd_where p g (d_faults d)\<rparr>))"
proof -
  let ?m = "mod_db (\<lambda>d. d\<lparr>d_faults := upd_where p g (d_faults d)\<rparr>) :: unit htx"
  have "ghost_free ps (g r)" if "ghost_free ps r" for ps r
    using that assms [of r] by (simp add: ghost_free_def fkey_def)
  then have fi: "faults_inv E (s\<lparr>h_db := (h_db s)\<lparr>d_faults := upd_where p g (d_faults (h_db s))\<rparr>\<rparr>)" if "faults_inv E s" for s
    using that assms map_upd_where [of f_ID g] map_upd_where [of fkey g]
    by (auto simp: faults_inv_def Let_def set_upd_where image_subset_iff)
  have "hoare (hub_inv E) ?m (\<lambda>_. hub_inv E)"
    by (intro hoareI) (auto simp: hub_inv_def messages_inv_def changes_wf_def change_counter_def image_subset_iff fi)
  then show ?thesis
    unfolding safe_def by (intro conjI logged_mod_db idmono_mod_db) simp_all
qed

lemma safe_updateFaultFlagsTx: "safe E (updateFaultFlagsTx E' i op)"
  unfolding updateFaultFlagsTx_def loadFaultByID_def
  by (intro safe_intros safe_upd_faults) (simp_all add: fkey_def fault_wf_def)

lemma finish_keeps: "safe E m \<Longrightarrow> hub_inv E s \<Longrightarrow> hub_inv E (snd (finish m s))"
  using withTx_keeps [of E m] by (auto simp: finish_def obeys_def keeps_def split: prod.splits sum.splits)


section \<open>Read marks\<close>

lemma sourceName_frame [simp]:
  "sourceName (d\<lparr>d_messages := ms\<rparr>) i = sourceName d i" "sourceName (d\<lparr>d_faults := fs\<rparr>) i = sourceName d i"
  by (simp_all add: sourceName_def)

lemma storeRead_run:
  assumes "changes_wf (h_db s)"
  shows "\<exists>q t mj. storeReadTx E m ra s = (Inr mj, t) \<and> changes_wf (h_db t) \<and>
    mj = (toMessageJSON (m\<lparr>m_ReadAt := ra\<rparr>) (sourceName (h_db s) (m_SourceID m)))\<lparr>mj_ChangeSeq := q\<rparr> \<and>
    d_messages (h_db t) = upd_where (\<lambda>r. m_ID r = m_ID m) (\<lambda>r. r\<lparr>m_ReadAt := ra, m_ChangeSeq := q\<rparr>) (d_messages (h_db s)) \<and>
    h_out t = h_out s @ [\<lparr>c_Seq = q, c_Type = ''message'', c_Data = DMessage mj, c_Notify = None\<rparr>]"
proof -
  define u where "u = s\<lparr>h_db := (h_db s)\<lparr>d_messages :=
    upd_where (\<lambda>r. m_ID r = m_ID m) (\<lambda>r. r\<lparr>m_ReadAt := ra\<rparr>) (d_messages (h_db s))\<rparr>\<rparr>"
  have w: "changes_wf (h_db u)" using assms by (simp add: u_def changes_wf_def change_counter_def)
  note ch = emitChangeTx_run [OF w, of E "''message''" "m_ID m"]
  have "storeReadTx E m ra s = bindT (emitChangeTx E ''message'' (m_ID m) (\<lambda>q. DMessage
      ((toMessageJSON (m\<lparr>m_ReadAt := ra\<rparr>) (sourceName (h_db s) (m_SourceID m)))\<lparr>mj_ChangeSeq := q\<rparr>)) None) (\<lambda>q.
     thenT (mod_db (\<lambda>d. d\<lparr>d_messages := upd_where (\<lambda>r. m_ID r = m_ID m) (\<lambda>r. r\<lparr>m_ChangeSeq := q\<rparr>) (d_messages d)\<rparr>))
       (retT ((toMessageJSON (m\<lparr>m_ReadAt := ra\<rparr>) (sourceName (h_db s) (m_SourceID m)))\<lparr>mj_ChangeSeq := q\<rparr>))) u"
    unfolding storeReadTx_def thenT_Inr [OF mod_db_run] bindT_Inr [OF get_db_run] u_def by simp
  then have "\<exists>q t mj. storeReadTx E m ra s = (Inr mj, t) \<and>
    mj = (toMessageJSON (m\<lparr>m_ReadAt := ra\<rparr>) (sourceName (h_db s) (m_SourceID m)))\<lparr>mj_ChangeSeq := q\<rparr> \<and>
    d_messages (h_db t) = upd_where (\<lambda>r. m_ID r = m_ID m) (\<lambda>r. r\<lparr>m_ReadAt := ra, m_ChangeSeq := q\<rparr>) (d_messages (h_db s)) \<and>
    h_out t = h_out s @ [\<lparr>c_Seq = q, c_Type = ''message'', c_Data = DMessage mj, c_Notify = None\<rparr>]"
    unfolding ch bindT_def Let_def by (simp add: thenT_def bindT_def u_def upd_where_upd_where entry_of_def)
  moreover have "changes_wf (h_db t)" if "storeReadTx E m ra s = (Inr mj, t)" for mj t
  proof -
    have "obeys logged (storeReadTx E m ra)" using safe_storeReadTx [of E E m ra] by (simp add: safe_def)
    from obeysD [OF this that] assms show ?thesis by (simp add: logged_def)
  qed
  ultimately show ?thesis by blast
qed

text \<open>
  A client marks a message as read or unread.  An unknown message is answered 404 and
  a mark that is already set leaves database and change log alone; otherwise exactly that
  message changes, and the log gains one entry with the message as answered.
\<close>

theorem setMessageRead_marks:
  assumes "changes_wf (h_db s)"
  shows "case find (\<lambda>m. m_ID m = i) (d_messages (h_db s)) of
      None \<Rightarrow> setMessageRead E i rd s = (AnswerErr 404 ''not_found'', s)
    | Some m \<Rightarrow> \<exists>mj t. setMessageRead E i rd s = (AnswerOk 200 mj, t) \<and> mj_ID mj = i \<and> (mj_ReadAt mj \<noteq> None \<longleftrightarrow> rd) \<and>
        (if rd = (m_ReadAt m \<noteq> None) then t = s
         else \<exists>q. d_messages (h_db t) = upd_where (\<lambda>r. m_ID r = i) (\<lambda>r. r\<lparr>m_ReadAt := mj_ReadAt mj, m_ChangeSeq := q\<rparr>) (d_messages (h_db s)) \<and>
           h_out t = h_out s @ [\<lparr>c_Seq = q, c_Type = ''message'', c_Data = DMessage mj, c_Notify = None\<rparr>])"
proof (cases "find (\<lambda>m. m_ID m = i) (d_messages (h_db s))")
  case None
  then show ?thesis
    by (simp add: setMessageRead_def finish_def withTx_def setMessageReadTx_def loadMessageTx_def rowT_def bindT_def)
next
  case (Some m)
  then have i: "m_ID m = i" using find_SomeD by fastforce
  show ?thesis
  proof (cases "rd = (m_ReadAt m \<noteq> None)")
    case True
    have "setMessageReadTx E i rd s = (Inr (toMessageJSON m (sourceName (h_db s) (m_SourceID m))), s)"
      using Some True by (simp add: setMessageReadTx_def loadMessageTx_def rowT_def bindT_def)
    with Some True i show ?thesis
      by (simp add: setMessageRead_def finish_def withTx_def) (simp add: toMessageJSON_def)
  next
    case False
    define ra where "ra = (if rd then Some (fmtTS (env_clock E (h_clk s))) else None)"
    define u where "u = (if rd then s\<lparr>h_clk := Suc (h_clk s)\<rparr> else s)"
    have r: "setMessageReadTx E i rd s = storeReadTx E m ra u"
      using Some False by (auto simp: setMessageReadTx_def loadMessageTx_def rowT_def bindT_def ra_def u_def)
    have u: "h_db u = h_db s" "h_out u = h_out s" "changes_wf (h_db u)" using assms by (simp_all add: u_def)
    obtain q t mj where t: "storeReadTx E m ra u = (Inr mj, t)"
      "mj = (toMessageJSON (m\<lparr>m_ReadAt := ra\<rparr>) (sourceName (h_db u) (m_SourceID m)))\<lparr>mj_ChangeSeq := q\<rparr>"
      "d_messages (h_db t) = upd_where (\<lambda>r. m_ID r = m_ID m) (\<lambda>r. r\<lparr>m_ReadAt := ra, m_ChangeSeq := q\<rparr>) (d_messages (h_db u))"
      "h_out t = h_out u @ [\<lparr>c_Seq = q, c_Type = ''message'', c_Data = DMessage mj, c_Notify = None\<rparr>]"
      using storeRead_run [OF u(3), of E m ra] by blast
    have mj: "mj_ReadAt mj = ra" "mj_ID mj = i" by (simp_all add: t(2) toMessageJSON_def i)
    have "setMessageRead E i rd s = (AnswerOk 200 mj, t)"
      by (simp add: setMessageRead_def finish_def withTx_def r t(1))
    moreover have "mj_ReadAt mj \<noteq> None \<longleftrightarrow> rd" by (simp add: mj ra_def)
    ultimately show ?thesis using Some False t(3,4) u i mj by auto
  qed
qed

text \<open>Which rows \<open>readAllTx\<close> has treated, and how.\<close>

definition marked :: "(string \<Rightarrow> bool) \<Rightarrow> string \<Rightarrow> messageRow \<Rightarrow> messageRow \<Rightarrow> bool" where
  "marked p now m m' \<longleftrightarrow> (if p (m_ID m) then \<exists>q. m' = m\<lparr>m_ReadAt := Some now, m_ChangeSeq := q\<rparr> else m' = m)"

lemma marked_step:
  assumes "marked p now m m'"
  shows "marked (\<lambda>j. p j \<or> j = i) now m (if m_ID m' = i then m'\<lparr>m_ReadAt := Some now, m_ChangeSeq := q\<rparr> else m')"
proof (cases "p (m_ID m)")
  case True
  with assms obtain q' where m: "m' = m\<lparr>m_ReadAt := Some now, m_ChangeSeq := q'\<rparr>" by (auto simp: marked_def)
  have "\<exists>k. (if m_ID m' = i then m'\<lparr>m_ReadAt := Some now, m_ChangeSeq := q\<rparr> else m') = m\<lparr>m_ReadAt := Some now, m_ChangeSeq := k\<rparr>"
    by (cases "m_ID m = i") (simp_all add: m, blast+)
  with True show ?thesis by (simp add: marked_def)
next
  case False
  with assms have "m' = m" by (simp add: marked_def)
  with False show ?thesis by (auto simp: marked_def)
qed

lemma readAll_loop:
  assumes "changes_wf (h_db s)" and "set ids \<subseteq> m_ID ` set ms"
    and "list_all2 (marked p now) ms (d_messages (h_db s))"
  shows "\<exists>t. foldT (\<lambda>i updated. bindT (loadMessageTx i) (\<lambda>m.
       thenT (storeReadTx E m (Some now)) (retT (updated + 1)))) ids n s = (Inr (n + int (length ids)), t) \<and>
    changes_wf (h_db t) \<and> list_all2 (marked (\<lambda>i. p i \<or> i \<in> set ids) now) ms (d_messages (h_db t)) \<and>
    length (h_out t) = length (h_out s) + length ids"
  using assms
proof (induction ids arbitrary: s n p)
  case Nil
  then show ?case by simp
next
  case (Cons i ids)
  let ?body = "\<lambda>i updated. bindT (loadMessageTx i) (\<lambda>m. thenT (storeReadTx E m (Some now)) (retT (updated + 1)))"
  have ids: "map m_ID (d_messages (h_db s)) = map m_ID ms"
    using Cons.prems(3) by (induction rule: list_all2_induct) (auto simp: marked_def split: if_splits)
  have "m_ID ` set (d_messages (h_db s)) = m_ID ` set ms" using arg_cong [OF ids, of set] by simp
  then have "i \<in> m_ID ` set (d_messages (h_db s))" using Cons.prems(2) by simp
  then obtain m where m: "find (\<lambda>m. m_ID m = i) (d_messages (h_db s)) = Some m"
    by (cases "find (\<lambda>m. m_ID m = i) (d_messages (h_db s))") (auto simp: find_None_set)
  then have i: "m_ID m = i" using find_SomeD by fastforce
  obtain q u mj where u: "storeReadTx E m (Some now) s = (Inr mj, u)" "changes_wf (h_db u)"
    "d_messages (h_db u) = upd_where (\<lambda>r. m_ID r = m_ID m) (\<lambda>r. r\<lparr>m_ReadAt := Some now, m_ChangeSeq := q\<rparr>) (d_messages (h_db s))"
    "h_out u = h_out s @ [\<lparr>c_Seq = q, c_Type = ''message'', c_Data = DMessage mj, c_Notify = None\<rparr>]"
    using storeRead_run [OF Cons.prems(1), of E m "Some now"] by blast
  have l2: "list_all2 (marked (\<lambda>j. p j \<or> j = i) now) ms (d_messages (h_db u))"
    unfolding u(3) upd_where_def list_all2_map2 using Cons.prems(3)
    unfolding i by (rule list_all2_mono) (rule marked_step)
  have sub: "set ids \<subseteq> m_ID ` set ms" using Cons.prems(2) by simp
  obtain t where
    t: "foldT ?body ids (n + 1) u = (Inr (n + 1 + int (length ids)), t)" "changes_wf (h_db t)"
      "list_all2 (marked (\<lambda>j. (p j \<or> j = i) \<or> j \<in> set ids) now) ms (d_messages (h_db t))"
      "length (h_out t) = length (h_out u) + length ids"
    using Cons.IH [OF u(2) sub l2, of "n + 1"] by (elim exE conjE) (rule that)
  have "foldT ?body (i # ids) n s = foldT ?body ids (n + 1) u"
    using m u(1) by (simp add: bindT_def thenT_def loadMessageTx_def rowT_def)
  also have "\<dots> = (Inr (n + int (length (i # ids))), t)" unfolding t(1) by simp
  finally have run: "foldT ?body (i # ids) n s = (Inr (n + int (length (i # ids))), t)" .
  have e: "(\<lambda>j. (p j \<or> j = i) \<or> j \<in> set ids) = (\<lambda>j. p j \<or> j \<in> set (i # ids))" by auto
  have "length (h_out t) = length (h_out s) + length (i # ids)" using t(4) u(4) by simp
  with run t(2) t(3) [unfolded e] show ?case by blast
qed

text \<open>
  Marking all as read marks exactly the unread messages received up to the given
  time, leaves every other message as it is, counts them, and logs one change for each.
\<close>

theorem readAll_marks:
  assumes "changes_wf (h_db s)"
    and "bts = (case before of None \<Rightarrow> None | Some b \<Rightarrow> if b = [] then None else parseTS b)"
    and "\<forall>b. before = Some b \<longrightarrow> b \<noteq> [] \<longrightarrow> parseTS b \<noteq> None"
    and "distinct (map m_ID (d_messages (h_db s)))"
  shows "\<exists>t now. handleMessagesReadAll E before s =
      (AnswerOk 200 (int (length (filter (unread_before bts) (d_messages (h_db s))))), t) \<and>
    list_all2 (\<lambda>m m'. if unread_before bts m then \<exists>q. m' = m\<lparr>m_ReadAt := Some now, m_ChangeSeq := q\<rparr> else m' = m)
      (d_messages (h_db s)) (d_messages (h_db t)) \<and>
    length (h_out t) = length (h_out s) + length (filter (unread_before bts) (d_messages (h_db s)))"
proof -
  define ms where "ms = d_messages (h_db s)"
  define ids where "ids = sort (map m_ID (filter (unread_before bts) ms))"
  define now where "now = fmtTS (env_clock E (h_clk s))"
  let ?u = "s\<lparr>h_clk := Suc (h_clk s)\<rparr>"
  have "list_all2 (marked (\<lambda>_. False) now) ms ms" by (rule list_all2_refl) (simp add: marked_def)
  then obtain t where t: "foldT (\<lambda>i updated. bindT (loadMessageTx i) (\<lambda>m.
       thenT (storeReadTx E m (Some now)) (retT (updated + 1)))) ids 0 ?u = (Inr (0 + int (length ids)), t)"
    "list_all2 (marked (\<lambda>i. False \<or> i \<in> set ids) now) ms (d_messages (h_db t))"
    "length (h_out t) = length (h_out ?u) + length ids"
    using readAll_loop [of ?u ids ms "\<lambda>_. False" now E 0] assms(1) by (auto simp: ids_def ms_def)
  have "readAllTx E bts s = (Inr (int (length ids)), t)"
    using t(1) by (simp add: readAllTx_def bindT_def now_def ids_def ms_def)
  then have "handleMessagesReadAll E before s = (AnswerOk 200 (int (length ids)), t)"
    using assms(2,3) by (auto simp: handleMessagesReadAll_def withTx_def Let_def split: option.splits)
  moreover have "unread_before bts m = (m_ID m \<in> set ids)" if "m \<in> set ms" for m
    using assms(4) that by (auto simp: ids_def ms_def distinct_map dest: inj_onD)
  then have "list_all2 (\<lambda>m m'. if unread_before bts m then \<exists>q. m' = m\<lparr>m_ReadAt := Some now, m_ChangeSeq := q\<rparr> else m' = m)
      ms (d_messages (h_db t))"
    using t(2) by (simp add: list_all2_conv_all_nth marked_def)
  ultimately show ?thesis using t(3) by (intro exI [of _ t] exI [of _ now]) (simp add: ids_def ms_def)
qed


section \<open>Fault marks\<close>

lemma flag_step_keeps:
  assumes "flag_step op now f = Some g"
  shows "g = f\<lparr>f_ReadAt := f_ReadAt g, f_MutedAt := f_MutedAt g, f_MutedUntil := f_MutedUntil g\<rparr>"
  using assms by (auto simp: flag_step_def split: if_splits)

lemma updateFlags_run:
  assumes "changes_wf (h_db s)" and "find (\<lambda>r. f_ID r = i) (d_faults (h_db s)) = Some f"
    and g: "flag_step op (fmtTS (env_clock E (h_clk s))) f = Some g"
  shows "\<exists>q t. updateFaultFlagsTx E i op s = (Inr ((toFaultJSON g (sourceName (h_db s) (f_SourceID f)))\<lparr>fj_ChangeSeq := q\<rparr>), t) \<and>
    d_faults (h_db t) = upd_where (\<lambda>r. f_ID r = i)
      (\<lambda>r. r\<lparr>f_ReadAt := f_ReadAt g, f_MutedAt := f_MutedAt g, f_MutedUntil := f_MutedUntil g, f_ChangeSeq := q\<rparr>) (d_faults (h_db s)) \<and>
    d_pending (h_db t) = d_pending (h_db s) \<and>
    h_out t = h_out s @ [\<lparr>c_Seq = q, c_Type = ''fault'',
      c_Data = DFault ((toFaultJSON g (sourceName (h_db s) (f_SourceID f)))\<lparr>fj_ChangeSeq := q\<rparr>), c_Notify = None\<rparr>]"
proof -
  have i: "f_ID g = i" "f_SourceID g = f_SourceID f"
    using find_SomeD [OF assms(2)] by (subst flag_step_keeps [OF g], simp)+
  define u where "u = s\<lparr>h_clk := Suc (h_clk s), h_db := (h_db s)\<lparr>d_faults := upd_where (\<lambda>r. f_ID r = f_ID g)
    (\<lambda>r. r\<lparr>f_ReadAt := f_ReadAt g, f_MutedAt := f_MutedAt g, f_MutedUntil := f_MutedUntil g\<rparr>) (d_faults (h_db s))\<rparr>\<rparr>"
  have w: "changes_wf (h_db u)" using assms(1) by (simp add: u_def changes_wf_def change_counter_def)
  note ch = emitChangeTx_run [OF w, of E "''fault''" "f_ID g"]
  let ?fj = "toFaultJSON g (sourceName (h_db s) (f_SourceID f))"
  have "loadFaultByID i s = (Inr f, s)" using assms(2) by (simp add: loadFaultByID_def rowT_def bindT_def)
  then have "updateFaultFlagsTx E i op s =
      bindT (emitChangeTx E ''fault'' (f_ID g) (\<lambda>q. DFault (?fj\<lparr>fj_ChangeSeq := q\<rparr>)) None) (\<lambda>q.
         thenT (mod_db (\<lambda>d. d\<lparr>d_faults := upd_where (\<lambda>r. f_ID r = f_ID g) (\<lambda>r. r\<lparr>f_ChangeSeq := q\<rparr>) (d_faults d)\<rparr>))
           (retT (?fj\<lparr>fj_ChangeSeq := q\<rparr>))) u"
    unfolding updateFaultFlagsTx_def bindT_Inr [of "loadFaultByID i", OF \<open>loadFaultByID i s = (Inr f, s)\<close>] bindT_Inr [OF nowUTC_run] g option.case
      thenT_Inr [OF mod_db_run] bindT_Inr [OF get_db_run] u_def by (simp add: i)
  then show ?thesis
    unfolding ch bindT_def Let_def
    by (simp add: thenT_def bindT_def u_def upd_where_upd_where entry_of_def i)
qed

text \<open>
  Marking a fault as read or muting it changes only that fault's marks.  The fault
  machine of every key stays as it is, a mark that is already set writes nothing, and
  otherwise the log gains exactly one entry, for this fault.
\<close>

theorem fault_flags_only:
  assumes "changes_wf (h_db s)" and "op \<in> {''read'', ''mute'', ''unmute''}"
    and "find (\<lambda>r. f_ID r = i) (d_faults (h_db s)) = Some f"
  shows "\<exists>fj t. updateFaultFlags E i op s = (AnswerOk 200 fj, t) \<and> fj_ID fj = i \<and>
    (op = ''read'' \<longrightarrow> fj_ReadAt fj \<noteq> None) \<and> (op = ''mute'' \<longrightarrow> fj_MutedAt fj \<noteq> None) \<and>
    (op = ''unmute'' \<longrightarrow> fj_MutedAt fj = None) \<and> (\<forall>k. abs_at (h_db t) k = abs_at (h_db s) k) \<and>
    (if flag_step op [] f = None then h_db t = h_db s \<and> h_out t = h_out s
     else \<exists>e. h_out t = h_out s @ [e] \<and> c_Data e = DFault fj)"
proof -
  define now where "now = fmtTS (env_clock E (h_clk s))"
  have i: "f_ID f = i" using find_SomeD [OF assms(3)] by simp
  have n: "flag_step op [] f = None \<longleftrightarrow> flag_step op now f = None" by (simp add: flag_step_def)
  show ?thesis
  proof (cases "flag_step op now f")
    case None
    have "updateFaultFlagsTx E i op s = (Inr (toFaultJSON f (sourceName (h_db s) (f_SourceID f))), s\<lparr>h_clk := Suc (h_clk s)\<rparr>)"
      using assms(3) None by (simp add: updateFaultFlagsTx_def loadFaultByID_def rowT_def bindT_def now_def)
    then show ?thesis
      using None i n assms(2)
      by (auto simp: updateFaultFlags_def finish_def withTx_def toFaultJSON_def flag_step_def split: if_splits)
  next
    case (Some g)
    let ?fj = "\<lambda>q. (toFaultJSON g (sourceName (h_db s) (f_SourceID f)))\<lparr>fj_ChangeSeq := q\<rparr>"
    obtain q t where t: "updateFaultFlagsTx E i op s = (Inr (?fj q), t)"
      "d_faults (h_db t) = upd_where (\<lambda>r. f_ID r = i)
        (\<lambda>r. r\<lparr>f_ReadAt := f_ReadAt g, f_MutedAt := f_MutedAt g, f_MutedUntil := f_MutedUntil g, f_ChangeSeq := q\<rparr>) (d_faults (h_db s))"
      "d_pending (h_db t) = d_pending (h_db s)"
      "h_out t = h_out s @ [\<lparr>c_Seq = q, c_Type = ''fault'', c_Data = DFault (?fj q), c_Notify = None\<rparr>]"
      using updateFlags_run [OF assms(1,3) Some [unfolded now_def]] by (elim exE conjE) (rule that)
    have "abs_at (h_db t) k = abs_at (h_db s) k" for k
    proof -
      have "find (\<lambda>r. fkey r = k) (d_faults (h_db t)) = map_option (\<lambda>r. if f_ID r = i
          then r\<lparr>f_ReadAt := f_ReadAt g, f_MutedAt := f_MutedAt g, f_MutedUntil := f_MutedUntil g, f_ChangeSeq := q\<rparr> else r)
          (find (\<lambda>r. fkey r = k) (d_faults (h_db s)))"
        unfolding t(2) by (rule find_upd_where) (simp add: fkey_def)
      then have "round_of (find (\<lambda>r. fkey r = k) (d_faults (h_db t))) = round_of (find (\<lambda>r. fkey r = k) (d_faults (h_db s)))"
        by (auto simp: round_of_def split: option.splits)
      then show ?thesis by (simp add: abs_at_def loadFaultTx_find t(3))
    qed
    moreover have "f_ID g = i" using i by (subst flag_step_keeps [OF Some]) simp
    moreover have "updateFaultFlags E i op s = (AnswerOk 200 (?fj q), t)"
      by (simp add: updateFaultFlags_def finish_def withTx_def t(1))
    ultimately show ?thesis
      using Some n t(4) assms(2)
      by (intro exI [of _ "?fj q"] exI [of _ t]) (auto simp: toFaultJSON_def flag_step_def split: if_splits)
  qed
qed

section \<open>Witnesses\<close>

definition flag_hub :: hub where
  "flag_hub = hub_start\<lparr>h_db := list_db\<rparr>"

lemma flag_hub_wf: "changes_wf (h_db flag_hub)"
  by (simp add: flag_hub_def list_db_def empty_db_def changes_wf_def change_counter_def)

theorem setMessageRead_marks_witness:
  "\<exists>mj t. setMessageRead sample_env ''a'' True flag_hub = (AnswerOk 200 mj, t) \<and> mj_ReadAt mj \<noteq> None"
proof -
  have "find (\<lambda>m. m_ID m = ''a'') (d_messages (h_db flag_hub)) = Some (list_message ''a'')"
    by (simp add: flag_hub_def list_db_def list_message_def)
  from this setMessageRead_marks [OF flag_hub_wf, of sample_env "''a''" True] show ?thesis by auto
qed

theorem readAll_marks_witness:
  "\<exists>t. handleMessagesReadAll sample_env None flag_hub = (AnswerOk 200 3, t) \<and> length (h_out t) = 3"
proof -
  have d: "distinct (map m_ID (d_messages (h_db flag_hub)))" by (simp add: flag_hub_def list_db_def list_message_def)
  have l: "length (filter (unread_before None) (d_messages (h_db flag_hub))) = 3" "length (h_out flag_hub) = 0"
    by (simp_all add: flag_hub_def list_db_def list_message_def unread_before_def hub_start_def)
  from readAll_marks [OF flag_hub_wf, of None None sample_env] d l show ?thesis by auto
qed

theorem fault_flags_only_witness:
  "\<exists>fj t. updateFaultFlags sample_env ''f1'' ''mute'' flag_hub = (AnswerOk 200 fj, t) \<and> fj_MutedAt fj \<noteq> None"
proof -
  have "find (\<lambda>r. f_ID r = ''f1'') (d_faults (h_db flag_hub)) = Some (newFaultRow ''f1'' ''src_1'' ''k1'' (sample_event ''e'' 5 ''open''))"
    by (simp add: flag_hub_def list_db_def newFaultRow_def)
  from fault_flags_only [OF flag_hub_wf _ this, of "''mute''" sample_env] show ?thesis by auto
qed

end
