(* ===== verification/AgentQueue.thy ===== *)
theory AgentQueue
  imports HubTypes
begin

text \<open>
  The agent's persistent queue (\<^verbatim>\<open>agent/internal/queue/queue.go\<close>): metrics batches and
  events wait in two tables, the oldest rows go when a table is full, and what was dropped
  is added up in an overflow record.  As in the hub, a column that holds JSON holds the
  object; the statements themselves are taken not to fail.

  The locale \<open>bounded_fifo\<close> states what the two tables promise; both are interpretations.
\<close>

section \<open>Tables\<close>

record 'p qrow =
  q_ID :: int
  q_Seq :: int
  q_Payload :: 'p
  q_CreatedAt :: time

text \<open>A table with its \<^verbatim>\<open>AUTOINCREMENT\<close> counter: identifiers are never used again.\<close>

record 'p qtable =
  qt_rows :: "'p qrow list"
  qt_next :: int

record overflow =
  ov_Dropped :: int
  ov_FirstAt :: time
  ov_LastAt :: time

text \<open>\<open>'m\<close> and \<open>'e\<close> are the payloads of the two tables.\<close>

record ('m, 'e) queue =
  qu_meta :: "string \<Rightarrow> int option"
  qu_metrics :: "'m qtable"
  qu_events :: "'e qtable"
  qu_overflow :: "string \<Rightarrow> overflow option"
  qu_maxBatch :: int
  qu_maxEvents :: int

definition KindMetrics :: string where
  "KindMetrics = ''metrics''"

definition KindEvents :: string where
  "KindEvents = ''events''"

definition queue_open :: "int \<Rightarrow> int \<Rightarrow> ('m, 'e) queue" where
  "queue_open maxBatches maxEvents =
     \<lparr>qu_meta = (\<lambda>_. None), qu_metrics = \<lparr>qt_rows = [], qt_next = 1\<rparr>, qu_events = \<lparr>qt_rows = [], qt_next = 1\<rparr>,
      qu_overflow = (\<lambda>_. None), qu_maxBatch = maxBatches, qu_maxEvents = maxEvents\<rparr>"

definition nextSeq :: "string \<Rightarrow> ('m, 'e) queue \<Rightarrow> int \<times> ('m, 'e) queue" where
  "nextSeq key q =
     (let v = (case qu_meta q key of None \<Rightarrow> 1 | Some v \<Rightarrow> v + 1)
      in (v, q\<lparr>qu_meta := (qu_meta q)(key \<mapsto> v)\<rparr>))"

definition NextMetricsSeq :: "('m, 'e) queue \<Rightarrow> int \<times> ('m, 'e) queue" where
  "NextMetricsSeq = nextSeq ''metrics_seq''"

definition NextEventSeq :: "('m, 'e) queue \<Rightarrow> int \<times> ('m, 'e) queue" where
  "NextEventSeq = nextSeq ''events_seq''"

text \<open>\<^verbatim>\<open>INSERT INTO\<close> a table.\<close>

definition insert_row :: "int \<Rightarrow> 'p \<Rightarrow> time \<Rightarrow> 'p qtable \<Rightarrow> 'p qtable" where
  "insert_row seq p now t =
     t\<lparr>qt_rows := qt_rows t @ [\<lparr>q_ID = qt_next t, q_Seq = seq, q_Payload = p, q_CreatedAt = now\<rparr>],
       qt_next := qt_next t + 1\<rparr>"

text \<open>\<^verbatim>\<open>ORDER BY id ASC LIMIT n\<close>.\<close>

definition oldest :: "int \<Rightarrow> 'p qtable \<Rightarrow> 'p qrow list" where
  "oldest n t = take (nat n) (sort_key q_ID (qt_rows t))"

definition delete_rows :: "int set \<Rightarrow> 'p qtable \<Rightarrow> 'p qtable" where
  "delete_rows ids t = t\<lparr>qt_rows := del_where (\<lambda>r. q_ID r \<in> ids) (qt_rows t)\<rparr>"

definition min_at :: "'p qrow list \<Rightarrow> time option" where
  "min_at rs = (case map q_CreatedAt rs of [] \<Rightarrow> None | t # ts \<Rightarrow> Some (fold min ts t))"

definition max_at :: "'p qrow list \<Rightarrow> time option" where
  "max_at rs = (case map q_CreatedAt rs of [] \<Rightarrow> None | t # ts \<Rightarrow> Some (fold max ts t))"

definition addOverflow ::
  "string \<Rightarrow> int \<Rightarrow> time \<Rightarrow> time \<Rightarrow> (string \<Rightarrow> overflow option) \<Rightarrow> (string \<Rightarrow> overflow option)" where
  "addOverflow kind dropped firstNs lastNs ovs =
     ovs(kind \<mapsto>
       (case ovs kind of
          None \<Rightarrow> \<lparr>ov_Dropped = dropped, ov_FirstAt = firstNs, ov_LastAt = lastNs\<rparr>
        | Some o' \<Rightarrow> \<lparr>ov_Dropped = ov_Dropped o' + dropped, ov_FirstAt = min (ov_FirstAt o') firstNs,
                     ov_LastAt = max (ov_LastAt o') lastNs\<rparr>))"

text \<open>
  \<open>enqueue\<close> on a table and the overflow records.  The scan of \<^verbatim>\<open>MIN\<close> and \<^verbatim>\<open>MAX\<close>
  cannot meet NULL, because the excess is positive and the table is not empty.
\<close>

definition enqueue ::
  "string \<Rightarrow> int \<Rightarrow> int \<Rightarrow> 'p \<Rightarrow> time \<Rightarrow> 'p qtable \<times> (string \<Rightarrow> overflow option) \<Rightarrow>
   int \<times> 'p qtable \<times> (string \<Rightarrow> overflow option)" where
  "enqueue kind mx seq p now st =
     (case st of (t, ovs) \<Rightarrow>
       (let t1 = insert_row seq p now t; count = int (length (qt_rows t1)) in
        if count > mx then
          (let excess = count - mx; gone = oldest excess t1 in
           (excess, delete_rows (q_ID ` set gone) t1,
            addOverflow kind excess (the (min_at gone)) (the (max_at gone)) ovs))
        else (0, t1, ovs)))"

definition dropOldest ::
  "string \<Rightarrow> int \<Rightarrow> 'p qtable \<times> (string \<Rightarrow> overflow option) \<Rightarrow> int \<times> 'p qtable \<times> (string \<Rightarrow> overflow option)" where
  "dropOldest kind n st =
     (case st of (t, ovs) \<Rightarrow>
       if n \<le> 0 then (0, t, ovs)
       else
         (let gone = oldest n t in
          case (min_at gone, max_at gone) of
            (Some a, Some b) \<Rightarrow>
              (let dropped = int (length gone) in
               (dropped, delete_rows (q_ID ` set gone) t,
                if dropped > 0 then addOverflow kind dropped a b ovs else ovs))
          | _ \<Rightarrow> (0, t, ovs)))"

fun deleteIDs :: "int list \<Rightarrow> 'p qtable \<Rightarrow> 'p qtable" where
  "deleteIDs [] t = t"
| "deleteIDs (i # ids) t = deleteIDs ids (delete_rows {i} t)"

section \<open>The operations of the queue\<close>

definition with_metrics ::
  "('m qtable \<times> (string \<Rightarrow> overflow option) \<Rightarrow> int \<times> 'm qtable \<times> (string \<Rightarrow> overflow option)) \<Rightarrow>
   ('m, 'e) queue \<Rightarrow> int \<times> ('m, 'e) queue" where
  "with_metrics f q =
     (case f (qu_metrics q, qu_overflow q) of (n, t, ovs) \<Rightarrow> (n, q\<lparr>qu_metrics := t, qu_overflow := ovs\<rparr>))"

definition with_events ::
  "('e qtable \<times> (string \<Rightarrow> overflow option) \<Rightarrow> int \<times> 'e qtable \<times> (string \<Rightarrow> overflow option)) \<Rightarrow>
   ('m, 'e) queue \<Rightarrow> int \<times> ('m, 'e) queue" where
  "with_events f q =
     (case f (qu_events q, qu_overflow q) of (n, t, ovs) \<Rightarrow> (n, q\<lparr>qu_events := t, qu_overflow := ovs\<rparr>))"

definition EnqueueMetrics :: "int \<Rightarrow> 'm \<Rightarrow> time \<Rightarrow> ('m, 'e) queue \<Rightarrow> int \<times> ('m, 'e) queue" where
  "EnqueueMetrics seq p now q = with_metrics (enqueue KindMetrics (qu_maxBatch q) seq p now) q"

definition EnqueueEvent :: "int \<Rightarrow> 'e \<Rightarrow> time \<Rightarrow> ('m, 'e) queue \<Rightarrow> int \<times> ('m, 'e) queue" where
  "EnqueueEvent seq p now q = with_events (enqueue KindEvents (qu_maxEvents q) seq p now) q"

definition EnqueueEventNoTrim :: "int \<Rightarrow> 'e \<Rightarrow> time \<Rightarrow> ('m, 'e) queue \<Rightarrow> ('m, 'e) queue" where
  "EnqueueEventNoTrim seq p now q = q\<lparr>qu_events := insert_row seq p now (qu_events q)\<rparr>"

definition DropOldestMetrics :: "int \<Rightarrow> ('m, 'e) queue \<Rightarrow> int \<times> ('m, 'e) queue" where
  "DropOldestMetrics n q = with_metrics (dropOldest KindMetrics n) q"

definition DropOldestEvents :: "int \<Rightarrow> ('m, 'e) queue \<Rightarrow> int \<times> ('m, 'e) queue" where
  "DropOldestEvents n q = with_events (dropOldest KindEvents n) q"

definition TakeOverflow :: "string \<Rightarrow> ('m, 'e) queue \<Rightarrow> overflow option \<times> ('m, 'e) queue" where
  "TakeOverflow kind q =
     (case qu_overflow q kind of
        None \<Rightarrow> (None, q)
      | Some o' \<Rightarrow> (Some o', q\<lparr>qu_overflow := (qu_overflow q)(kind := None)\<rparr>))"

definition MetricsPending :: "('m, 'e) queue \<Rightarrow> int" where
  "MetricsPending q = int (length (qt_rows (qu_metrics q)))"

definition EventsPending :: "('m, 'e) queue \<Rightarrow> int" where
  "EventsPending q = int (length (qt_rows (qu_events q)))"

definition PeekMetrics :: "int \<Rightarrow> ('m, 'e) queue \<Rightarrow> 'm qrow list" where
  "PeekMetrics limit q = oldest limit (qu_metrics q)"

definition PeekEvents :: "int \<Rightarrow> ('m, 'e) queue \<Rightarrow> 'e qrow list" where
  "PeekEvents limit q = oldest limit (qu_events q)"

definition DeleteMetrics :: "int list \<Rightarrow> ('m, 'e) queue \<Rightarrow> ('m, 'e) queue" where
  "DeleteMetrics ids q = q\<lparr>qu_metrics := deleteIDs ids (qu_metrics q)\<rparr>"

definition DeleteEvents :: "int list \<Rightarrow> ('m, 'e) queue \<Rightarrow> ('m, 'e) queue" where
  "DeleteEvents ids q = q\<lparr>qu_events := deleteIDs ids (qu_events q)\<rparr>"

section \<open>Tables are first-in first-out\<close>

definition table_wf :: "'p qtable \<Rightarrow> bool" where
  "table_wf t \<longleftrightarrow> sorted_wrt (<) (map q_ID (qt_rows t)) \<and> (\<forall>r \<in> set (qt_rows t). q_ID r < qt_next t)"

lemma oldest_take: "table_wf t \<Longrightarrow> oldest n t = take (nat n) (qt_rows t)"
  unfolding oldest_def table_wf_def
  by (subst sort_key_id_if_sorted) (auto simp: sorted_wrt_map elim: sorted_wrt_mono_rel [rotated])

lemma delete_prefix:
  assumes "table_wf t"
  shows "delete_rows (q_ID ` set (take n (qt_rows t))) t = t\<lparr>qt_rows := drop n (qt_rows t)\<rparr>"
proof -
  have s: "sorted_wrt (\<lambda>a b. q_ID a < q_ID b) (take n (qt_rows t) @ drop n (qt_rows t))"
    using assms by (simp add: table_wf_def sorted_wrt_map)
  then have lt: "\<forall>x \<in> set (take n (qt_rows t)). \<forall>y \<in> set (drop n (qt_rows t)). q_ID x < q_ID y"
    unfolding sorted_wrt_append by blast
  have "filter (\<lambda>r. q_ID r \<notin> q_ID ` set (take n (qt_rows t))) (drop n (qt_rows t)) = drop n (qt_rows t)"
    by (rule filter_True) (use lt in force)
  moreover have "filter (\<lambda>r. q_ID r \<notin> q_ID ` set (take n (qt_rows t))) (take n (qt_rows t)) = []" by simp
  ultimately have "filter (\<lambda>r. q_ID r \<notin> q_ID ` set (take n (qt_rows t))) (take n (qt_rows t) @ drop n (qt_rows t)) =
      drop n (qt_rows t)" by (simp only: filter_append append_Nil)
  then show ?thesis by (simp add: delete_rows_def del_where_def)
qed

lemma deleteIDs_eq: "deleteIDs ids t = delete_rows (set ids) t"
proof (induction ids arbitrary: t)
  case (Cons i ids)
  then show ?case by (simp add: delete_rows_def del_where_def conj_commute)
qed (simp add: delete_rows_def del_where_def)

lemma table_wf_drop: "table_wf t \<Longrightarrow> table_wf (t\<lparr>qt_rows := drop n (qt_rows t)\<rparr>)"
  unfolding table_wf_def by (auto simp: drop_map [symmetric] sorted_wrt_drop dest: in_set_dropD)

lemma table_wf_insert: "table_wf t \<Longrightarrow> table_wf (insert_row seq p now t)"
  by (fastforce simp: table_wf_def insert_row_def sorted_wrt_append)

definition new_row :: "int \<Rightarrow> 'p \<Rightarrow> time \<Rightarrow> 'p qtable \<Rightarrow> 'p qrow" where
  "new_row seq p now t = \<lparr>q_ID = qt_next t, q_Seq = seq, q_Payload = p, q_CreatedAt = now\<rparr>"

definition recorded :: "string \<Rightarrow> (string \<Rightarrow> overflow option) \<Rightarrow> int" where
  "recorded kind ovs = (case ovs kind of None \<Rightarrow> 0 | Some o' \<Rightarrow> ov_Dropped o')"

lemma recorded_add: "recorded kind (addOverflow kind n a b ovs) = recorded kind ovs + n"
  by (simp add: recorded_def addOverflow_def split: option.split)

lemma recorded_other: "k \<noteq> kind \<Longrightarrow> recorded k (addOverflow kind n a b ovs) = recorded k ovs"
  by (simp add: recorded_def addOverflow_def)

lemma enqueue_run:
  assumes "table_wf t" and "enqueue kind mx seq p now (t, ovs) = (n, t', ovs')"
  shows "qt_rows t' = drop (nat n) (qt_rows t @ [new_row seq p now t]) \<and> 0 \<le> n \<and>
    n = max 0 (int (length (qt_rows t)) + 1 - mx) \<and> recorded kind ovs' = recorded kind ovs + n \<and> table_wf t' \<and>
    (\<forall>k. k \<noteq> kind \<longrightarrow> ovs' k = ovs k)"
proof -
  define t1 where "t1 = insert_row seq p now t"
  have w: "table_wf t1" using table_wf_insert [OF assms(1)] by (simp add: t1_def)
  have r: "qt_rows t1 = qt_rows t @ [new_row seq p now t]" by (simp add: t1_def insert_row_def new_row_def)
  show ?thesis
  proof (cases "int (length (qt_rows t1)) > mx")
    case True
    define ex where "ex = int (length (qt_rows t1)) - mx"
    have "enqueue kind mx seq p now (t, ovs) = (ex, delete_rows (q_ID ` set (oldest ex t1)) t1,
        addOverflow kind ex (the (min_at (oldest ex t1))) (the (max_at (oldest ex t1))) ovs)"
      using True by (simp add: enqueue_def Let_def t1_def [symmetric] ex_def)
    with assms(2) have "n = ex" "t' = delete_rows (q_ID ` set (oldest ex t1)) t1"
      "ovs' = addOverflow kind ex (the (min_at (oldest ex t1))) (the (max_at (oldest ex t1))) ovs"
      by auto
    moreover have "delete_rows (q_ID ` set (oldest ex t1)) t1 = t1\<lparr>qt_rows := drop (nat ex) (qt_rows t1)\<rparr>"
      using delete_prefix [OF w] by (simp add: oldest_take [OF w])
    ultimately show ?thesis
      using True table_wf_drop [OF w] by (simp add: r recorded_add ex_def) (simp add: addOverflow_def)
  next
    case False
    then have "n = 0" "t' = t1" "ovs' = ovs" using assms(2) by (simp_all add: enqueue_def Let_def t1_def [symmetric])
    with False w show ?thesis by (simp add: r)
  qed
qed

lemma min_at_Nil [simp]: "min_at rs = None \<longleftrightarrow> rs = []" "max_at rs = None \<longleftrightarrow> rs = []"
  by (cases rs; simp add: min_at_def max_at_def)+

lemma dropOldest_run:
  assumes "table_wf t" and "dropOldest kind n (t, ovs) = (k, t', ovs')"
  shows "qt_rows t' = drop (nat k) (qt_rows t) \<and> k = max 0 (min n (int (length (qt_rows t)))) \<and>
    recorded kind ovs' = recorded kind ovs + k \<and> table_wf t' \<and> (\<forall>j. j \<noteq> kind \<longrightarrow> ovs' j = ovs j)"
proof (cases "n \<le> 0 \<or> qt_rows t = []")
  case True
  then have "k = 0 \<and> t' = t \<and> ovs' = ovs"
    using assms(2) by (cases "n \<le> 0") (simp_all add: dropOldest_def Let_def oldest_take [OF assms(1)] min_at_def max_at_def)
  with True assms(1) show ?thesis by auto
next
  case False
  define gone where "gone = oldest n t"
  have g: "gone = take (nat n) (qt_rows t)" "gone \<noteq> []" using False by (simp_all add: gone_def oldest_take [OF assms(1)])
  obtain a b where "min_at gone = Some a" "max_at gone = Some b" using g(2) by (metis min_at_Nil not_None_eq)
  then have k: "k = int (length gone)" "t' = delete_rows (q_ID ` set gone) t" "ovs' = addOverflow kind k a b ovs"
    using assms(2) False g(2) by (auto simp: dropOldest_def Let_def gone_def [symmetric] split: if_splits)
  have "t' = t\<lparr>qt_rows := drop (nat n) (qt_rows t)\<rparr>" unfolding k(2) g(1) by (rule delete_prefix [OF assms(1)])
  moreover have "drop (nat k) (qt_rows t) = drop (nat n) (qt_rows t)" using False by (simp add: k(1) g(1) min_def)
  ultimately show ?thesis
    using False table_wf_drop [OF assms(1)] recorded_add [of kind k a b ovs]
    by (auto simp: k(3)) (auto simp: k(1) g(1) min_def addOverflow_def)
qed


section \<open>The contract of the two queues\<close>

definition push_all :: "('x \<Rightarrow> 'q \<Rightarrow> int \<times> 'q) \<Rightarrow> 'x list \<Rightarrow> 'q \<Rightarrow> 'q" where
  "push_all push xs q = fold (\<lambda>x q. snd (push x q)) xs q"

text \<open>
  A queue that holds payloads, has a capacity and counts what it has dropped.  Appending
  drops the oldest entries beyond the capacity and nothing else.
\<close>

locale bounded_fifo =
  fixes contents :: "'q \<Rightarrow> 'p list"
    and lost :: "'q \<Rightarrow> int"
    and good :: "'q \<Rightarrow> bool"
    and cap :: "'q \<Rightarrow> int"
    and push :: "'x \<Rightarrow> 'q \<Rightarrow> int \<times> 'q"
    and payload :: "'x \<Rightarrow> 'p"
  assumes push_law: "good q \<Longrightarrow> push x q = (n, q') \<Longrightarrow>
      contents q' = drop (nat n) (contents q @ [payload x]) \<and> n = max 0 (int (length (contents q)) + 1 - cap q) \<and>
      lost q' = lost q + n \<and> good q' \<and> cap q' = cap q"
begin

lemma push_all_law:
  assumes "good q" and "0 \<le> cap q"
  shows "good (push_all push xs q) \<and> cap (push_all push xs q) = cap q \<and> lost q \<le> lost (push_all push xs q) \<and>
    contents (push_all push xs q) =
      drop (nat (lost (push_all push xs q) - lost q)) (contents q @ map payload xs) \<and>
    int (length (contents (push_all push xs q))) + (lost (push_all push xs q) - lost q) =
      int (length (contents q) + length xs) \<and>
    (int (length (contents q)) \<le> cap q \<longrightarrow> int (length (contents (push_all push xs q))) \<le> cap q)"
  using assms
proof (induction xs arbitrary: q)
  case Nil
  then show ?case by (simp add: push_all_def)
next
  case (Cons x xs)
  obtain n q1 where p: "push x q = (n, q1)" by fastforce
  note law = push_law [OF Cons.prems(1) p]
  define q2 where "q2 = push_all push xs q1"
  define k where "k = lost q2 - lost q1"
  have e: "push_all push (x # xs) q = q2" by (simp add: push_all_def p q2_def)
  have g1: "good q1" "cap q1 = cap q" "0 \<le> cap q1" using law Cons.prems(2) by simp_all
  have ih: "good q2" "cap q2 = cap q" "lost q1 \<le> lost q2" "contents q2 = drop (nat k) (contents q1 @ map payload xs)"
    "int (length (contents q2)) + k = int (length (contents q1) + length xs)"
    "int (length (contents q1)) \<le> cap q \<longrightarrow> int (length (contents q2)) \<le> cap q"
    using Cons.IH [OF g1(1) g1(3)] unfolding q2_def [symmetric] k_def [symmetric] g1(2) by blast+
  have n: "0 \<le> n" "n \<le> int (length (contents q)) + 1" using law Cons.prems(2) by auto
  have lost: "lost q2 - lost q = n + k" using law by (simp add: k_def)
  have c1: "contents q1 = drop (nat n) (contents q @ [payload x])" using law by simp
  have dr: "drop (nat (n + k)) (contents q @ map payload (x # xs)) = drop (nat k) (contents q1 @ map payload xs)"
  proof -
    have "drop (nat n) ((contents q @ [payload x]) @ map payload xs) = contents q1 @ map payload xs"
      unfolding drop_append [of "nat n" "contents q @ [payload x]"] c1 using n by simp
    then have "drop (nat k) (drop (nat n) ((contents q @ [payload x]) @ map payload xs)) = drop (nat k) (contents q1 @ map payload xs)"
      by (rule arg_cong)
    moreover have "nat (n + k) = nat k + nat n" using n(1) ih(3) by (simp add: k_def nat_add_distrib)
    ultimately show ?thesis unfolding drop_drop by (simp only: append_assoc list.map append.simps)
  qed
  have l1: "int (length (contents q1)) = int (length (contents q)) + 1 - n" using n by (simp add: c1)
  have b1: "int (length (contents q)) \<le> cap q \<longrightarrow> int (length (contents q1)) \<le> cap q" unfolding l1 using law by (simp add: max_def)
  show ?case unfolding e lost
  proof (intro conjI)
    show "lost q \<le> lost q2" using lost n(1) ih(3) by (simp add: k_def)
    show "contents q2 = drop (nat (n + k)) (contents q @ map payload (x # xs))" unfolding dr by (rule ih(4))
    show "int (length (contents q2)) + (n + k) = int (length (contents q) + length (x # xs))" using ih(5) l1 by simp
    show "int (length (contents q)) \<le> cap q \<longrightarrow> int (length (contents q2)) \<le> cap q" using ih(6) b1 by blast
  qed (rule ih(1,2))+
qed

end

definition queue_wf :: "('m, 'e) queue \<Rightarrow> bool" where
  "queue_wf q \<longleftrightarrow> table_wf (qu_metrics q) \<and> table_wf (qu_events q)"

lemma KindMetrics_neq [simp]: "KindMetrics \<noteq> KindEvents" "KindEvents \<noteq> KindMetrics"
  by (simp_all add: KindMetrics_def KindEvents_def)

lemma EnqueueMetrics_law:
  assumes "queue_wf q" and "EnqueueMetrics seq p now q = (n, q')"
  shows "map q_Payload (qt_rows (qu_metrics q')) = drop (nat n) (map q_Payload (qt_rows (qu_metrics q)) @ [p]) \<and>
    n = max 0 (int (length (map q_Payload (qt_rows (qu_metrics q)))) + 1 - qu_maxBatch q) \<and>
    recorded KindMetrics (qu_overflow q') = recorded KindMetrics (qu_overflow q) + n \<and> queue_wf q' \<and>
    qu_maxBatch q' = qu_maxBatch q"
proof -
  obtain t ovs where e: "enqueue KindMetrics (qu_maxBatch q) seq p now (qu_metrics q, qu_overflow q) = (n, t, ovs)"
    "q' = q\<lparr>qu_metrics := t, qu_overflow := ovs\<rparr>"
    using assms(2) by (auto simp: EnqueueMetrics_def with_metrics_def split: prod.splits)
  from enqueue_run [OF _ e(1)] assms(1) show ?thesis
    by (auto simp: queue_wf_def e(2) drop_map [symmetric] new_row_def)
qed

lemma EnqueueEvent_law:
  assumes "queue_wf q" and "EnqueueEvent seq p now q = (n, q')"
  shows "map q_Payload (qt_rows (qu_events q')) = drop (nat n) (map q_Payload (qt_rows (qu_events q)) @ [p]) \<and>
    n = max 0 (int (length (map q_Payload (qt_rows (qu_events q)))) + 1 - qu_maxEvents q) \<and>
    recorded KindEvents (qu_overflow q') = recorded KindEvents (qu_overflow q) + n \<and> queue_wf q' \<and>
    qu_maxEvents q' = qu_maxEvents q"
proof -
  obtain t ovs where e: "enqueue KindEvents (qu_maxEvents q) seq p now (qu_events q, qu_overflow q) = (n, t, ovs)"
    "q' = q\<lparr>qu_events := t, qu_overflow := ovs\<rparr>"
    using assms(2) by (auto simp: EnqueueEvent_def with_events_def split: prod.splits)
  from enqueue_run [OF _ e(1)] assms(1) show ?thesis
    by (auto simp: queue_wf_def e(2) drop_map [symmetric] new_row_def)
qed

interpretation mfifo: bounded_fifo "\<lambda>q. map q_Payload (qt_rows (qu_metrics q))" "\<lambda>q. recorded KindMetrics (qu_overflow q)"
  queue_wf qu_maxBatch "\<lambda>(seq, p, now). EnqueueMetrics seq p now" "\<lambda>(seq, p, now). p"
proof
  fix q :: "('a, 'b) queue" and x n q'
  assume good: "queue_wf q" and run: "(case x of (seq, p, now) \<Rightarrow> EnqueueMetrics seq p now) q = (n, q')"
  obtain seq p now where x: "x = (seq, p, now)" by (cases x)
  show "map q_Payload (qt_rows (qu_metrics q')) =
      drop (nat n) (map q_Payload (qt_rows (qu_metrics q)) @ [case x of (seq, p, now) \<Rightarrow> p]) \<and>
    n = max 0 (int (length (map q_Payload (qt_rows (qu_metrics q)))) + 1 - qu_maxBatch q) \<and>
    recorded KindMetrics (qu_overflow q') = recorded KindMetrics (qu_overflow q) + n \<and> queue_wf q' \<and> qu_maxBatch q' = qu_maxBatch q"
    unfolding x prod.case by (rule EnqueueMetrics_law [OF good]) (use run in \<open>simp only: x prod.case\<close>)
qed

interpretation efifo: bounded_fifo "\<lambda>q. map q_Payload (qt_rows (qu_events q))" "\<lambda>q. recorded KindEvents (qu_overflow q)"
  queue_wf qu_maxEvents "\<lambda>(seq, p, now). EnqueueEvent seq p now" "\<lambda>(seq, p, now). p"
proof
  fix q :: "('a, 'b) queue" and x n q'
  assume good: "queue_wf q" and run: "(case x of (seq, p, now) \<Rightarrow> EnqueueEvent seq p now) q = (n, q')"
  obtain seq p now where x: "x = (seq, p, now)" by (cases x)
  show "map q_Payload (qt_rows (qu_events q')) =
      drop (nat n) (map q_Payload (qt_rows (qu_events q)) @ [case x of (seq, p, now) \<Rightarrow> p]) \<and>
    n = max 0 (int (length (map q_Payload (qt_rows (qu_events q)))) + 1 - qu_maxEvents q) \<and>
    recorded KindEvents (qu_overflow q') = recorded KindEvents (qu_overflow q) + n \<and> queue_wf q' \<and> qu_maxEvents q' = qu_maxEvents q"
    unfolding x prod.case by (rule EnqueueEvent_law [OF good]) (use run in \<open>simp only: x prod.case\<close>)
qed

text \<open>
  C24: the agent's metrics queue is a bounded first-in first-out queue that accounts for
  its losses.  After any sequence of enqueues it holds the newest batches in order and at
  most the configured number of them, and the overflow record has grown by exactly the
  number of batches that are missing.
\<close>

theorem metrics_queue_accounted:
  assumes "queue_wf q" and "0 \<le> qu_maxBatch q"
    and "q' = push_all (\<lambda>(seq, p, now). EnqueueMetrics seq p now) xs q"
    and "n = recorded KindMetrics (qu_overflow q') - recorded KindMetrics (qu_overflow q)"
  shows "map q_Payload (qt_rows (qu_metrics q')) =
      drop (nat n) (map q_Payload (qt_rows (qu_metrics q)) @ map (\<lambda>(seq, p, now). p) xs) \<and>
    MetricsPending q' + n = MetricsPending q + int (length xs) \<and> 0 \<le> n \<and>
    (MetricsPending q \<le> qu_maxBatch q \<longrightarrow> MetricsPending q' \<le> qu_maxBatch q)"
  using mfifo.push_all_law [OF assms(1,2), of xs] unfolding assms(3,4) MetricsPending_def by simp

theorem metrics_queue_accounted_witness:
  "let q' = push_all (\<lambda>(seq, p, now). EnqueueMetrics seq p now) [(1, ''a'', 10), (2, ''b'', 20), (3, ''c'', 30)]
       (queue_open 2 5 :: (string, string) queue)
   in map q_Payload (qt_rows (qu_metrics q')) = [''b'', ''c''] \<and> MetricsPending q' \<le> 2"
proof -
  let ?q = "queue_open 2 5 :: (string, string) queue"
  let ?xs = "[(1, ''a'', 10), (2, ''b'', 20), (3, ''c'', 30)] :: (int \<times> string \<times> time) list"
  let ?q' = "push_all (\<lambda>(seq, p, now). EnqueueMetrics seq p now) ?xs ?q"
  have n: "recorded KindMetrics (qu_overflow ?q') - recorded KindMetrics (qu_overflow ?q) = 1" by code_simp
  have "queue_wf ?q" "0 \<le> qu_maxBatch ?q" by (simp_all add: queue_wf_def table_wf_def queue_open_def)
  from metrics_queue_accounted [OF this refl refl, of ?xs] show ?thesis
    unfolding n by (simp add: MetricsPending_def queue_open_def Let_def)
qed

end
