(* ===== verification/Reporter.thy ===== *)
theory Reporter
  imports AgentQueue
begin

text \<open>
  The agent's reporter (\<^verbatim>\<open>agent/internal/report\<close>): building events and batches, the
  classification of answers (\<^verbatim>\<open>client.go\<close>), and the drain loop that empties the queue
  towards the hub (\<^verbatim>\<open>reporter.go\<close>).  The HTTP transport, the collector and the clock
  are parameters; \<open>'w\<close> is the state of the world behind the transport.  A loop that may
  run on takes fuel and answers \<open>None\<close> when the fuel is used up.
\<close>

section \<open>Events (events.go, payload.go)\<close>

definition txt_agent_started :: string where \<comment> \<open>collector agent has started, version\<close>
  "txt_agent_started =
     utf8 [233, 135, 135, 233, 155, 134, 228, 187, 163, 231, 144, 134, 229, 183, 178, 229, 144, 175, 229, 138, 168, 32, 118]"

definition txt_queue_overflow :: string where \<comment> \<open>local queue overflow: oldest data dropped\<close>
  "txt_queue_overflow =
     utf8 [230, 156, 172, 229, 156, 176, 230, 140, 129, 228, 185, 133, 233, 152, 159, 229, 136, 151, 230, 186, 162, 229,
     135, 186, 239, 188, 154, 228, 184, 162, 229, 188, 131, 230, 156, 128, 230, 151, 167, 230, 149, 176, 230, 141, 174]"

definition txt_payload_dropped :: string where \<comment> \<open>payload rejected by the hub and dropped\<close>
  "txt_payload_dropped =
     utf8 [228, 184, 138, 230, 138, 165, 232, 189, 189, 232, 141, 183, 232, 162, 171, 228, 184, 173, 230, 158, 162, 230,
     139, 146, 231, 187, 157, 229, 185, 182, 229, 183, 178, 228, 184, 162, 229, 188, 131]"

definition is_cont :: "char \<Rightarrow> bool" where
  "is_cont c \<longleftrightarrow> 128 \<le> (of_char c :: nat) \<and> (of_char c :: nat) < 192"

text \<open>The first \<open>n\<close> runes of a text in valid UTF-8.\<close>

fun take_runes :: "nat \<Rightarrow> string \<Rightarrow> string" where
  "take_runes n [] = []"
| "take_runes n (c # s) =
     (if is_cont c then c # take_runes n s
      else case n of 0 \<Rightarrow> [] | Suc m \<Rightarrow> c # take_runes m s)"

definition truncateRunes :: "string \<Rightarrow> nat \<Rightarrow> string" where
  "truncateRunes s mx = (if rune_count s \<le> mx then s else take_runes mx s)"

text \<open>
  An event in its JSON form, as the hub decodes it: an empty body is omitted.  \<open>u\<close> is the
  identifier drawn by \<^verbatim>\<open>ulid.Make\<close>; \<^verbatim>\<open>collect.ISOTime\<close> has the hub's time format.
\<close>

definition newEvent :: "string \<Rightarrow> string \<Rightarrow> string \<Rightarrow> string \<Rightarrow> string \<Rightarrow> int \<Rightarrow> time \<Rightarrow> eventPayload" where
  "newEvent u kind severity title body seq now =
     \<lparr>ev_EventID = ''ag_'' @ u, ev_Seq = seq, ev_Kind = kind, ev_OccurredAt = fmtTS now, ev_Severity = severity,
      ev_FaultKey = None, ev_IncidentAction = None, ev_Title = truncateRunes title 200,
      ev_Body = (let b = truncateRunes body 20000 in if b = [] then None else Some b), ev_Ref = [], ev_Attachments = []\<rparr>"

definition AgentStartedEvent :: "string \<Rightarrow> int \<Rightarrow> string \<Rightarrow> string \<Rightarrow> time \<Rightarrow> eventPayload" where
  "AgentStartedEvent u seq version hostname now =
     newEvent u ''agent_started'' ''info'' (txt_agent_started @ version @ '' @'' @ hostname) [] seq now"

text \<open>\<^verbatim>\<open>time.RFC3339\<close> in UTC: the hub's format without the milliseconds.\<close>

definition fmt_rfc3339 :: "time \<Rightarrow> string" where
  "fmt_rfc3339 t = (let s = fmtTS t in take (length s - 5) s @ ''Z'')"

definition QueueOverflowEvent :: "string \<Rightarrow> int \<Rightarrow> string \<Rightarrow> int \<Rightarrow> time \<Rightarrow> time \<Rightarrow> time \<Rightarrow> eventPayload" where
  "QueueOverflowEvent u seq kind dropped firstAt lastAt now =
     (newEvent u ''queue_overflow'' ''warning'' txt_queue_overflow [] seq now)
       \<lparr>ev_Body := Some (''queue='' @ kind @ '' dropped='' @ fmt_d dropped @ '' window='' @ fmt_rfc3339 firstAt @
          ''..'' @ fmt_rfc3339 lastAt)\<rparr>"

definition PayloadDroppedEvent :: "string \<Rightarrow> int \<Rightarrow> string \<Rightarrow> string \<Rightarrow> time \<Rightarrow> eventPayload" where
  "PayloadDroppedEvent u seq what reason now =
     newEvent u ''custom'' ''warning'' txt_payload_dropped (what @ '': '' @ reason) seq now"

text \<open>What the collector delivers.\<close>

record collectResult =
  co_Sample :: samplePayload
  co_Capabilities :: "(string \<times> string) list"

definition BuildMetrics :: "int \<Rightarrow> agentInfo \<Rightarrow> collectResult \<Rightarrow> time \<Rightarrow> ingestMetricsReq" where
  "BuildMetrics seq info res sentAt =
     \<lparr>mr_Seq = seq, mr_SentAt = fmtTS sentAt, mr_Agent = Some info,
      mr_Capabilities = Some (co_Capabilities res), mr_Sample = Some (co_Sample res)\<rparr>"

definition BuildEvents :: "eventPayload list \<Rightarrow> time \<Rightarrow> ingestEventsReq" where
  "BuildEvents events sentAt = \<lparr>er_SentAt = fmtTS sentAt, er_Events = events\<rparr>"

section \<open>Answers (client.go)\<close>

datatype errKind = ErrRetryable | ErrUnauthorized | ErrPoison

record sendError =
  se_Kind :: errKind
  se_Status :: int
  se_RetryAfter :: duration
  se_Detail :: string

record metricsAck =
  mk_Accepted :: bool
  mk_Duplicate :: bool
  mk_ServerTime :: string
  mk_ReportIntervalSeconds :: int

record eventsAck =
  ek_Accepted :: "string list"
  ek_Duplicates :: "string list"
  ek_Rejected :: "(string \<times> string \<times> string) list"
  ek_LastSeq :: int
  ek_ServerTime :: string

text \<open>
  An answer of the transport: the status, the header \<^verbatim>\<open>Retry-After\<close> as a number of
  seconds when it is one, the decoded acknowledgement (\<open>None\<close>: the body is not one) and
  the text \<open>errDetail\<close> makes of the body.
\<close>

record 'a response =
  rs_Status :: int
  rs_RetryAfter :: "int option"
  rs_Ack :: "'a option"
  rs_Detail :: string

definition post :: "string + 'a response \<Rightarrow> sendError + 'a" where
  "post r =
     (case r of
        Inl e \<Rightarrow> Inl \<lparr>se_Kind = ErrRetryable, se_Status = 0, se_RetryAfter = 0, se_Detail = e\<rparr>
      | Inr p \<Rightarrow>
          (let err = (\<lambda>k ra. Inl \<lparr>se_Kind = k, se_Status = rs_Status p, se_RetryAfter = ra, se_Detail = rs_Detail p\<rparr>) in
           if 200 \<le> rs_Status p \<and> rs_Status p < 300 then
             (case rs_Ack p of
                None \<Rightarrow> Inl \<lparr>se_Kind = ErrRetryable, se_Status = 0, se_RetryAfter = 0, se_Detail = rs_Detail p\<rparr>
              | Some a \<Rightarrow> Inr a)
           else if rs_Status p = 401 then err ErrUnauthorized 0
           else if rs_Status p = 400 \<or> rs_Status p = 413 then err ErrPoison 0
           else err ErrRetryable
             (if rs_Status p = 429 then (case rs_RetryAfter p of None \<Rightarrow> 0 | Some n \<Rightarrow> seconds n) else 0)))"

definition Error :: "sendError \<Rightarrow> string" where
  "Error e = ''ingest status '' @ fmt_d (se_Status e) @ (if se_Detail e = [] then [] else '': '' @ se_Detail e)"

record 'w transport =
  tr_metrics :: "ingestMetricsReq \<Rightarrow> 'w \<Rightarrow> (string + metricsAck response) \<times> 'w"
  tr_events :: "ingestEventsReq \<Rightarrow> 'w \<Rightarrow> (string + eventsAck response) \<times> 'w"

section \<open>The reporter (reporter.go)\<close>

definition DefaultBackoff :: "int \<Rightarrow> duration" where
  "DefaultBackoff attempt =
     (let a = (if attempt < 0 then 0 else attempt) in
      if a > 10 then seconds 60
      else (let d = wrap64 (push_bit (nat a) (seconds 1)) in if d > seconds 60 then seconds 60 else d))"

type_synonym aqueue = "(ingestMetricsReq, eventPayload) queue"

record 'w reporter =
  rp_q :: aqueue
  rp_interval :: duration
  rp_world :: 'w
  rp_clk :: nat
  rp_ids :: nat

record agentEnv =
  ae_ulid :: "nat \<Rightarrow> string"
  ae_clock :: "nat \<Rightarrow> time"
  ae_info :: agentInfo

definition maxReplay :: int where
  "maxReplay = 100"

definition maxEventSend :: int where
  "maxEventSend = 100"

definition setIntervalSeconds :: "int \<Rightarrow> 'w reporter \<Rightarrow> 'w reporter" where
  "setIntervalSeconds n s =
     (let a = (if n < 10 then 10 else n); b = (if a > 600 then 600 else a) in s\<lparr>rp_interval := seconds b\<rparr>)"

text \<open>
  \<open>emitEvent\<close> and \<open>emitSystemEventNoTrim\<close>: a number, the event with a new identifier and
  the time, the row with its own reading of the clock.
\<close>

definition drawEvent :: "agentEnv \<Rightarrow> (string \<Rightarrow> int \<Rightarrow> time \<Rightarrow> eventPayload) \<Rightarrow> 'w reporter \<Rightarrow> int \<times> eventPayload \<times> time \<times> 'w reporter" where
  "drawEvent A build s =
     (case NextEventSeq (rp_q s) of (seq, q) \<Rightarrow>
       (seq, build (ae_ulid A (rp_ids s)) seq (ae_clock A (rp_clk s)), ae_clock A (Suc (rp_clk s)),
        s\<lparr>rp_q := q, rp_ids := Suc (rp_ids s), rp_clk := Suc (Suc (rp_clk s))\<rparr>))"

definition emitEvent :: "agentEnv \<Rightarrow> (string \<Rightarrow> int \<Rightarrow> time \<Rightarrow> eventPayload) \<Rightarrow> 'w reporter \<Rightarrow> 'w reporter" where
  "emitEvent A build s =
     (case drawEvent A build s of (seq, ev, now, t) \<Rightarrow> t\<lparr>rp_q := snd (EnqueueEvent seq ev now (rp_q t))\<rparr>)"

definition emitSystemEventNoTrim :: "agentEnv \<Rightarrow> (string \<Rightarrow> int \<Rightarrow> time \<Rightarrow> eventPayload) \<Rightarrow> 'w reporter \<Rightarrow> 'w reporter" where
  "emitSystemEventNoTrim A build s =
     (case drawEvent A build s of (seq, ev, now, t) \<Rightarrow> t\<lparr>rp_q := EnqueueEventNoTrim seq ev now (rp_q t)\<rparr>)"

definition agentStart :: "agentEnv \<Rightarrow> 'w reporter \<Rightarrow> 'w reporter" where
  "agentStart A s = emitEvent A (\<lambda>u seq now. AgentStartedEvent u seq (ai_Version (ae_info A)) (ai_Hostname (ae_info A)) now) s"

text \<open>\<open>collectOnce\<close>: a frame the collector could not take is absent, never made up.\<close>

definition collectOnce :: "agentEnv \<Rightarrow> collectResult option \<Rightarrow> 'w reporter \<Rightarrow> 'w reporter" where
  "collectOnce A res s =
     (case res of
        None \<Rightarrow> s
      | Some r \<Rightarrow>
          (case NextMetricsSeq (rp_q s) of (seq, q) \<Rightarrow>
             (let body = BuildMetrics seq (ae_info A) r (ae_clock A (rp_clk s)) in
              s\<lparr>rp_q := snd (EnqueueMetrics seq body (ae_clock A (Suc (rp_clk s))) q),
                rp_clk := Suc (Suc (rp_clk s))\<rparr>)))"

definition flushOverflowKind :: "agentEnv \<Rightarrow> string \<Rightarrow> 'w reporter \<Rightarrow> 'w reporter" where
  "flushOverflowKind A kind s =
     (case TakeOverflow kind (rp_q s) of
        (None, q) \<Rightarrow> s\<lparr>rp_q := q\<rparr>
      | (Some ov, q) \<Rightarrow>
          emitSystemEventNoTrim A (\<lambda>u seq now. QueueOverflowEvent u seq kind (ov_Dropped ov) (ov_FirstAt ov) (ov_LastAt ov) now)
            (s\<lparr>rp_q := q\<rparr>))"

definition flushOverflowEvents :: "agentEnv \<Rightarrow> 'w reporter \<Rightarrow> 'w reporter" where
  "flushOverflowEvents A s = flushOverflowKind A KindEvents (flushOverflowKind A KindMetrics s)"

definition dropPoisonMetrics :: "agentEnv \<Rightarrow> ingestMetricsReq qrow \<Rightarrow> sendError \<Rightarrow> 'w reporter \<Rightarrow> 'w reporter" where
  "dropPoisonMetrics A row err s =
     emitSystemEventNoTrim A (\<lambda>u seq now. PayloadDroppedEvent u seq (''metrics seq='' @ fmt_d (q_Seq row)) (Error err) now)
       (s\<lparr>rp_q := DeleteMetrics [q_ID row] (rp_q s)\<rparr>)"

definition dropPoisonEvents :: "agentEnv \<Rightarrow> eventPayload qrow list \<Rightarrow> sendError \<Rightarrow> 'w reporter \<Rightarrow> 'w reporter" where
  "dropPoisonEvents A rows err s =
     emitSystemEventNoTrim A (\<lambda>u seq now. PayloadDroppedEvent u seq (''events count='' @ fmt_d (int (length rows))) (Error err) now)
       (s\<lparr>rp_q := DeleteEvents (map q_ID rows) (rp_q s)\<rparr>)"

text \<open>The first loop of \<open>drainOnce\<close>.  The answer is the error it returns, if any.\<close>

primrec metrics_loop :: "agentEnv \<Rightarrow> 'w transport \<Rightarrow> nat \<Rightarrow> 'w reporter \<Rightarrow> (sendError option \<times> 'w reporter) option" where
  "metrics_loop A T 0 s = None"
| "metrics_loop A T (Suc n) s =
     (let pending = MetricsPending (rp_q s) in
      if pending = 0 then Some (None, s)
      else if pending > maxReplay then
        (case DropOldestMetrics (pending - maxReplay) (rp_q s) of (dropped, q) \<Rightarrow>
          metrics_loop A T n (if dropped > 0 then flushOverflowEvents A (s\<lparr>rp_q := q\<rparr>) else s\<lparr>rp_q := q\<rparr>))
      else
        (case PeekMetrics 1 (rp_q s) of
           [] \<Rightarrow> Some (None, s)
         | row # _ \<Rightarrow>
             (case tr_metrics T (q_Payload row) (rp_world s) of (r, w) \<Rightarrow>
               (case post r of
                  Inl err \<Rightarrow>
                    if se_Kind err = ErrPoison then metrics_loop A T n (dropPoisonMetrics A row err (s\<lparr>rp_world := w\<rparr>))
                    else Some (Some err, s\<lparr>rp_world := w\<rparr>)
                | Inr ack \<Rightarrow>
                    (let s1 = s\<lparr>rp_world := w, rp_q := DeleteMetrics [q_ID row] (rp_q s)\<rparr> in
                     metrics_loop A T n
                       (if mk_ReportIntervalSeconds ack > 0 then setIntervalSeconds (mk_ReportIntervalSeconds ack) s1
                        else s1))))))"

text \<open>The second loop.\<close>

primrec events_loop :: "agentEnv \<Rightarrow> 'w transport \<Rightarrow> nat \<Rightarrow> 'w reporter \<Rightarrow> (sendError option \<times> 'w reporter) option" where
  "events_loop A T 0 s = None"
| "events_loop A T (Suc n) s =
     (let rows = PeekEvents maxEventSend (rp_q s) in
      if rows = [] then Some (None, s)
      else
        (let body = BuildEvents (map q_Payload rows) (ae_clock A (rp_clk s)); s0 = s\<lparr>rp_clk := Suc (rp_clk s)\<rparr> in
         case tr_events T body (rp_world s0) of (r, w) \<Rightarrow>
           (case post r of
              Inl err \<Rightarrow>
                if se_Kind err = ErrPoison then events_loop A T n (dropPoisonEvents A rows err (s0\<lparr>rp_world := w\<rparr>))
                else Some (Some err, s0\<lparr>rp_world := w\<rparr>)
            | Inr ack \<Rightarrow>
                events_loop A T n (s0\<lparr>rp_world := w, rp_q := DeleteEvents (map q_ID rows) (rp_q s0)\<rparr>))))"

definition drainOnce :: "agentEnv \<Rightarrow> 'w transport \<Rightarrow> nat \<Rightarrow> 'w reporter \<Rightarrow> (sendError option \<times> 'w reporter) option" where
  "drainOnce A T n s =
     (case metrics_loop A T n (flushOverflowEvents A s) of
        None \<Rightarrow> None
      | Some (Some err, t) \<Rightarrow> Some (Some err, t)
      | Some (None, t) \<Rightarrow> events_loop A T n t)"

section \<open>The drain loop\<close>

record drainState =
  dl_attempt :: int
  dl_unauthorized :: bool
  dl_nextTry :: time

definition probeEvery :: duration where
  "probeEvery = 300000000000"

definition anyPending :: "'w reporter \<Rightarrow> bool" where
  "anyPending s \<longleftrightarrow> MetricsPending (rp_q s) + EventsPending (rp_q s) > 0"

text \<open>\<open>handleProbeErr\<close> and the error branch of \<open>drainLoop\<close>; \<open>now\<close> is read when needed.\<close>

definition handleProbeErr :: "sendError \<Rightarrow> time \<Rightarrow> drainState \<Rightarrow> drainState" where
  "handleProbeErr err now d =
     (if se_Kind err = ErrUnauthorized then d\<lparr>dl_nextTry := now + probeEvery\<rparr>
      else d\<lparr>dl_unauthorized := False, dl_attempt := dl_attempt d + 1, dl_nextTry := now + DefaultBackoff (dl_attempt d)\<rparr>)"

definition drainErr :: "sendError \<Rightarrow> time \<Rightarrow> drainState \<Rightarrow> drainState" where
  "drainErr err now d =
     (case se_Kind err of
        ErrUnauthorized \<Rightarrow> d\<lparr>dl_unauthorized := True, dl_nextTry := now + probeEvery\<rparr>
      | ErrPoison \<Rightarrow> d\<lparr>dl_attempt := 0\<rparr>
      | ErrRetryable \<Rightarrow>
          (let delay = (if se_RetryAfter err > 0 then se_RetryAfter err else DefaultBackoff (dl_attempt d))
           in d\<lparr>dl_attempt := dl_attempt d + 1, dl_nextTry := now + delay\<rparr>))"

definition clock_of :: "agentEnv \<Rightarrow> 'w reporter \<Rightarrow> time \<times> 'w reporter" where
  "clock_of A s = (ae_clock A (rp_clk s), s\<lparr>rp_clk := Suc (rp_clk s)\<rparr>)"

definition probeUnauthorized :: "agentEnv \<Rightarrow> 'w transport \<Rightarrow> drainState \<times> 'w reporter \<Rightarrow> drainState \<times> 'w reporter" where
  "probeUnauthorized A T ds =
     (case ds of (d, s) \<Rightarrow>
       (case PeekMetrics 1 (rp_q s) of
          row # _ \<Rightarrow>
            (case tr_metrics T (q_Payload row) (rp_world s) of (r, w) \<Rightarrow>
              (case post r of
                 Inr ack \<Rightarrow>
                   (let s1 = (if mk_ReportIntervalSeconds ack > 0
                              then setIntervalSeconds (mk_ReportIntervalSeconds ack) (s\<lparr>rp_world := w\<rparr>) else s\<lparr>rp_world := w\<rparr>)
                    in (d\<lparr>dl_unauthorized := False, dl_attempt := 0\<rparr>, s1\<lparr>rp_q := DeleteMetrics [q_ID row] (rp_q s1)\<rparr>))
               | Inl err \<Rightarrow> (case clock_of A (s\<lparr>rp_world := w\<rparr>) of (now, s1) \<Rightarrow> (handleProbeErr err now d, s1))))
        | [] \<Rightarrow>
            (case PeekEvents 1 (rp_q s) of
               [] \<Rightarrow> (d\<lparr>dl_unauthorized := False\<rparr>, s)
             | ev # _ \<Rightarrow>
                 (case clock_of A s of (now0, s0) \<Rightarrow>
                   (case tr_events T (BuildEvents [q_Payload ev] now0) (rp_world s0) of (r, w) \<Rightarrow>
                     (case post r of
                        Inr ack \<Rightarrow>
                          (d\<lparr>dl_unauthorized := False, dl_attempt := 0\<rparr>,
                           s0\<lparr>rp_world := w, rp_q := DeleteEvents [q_ID ev] (rp_q s0)\<rparr>)
                      | Inl err \<Rightarrow> (case clock_of A (s0\<lparr>rp_world := w\<rparr>) of (now, s1) \<Rightarrow> (handleProbeErr err now d, s1))))))))"

text \<open>One turn of \<open>drainLoop\<close>; the first two cases wait for a time or a wake-up.\<close>

datatype turn = SleepUntil time | AwaitWake | Turned

definition drainTurn ::
  "agentEnv \<Rightarrow> 'w transport \<Rightarrow> nat \<Rightarrow> drainState \<times> 'w reporter \<Rightarrow> (turn \<times> drainState \<times> 'w reporter) option" where
  "drainTurn A T fuel ds =
     (case ds of (d, s0) \<Rightarrow>
       (case clock_of A s0 of (now, s) \<Rightarrow>
         if now < dl_nextTry d then Some (SleepUntil (dl_nextTry d), d, s)
         else if \<not> anyPending s then Some (AwaitWake, d, s)
         else if dl_unauthorized d then Some (Turned, probeUnauthorized A T (d, s))
         else
           (case drainOnce A T fuel s of
              None \<Rightarrow> None
            | Some (None, t) \<Rightarrow> Some (Turned, d\<lparr>dl_attempt := 0, dl_nextTry := zero_time\<rparr>, t)
            | Some (Some err, t) \<Rightarrow> (case clock_of A t of (now', t') \<Rightarrow> Some (Turned, drainErr err now' d, t')))))"


section \<open>Back-off\<close>

lemma seconds_60: "seconds 60 = 60000000000" "seconds 1 = 1000000000"
  by (simp_all add: seconds_small)

text \<open>The delay doubles from one second and stops at a minute.\<close>

lemma DefaultBackoff_doubles:
  assumes "0 \<le> n"
  shows "DefaultBackoff n = min (2 ^ nat n) 60 * 1000000000"
proof (cases "n > 10")
  case True
  then have "(2 :: int) ^ 10 \<le> 2 ^ nat n" by (intro power_increasing) simp_all
  with True assms show ?thesis by (simp add: DefaultBackoff_def seconds_60 min_def)
next
  case False
  define p where "p = (2 :: int) ^ nat n"
  have "p \<le> 2 ^ 10" unfolding p_def using False by (intro power_increasing) simp_all
  moreover have "1 \<le> p" by (simp add: p_def)
  ultimately have "wrap64 (1000000000 * p) = 1000000000 * p" by (intro wrap64_id) simp_all
  with False assms show ?thesis
    by (simp add: DefaultBackoff_def seconds_60 push_bit_eq_mult p_def [symmetric] Let_def min_def mult.commute)
qed

section \<open>Draining ends\<close>

definition m_count :: "'w reporter \<Rightarrow> nat" where
  "m_count s = length (qt_rows (qu_metrics (rp_q s)))"

definition e_count :: "'w reporter \<Rightarrow> nat" where
  "e_count s = length (qt_rows (qu_events (rp_q s)))"

lemma emitSystem_counts:
  assumes "queue_wf (rp_q s)"
  shows "queue_wf (rp_q (emitSystemEventNoTrim A b s)) \<and> m_count (emitSystemEventNoTrim A b s) = m_count s \<and>
    e_count (emitSystemEventNoTrim A b s) = Suc (e_count s) \<and> rp_world (emitSystemEventNoTrim A b s) = rp_world s"
  using assms table_wf_insert [of "qu_events (rp_q s)"]
  by (auto simp: emitSystemEventNoTrim_def drawEvent_def NextEventSeq_def nextSeq_def EnqueueEventNoTrim_def Let_def
      queue_wf_def m_count_def e_count_def insert_row_def)

lemma flushKind_counts:
  assumes "queue_wf (rp_q s)"
  shows "queue_wf (rp_q (flushOverflowKind A k s)) \<and> m_count (flushOverflowKind A k s) = m_count s \<and>
    e_count s \<le> e_count (flushOverflowKind A k s) \<and> e_count (flushOverflowKind A k s) \<le> Suc (e_count s) \<and>
    rp_world (flushOverflowKind A k s) = rp_world s"
proof (cases "qu_overflow (rp_q s) k")
  case None
  with assms show ?thesis by (simp add: flushOverflowKind_def TakeOverflow_def)
next
  case (Some ov)
  let ?u = "s\<lparr>rp_q := (rp_q s)\<lparr>qu_overflow := (qu_overflow (rp_q s))(k := None)\<rparr>\<rparr>"
  have u: "queue_wf (rp_q ?u)" "m_count ?u = m_count s" "e_count ?u = e_count s" "rp_world ?u = rp_world s"
    using assms by (simp_all add: queue_wf_def m_count_def e_count_def)
  show ?thesis
    using Some emitSystem_counts [OF u(1)] u by (simp add: flushOverflowKind_def TakeOverflow_def)
qed

lemma flush_counts:
  assumes "queue_wf (rp_q s)"
  shows "queue_wf (rp_q (flushOverflowEvents A s)) \<and> m_count (flushOverflowEvents A s) = m_count s \<and>
    e_count s \<le> e_count (flushOverflowEvents A s) \<and> e_count (flushOverflowEvents A s) \<le> e_count s + 2 \<and>
    rp_world (flushOverflowEvents A s) = rp_world s"
  using flushKind_counts [OF assms, of A KindMetrics] flushKind_counts [of "flushOverflowKind A KindMetrics s" A KindEvents]
  by (auto simp: flushOverflowEvents_def)

text \<open>Deleting the rows that were peeked removes exactly the head of a table.\<close>

lemma delete_head:
  assumes "table_wf t"
  shows "deleteIDs (map q_ID (take n (qt_rows t))) t = t\<lparr>qt_rows := drop n (qt_rows t)\<rparr>"
  unfolding deleteIDs_eq set_map using delete_prefix [OF assms, of n] by simp

lemma peek_metrics:
  assumes "queue_wf (rp_q s)" and "m_count s \<noteq> 0"
  obtains row rest where "PeekMetrics 1 (rp_q s) = [row]" "qt_rows (qu_metrics (rp_q s)) = row # rest"
    "DeleteMetrics [q_ID row] (rp_q s) = (rp_q s)\<lparr>qu_metrics := (qu_metrics (rp_q s))\<lparr>qt_rows := rest\<rparr>\<rparr>"
proof -
  obtain row rest where r: "qt_rows (qu_metrics (rp_q s)) = row # rest"
    using assms(2) by (cases "qt_rows (qu_metrics (rp_q s))") (simp_all add: m_count_def)
  have w: "table_wf (qu_metrics (rp_q s))" using assms(1) by (simp add: queue_wf_def)
  show ?thesis
    by (rule that [OF _ r])
      (use delete_head [OF w, of 1] in \<open>simp_all add: PeekMetrics_def DeleteMetrics_def oldest_take [OF w] r\<close>)
qed

lemma delete_row_counts:
  assumes "queue_wf (rp_q s)" and "qt_rows (qu_metrics (rp_q s)) = row # rest"
    and "q' = (rp_q s)\<lparr>qu_metrics := (qu_metrics (rp_q s))\<lparr>qt_rows := rest\<rparr>\<rparr>"
  shows "queue_wf q'" "length (qt_rows (qu_metrics q')) = m_count s - 1" "qu_events q' = qu_events (rp_q s)"
  using assms by (auto simp: queue_wf_def table_wf_def m_count_def)

lemma metrics_loop_total:
  assumes "queue_wf (rp_q s)" and "m_count s + (if m_count s > 100 then 1 else 0) < n"
  shows "\<exists>r t. metrics_loop A T n s = Some (r, t) \<and> queue_wf (rp_q t) \<and> (r = None \<longrightarrow> m_count t = 0) \<and>
    e_count t \<le> e_count s + m_count s + (if m_count s > 100 then 2 else 0)"
  using assms
proof (induction n arbitrary: s)
  case 0
  then show ?case by simp
next
  case (Suc n)
  have mp: "MetricsPending (rp_q s) = int (m_count s)" by (simp add: MetricsPending_def m_count_def)
  consider (none) "m_count s = 0" | (many) "m_count s > 100" | (some) "m_count s \<noteq> 0" "m_count s \<le> 100" by linarith
  then show ?case
  proof cases
    case none
    then show ?thesis using Suc.prems(1) by (simp add: mp)
  next
    case many
    obtain k q where d: "DropOldestMetrics (int (m_count s) - maxReplay) (rp_q s) = (k, q)" by fastforce
    then obtain t ovs where e: "dropOldest KindMetrics (int (m_count s) - maxReplay) (qu_metrics (rp_q s), qu_overflow (rp_q s)) = (k, t, ovs)"
      "q = (rp_q s)\<lparr>qu_metrics := t, qu_overflow := ovs\<rparr>"
      by (auto simp: DropOldestMetrics_def with_metrics_def split: prod.splits)
    have w: "table_wf (qu_metrics (rp_q s))" using Suc.prems(1) by (simp add: queue_wf_def)
    have k: "k = int (m_count s) - 100" "qt_rows t = drop (nat k) (qt_rows (qu_metrics (rp_q s)))" "table_wf t"
      using dropOldest_run [OF w e(1)] many by (auto simp: maxReplay_def m_count_def)
    let ?u = "s\<lparr>rp_q := q\<rparr>"
    have u: "queue_wf (rp_q ?u)" "m_count ?u = 100" "e_count ?u = e_count s"
      using k many Suc.prems(1) by (simp_all add: e(2) queue_wf_def m_count_def e_count_def)
    let ?v = "flushOverflowEvents A ?u"
    have v: "queue_wf (rp_q ?v)" "m_count ?v = 100" "e_count ?v \<le> e_count s + 2"
      using flush_counts [OF u(1), of A] u by auto
    have "metrics_loop A T (Suc n) s = metrics_loop A T n ?v" using many d k(1) by (simp add: mp Let_def maxReplay_def)
    moreover obtain r t where "metrics_loop A T n ?v = Some (r, t)" "queue_wf (rp_q t)" "r = None \<longrightarrow> m_count t = 0"
      "e_count t \<le> e_count ?v + m_count ?v + (if m_count ?v > 100 then 2 else 0)"
      using Suc.IH [OF v(1)] v(2) Suc.prems(2) many by fastforce
    ultimately show ?thesis using v many by auto
  next
    case some
    obtain row rest where p: "PeekMetrics 1 (rp_q s) = [row]" "qt_rows (qu_metrics (rp_q s)) = row # rest"
      "DeleteMetrics [q_ID row] (rp_q s) = (rp_q s)\<lparr>qu_metrics := (qu_metrics (rp_q s))\<lparr>qt_rows := rest\<rparr>\<rparr>"
      by (rule peek_metrics [OF Suc.prems(1) some(1)])
    define q where "q = DeleteMetrics [q_ID row] (rp_q s)"
    have q: "queue_wf q" "length (qt_rows (qu_metrics q)) = m_count s - 1" "qu_events q = qu_events (rp_q s)"
      using delete_row_counts [OF Suc.prems(1) p(2,3)] by (simp_all add: q_def)
    obtain a w where t: "tr_metrics T (q_Payload row) (rp_world s) = (a, w)" by fastforce
    have go: "\<exists>r t. metrics_loop A T n u = Some (r, t) \<and> queue_wf (rp_q t) \<and> (r = None \<longrightarrow> m_count t = 0) \<and>
        e_count t \<le> e_count s + m_count s + (if m_count s > 100 then 2 else 0)"
      if that: "queue_wf (rp_q u)" "m_count u = m_count s - 1" "e_count u \<le> Suc (e_count s)" for u
    proof -
      have "m_count u + (if m_count u > 100 then 1 else 0) < n"
        using that(2) Suc.prems(2) some by (auto split: if_splits)
      from Suc.IH [OF that(1) this] obtain r t where i: "metrics_loop A T n u = Some (r, t)" "queue_wf (rp_q t)"
        "r = None \<longrightarrow> m_count t = 0" "e_count t \<le> e_count u + m_count u + (if m_count u > 100 then 2 else 0)" by blast
      have "e_count t \<le> e_count s + m_count s + (if m_count s > 100 then 2 else 0)" using i(4) that(2,3) some by (auto split: if_splits)
      with i show ?thesis by blast
    qed
    have uq: "queue_wf (rp_q u)" "m_count u = m_count s - 1" "e_count u = e_count s" if "rp_q u = q" for u :: "'a reporter"
      using that q by (simp_all add: m_count_def e_count_def)
    show ?thesis
    proof (cases "post a")
      case (Inl err)
      show ?thesis
      proof (cases "se_Kind err = ErrPoison")
        case True
        let ?u = "dropPoisonMetrics A row err (s\<lparr>rp_world := w\<rparr>)"
        have "queue_wf (rp_q ?u)" "m_count ?u = m_count s - 1" "e_count ?u \<le> Suc (e_count s)"
          using emitSystem_counts [of "(s\<lparr>rp_world := w\<rparr>)\<lparr>rp_q := q\<rparr>" A] uq [of "(s\<lparr>rp_world := w\<rparr>)\<lparr>rp_q := q\<rparr>"]
          by (simp_all add: dropPoisonMetrics_def q_def)
        from go [OF this] show ?thesis using some p(1) t Inl True by (simp add: mp Let_def maxReplay_def)
      next
        case False
        then show ?thesis
          using some p(1) t Inl Suc.prems(1) by (simp add: mp Let_def maxReplay_def m_count_def e_count_def)
      qed
    next
      case (Inr ack)
      let ?s1 = "s\<lparr>rp_world := w, rp_q := q\<rparr>"
      let ?u = "if mk_ReportIntervalSeconds ack > 0 then setIntervalSeconds (mk_ReportIntervalSeconds ack) ?s1 else ?s1"
      have "rp_q ?u = q" by (simp add: setIntervalSeconds_def Let_def)
      then have "\<exists>r t. metrics_loop A T n ?u = Some (r, t) \<and> queue_wf (rp_q t) \<and> (r = None \<longrightarrow> m_count t = 0) \<and>
        e_count t \<le> e_count s + m_count s + (if m_count s > 100 then 2 else 0)"
        using uq [of ?u] by (intro go) simp_all
      then show ?thesis using some p(1) t Inr by (auto simp: mp Let_def maxReplay_def q_def split: if_splits)
    qed
  qed
qed

text \<open>A transport that does not refuse event batches as unacceptable.\<close>

definition takes_events :: "'w transport \<Rightarrow> bool" where
  "takes_events T \<longleftrightarrow> (\<forall>req w err. length (er_Events req) \<le> 100 \<longrightarrow>
     post (fst (tr_events T req w)) = Inl err \<longrightarrow> se_Kind err \<noteq> ErrPoison)"

lemma peek_events:
  assumes "queue_wf (rp_q s)"
  shows "PeekEvents maxEventSend (rp_q s) = take 100 (qt_rows (qu_events (rp_q s)))"
    and "DeleteEvents (map q_ID (take 100 (qt_rows (qu_events (rp_q s))))) (rp_q s) =
      (rp_q s)\<lparr>qu_events := (qu_events (rp_q s))\<lparr>qt_rows := drop 100 (qt_rows (qu_events (rp_q s)))\<rparr>\<rparr>"
proof -
  have w: "table_wf (qu_events (rp_q s))" using assms by (simp add: queue_wf_def)
  show "PeekEvents maxEventSend (rp_q s) = take 100 (qt_rows (qu_events (rp_q s)))"
    by (simp add: PeekEvents_def maxEventSend_def oldest_take [OF w])
  show "DeleteEvents (map q_ID (take 100 (qt_rows (qu_events (rp_q s))))) (rp_q s) =
      (rp_q s)\<lparr>qu_events := (qu_events (rp_q s))\<lparr>qt_rows := drop 100 (qt_rows (qu_events (rp_q s)))\<rparr>\<rparr>"
    by (simp add: DeleteEvents_def delete_head [OF w])
qed

lemma events_loop_total:
  assumes "queue_wf (rp_q s)" and "e_count s < n" and "takes_events T"
  shows "\<exists>r t. events_loop A T n s = Some (r, t) \<and> queue_wf (rp_q t) \<and> m_count t = m_count s \<and> (r = None \<longrightarrow> e_count t = 0)"
  using assms(1,2)
proof (induction n arbitrary: s)
  case 0
  then show ?case by simp
next
  case (Suc n)
  define rows where "rows = qt_rows (qu_events (rp_q s))"
  note pk = peek_events [OF Suc.prems(1), folded rows_def]
  show ?case
  proof (cases "rows = []")
    case True
    then show ?thesis using Suc.prems(1) by (simp add: pk e_count_def rows_def [symmetric])
  next
    case False
    define body where "body = BuildEvents (map q_Payload (take 100 rows)) (ae_clock A (rp_clk s))"
    obtain a w where t: "tr_events T body (rp_world s) = (a, w)" by fastforce
    show ?thesis
    proof (cases "post a")
      case (Inl err)
      have "length (er_Events body) \<le> 100" by (simp add: body_def BuildEvents_def)
      then have "se_Kind err \<noteq> ErrPoison" using assms(3) Inl t unfolding takes_events_def by (metis fst_conv)
      then show ?thesis
        using Suc.prems(1) False t Inl by (simp add: pk Let_def body_def [symmetric] m_count_def)
    next
      case (Inr ack)
      define u where "u = s\<lparr>rp_clk := Suc (rp_clk s), rp_world := w,
        rp_q := DeleteEvents (map q_ID (take 100 rows)) (rp_q s)\<rparr>"
      have "table_wf (qu_events (rp_q s)\<lparr>qt_rows := drop 100 rows\<rparr>)"
        using table_wf_drop [of "qu_events (rp_q s)" 100] Suc.prems(1) by (simp add: queue_wf_def rows_def)
      moreover have qu: "rp_q u = (rp_q s)\<lparr>qu_events := (qu_events (rp_q s))\<lparr>qt_rows := drop 100 rows\<rparr>\<rparr>"
        by (simp add: u_def pk(2))
      moreover have "length rows - 100 < n" using False Suc.prems(2) by (cases rows) (simp_all add: e_count_def rows_def)
      ultimately have "queue_wf (rp_q u)" "e_count u < n" "m_count u = m_count s"
        using Suc.prems(1) by (auto simp: queue_wf_def e_count_def m_count_def)
      from Suc.IH [OF this(1,2)] this(3) show ?thesis
        using False t Inr by (simp add: pk Let_def body_def [symmetric] u_def)
    qed
  qed
qed

lemma drain_total:
  assumes "queue_wf (rp_q s)" and "takes_events T"
    and "MetricsPending (rp_q s) + EventsPending (rp_q s) + 6 \<le> int n"
  shows "\<exists>r t. drainOnce A T n s = Some (r, t) \<and>
    (r = None \<longrightarrow> MetricsPending (rp_q t) = 0 \<and> EventsPending (rp_q t) = 0)"
proof -
  have n: "m_count s + e_count s + 6 \<le> n"
    using assms(3) by (simp add: MetricsPending_def EventsPending_def m_count_def e_count_def)
  let ?u = "flushOverflowEvents A s"
  have u: "queue_wf (rp_q ?u)" "m_count ?u = m_count s" "e_count ?u \<le> e_count s + 2"
    using flush_counts [OF assms(1), of A] by auto
  have lt: "m_count ?u + (if m_count ?u > 100 then 1 else 0) < n" using u(2) n by simp
  obtain r t where m: "metrics_loop A T n ?u = Some (r, t)" "queue_wf (rp_q t)" "r = None \<longrightarrow> m_count t = 0"
    "e_count t \<le> e_count ?u + m_count ?u + (if m_count ?u > 100 then 2 else 0)"
    using metrics_loop_total [OF u(1) lt, of A T] by blast
  show ?thesis
  proof (cases r)
    case None
    have "e_count t < n" using m(4) u n by (simp split: if_splits)
    from events_loop_total [OF m(2) this assms(2), of A] m(3) None show ?thesis
      by (auto simp: drainOnce_def m(1) MetricsPending_def EventsPending_def m_count_def e_count_def)
  next
    case (Some err)
    then show ?thesis by (simp add: drainOnce_def m(1))
  qed
qed

text \<open>
  C25: one drain of the agent's queue always ends, whatever the hub answers, as long as it
  does not refuse event batches as unacceptable (400 or 413).  It needs at most six turns
  more than there are rows, and it returns without an error only when both queues are
  empty.
\<close>

theorem drain_ends:
  assumes "queue_wf (rp_q s)" and "takes_events T"
    and "MetricsPending (rp_q s) + EventsPending (rp_q s) + 6 \<le> int n"
  shows "\<exists>r t. drainOnce A T n s = Some (r, t) \<and>
    (r = None \<longrightarrow> MetricsPending (rp_q t) = 0 \<and> EventsPending (rp_q t) = 0)"
  by (rule drain_total [OF assms])

section \<open>Draining that does not end\<close>

text \<open>A transport that refuses every event batch.\<close>

definition refuses_events :: "'w transport \<Rightarrow> bool" where
  "refuses_events T \<longleftrightarrow> (\<forall>req w. \<exists>err. post (fst (tr_events T req w)) = Inl err \<and> se_Kind err = ErrPoison)"

lemma events_loop_forever:
  assumes "queue_wf (rp_q s)" and "e_count s \<noteq> 0" and "refuses_events T"
  shows "events_loop A T n s = None"
  using assms(1,2)
proof (induction n arbitrary: s)
  case (Suc n)
  define rows where "rows = qt_rows (qu_events (rp_q s))"
  note pk = peek_events [OF Suc.prems(1), folded rows_def]
  have ne: "rows \<noteq> []" using Suc.prems(2) by (simp add: rows_def e_count_def)
  define body where "body = BuildEvents (map q_Payload (take 100 rows)) (ae_clock A (rp_clk s))"
  obtain a w where t: "tr_events T body (rp_world s) = (a, w)" by fastforce
  then obtain err where e: "post a = Inl err" "se_Kind err = ErrPoison"
    using assms(3) unfolding refuses_events_def by (metis fst_conv)
  define u where "u = dropPoisonEvents A (take 100 rows) err (s\<lparr>rp_clk := Suc (rp_clk s), rp_world := w\<rparr>)"
  let ?v = "(s\<lparr>rp_clk := Suc (rp_clk s), rp_world := w\<rparr>)\<lparr>rp_q := DeleteEvents (map q_ID (take 100 rows)) (rp_q s)\<rparr>"
  have "table_wf (qu_events (rp_q s)\<lparr>qt_rows := drop 100 rows\<rparr>)"
    using table_wf_drop [of "qu_events (rp_q s)" 100] Suc.prems(1) by (simp add: queue_wf_def rows_def)
  then have "queue_wf (rp_q ?v)" using Suc.prems(1) by (simp add: pk queue_wf_def)
  from emitSystem_counts [OF this, of A] have "queue_wf (rp_q u)" "e_count u \<noteq> 0"
    by (simp_all add: u_def dropPoisonEvents_def)
  from Suc.IH [OF this] show ?case using ne t e by (simp add: pk Let_def body_def [symmetric] u_def)
qed simp

text \<open>
  C26: against a hub that answers every event batch with 400 or 413 the drain never ends:
  each refused batch is replaced by a new event that reports the refusal and is sent at
  once, without any delay, so that the agent posts forever in a tight loop.
\<close>

theorem drain_never_ends:
  assumes "queue_wf (rp_q s)" and "MetricsPending (rp_q s) = 0" and "EventsPending (rp_q s) > 0" and "refuses_events T"
  shows "drainOnce A T n s = None"
proof (cases n)
  case 0
  then show ?thesis by (simp add: drainOnce_def)
next
  case (Suc k)
  let ?u = "flushOverflowEvents A s"
  have u: "queue_wf (rp_q ?u)" "m_count ?u = 0" "e_count ?u \<noteq> 0"
    using flush_counts [OF assms(1), of A] assms(2,3)
    by (auto simp: MetricsPending_def EventsPending_def m_count_def e_count_def)
  then have "metrics_loop A T n ?u = Some (None, ?u)" by (simp add: Suc MetricsPending_def m_count_def Let_def)
  then show ?thesis by (simp add: drainOnce_def events_loop_forever [OF u(1,3) assms(4)])
qed


section \<open>Witnesses\<close>

definition sample_agent :: agentEnv where
  "sample_agent = \<lparr>ae_ulid = (\<lambda>k. replicate k (CHR ''x'')), ae_clock = (\<lambda>k. 1700000000000000000 + int k),
     ae_info = \<lparr>ai_Version = ''0.1.0'', ai_OS = ''linux'', ai_Arch = ''amd64'', ai_Hostname = ''box''\<rparr>\<rparr>"

text \<open>A hub that answers every request with the same status.\<close>

definition status_transport :: "int \<Rightarrow> unit transport" where
  "status_transport c =
     \<lparr>tr_metrics = (\<lambda>_ w. (Inr \<lparr>rs_Status = c, rs_RetryAfter = None,
        rs_Ack = Some \<lparr>mk_Accepted = True, mk_Duplicate = False, mk_ServerTime = [], mk_ReportIntervalSeconds = 30\<rparr>,
        rs_Detail = []\<rparr>, w)),
      tr_events = (\<lambda>_ w. (Inr \<lparr>rs_Status = c, rs_RetryAfter = None,
        rs_Ack = Some \<lparr>ek_Accepted = [], ek_Duplicates = [], ek_Rejected = [], ek_LastSeq = 0, ek_ServerTime = []\<rparr>,
        rs_Detail = []\<rparr>, w))\<rparr>"

definition started_agent :: "unit reporter" where
  "started_agent = \<lparr>rp_q = snd (EnqueueEvent 1 (AgentStartedEvent ''u'' 1 ''0.1.0'' ''box'' 0) 0 (queue_open 500 1000)),
     rp_interval = seconds 30, rp_world = (), rp_clk = 0, rp_ids = 0\<rparr>"

lemma started_agent_ok:
  "queue_wf (rp_q started_agent)" "MetricsPending (rp_q started_agent) = 0" "EventsPending (rp_q started_agent) = 1"
  by (simp_all add: started_agent_def EnqueueEvent_def with_events_def enqueue_def queue_open_def insert_row_def Let_def
      queue_wf_def table_wf_def MetricsPending_def EventsPending_def)

theorem drain_ends_witness:
  "\<exists>r t. drainOnce sample_agent (status_transport 200) 7 started_agent = Some (r, t) \<and>
     (r = None \<longrightarrow> MetricsPending (rp_q t) = 0 \<and> EventsPending (rp_q t) = 0)"
proof -
  have "takes_events (status_transport 200)" by (simp add: takes_events_def status_transport_def post_def)
  from drain_ends [OF started_agent_ok(1) this, of 7 sample_agent] show ?thesis by (simp add: started_agent_ok)
qed

theorem drain_never_ends_witness: "drainOnce sample_agent (status_transport 400) 1000 started_agent = None"
proof -
  have "refuses_events (status_transport 400)" by (simp add: refuses_events_def status_transport_def post_def)
  from drain_never_ends [OF started_agent_ok(1,2) _ this] show ?thesis by (simp add: started_agent_ok)
qed

end
