(* ===== verification/Delivery.thy ===== *)
theory Delivery
  imports Ingest Reporter
begin

text \<open>
  Agent and hub together: the agent's drain loops run against the hub's ingest handlers
  over a network that may lose any answer after the hub has done its work.
\<close>

section \<open>Event rows under ingest\<close>

text \<open>The event table only grows, and its primary key keeps its rows apart.\<close>

definition ev_distinct :: "hub \<Rightarrow> bool" where
  "ev_distinct s \<longleftrightarrow> distinct (map (\<lambda>r. (e_source_id r, e_event_id r)) (events_of s))"

definition evstep :: "hub \<Rightarrow> hub \<Rightarrow> bool" where
  "evstep s t \<longleftrightarrow> evgrow s t \<and> (ev_distinct s \<longrightarrow> ev_distinct t)"

interpretation es: tx_rel evstep
  by unfold_locales (auto simp: evstep_def intro: eg.R_refl eg.R_trans)

lemma evstep_same: "obeys (same events_of) m \<Longrightarrow> obeys evstep m"
  by (auto simp: obeys_def same_def evstep_def evgrow_def ev_distinct_def)

lemma evstep_insert_event_row: "obeys evstep (insert_event_row r)"
  by (rule obeysI) (auto simp: insert_event_row_def bindT_def evstep_def evgrow_def ev_distinct_def)

lemma evstep_applyEventTx: "obeys evstep (applyEventTx E src ev internal ooo)"
  unfolding applyEventTx_def Let_def
  by (intro es.intros evstep_insert_event_row evstep_same same_nowUTC same_newID same_events_transition
      same_events_store same_events_backfill same_events_emitChange same_events_message)

lemma evstep_emitHubEventTx: "obeys evstep (emitHubEventTx E src k sv fk act t b w)"
  unfolding emitHubEventTx_def
  by (intro es.intros evstep_applyEventTx evstep_same same_events_nextHubSeq same_newID)

lemma evstep_touch: "obeys evstep (touchSourceSeenTx E src seen)"
  unfolding touchSourceSeenTx_def Let_def
  by (intro es.intros evstep_emitHubEventTx evstep_same same_get_db same_events_mod_sources)

lemma evstep_modT: "(\<And>s. h_db (f s) = h_db s) \<Longrightarrow> obeys evstep (modT f)"
  by (rule evstep_same) (simp add: obeys_def same_def)

lemma evstep_mod_db: "(\<And>d. d_events (f d) = d_events d) \<Longrightarrow> obeys evstep (mod_db f)"
  by (rule evstep_same) (simp add: obeys_def same_def)

lemmas evstep_base =
  es.intros evstep_emitHubEventTx evstep_touch evstep_applyEventTx evstep_modT
  evstep_same [OF same_get_db] evstep_same [OF same_nowUTC] evstep_same [OF same_newID]
  evstep_same [OF same_events_emitSource]

lemma evstep_rowT: "obeys evstep (rowT q)"
  unfolding rowT_def by (intro evstep_base)

lemma evstep_loadRules: "obeys evstep loadRules"
  unfolding loadRules_def Let_def by (intro evstep_base evstep_mod_db) simp

lemma evstep_updateSource: "obeys evstep (updateSource i f)"
  unfolding updateSource_def by (rule evstep_mod_db) simp

lemma evstep_thresholdStep: "obeys evstep (thresholdStep E src r l rl now lv)"
  unfolding thresholdStep_def getTimer_def setTimer_def Let_def by (intro evstep_base) simp_all

lemma evstep_evalSample: "obeys evstep (evalSample E src doc sample arrival)"
  unfolding evalSample_def evalRule_def evalThreshold_def evalContainers_def evalSmart_def
    evalPool_def smartStep_def poolStep_def containerStep_def containerGone_def Let_def
  by (intro evstep_base evstep_thresholdStep)

lemma evstep_ingestMetricsTx: "obeys evstep (ingestMetricsTx E i req sample arrival)"
  unfolding ingestMetricsTx_def newSampleTx_def bootTimeTx_def recordSampleTx_def loadSourceTx_def putSample_def
    insertRawMetrics_def
  by (intro evstep_base evstep_rowT evstep_loadRules evstep_updateSource evstep_evalSample evstep_mod_db) simp_all

lemma evstep_ingestEventsTx: "obeys evstep (ingestEventsTx E i events arrival)"
  unfolding ingestEventsTx_def loadSourceTx_def applyItem_def classifyEvent_def Let_def
  by (intro evstep_base evstep_rowT evstep_updateSource)

lemma evstep_withTx: "obeys evstep m \<Longrightarrow> obeys evstep (withTx m)"
proof (rule obeysI)
  fix s
  assume m: "obeys evstep m"
  obtain r t where e: "m s = (r, t)" by (cases "m s")
  show "evstep s (snd (withTx m s))"
    using obeysD [OF m e] e by (cases r) (auto simp: withTx_def evstep_def evgrow_def ev_distinct_def)
qed

lemma evstep_clk: "evstep s t \<Longrightarrow> evstep (s\<lparr>h_clk := k\<rparr>) t" "evstep s t \<Longrightarrow> evstep s (t\<lparr>h_clk := k\<rparr>)"
  by (simp_all add: evstep_def evgrow_def ev_distinct_def)

lemma handleEvents_evstep: "evstep s (snd (handleIngestEvents E src req s))"
proof -
  let ?u = "s\<lparr>h_clk := Suc (h_clk s)\<rparr>"
  let ?m = "withTx (ingestEventsTx E (s_ID src) (er_Events req) (env_clock E (h_clk s)))"
  obtain r t where e: "?m ?u = (r, t)" by fastforce
  have "evstep ?u t" using obeysD [OF evstep_withTx [OF evstep_ingestEventsTx] e] .
  then have "evstep s t" by (simp add: evstep_def evgrow_def ev_distinct_def)
  then show ?thesis
    using e by (auto simp: handleIngestEvents_def Let_def es.R_refl evstep_clk split: sum.split)
qed

lemma handleMetrics_evstep: "evstep s (snd (handleIngestMetrics E src req s))"
proof -
  let ?u = "s\<lparr>h_clk := Suc (h_clk s)\<rparr>"
  have step: "evstep s t" if "withTx (ingestMetricsTx E (s_ID src) req sample (env_clock E (h_clk s))) ?u = (r, t)" for sample r t
    using obeysD [OF evstep_withTx [OF evstep_ingestMetricsTx] that] by (simp add: evstep_def evgrow_def ev_distinct_def)
  show ?thesis
    unfolding handleIngestMetrics_def Let_def
    by (auto simp: es.R_refl evstep_clk split: option.splits prod.splits sum.splits dest: step intro: step evstep_clk)
qed

text \<open>An event that was answered is stored, unless the answer names it as rejected.\<close>

lemma answered_stored:
  assumes "handleIngestEvents E src req s = (AnswerOk c a, t)" and "sorts E" and "ev \<in> set (er_Events req)"
  shows "event_exists (h_db t) (s_ID src) (ev_EventID ev) \<or> ev_EventID ev \<in> fst ` set (ea_rejected a)"
proof -
  obtain s1 cl where g: "evgrow s s1"
    and ok: "classified_ok (h_db s1) (s_ID src) (enumerate 0 (er_Events req)) cl"
    and a: "ea_accepted a = pick (map fst (env_sort E (cl_valid cl))) (er_Events req)"
      "ea_duplicates a = pick (cl_dup cl) (er_Events req)" "ea_rejected a = cl_rejected cl"
    and acc: "set (ea_accepted a) = set (cl_seen cl)" and g': "evgrow s1 t"
    and cnt: "\<forall>x. length (filter (\<lambda>r. e_source_id r = s_ID src \<and> e_event_id r = x) (events_of t)) =
       length (filter (\<lambda>r. e_source_id r = s_ID src \<and> e_event_id r = x) (events_of s1)) +
       (if x \<in> set (cl_seen cl) then 1 else 0)"
    by (rule ingest_answer [OF assms(1,2)])
  from assms(3) obtain k where k: "k < length (er_Events req)" "er_Events req ! k = ev" by (auto simp: in_set_conv_nth)
  then have it: "(k, ev) \<in> set (enumerate 0 (er_Events req))" by (auto simp: in_set_enumerate_eq)
  have "\<forall>it \<in> set (enumerate 0 (er_Events req)). ev_EventID (snd it) \<in> set (cl_seen cl) \<or> fst it \<in> set (cl_dup cl) \<or>
      ev_EventID (snd it) \<in> fst ` set (cl_rejected cl)"
    using ok unfolding classified_ok_def by (elim conjE)
  from bspec [OF this it] consider "ev_EventID ev \<in> set (cl_seen cl)" | "k \<in> set (cl_dup cl)" | "ev_EventID ev \<in> fst ` set (cl_rejected cl)"
    by auto
  then show ?thesis
  proof cases
    case 1
    then show ?thesis using acknowledged_exist [OF assms(1,2)] acc by blast
  next
    case 2
    then have "ev_EventID ev \<in> set (ea_duplicates a)" using k by (auto simp: a(2) set_pick)
    then show ?thesis using acknowledged_exist [OF assms(1,2)] by blast
  next
    case 3
    then show ?thesis by (simp add: a(3))
  qed
qed


section \<open>The network\<close>

text \<open>The hub behind the network, how many requests it has served and which events it has rejected.\<close>

record net =
  n_hub :: hub
  n_req :: nat
  n_rejected :: "(string \<times> string \<times> string) list"

definition rejected_in :: "eventsAnswer answer \<Rightarrow> (string \<times> string \<times> string) list" where
  "rejected_in x = (case x of AnswerErr _ _ \<Rightarrow> [] | AnswerOk _ a \<Rightarrow> ea_rejected a)"

definition events_response :: "eventsAnswer answer \<Rightarrow> eventsAck response" where
  "events_response x =
     (case x of
        AnswerErr c code \<Rightarrow> \<lparr>rs_Status = c, rs_RetryAfter = None, rs_Ack = None, rs_Detail = code\<rparr>
      | AnswerOk c a \<Rightarrow>
          \<lparr>rs_Status = c, rs_RetryAfter = None,
           rs_Ack = Some \<lparr>ek_Accepted = ea_accepted a, ek_Duplicates = ea_duplicates a, ek_Rejected = ea_rejected a,
             ek_LastSeq = ea_lastSeq a, ek_ServerTime = ea_serverTime a\<rparr>, rs_Detail = []\<rparr>)"

definition metrics_response :: "metricsAnswer answer \<Rightarrow> metricsAck response" where
  "metrics_response x =
     (case x of
        AnswerErr c code \<Rightarrow> \<lparr>rs_Status = c, rs_RetryAfter = None, rs_Ack = None, rs_Detail = code\<rparr>
      | AnswerOk c a \<Rightarrow>
          \<lparr>rs_Status = c, rs_RetryAfter = None,
           rs_Ack = Some \<lparr>mk_Accepted = ma_accepted a, mk_Duplicate = ma_duplicate a, mk_ServerTime = ma_serverTime a,
             mk_ReportIntervalSeconds = ma_reportIntervalSeconds a\<rparr>, rs_Detail = []\<rparr>)"

text \<open>
  The source \<open>src\<close> talks to the hub; \<open>lose k\<close> says that the answer to request \<open>k\<close> does not
  reach the agent, although the hub has handled the request.
\<close>

definition hub_net :: "env \<Rightarrow> sourceRow \<Rightarrow> (nat \<Rightarrow> bool) \<Rightarrow> net transport" where
  "hub_net E src lose =
     \<lparr>tr_metrics = (\<lambda>req w. case handleIngestMetrics E src req (n_hub w) of (a, h) \<Rightarrow>
        (if lose (n_req w) then Inl ''timeout'' else Inr (metrics_response a),
         w\<lparr>n_hub := h, n_req := Suc (n_req w)\<rparr>)),
      tr_events = (\<lambda>req w. case handleIngestEvents E src req (n_hub w) of (a, h) \<Rightarrow>
        (if lose (n_req w) then Inl ''timeout'' else Inr (events_response a),
         w\<lparr>n_hub := h, n_req := Suc (n_req w), n_rejected := n_rejected w @ rejected_in a\<rparr>))\<rparr>"

text \<open>Every request moves the hub by its handler and adds to the rejections at most.\<close>

definition netstep :: "net \<Rightarrow> net \<Rightarrow> bool" where
  "netstep w w' \<longleftrightarrow> evstep (n_hub w) (n_hub w') \<and> set (n_rejected w) \<subseteq> set (n_rejected w')"

lemma netstep_refl: "netstep w w"
  by (simp add: netstep_def es.R_refl)

lemma netstep_trans: "netstep w w1 \<Longrightarrow> netstep w1 w2 \<Longrightarrow> netstep w w2"
  unfolding netstep_def by (blast intro: es.R_trans)

lemma net_metrics_step: "netstep w (snd (tr_metrics (hub_net E src lose) req w))"
  using handleMetrics_evstep [of "n_hub w" E src req]
  by (cases "handleIngestMetrics E src req (n_hub w)") (simp add: hub_net_def netstep_def)

lemma net_events_step: "netstep w (snd (tr_events (hub_net E src lose) req w))"
  using handleEvents_evstep [of "n_hub w" E src req]
  by (cases "handleIngestEvents E src req (n_hub w)") (simp add: hub_net_def netstep_def)

text \<open>An acknowledgement reaches the agent only for a batch the hub has answered with 200.\<close>

lemma net_events_ack:
  assumes "tr_events (hub_net E src lose) req w = (r, w')" and "post r = Inr ack"
  shows "\<exists>c a. handleIngestEvents E src req (n_hub w) = (AnswerOk c a, n_hub w') \<and> set (ea_rejected a) \<subseteq> set (n_rejected w')"
  using assms
  by (auto simp: hub_net_def post_def events_response_def rejected_in_def Let_def split: prod.splits if_splits answer.splits)

lemma handleEvents_status:
  assumes "handleIngestEvents E src req s = (AnswerErr c code, t)" and "length (er_Events req) \<le> 100"
  shows "c = 500"
  using assms by (auto simp: handleIngestEvents_def Let_def split: prod.splits sum.splits)

lemma net_takes_events: "takes_events (hub_net E src lose)"
proof -
  have "se_Kind err \<noteq> ErrPoison"
    if len: "length (er_Events req) \<le> 100" and e: "post (fst (tr_events (hub_net E src lose) req w)) = Inl err" for req w err
  proof -
    obtain a h where h: "handleIngestEvents E src req (n_hub w) = (a, h)" by fastforce
    have ok: "c = 200" if "a = AnswerOk c x" for c x
      using handleEvents_ok [of E src req "n_hub w" c x h] h that by blast
    have "c = 500" if "a = AnswerErr c x" for c x using handleEvents_status [OF _ len] h that by blast
    with ok h e show ?thesis
      by (cases a) (auto simp: hub_net_def post_def events_response_def Let_def split: if_splits)
  qed
  then show ?thesis by (simp add: takes_events_def)
qed

section \<open>Nothing is lost, nothing is doubled\<close>

abbreviation ev_rows :: "'w reporter \<Rightarrow> eventPayload qrow list" where
  "ev_rows s \<equiv> qt_rows (qu_events (rp_q s))"

abbreviation hub_of :: "net reporter \<Rightarrow> hub" where
  "hub_of s \<equiv> n_hub (rp_world s)"

lemma emitSystem_rows: "set (ev_rows s) \<subseteq> set (ev_rows (emitSystemEventNoTrim A b s))"
  by (auto simp: emitSystemEventNoTrim_def drawEvent_def NextEventSeq_def nextSeq_def EnqueueEventNoTrim_def Let_def
      insert_row_def)

lemma flushKind_rows: "set (ev_rows s) \<subseteq> set (ev_rows (flushOverflowKind A k s))"
  using emitSystem_rows by (fastforce simp: flushOverflowKind_def TakeOverflow_def split: option.splits)

lemma flush_rows: "set (ev_rows s) \<subseteq> set (ev_rows (flushOverflowEvents A s))"
  unfolding flushOverflowEvents_def using flushKind_rows by blast

text \<open>The metrics loop adds events at most, and moves the hub by requests only.\<close>

lemma metrics_loop_net:
  assumes "metrics_loop A (hub_net E src lose) n s = Some (r, t)" and "queue_wf (rp_q s)"
  shows "queue_wf (rp_q t) \<and> set (ev_rows s) \<subseteq> set (ev_rows t) \<and> netstep (rp_world s) (rp_world t)"
  using assms
proof (induction n arbitrary: s)
  case 0
  then show ?case by simp
next
  case (Suc n)
  let ?T = "hub_net E src lose"
  have mp: "MetricsPending (rp_q s) = int (m_count s)" by (simp add: MetricsPending_def m_count_def)
  have chain: "queue_wf (rp_q t) \<and> set (ev_rows s) \<subseteq> set (ev_rows t) \<and> netstep (rp_world s) (rp_world t)"
    if "metrics_loop A ?T n u = Some (r, t)" "queue_wf (rp_q u)" "set (ev_rows s) \<subseteq> set (ev_rows u)"
      "netstep (rp_world s) (rp_world u)" for u
    using Suc.IH [OF that(1,2)] that(3,4) netstep_trans by blast
  consider (none) "m_count s = 0" | (many) "m_count s > 100" | (some) "m_count s \<noteq> 0" "m_count s \<le> 100" by linarith
  then show ?case
  proof cases
    case none
    then show ?thesis using Suc.prems by (simp add: mp netstep_refl)
  next
    case many
    obtain k q where d: "DropOldestMetrics (int (m_count s) - maxReplay) (rp_q s) = (k, q)" by fastforce
    then obtain tb ovs where e: "dropOldest KindMetrics (int (m_count s) - maxReplay) (qu_metrics (rp_q s), qu_overflow (rp_q s)) = (k, tb, ovs)"
      "q = (rp_q s)\<lparr>qu_metrics := tb, qu_overflow := ovs\<rparr>"
      by (auto simp: DropOldestMetrics_def with_metrics_def split: prod.splits)
    have w: "table_wf (qu_metrics (rp_q s))" using Suc.prems(2) by (simp add: queue_wf_def)
    have q: "queue_wf q" "qu_events q = qu_events (rp_q s)" "k > 0"
      using dropOldest_run [OF w e(1)] many Suc.prems(2) by (auto simp: e(2) queue_wf_def maxReplay_def m_count_def)
    let ?v = "flushOverflowEvents A (s\<lparr>rp_q := q\<rparr>)"
    have "metrics_loop A ?T n ?v = Some (r, t)" using Suc.prems(1) many d q(3) by (simp add: mp Let_def maxReplay_def)
    then show ?thesis
      by (rule chain) (use flush_counts [of "s\<lparr>rp_q := q\<rparr>" A] flush_rows [of "s\<lparr>rp_q := q\<rparr>" A] q in
        \<open>auto simp: netstep_refl\<close>)
  next
    case some
    obtain row rest where p: "PeekMetrics 1 (rp_q s) = [row]" "qt_rows (qu_metrics (rp_q s)) = row # rest"
      "DeleteMetrics [q_ID row] (rp_q s) = (rp_q s)\<lparr>qu_metrics := (qu_metrics (rp_q s))\<lparr>qt_rows := rest\<rparr>\<rparr>"
      by (rule peek_metrics [OF Suc.prems(2) some(1)])
    define q where "q = DeleteMetrics [q_ID row] (rp_q s)"
    have q: "queue_wf q" "qu_events q = qu_events (rp_q s)"
      using delete_row_counts [OF Suc.prems(2) p(2,3)] by (simp_all add: q_def)
    obtain a w where tr: "tr_metrics ?T (q_Payload row) (rp_world s) = (a, w)" by fastforce
    have hub: "netstep (rp_world s) w" using net_metrics_step [of "rp_world s" E src lose "q_Payload row"] tr by simp
    show ?thesis
    proof (cases "post a")
      case (Inl err)
      show ?thesis
      proof (cases "se_Kind err = ErrPoison")
        case True
        let ?u = "dropPoisonMetrics A row err (s\<lparr>rp_world := w\<rparr>)"
        let ?x = "s\<lparr>rp_world := w, rp_q := q\<rparr>"
        have "metrics_loop A ?T n ?u = Some (r, t)"
          using Suc.prems(1) some p(1) tr Inl True by (simp add: mp Let_def maxReplay_def)
        moreover have "set (ev_rows s) \<subseteq> set (ev_rows ?u)" "queue_wf (rp_q ?u)" "rp_world ?u = w"
          using emitSystem_rows [of ?x A] emitSystem_counts [of ?x A] q
          by (auto simp: dropPoisonMetrics_def q_def)
        ultimately show ?thesis using chain [of ?u] hub by simp
      next
        case False
        then show ?thesis
          using Suc.prems some p(1) tr Inl hub by (auto simp: mp Let_def maxReplay_def)
      qed
    next
      case (Inr ack)
      let ?s1 = "s\<lparr>rp_world := w, rp_q := q\<rparr>"
      let ?u = "if mk_ReportIntervalSeconds ack > 0 then setIntervalSeconds (mk_ReportIntervalSeconds ack) ?s1 else ?s1"
      have "metrics_loop A ?T n ?u = Some (r, t)"
        unfolding q_def using Suc.prems(1) some p(1) tr Inr by (simp add: mp Let_def maxReplay_def split del: if_split)
      moreover have "rp_q ?u = q" "rp_world ?u = w" by (simp_all add: setIntervalSeconds_def Let_def)
      ultimately show ?thesis using chain [of ?u] hub q by simp
    qed
  qed
qed

text \<open>What becomes of an event of the queue.\<close>

definition settled :: "string \<Rightarrow> net \<Rightarrow> eventPayload \<Rightarrow> bool" where
  "settled i w ev \<longleftrightarrow> event_exists (h_db (n_hub w)) i (ev_EventID ev) \<or> ev_EventID ev \<in> fst ` set (n_rejected w)"

lemma settled_grow: "netstep w w' \<Longrightarrow> settled i w ev \<Longrightarrow> settled i w' ev"
  using event_exists_grow by (auto simp: settled_def netstep_def evstep_def)

lemma events_loop_net:
  assumes "events_loop A (hub_net E src lose) n s = Some (r, t)" and "queue_wf (rp_q s)" and "sorts E"
  shows "netstep (rp_world s) (rp_world t) \<and> (r = None \<longrightarrow> ev_rows t = []) \<and>
    (\<forall>row \<in> set (ev_rows s). row \<in> set (ev_rows t) \<or> settled (s_ID src) (rp_world t) (q_Payload row))"
  using assms(1,2)
proof (induction n arbitrary: s)
  case 0
  then show ?case by simp
next
  case (Suc n)
  let ?T = "hub_net E src lose"
  define rows where "rows = ev_rows s"
  note pk = peek_events [OF Suc.prems(2), folded rows_def]
  show ?case
  proof (cases "rows = []")
    case True
    then show ?thesis using Suc.prems(1) by (auto simp: pk rows_def netstep_refl)
  next
    case False
    define body where "body = BuildEvents (map q_Payload (take 100 rows)) (ae_clock A (rp_clk s))"
    have len: "length (er_Events body) \<le> 100" by (simp add: body_def BuildEvents_def)
    obtain a w where tr: "tr_events ?T body (rp_world s) = (a, w)" by fastforce
    have hub: "netstep (rp_world s) w" using net_events_step [of "rp_world s" E src lose body] tr by simp
    show ?thesis
    proof (cases "post a")
      case (Inl err)
      have "se_Kind err \<noteq> ErrPoison"
        using net_takes_events [of E src lose] Inl tr len unfolding takes_events_def by (metis fst_conv)
      then have "r = Some err \<and> t = s\<lparr>rp_clk := Suc (rp_clk s), rp_world := w\<rparr>"
        using Suc.prems(1) False tr Inl by (simp add: pk Let_def body_def [symmetric])
      then show ?thesis using hub by simp
    next
      case (Inr ack)
      define u where "u = s\<lparr>rp_clk := Suc (rp_clk s), rp_world := w,
        rp_q := DeleteEvents (map q_ID (take 100 rows)) (rp_q s)\<rparr>"
      have qu: "rp_q u = (rp_q s)\<lparr>qu_events := (qu_events (rp_q s))\<lparr>qt_rows := drop 100 rows\<rparr>\<rparr>" "rp_world u = w"
        by (simp_all add: u_def pk(2))
      have "table_wf (qu_events (rp_q s)\<lparr>qt_rows := drop 100 rows\<rparr>)"
        using table_wf_drop [of "qu_events (rp_q s)" 100] Suc.prems(2) by (simp add: queue_wf_def rows_def)
      then have wf: "queue_wf (rp_q u)" using Suc.prems(2) by (simp add: qu queue_wf_def)
      have run: "events_loop A ?T n u = Some (r, t)"
        using Suc.prems(1) False tr Inr by (simp add: pk Let_def body_def [symmetric] u_def)
      note ih = Suc.IH [OF run wf]
      obtain c x where ok: "handleIngestEvents E src body (hub_of s) = (AnswerOk c x, n_hub w)"
        "set (ea_rejected x) \<subseteq> set (n_rejected w)"
        using net_events_ack [OF tr Inr] by blast
      have "row \<in> set (ev_rows t) \<or> settled (s_ID src) (rp_world t) (q_Payload row)" if mem: "row \<in> set rows" for row
      proof -
        have "set rows = set (take 100 rows) \<union> set (drop 100 rows)"
          unfolding set_append [symmetric] append_take_drop_id ..
        then consider "row \<in> set (take 100 rows)" | "row \<in> set (drop 100 rows)" using mem by blast
        then show ?thesis
        proof cases
          case 1
          then have "q_Payload row \<in> set (er_Events body)" by (simp add: body_def BuildEvents_def)
          from answered_stored [OF ok(1) assms(3) this] ok(2) have "settled (s_ID src) w (q_Payload row)"
            by (auto simp: settled_def)
          then show ?thesis using settled_grow [of w "rp_world t"] ih qu by simp
        next
          case 2
          then show ?thesis using ih qu by simp
        qed
      qed
      moreover have "netstep (rp_world s) (rp_world t)" using netstep_trans [OF hub] ih qu(2) by simp
      ultimately show ?thesis using ih unfolding rows_def by blast
    qed
  qed
qed

lemma stored_once:
  assumes "ev_distinct s" and "event_exists (h_db s) i x"
  shows "length (filter (\<lambda>r. e_source_id r = i \<and> e_event_id r = x) (events_of s)) = 1"
proof -
  have "(i, x) \<in> set (map (\<lambda>r. (e_source_id r, e_event_id r)) (events_of s))"
    using assms(2) by (auto simp: event_exists_def)
  from count_distinct [OF assms(1) [unfolded ev_distinct_def] this] show ?thesis by (simp add: count_rows)
qed

lemma drain_net:
  assumes "drainOnce A (hub_net E src lose) n s = Some (r, t)" and "queue_wf (rp_q s)" and "sorts E"
  shows "netstep (rp_world s) (rp_world t) \<and> (r = None \<longrightarrow> ev_rows t = []) \<and>
    (\<forall>row \<in> set (ev_rows s). row \<in> set (ev_rows t) \<or> settled (s_ID src) (rp_world t) (q_Payload row))"
proof -
  let ?u = "flushOverflowEvents A s"
  have u: "queue_wf (rp_q ?u)" "set (ev_rows s) \<subseteq> set (ev_rows ?u)" "rp_world ?u = rp_world s"
    using flush_counts [OF assms(2), of A] flush_rows [of s A] by auto
  obtain r1 v where v: "metrics_loop A (hub_net E src lose) n ?u = Some (r1, v)"
    using assms(1) by (auto simp: drainOnce_def split: option.splits)
  note m = metrics_loop_net [OF v u(1)]
  show ?thesis
  proof (cases r1)
    case None
    then have "events_loop A (hub_net E src lose) n v = Some (r, t)" using assms(1) v by (simp add: drainOnce_def)
    note ev = events_loop_net [OF this conjunct1 [OF m] assms(3)]
    have "netstep (rp_world s) (rp_world v)" using m u(3) by simp
    then have "netstep (rp_world s) (rp_world t)" using ev by (blast intro: netstep_trans)
    moreover have "set (ev_rows s) \<subseteq> set (ev_rows v)" using m u(2) by blast
    ultimately show ?thesis using ev by blast
  next
    case (Some err)
    then have "r = Some err" "t = v" using assms(1) v by (simp_all add: drainOnce_def)
    then show ?thesis using m u by auto
  qed
qed


definition agent_at_hub :: "net reporter" where
  "agent_at_hub = \<lparr>rp_q = rp_q started_agent, rp_interval = seconds 30,
     rp_world = \<lparr>n_hub = source_hub, n_req = 0, n_rejected = []\<rparr>, rp_clk = 0, rp_ids = 0\<rparr>"


end
