(* ===== verification/Documents.thy ===== *)
theory Documents
  imports Ingest
begin

text \<open>
  The rules and settings documents (\<^verbatim>\<open>hub/admin.go\<close>): reading, validation, and the two
  writers with optimistic locking.  The locale \<open>versioned_doc\<close> is the contract of such a
  writer; it gives that no update is ever lost, and both handlers are instances.
\<close>

section \<open>Rules\<close>

definition txt_rule_id :: string where \<comment> \<open>the rule identifier is missing or malformed\<close>
  "txt_rule_id =
     utf8 [114, 117, 108, 101, 46, 105, 100, 32, 231, 188, 186, 229, 164, 177, 230, 136, 150,
       233, 157, 158, 230, 179, 149]"

definition txt_rule_dup :: string where \<comment> \<open>the rule identifier is used twice\<close>
  "txt_rule_dup =
     utf8 [114, 117, 108, 101, 46, 105, 100, 32, 233, 135, 141, 229, 164, 141]"

definition txt_rule_severity :: string where \<comment> \<open>the severity must be warning or critical\<close>
  "txt_rule_severity =
     utf8 [115, 101, 118, 101, 114, 105, 116, 121, 32, 229, 143, 170, 229, 133, 129, 232, 174,
       184, 32, 119, 97, 114, 110, 105, 110, 103, 47, 99, 114, 105, 116, 105, 99, 97, 108]"

definition txt_rule_metric :: string where \<comment> \<open>a threshold needs a known metric\<close>
  "txt_rule_metric =
     utf8 [116, 104, 114, 101, 115, 104, 111, 108, 100, 32, 233, 156, 128, 232, 166, 129, 229,
       144, 136, 230, 179, 149, 32, 109, 101, 116, 114, 105, 99]"

definition txt_rule_value :: string where \<comment> \<open>a threshold needs a value\<close>
  "txt_rule_value =
     utf8 [116, 104, 114, 101, 115, 104, 111, 108, 100, 32, 233, 156, 128, 232, 166, 129, 32,
       118, 97, 108, 117, 101]"

definition txt_rule_op :: string where \<comment> \<open>unknown comparison\<close>
  "txt_rule_op =
     utf8 [111, 112, 32, 233, 157, 158, 230, 179, 149]"

definition txt_rule_for :: string where \<comment> \<open>negative hold time\<close>
  "txt_rule_for =
     utf8 [102, 111, 114, 83, 101, 99, 111, 110, 100, 115, 32, 233, 157, 158, 230, 179, 149]"

definition txt_rule_recover :: string where \<comment> \<open>negative recovery time\<close>
  "txt_rule_recover =
     utf8 [114, 101, 99, 111, 118, 101, 114, 70, 111, 114, 83, 101, 99, 111, 110, 100, 115,
       32, 233, 157, 158, 230, 179, 149]"

definition txt_rule_kind :: string where \<comment> \<open>unknown kind of rule\<close>
  "txt_rule_kind =
     utf8 [107, 105, 110, 100, 32, 233, 157, 158, 230, 179, 149, 239, 188, 136, 116, 104, 114,
       101, 115, 104, 111, 108, 100, 124, 99, 111, 110, 116, 97, 105, 110, 101, 114, 95, 101,
       120, 105, 116, 124, 115, 109, 97, 114, 116, 124, 112, 111, 111, 108, 239, 188, 137]"

definition seriesMetrics :: "string list" where
  "seriesMetrics = [''cpu_percent'', ''mem_percent'', ''disk_percent'', ''net_rx_bps'', ''net_tx_bps'']"

definition handleRulesGet :: "hub \<Rightarrow> rulesDoc answer \<times> hub" where
  "handleRulesGet s =
     (case loadRules s of (Inl e, t) \<Rightarrow> (AnswerErr 500 ''internal'', t) | (Inr doc, t) \<Rightarrow> (AnswerOk 200 doc, t))"

text \<open>The body of the loop: the first complaint about one rule, the empty text when there is none.\<close>

definition rule_complaint :: "string list \<Rightarrow> rule \<Rightarrow> string" where
  "rule_complaint seen r =
     (if \<not> id_matches 64 (r_ID r) then txt_rule_id
      else if r_ID r \<in> set seen then txt_rule_dup
      else if r_Severity r \<noteq> ''warning'' \<and> r_Severity r \<noteq> ''critical'' then txt_rule_severity
      else if r_Kind r = ''threshold'' then
        (if r_Metric r \<notin> set seriesMetrics then txt_rule_metric
         else if r_Value r = None then txt_rule_value
         else if r_Op r \<notin> {[], ''gt'', ''gte'', ''lt'', ''lte''} then txt_rule_op
         else if r_ForSeconds r < 0 then txt_rule_for
         else if r_RecoverForSeconds r < 0 then txt_rule_recover
         else [])
      else if r_Kind r = ''container_exit'' then []
      else if r_Kind r = ''smart'' \<or> r_Kind r = ''pool'' then []
      else txt_rule_kind)"

fun validate_loop :: "string list \<Rightarrow> rule list \<Rightarrow> string" where
  "validate_loop seen [] = []"
| "validate_loop seen (r # rs) =
     (if rule_complaint seen r \<noteq> [] then rule_complaint seen r else validate_loop (r_ID r # seen) rs)"

definition validateRulesDoc :: "rule list \<Rightarrow> string" where
  "validateRulesDoc rs = validate_loop [] rs"

text \<open>The answer of a writer: an ordinary answer, or 409 with the current version.\<close>

datatype 'd docAnswer = DocAnswer "'d answer" | DocConflict int

record rulesReq =
  rr_ExpectedVersion :: "int option"
  rr_HeartbeatSeconds :: "int option"
  rr_Rules :: "rule list"

text \<open>
  The transaction of \<open>handleRulesPut\<close> once it has read the document.  The document is read
  over another connection before the transaction has written anything, so a default
  document created by the reading stays when the transaction is rolled back.
\<close>

definition rulesPutTx :: "env \<Rightarrow> int \<Rightarrow> rulesReq \<Rightarrow> rulesDoc \<Rightarrow> rulesDoc htx" where
  "rulesPutTx E expected req doc =
     (if rd_Version doc \<noteq> expected then failT (ErrConflict (rd_Version doc))
      else
        (let doc' = \<lparr>rd_Version = wrap64 (rd_Version doc + 1),
               rd_HeartbeatSeconds = (case rr_HeartbeatSeconds req of None \<Rightarrow> rd_HeartbeatSeconds doc | Some h \<Rightarrow> h),
               rd_Rules = rr_Rules req\<rparr> in
         thenT (mod_db (\<lambda>d. d\<lparr>d_rules := map_option (\<lambda>_. doc') (d_rules d)\<rparr>))
           (thenT (emitChangeTx E ''rules'' ''rules'' (\<lambda>_. DRules doc') None) (retT doc'))))"

definition doc_answer :: "txerr + 'd \<Rightarrow> 'd docAnswer" where
  "doc_answer r =
     (case r of
        Inl (ErrConflict v) \<Rightarrow> DocConflict v
      | Inl _ \<Rightarrow> DocAnswer (AnswerErr 500 ''internal'')
      | Inr d \<Rightarrow> DocAnswer (AnswerOk 200 d))"

definition handleRulesPut :: "env \<Rightarrow> rulesReq \<Rightarrow> hub \<Rightarrow> rulesDoc docAnswer \<times> hub" where
  "handleRulesPut E req s =
     (case rr_ExpectedVersion req of
        None \<Rightarrow> (DocAnswer (AnswerErr 400 ''invalid_request''), s)
      | Some expected \<Rightarrow>
          if validateRulesDoc (rr_Rules req) \<noteq> [] then (DocAnswer (AnswerErr 400 ''invalid_request''), s)
          else if (case rr_HeartbeatSeconds req of None \<Rightarrow> False | Some h \<Rightarrow> h < 60 \<or> 3600 < h)
            then (DocAnswer (AnswerErr 400 ''invalid_request''), s)
          else (case loadRules s of
              (Inl e, t) \<Rightarrow> (DocAnswer (AnswerErr 500 ''internal''), t)
            | (Inr doc, t) \<Rightarrow> (case withTx (rulesPutTx E expected req doc) t of (r, u) \<Rightarrow> (doc_answer r, u))))"

section \<open>Settings\<close>

definition handleSettingsGet :: "hub \<Rightarrow> settingsDoc answer \<times> hub" where
  "handleSettingsGet s =
     (case loadSettings s of (Inl e, t) \<Rightarrow> (AnswerErr 500 ''internal'', t) | (Inr doc, t) \<Rightarrow> (AnswerOk 200 doc, t))"

text \<open>\<^verbatim>\<open>^([01]\d|2[0-3]):[0-5]\d$\<close>.\<close>

definition dnd_time :: "string \<Rightarrow> bool" where
  "dnd_time s =
     (case s of
        [a, b, c, d, e] \<Rightarrow>
          (a \<in> set ''01'' \<and> b \<in> set ''0123456789'' \<or> a = CHR ''2'' \<and> b \<in> set ''0123'') \<and>
          c = CHR '':'' \<and> d \<in> set ''012345'' \<and> e \<in> set ''0123456789''
      | _ \<Rightarrow> False)"

record settingsReq =
  sr_ExpectedVersion :: "int option"
  sr_DND :: "dndConfig option"
  sr_ReportIntervalSeconds :: "int option"

definition settings_bad :: "settingsReq \<Rightarrow> bool" where
  "settings_bad req \<longleftrightarrow>
     (case sr_DND req of None \<Rightarrow> False
      | Some c \<Rightarrow> \<not> dnd_time (dnd_Start c) \<or> \<not> dnd_time (dnd_End c) \<or> dnd_Timezone c = []) \<or>
     (case sr_ReportIntervalSeconds req of None \<Rightarrow> False | Some n \<Rightarrow> n < 10 \<or> 600 < n)"

definition settingsPatchTx :: "env \<Rightarrow> int \<Rightarrow> settingsReq \<Rightarrow> settingsDoc \<Rightarrow> settingsDoc htx" where
  "settingsPatchTx E expected req doc =
     (if sd_Version doc \<noteq> expected then failT (ErrConflict (sd_Version doc))
      else
        (let doc' = \<lparr>sd_Version = wrap64 (sd_Version doc + 1),
               sd_DND = (case sr_DND req of None \<Rightarrow> sd_DND doc | Some c \<Rightarrow> c),
               sd_ReportIntervalSeconds =
                 (case sr_ReportIntervalSeconds req of None \<Rightarrow> sd_ReportIntervalSeconds doc | Some n \<Rightarrow> n)\<rparr> in
         thenT (mod_db (\<lambda>d. d\<lparr>d_settings := map_option (\<lambda>_. doc') (d_settings d)\<rparr>))
           (thenT (emitChangeTx E ''settings'' ''settings'' (\<lambda>_. DSettings doc') None) (retT doc'))))"

definition handleSettingsPatch :: "env \<Rightarrow> settingsReq \<Rightarrow> hub \<Rightarrow> settingsDoc docAnswer \<times> hub" where
  "handleSettingsPatch E req s =
     (case sr_ExpectedVersion req of
        None \<Rightarrow> (DocAnswer (AnswerErr 400 ''invalid_request''), s)
      | Some expected \<Rightarrow>
          if settings_bad req then (DocAnswer (AnswerErr 400 ''invalid_request''), s)
          else (case loadSettings s of
              (Inl e, t) \<Rightarrow> (DocAnswer (AnswerErr 500 ''internal''), t)
            | (Inr doc, t) \<Rightarrow> (case withTx (settingsPatchTx E expected req doc) t of (r, u) \<Rightarrow> (doc_answer r, u))))"

section \<open>Validation\<close>

text \<open>What the validation accepts, as a condition on the whole list.\<close>

definition rule_ok :: "rule \<Rightarrow> bool" where
  "rule_ok r \<longleftrightarrow>
     id_matches 64 (r_ID r) \<and> r_Severity r \<in> {''warning'', ''critical''} \<and>
     r_Kind r \<in> {''threshold'', ''container_exit'', ''smart'', ''pool''} \<and>
     (r_Kind r = ''threshold'' \<longrightarrow>
        r_Metric r \<in> set seriesMetrics \<and> r_Value r \<noteq> None \<and> r_Op r \<in> {[], ''gt'', ''gte'', ''lt'', ''lte''} \<and>
        0 \<le> r_ForSeconds r \<and> 0 \<le> r_RecoverForSeconds r)"

lemmas rule_texts =
  txt_rule_id_def txt_rule_dup_def txt_rule_severity_def txt_rule_metric_def txt_rule_value_def txt_rule_op_def
  txt_rule_for_def txt_rule_recover_def txt_rule_kind_def

lemma rule_complaint_ok: "rule_complaint seen r = [] \<longleftrightarrow> rule_ok r \<and> r_ID r \<notin> set seen"
  by (auto simp: rule_complaint_def rule_ok_def rule_texts utf8_def)

lemma validate_loop_ok:
  "validate_loop seen rs = [] \<longleftrightarrow>
     list_all rule_ok rs \<and> distinct (map r_ID rs) \<and> set (map r_ID rs) \<inter> set seen = {}"
  by (induction rs arbitrary: seen) (auto simp: rule_complaint_ok)

text \<open>
  The validation of a rule set accepts exactly the lists of well-formed rules with
  different identifiers.
\<close>

theorem validateRulesDoc_iff:
  "validateRulesDoc rs = [] \<longleftrightarrow> list_all rule_ok rs \<and> distinct (map r_ID rs)"
  by (simp add: validateRulesDoc_def validate_loop_ok)

section \<open>Optimistic locking\<close>

text \<open>The requests a writer accepts in a run, and the final state.\<close>

fun doc_run :: "('q \<Rightarrow> hub \<Rightarrow> 'd docAnswer \<times> hub) \<Rightarrow> 'q list \<Rightarrow> hub \<Rightarrow> 'q list \<times> hub" where
  "doc_run put [] s = ([], s)"
| "doc_run put (q # qs) s =
     (case put q s of (a, t) \<Rightarrow>
       (case doc_run put qs t of (acc, u) \<Rightarrow> ((case a of DocAnswer (AnswerOk _ _) \<Rightarrow> [q] | _ \<Rightarrow> []) @ acc, u)))"

text \<open>
  The contract of a writer.  \<open>vers\<close> is the version of the stored document, \<open>expect\<close> the
  version a request names.  A request is accepted only at the version it names and moves it
  on by one; any other request leaves the version alone.
\<close>

locale versioned_doc =
  fixes vers :: "hub \<Rightarrow> int"
    and expect :: "'q \<Rightarrow> int option"
    and put :: "'q \<Rightarrow> hub \<Rightarrow> 'd docAnswer \<times> hub"
  assumes accepted: "put q s = (DocAnswer (AnswerOk c d), t) \<Longrightarrow> expect q = Some (vers s) \<and> vers t = wrap64 (vers s + 1)"
    and refused: "put q s = (a, t) \<Longrightarrow> (\<And>c d. a \<noteq> DocAnswer (AnswerOk c d)) \<Longrightarrow> vers t = vers s"
    and conflict: "put q s = (DocConflict v, t) \<Longrightarrow> v = vers s \<and> expect q \<noteq> Some v"
begin

lemma run_versions:
  assumes "doc_run put qs s = (acc, u)" and "- (2 ^ 63) \<le> vers s" and "vers s + int (length qs) < 2 ^ 63"
  shows "map expect acc = map Some [vers s .. vers u - 1] \<and> vers u = vers s + int (length acc)"
  using assms
proof (induction qs arbitrary: s acc)
  case Nil
  then show ?case by simp
next
  case (Cons q qs)
  obtain a t where p: "put q s = (a, t)" by fastforce
  obtain acc' where r: "doc_run put qs t = (acc', u)"
    and acc: "acc = (case a of DocAnswer (AnswerOk _ _) \<Rightarrow> [q] | _ \<Rightarrow> []) @ acc'"
    using Cons.prems(1) p by (auto split: prod.splits)
  show ?case
  proof (cases "\<exists>c d. a = DocAnswer (AnswerOk c d)")
    case True
    then have v: "expect q = Some (vers s)" "vers t = vers s + 1" "acc = q # acc'"
      using accepted [of q s] p acc Cons.prems(2,3) by (auto simp: wrap64_id)
    have "map expect acc' = map Some [vers t .. vers u - 1] \<and> vers u = vers t + int (length acc')"
      by (rule Cons.IH [OF r]) (use Cons.prems v in simp_all)
    then show ?thesis using v upto_rec1 [of "vers s" "vers u - 1"] by simp
  next
    case False
    then have v: "vers t = vers s" using refused [OF p] by blast
    have "acc = acc'" using acc False by (auto split: docAnswer.splits answer.splits)
    moreover have "map expect acc' = map Some [vers t .. vers u - 1] \<and> vers u = vers t + int (length acc')"
      by (rule Cons.IH [OF r]) (use Cons.prems v in simp_all)
    ultimately show ?thesis using v by simp
  qed
qed

end

text \<open>The version of a document that was never read is that of the default document.\<close>

definition rules_version :: "hub \<Rightarrow> int" where
  "rules_version s = (case d_rules (h_db s) of None \<Rightarrow> 1 | Some d \<Rightarrow> rd_Version d)"

definition settings_version :: "hub \<Rightarrow> int" where
  "settings_version s = (case d_settings (h_db s) of None \<Rightarrow> 1 | Some d \<Rightarrow> sd_Version d)"

lemma loadRules_run: "\<exists>doc t. loadRules s = (Inr doc, t) \<and> d_rules (h_db t) = Some doc \<and> rd_Version doc = rules_version s"
  by (auto simp: loadRules_def bindT_def thenT_def Let_def rules_version_def split: option.split)

lemma loadSettings_run:
  "\<exists>doc t. loadSettings s = (Inr doc, t) \<and> d_settings (h_db t) = Some doc \<and> sd_Version doc = settings_version s"
  by (auto simp: loadSettings_def bindT_def thenT_def Let_def settings_version_def split: option.split)

text \<open>Storing a document: one update and one change.\<close>

lemma emitChangeTx_errors:
  "emitChangeTx E typ i mk nb s = (Inl e, t) \<Longrightarrow> \<exists>n. e = ErrConstraint n"
  by (auto simp: emitChangeTx_def insertChangeObj_def nextChangeSeq_def insert_change_row_def bindT_def thenT_def
      push_change_def split: if_splits)

lemma doc_write:
  assumes "thenT (mod_db f) (thenT (emitChangeTx E typ i mk nb) (retT d)) s = (r, t)"
    and "\<And>d m. v (d\<lparr>d_meta := m\<rparr>) = v d" and "\<And>d c. v (d\<lparr>d_changes := c\<rparr>) = v d"
  shows "v (h_db t) = v (f (h_db s)) \<and> (r = Inr d \<or> (\<exists>n. r = Inl (ErrConstraint n)))"
proof -
  obtain x u where e: "emitChangeTx E typ i mk nb (s\<lparr>h_db := f (h_db s)\<rparr>) = (x, u)" by fastforce
  have "v (h_db u) = v (f (h_db s))" using sameD [OF same_emitChangeTx [of v] e] assms(2,3) by simp
  moreover have "u = t \<and> r = (case x of Inl e \<Rightarrow> Inl e | Inr _ \<Rightarrow> Inr d)"
    using assms(1) e by (cases x) (auto simp: thenT_def bindT_def)
  ultimately show ?thesis using emitChangeTx_errors e by (cases x) auto
qed

lemma rulesPutTx_cases:
  assumes "withTx (rulesPutTx E expected req doc) s = (r, t)" and "d_rules (h_db s) = Some doc"
  shows "(case r of
      Inr d \<Rightarrow> rd_Version doc = expected \<and> rd_Version d = wrap64 (rd_Version doc + 1) \<and> d_rules (h_db t) = Some d
    | Inl e \<Rightarrow> d_rules (h_db t) = Some doc \<and> (\<forall>v. e = ErrConflict v \<longrightarrow> v = rd_Version doc \<and> v \<noteq> expected))"
proof (cases "expected = rd_Version doc")
  case False
  then show ?thesis using assms by (auto simp: rulesPutTx_def withTx_def)
next
  case True
  define doc' where "doc' = \<lparr>rd_Version = wrap64 (rd_Version doc + 1),
    rd_HeartbeatSeconds = (case rr_HeartbeatSeconds req of None \<Rightarrow> rd_HeartbeatSeconds doc | Some h \<Rightarrow> h), rd_Rules = rr_Rules req\<rparr>"
  have run: "rulesPutTx E expected req doc = thenT (mod_db (\<lambda>d. d\<lparr>d_rules := map_option (\<lambda>_. doc') (d_rules d)\<rparr>))
      (thenT (emitChangeTx E ''rules'' ''rules'' (\<lambda>_. DRules doc') None) (retT doc'))"
    by (simp add: rulesPutTx_def Let_def doc'_def True)
  obtain x u where e: "rulesPutTx E expected req doc s = (x, u)" by fastforce
  from doc_write [OF e [unfolded run], of d_rules] assms(2)
  have "d_rules (h_db u) = Some doc'" "x = Inr doc' \<or> (\<exists>n. x = Inl (ErrConstraint n))" by simp_all
  moreover have "rd_Version doc' = wrap64 (rd_Version doc + 1)" by (simp add: doc'_def)
  ultimately show ?thesis using assms e True by (auto simp: withTx_def)
qed

lemma settingsPatchTx_cases:
  assumes "withTx (settingsPatchTx E expected req doc) s = (r, t)" and "d_settings (h_db s) = Some doc"
  shows "(case r of
      Inr d \<Rightarrow> sd_Version doc = expected \<and> sd_Version d = wrap64 (sd_Version doc + 1) \<and> d_settings (h_db t) = Some d
    | Inl e \<Rightarrow> d_settings (h_db t) = Some doc \<and> (\<forall>v. e = ErrConflict v \<longrightarrow> v = sd_Version doc \<and> v \<noteq> expected))"
proof (cases "expected = sd_Version doc")
  case False
  then show ?thesis using assms by (auto simp: settingsPatchTx_def withTx_def)
next
  case True
  define doc' where "doc' = \<lparr>sd_Version = wrap64 (sd_Version doc + 1),
    sd_DND = (case sr_DND req of None \<Rightarrow> sd_DND doc | Some c \<Rightarrow> c),
    sd_ReportIntervalSeconds = (case sr_ReportIntervalSeconds req of None \<Rightarrow> sd_ReportIntervalSeconds doc | Some n \<Rightarrow> n)\<rparr>"
  have run: "settingsPatchTx E expected req doc = thenT (mod_db (\<lambda>d. d\<lparr>d_settings := map_option (\<lambda>_. doc') (d_settings d)\<rparr>))
      (thenT (emitChangeTx E ''settings'' ''settings'' (\<lambda>_. DSettings doc') None) (retT doc'))"
    by (simp add: settingsPatchTx_def Let_def doc'_def True)
  obtain x u where e: "settingsPatchTx E expected req doc s = (x, u)" by fastforce
  from doc_write [OF e [unfolded run], of d_settings] assms(2)
  have "d_settings (h_db u) = Some doc'" "x = Inr doc' \<or> (\<exists>n. x = Inl (ErrConstraint n))" by simp_all
  moreover have "sd_Version doc' = wrap64 (sd_Version doc + 1)" by (simp add: doc'_def)
  ultimately show ?thesis using assms e True by (auto simp: withTx_def)
qed

lemma doc_answer_ok: "doc_answer r = DocAnswer (AnswerOk c d) \<longleftrightarrow> r = Inr d \<and> c = 200"
  by (auto simp: doc_answer_def split: sum.splits txerr.splits)

lemma doc_answer_conflict: "doc_answer r = DocConflict v \<longleftrightarrow> r = Inl (ErrConflict v)"
  by (auto simp: doc_answer_def split: sum.splits txerr.splits)

text \<open>A request the handler passes on, or refuses at once.\<close>

lemma handleRulesPut_cases:
  assumes "handleRulesPut E q s = (a, t)"
  obtains (bad) "t = s" "\<exists>c code. a = DocAnswer (AnswerErr c code)"
  | (tx) v doc u r where "rr_ExpectedVersion q = Some v" "loadRules s = (Inr doc, u)" "d_rules (h_db u) = Some doc"
      "rd_Version doc = rules_version s" "withTx (rulesPutTx E v q doc) u = (r, t)" "a = doc_answer r"
proof -
  obtain doc u where l: "loadRules s = (Inr doc, u)" "d_rules (h_db u) = Some doc" "rd_Version doc = rules_version s"
    using loadRules_run by blast
  show ?thesis
    using assms bad tx [OF _ l] by (auto simp: handleRulesPut_def l(1) split: option.splits if_splits prod.splits)
qed

lemma handleSettingsPatch_cases:
  assumes "handleSettingsPatch E q s = (a, t)"
  obtains (bad) "t = s" "\<exists>c code. a = DocAnswer (AnswerErr c code)"
  | (tx) v doc u r where "sr_ExpectedVersion q = Some v" "loadSettings s = (Inr doc, u)" "d_settings (h_db u) = Some doc"
      "sd_Version doc = settings_version s" "withTx (settingsPatchTx E v q doc) u = (r, t)" "a = doc_answer r"
proof -
  obtain doc u where l: "loadSettings s = (Inr doc, u)" "d_settings (h_db u) = Some doc" "sd_Version doc = settings_version s"
    using loadSettings_run by blast
  show ?thesis
    using assms bad tx [OF _ l] by (auto simp: handleSettingsPatch_def l(1) split: option.splits if_splits prod.splits)
qed

lemma handleRulesPut_accepted:
  assumes "handleRulesPut E q s = (DocAnswer (AnswerOk c d), t)"
  shows "rr_ExpectedVersion q = Some (rules_version s) \<and> rules_version t = wrap64 (rules_version s + 1)"
  using assms
proof (cases rule: handleRulesPut_cases)
  case (tx v doc u r)
  then have "r = Inr d" using doc_answer_ok [of r c d] by simp
  then show ?thesis using rulesPutTx_cases [OF tx(5,3)] tx by (simp add: rules_version_def)
qed simp

lemma handleRulesPut_refused:
  assumes "handleRulesPut E q s = (a, t)" and "\<And>c d. a \<noteq> DocAnswer (AnswerOk c d)"
  shows "rules_version t = rules_version s"
  using assms(1)
proof (cases rule: handleRulesPut_cases)
  case (tx v doc u r)
  then obtain e where "r = Inl e" using assms(2) by (cases r) (auto simp: doc_answer_def)
  then have "d_rules (h_db t) = Some doc" using rulesPutTx_cases [OF tx(5,3)] by simp
  then show ?thesis using tx(4) by (simp add: rules_version_def [of t])
qed simp

lemma handleRulesPut_conflict:
  assumes "handleRulesPut E q s = (DocConflict v, t)"
  shows "v = rules_version s \<and> rr_ExpectedVersion q \<noteq> Some v"
  using assms
proof (cases rule: handleRulesPut_cases)
  case (tx w doc u r)
  then have "r = Inl (ErrConflict v)" using doc_answer_conflict [of r v] by simp
  then show ?thesis using rulesPutTx_cases [OF tx(5,3)] tx by simp
qed simp

interpretation rules_put: versioned_doc rules_version rr_ExpectedVersion "handleRulesPut E"
  by unfold_locales (fact handleRulesPut_accepted handleRulesPut_refused handleRulesPut_conflict)+

lemma handleSettingsPatch_accepted:
  assumes "handleSettingsPatch E q s = (DocAnswer (AnswerOk c d), t)"
  shows "sr_ExpectedVersion q = Some (settings_version s) \<and> settings_version t = wrap64 (settings_version s + 1)"
  using assms
proof (cases rule: handleSettingsPatch_cases)
  case (tx v doc u r)
  then have "r = Inr d" using doc_answer_ok [of r c d] by simp
  then show ?thesis using settingsPatchTx_cases [OF tx(5,3)] tx by (simp add: settings_version_def)
qed simp

lemma handleSettingsPatch_refused:
  assumes "handleSettingsPatch E q s = (a, t)" and "\<And>c d. a \<noteq> DocAnswer (AnswerOk c d)"
  shows "settings_version t = settings_version s"
  using assms(1)
proof (cases rule: handleSettingsPatch_cases)
  case (tx v doc u r)
  then obtain e where "r = Inl e" using assms(2) by (cases r) (auto simp: doc_answer_def)
  then have "d_settings (h_db t) = Some doc" using settingsPatchTx_cases [OF tx(5,3)] by simp
  then show ?thesis using tx(4) by (simp add: settings_version_def [of t])
qed simp

lemma handleSettingsPatch_conflict:
  assumes "handleSettingsPatch E q s = (DocConflict v, t)"
  shows "v = settings_version s \<and> sr_ExpectedVersion q \<noteq> Some v"
  using assms
proof (cases rule: handleSettingsPatch_cases)
  case (tx w doc u r)
  then have "r = Inl (ErrConflict v)" using doc_answer_conflict [of r v] by simp
  then show ?thesis using settingsPatchTx_cases [OF tx(5,3)] tx by simp
qed simp

interpretation settings_put: versioned_doc settings_version sr_ExpectedVersion "handleSettingsPatch E"
  by unfold_locales (fact handleSettingsPatch_accepted handleSettingsPatch_refused handleSettingsPatch_conflict)+

text \<open>
  C23: no update of the rules is lost.  However many writers send their requests, the accepted
  ones name the versions from the present one on, each exactly once: two writers that start
  from the same version are never both accepted.
\<close>

theorem rules_updates_serial:
  assumes "doc_run (handleRulesPut E) qs s = (acc, u)" and "- (2 ^ 63) \<le> rules_version s"
    and "rules_version s + int (length qs) < 2 ^ 63"
  shows "map rr_ExpectedVersion acc = map Some [rules_version s .. rules_version u - 1] \<and>
    rules_version u = rules_version s + int (length acc)"
  by (rule rules_put.run_versions [OF assms])

lemma settings_updates_serial:
  assumes "doc_run (handleSettingsPatch E) qs s = (acc, u)" and "- (2 ^ 63) \<le> settings_version s"
    and "settings_version s + int (length qs) < 2 ^ 63"
  shows "map sr_ExpectedVersion acc = map Some [settings_version s .. settings_version u - 1] \<and>
    settings_version u = settings_version s + int (length acc)"
  by (rule settings_put.run_versions [OF assms])

text \<open>
  What a valid request to replace the rules does.  At the version it names it stores
  exactly the requested rules under the next version and logs that document as one change; at
  any other version it answers with the present version and writes nothing.
\<close>

theorem rules_put_effect:
  assumes "d_rules (h_db s) = Some doc" and "changes_wf (h_db s)" and "rr_ExpectedVersion req = Some v"
    and "validateRulesDoc (rr_Rules req) = []" and "rr_HeartbeatSeconds req = Some h" and "60 \<le> h" and "h \<le> 3600"
  defines "doc' \<equiv> \<lparr>rd_Version = wrap64 (v + 1), rd_HeartbeatSeconds = h, rd_Rules = rr_Rules req\<rparr>"
  shows "if v = rd_Version doc
    then \<exists>t. handleRulesPut E req s = (DocAnswer (AnswerOk 200 doc'), t) \<and> d_rules (h_db t) = Some doc' \<and>
      map cr_data (d_changes (h_db t)) = map cr_data (d_changes (h_db s)) @ [DRules doc'] \<and>
      map c_Data (h_out t) = map c_Data (h_out s) @ [DRules doc']
    else handleRulesPut E req s = (DocConflict (rd_Version doc), s)"
proof -
  have l: "loadRules s = (Inr doc, s)" using assms(1) by (simp add: loadRules_def bindT_def)
  have h: "handleRulesPut E req s = (case withTx (rulesPutTx E v req doc) s of (r, u) \<Rightarrow> (doc_answer r, u))"
    using assms(3-7) by (simp add: handleRulesPut_def l)
  show ?thesis
  proof (cases "v = rd_Version doc")
    case True
    let ?s = "s\<lparr>h_db := (h_db s)\<lparr>d_rules := Some doc'\<rparr>\<rparr>"
    have "changes_wf (h_db ?s)" using assms(2) by (simp add: changes_wf_def change_counter_def)
    note e = emitChangeTx_run [OF this, of E "''rules''" "''rules''" "\<lambda>_. DRules doc'" None]
    have "rulesPutTx E v req doc = thenT (mod_db (\<lambda>d. d\<lparr>d_rules := map_option (\<lambda>_. doc') (d_rules d)\<rparr>))
        (thenT (emitChangeTx E ''rules'' ''rules'' (\<lambda>_. DRules doc') None) (retT doc'))"
      using assms(5) True by (simp add: rulesPutTx_def Let_def doc'_def)
    then show ?thesis
      using True assms(1) by (simp add: h withTx_def thenT_def bindT_def e Let_def doc_answer_def entry_of_def)
  next
    case False
    then show ?thesis by (simp add: h rulesPutTx_def withTx_def doc_answer_def)
  qed
qed

section \<open>Witnesses\<close>

definition sample_put :: "int \<Rightarrow> rulesReq" where
  "sample_put v = \<lparr>rr_ExpectedVersion = Some v, rr_HeartbeatSeconds = Some 60, rr_Rules = []\<rparr>"

definition rules_hub :: hub where
  "rules_hub = hub_start\<lparr>h_db := empty_db\<lparr>d_rules := Some \<lparr>rd_Version = 1, rd_HeartbeatSeconds = 180, rd_Rules = []\<rparr>\<rparr>\<rparr>"

theorem rules_put_effect_witness:
  "\<exists>t. handleRulesPut sample_env (sample_put 1) rules_hub =
      (DocAnswer (AnswerOk 200 \<lparr>rd_Version = 2, rd_HeartbeatSeconds = 60, rd_Rules = []\<rparr>), t) \<and>
    d_rules (h_db t) = Some \<lparr>rd_Version = 2, rd_HeartbeatSeconds = 60, rd_Rules = []\<rparr>"
proof -
  have w: "wrap64 2 = 2" by (rule wrap64_id) simp_all
  have "changes_wf (h_db rules_hub)" using changes_wf_empty by (simp add: rules_hub_def changes_wf_def change_counter_def)
  from rules_put_effect [OF _ this, of \<open>\<lparr>rd_Version = 1, rd_HeartbeatSeconds = 180, rd_Rules = []\<rparr>\<close> "sample_put 1" 1 60 sample_env]
  show ?thesis by (auto simp: rules_hub_def sample_put_def validateRulesDoc_def w)
qed

theorem rules_updates_serial_witness:
  "\<exists>acc u. doc_run (handleRulesPut sample_env) [sample_put 1, sample_put 1, sample_put 2] rules_hub = (acc, u) \<and>
    map rr_ExpectedVersion acc = map Some [1 .. rules_version u - 1]"
proof -
  obtain acc u where r: "doc_run (handleRulesPut sample_env) [sample_put 1, sample_put 1, sample_put 2] rules_hub = (acc, u)"
    by fastforce
  have "rules_version rules_hub = 1" by (simp add: rules_version_def rules_hub_def)
  with rules_updates_serial [OF r] r show ?thesis by simp
qed

end
