(* ===== verification/Auth.thy ===== *)
theory Auth
  imports Ingest
begin

text \<open>
  Sessions, source keys and the login limiter (\<^verbatim>\<open>hub/auth.go\<close>, with the token and hint
  functions of \<^verbatim>\<open>hub/util.go\<close>).  Tokens are random bytes; the database holds their
  hashes only.  The relation \<open>toks\<close> says that no operation brings a token back: the
  accepted tokens of a later state are those of the earlier one or were drawn since.
\<close>

section \<open>Environment and state\<close>

text \<open>
  What the code takes from outside: the digest of \<^verbatim>\<open>crypto/sha256\<close>, the \<open>k\<close>-th block of 24
  bytes of \<^verbatim>\<open>crypto/rand\<close>, the comparison of package \<^verbatim>\<open>x/crypto/bcrypt\<close>, and the
  administrator's name and password hash of the configuration.
\<close>

record authEnv =
  ax_env :: env
  ax_sha256 :: "string \<Rightarrow> string"
  ax_bytes :: "nat \<Rightarrow> string"
  ax_bcrypt :: "string \<Rightarrow> string \<Rightarrow> bool"
  ax_adminUser :: string
  ax_adminHash :: string

record auth =
  au_hub :: hub
  au_rand :: nat
  au_hits :: "string \<Rightarrow> time list"

type_synonym 'a atx = "(auth, txerr, 'a) tx"

definition hubT :: "'a htx \<Rightarrow> 'a atx" where
  "hubT m s = (case m (au_hub s) of (r, h) \<Rightarrow> (r, s\<lparr>au_hub := h\<rparr>))"

section \<open>Tokens\<close>

definition hex_digit :: "nat \<Rightarrow> char" where
  "hex_digit n = (if n < 10 then char_of (48 + n) else char_of (87 + n))"

text \<open>\<^verbatim>\<open>hex.EncodeToString\<close>.\<close>

definition hex_encode :: "string \<Rightarrow> string" where
  "hex_encode b = concat (map (\<lambda>c. [hex_digit (of_char c div 16), hex_digit (of_char c mod 16)]) b)"

definition hashToken :: "authEnv \<Rightarrow> string \<Rightarrow> string" where
  "hashToken X tok = hex_encode (ax_sha256 X tok)"

definition token_at :: "authEnv \<Rightarrow> string \<Rightarrow> nat \<Rightarrow> string" where
  "token_at X prefix k = prefix @ hex_encode (ax_bytes X k)"

definition randToken :: "authEnv \<Rightarrow> string \<Rightarrow> string atx" where
  "randToken X prefix =
     bindT (getT (\<lambda>s. token_at X prefix (au_rand s)))
       (\<lambda>t. thenT (modT (\<lambda>s. s\<lparr>au_rand := Suc (au_rand s)\<rparr>)) (retT t))"

text \<open>
  \<^verbatim>\<open>strings.TrimSpace\<close> on the bytes of a string: the UTF-8 encodings of the characters
  \<^verbatim>\<open>unicode.IsSpace\<close> accepts go from both ends.
\<close>

definition go_spaces :: "string list" where
  "go_spaces =
     map (\<lambda>c. [c]) [CHR 0x09, CHR 0x0A, CHR 0x0B, CHR 0x0C, CHR 0x0D, CHR 0x20] @
     map (\<lambda>c. [CHR 0xC2, c]) [CHR 0x85, CHR 0xA0] @
     [[CHR 0xE1, CHR 0x9A, CHR 0x80]] @
     map (\<lambda>c. [CHR 0xE2, CHR 0x80, c])
       [CHR 0x80, CHR 0x81, CHR 0x82, CHR 0x83, CHR 0x84, CHR 0x85, CHR 0x86, CHR 0x87, CHR 0x88, CHR 0x89,
        CHR 0x8A, CHR 0xA8, CHR 0xA9, CHR 0xAF] @
     [[CHR 0xE2, CHR 0x81, CHR 0x9F], [CHR 0xE3, CHR 0x80, CHR 0x80]]"

definition starts :: "string \<Rightarrow> string \<Rightarrow> bool" where
  "starts s p \<longleftrightarrow> p \<noteq> [] \<and> take (length p) s = p"

lemma starts_shorter: "find (starts s) ps = Some p \<Longrightarrow> length (drop (length p) s) < length s"
  by (drule find_SomeD) (cases s, auto simp: starts_def)

function trim_with :: "string list \<Rightarrow> string \<Rightarrow> string" where
  "trim_with ps s = (case find (starts s) ps of None \<Rightarrow> s | Some p \<Rightarrow> trim_with ps (drop (length p) s))"
  by pat_completeness auto
termination
  by (relation "measure (\<lambda>(ps, s). length s)") (auto dest: starts_shorter)

declare trim_with.simps [simp del]

definition TrimSpace :: "string \<Rightarrow> string" where
  "TrimSpace s = rev (trim_with (map rev go_spaces) (rev (trim_with go_spaces s)))"

definition bearerToken :: "string \<Rightarrow> string" where
  "bearerToken h = (if take 7 h = ''Bearer '' then TrimSpace (drop 7 h) else [])"

section \<open>Sessions\<close>

record session =
  se_ID :: string
  se_Username :: string
  se_DeviceLabel :: "string option"
  se_ExpiresAt :: time

definition tokenTTL :: duration where
  "tokenTTL = 30 * 24 * 3600 * 1000000000"

definition refreshTTL :: duration where
  "refreshTTL = 90 * 24 * 3600 * 1000000000"

definition clientSession :: "authEnv \<Rightarrow> string \<Rightarrow> session option atx" where
  "clientSession X hdr =
     (let tok = bearerToken hdr in
      if tok = [] then retT None
      else
        bindT (hubT (get_db (\<lambda>d. find (\<lambda>r. ss_token_hash r = hashToken X tok \<and> \<not> ss_revoked r) (d_sessions d)))) (\<lambda>row.
        case row of
          None \<Rightarrow> retT None
        | Some r \<Rightarrow>
            (case parseTS (ss_expires_at r) of
               None \<Rightarrow> failT ErrInvalid
             | Some t \<Rightarrow>
                 bindT (hubT (nowUTC (ax_env X))) (\<lambda>now.
                   if t < now then retT None
                   else retT (Some \<lparr>se_ID = ss_id r, se_Username = ss_username r, se_DeviceLabel = ss_device_label r,
                     se_ExpiresAt = t\<rparr>)))))"

definition requireClient ::
  "authEnv \<Rightarrow> string \<Rightarrow> (session \<Rightarrow> auth \<Rightarrow> 'a answer \<times> auth) \<Rightarrow> auth \<Rightarrow> 'a answer \<times> auth" where
  "requireClient X hdr next_h s =
     (case clientSession X hdr s of
        (Inl e, t) \<Rightarrow> (AnswerErr 500 ''internal'', t)
      | (Inr None, t) \<Rightarrow> (AnswerErr 401 ''unauthorized'', t)
      | (Inr (Some ses), t) \<Rightarrow> next_h ses t)"

definition sourceKeyAuth ::
  "authEnv \<Rightarrow> string \<Rightarrow> (sourceRow \<Rightarrow> auth \<Rightarrow> 'a answer \<times> auth) \<Rightarrow> auth \<Rightarrow> 'a answer \<times> auth" where
  "sourceKeyAuth X hdr next_h s =
     (let key = bearerToken hdr in
      if key = [] then (AnswerErr 401 ''unauthorized'', s)
      else case loadSourceByKeyHash (h_db (au_hub s)) (hashToken X key) of
        None \<Rightarrow> (AnswerErr 401 ''unauthorized'', s)
      | Some src \<Rightarrow> if \<not> s_Enabled src then (AnswerErr 403 ''source_disabled'', s) else next_h src s)"

section \<open>The login limiter\<close>

definition login_window :: duration where
  "login_window = 5 * 60 * 1000000000"

definition maxHits :: nat where
  "maxHits = 10"

text \<open>
  \<open>allow\<close> at time \<open>now\<close>: whether the attempt may go on, the seconds to wait, and the new
  table.  \<^verbatim>\<open>Seconds()\<close> of the positive duration is cut to its whole part.
\<close>

definition allow :: "time \<Rightarrow> string \<Rightarrow> (string \<Rightarrow> time list) \<Rightarrow> (bool \<times> int) \<times> (string \<Rightarrow> time list)" where
  "allow now key hits =
     (let keep = filter (\<lambda>t. now - login_window < t) (hits key) in
      if maxHits \<le> length keep
      then ((False, time_sub (hd keep + login_window) now div 1000000000 + 1), hits(key := keep))
      else ((True, 0), hits(key := keep @ [now])))"

definition allowT :: "authEnv \<Rightarrow> string \<Rightarrow> (bool \<times> int) atx" where
  "allowT X key =
     bindT (hubT (nowUTC (ax_env X))) (\<lambda>now. \<lambda>s.
       (case allow now key (au_hits s) of (r, hits) \<Rightarrow> (Inr r, s\<lparr>au_hits := hits\<rparr>)))"

section \<open>Login, refresh and logout\<close>

record loginReq =
  lr_Username :: string
  lr_Password :: string
  lr_DeviceLabel :: string

record loginJSON =
  lj_token :: string
  lj_expiresAt :: string
  lj_refreshToken :: string
  lj_username :: string
  lj_serverTime :: string

definition insert_session_row :: "sessionRow \<Rightarrow> unit htx" where
  "insert_session_row r =
     bindT (get_db d_sessions) (\<lambda>rs.
       if ss_id r \<in> ss_id ` set rs then failT (ErrConstraint ''sessions'')
       else mod_db (\<lambda>d. d\<lparr>d_sessions := rs @ [r]\<rparr>))"

definition issueSession :: "authEnv \<Rightarrow> string \<Rightarrow> string \<Rightarrow> loginJSON atx" where
  "issueSession X user label =
     bindT (hubT (nowUTC (ax_env X))) (\<lambda>now.
     bindT (randToken X ''tok_'') (\<lambda>tok.
     bindT (randToken X ''rtok_'') (\<lambda>rtok.
     bindT (hubT (newID (ax_env X) ''ses_'')) (\<lambda>i.
     thenT (hubT (insert_session_row
       \<lparr>ss_id = i, ss_token_hash = hashToken X tok, ss_refresh_hash = hashToken X rtok, ss_username = user,
        ss_device_label = (if label = [] then None else Some label), ss_created_at = fmtTS now,
        ss_expires_at = fmtTS (now + tokenTTL), ss_refresh_expires_at = fmtTS (now + refreshTTL),
        ss_revoked = False\<rparr>))
     (retT \<lparr>lj_token = tok, lj_expiresAt = fmtTS (now + tokenTTL), lj_refreshToken = rtok, lj_username = user,
        lj_serverTime = fmtTS now\<rparr>)))))"

definition checkPassword :: "authEnv \<Rightarrow> string \<Rightarrow> bool" where
  "checkPassword X pw \<longleftrightarrow> ax_adminHash X \<noteq> [] \<and> ax_bcrypt X (ax_adminHash X) pw"

text \<open>\<open>handleLogin\<close> with the decoded request and the client's address.\<close>

definition handleLogin :: "authEnv \<Rightarrow> string \<Rightarrow> loginReq \<Rightarrow> auth \<Rightarrow> loginJSON answer \<times> auth" where
  "handleLogin X ip req s =
     (if lr_Username req = [] \<or> lr_Password req = [] then (AnswerErr 400 ''invalid_request'', s)
      else if 100 < length (lr_DeviceLabel req) then (AnswerErr 400 ''invalid_request'', s)
      else case allowT X (ip @ ''|'' @ lr_Username req) s of
        (Inl e, t) \<Rightarrow> (AnswerErr 500 ''internal'', t)
      | (Inr (ok, retry), t) \<Rightarrow>
          if \<not> ok then (AnswerErr 429 ''rate_limited'', t)
          else if lr_Username req \<noteq> ax_adminUser X \<or> \<not> checkPassword X (lr_Password req)
            then (AnswerErr 401 ''invalid_credentials'', t)
          else (case issueSession X (lr_Username req) (lr_DeviceLabel req) t of
              (Inl e, u) \<Rightarrow> (AnswerErr 500 ''internal'', u)
            | (Inr resp, u) \<Rightarrow> (AnswerOk 200 resp, u)))"

text \<open>
  \<open>handleRefresh\<close> reads the session in one statement and rotates it in another.
  \<open>refresh_read\<close> ends with \<open>None\<close> where the handler answers 401: no row, a
  \<^verbatim>\<open>NULL\<close> label (which cannot be scanned into a Go string), a revoked or an expired session.
\<close>

definition refresh_read :: "authEnv \<Rightarrow> string \<Rightarrow> (string \<times> string) option atx" where
  "refresh_read X rt =
     bindT (hubT (get_db (\<lambda>d. find (\<lambda>r. ss_refresh_hash r = hashToken X rt) (d_sessions d)))) (\<lambda>row.
       case row of
         None \<Rightarrow> retT None
       | Some r \<Rightarrow>
           if ss_device_label r = None \<or> ss_revoked r then retT None
           else (case parseTS (ss_refresh_expires_at r) of
               None \<Rightarrow> retT None
             | Some t \<Rightarrow> bindT (hubT (nowUTC (ax_env X))) (\<lambda>now.
                 retT (if t < now then None else Some (ss_id r, ss_username r)))))"

definition refresh_write :: "authEnv \<Rightarrow> string \<times> string \<Rightarrow> loginJSON option atx" where
  "refresh_write X ses =
     bindT (hubT (nowUTC (ax_env X))) (\<lambda>now.
     bindT (randToken X ''tok_'') (\<lambda>tok.
     bindT (randToken X ''rtok_'') (\<lambda>rtok.
     bindT (hubT (get_db (\<lambda>d. \<exists>r \<in> set (d_sessions d). ss_id r = fst ses \<and> \<not> ss_revoked r))) (\<lambda>hit.
     thenT (hubT (mod_db (\<lambda>d. d\<lparr>d_sessions := upd_where (\<lambda>r. ss_id r = fst ses \<and> \<not> ss_revoked r)
       (\<lambda>r. r\<lparr>ss_token_hash := hashToken X tok, ss_refresh_hash := hashToken X rtok,
          ss_expires_at := fmtTS (now + tokenTTL), ss_refresh_expires_at := fmtTS (now + refreshTTL)\<rparr>) (d_sessions d)\<rparr>)))
     (retT (if hit then Some \<lparr>lj_token = tok, lj_expiresAt = fmtTS (now + tokenTTL), lj_refreshToken = rtok,
          lj_username = snd ses, lj_serverTime = fmtTS now\<rparr> else None))))))"

definition handleRefresh :: "authEnv \<Rightarrow> string \<Rightarrow> auth \<Rightarrow> loginJSON answer \<times> auth" where
  "handleRefresh X rt s =
     (if rt = [] then (AnswerErr 400 ''invalid_request'', s)
      else case refresh_read X rt s of
        (Inl e, t) \<Rightarrow> (AnswerErr 500 ''internal'', t)
      | (Inr None, t) \<Rightarrow> (AnswerErr 401 ''invalid_refresh'', t)
      | (Inr (Some ses), t) \<Rightarrow>
          (case refresh_write X ses t of
             (Inl e, u) \<Rightarrow> (AnswerErr 500 ''internal'', u)
           | (Inr None, u) \<Rightarrow> (AnswerErr 401 ''invalid_refresh'', u)
           | (Inr (Some resp), u) \<Rightarrow> (AnswerOk 200 resp, u)))"

record sessionJSON =
  sx_authenticated :: bool
  sx_username :: string
  sx_expiresAt :: string

definition handleSession :: "session \<Rightarrow> auth \<Rightarrow> sessionJSON answer \<times> auth" where
  "handleSession ses s =
     (AnswerOk 200 \<lparr>sx_authenticated = True, sx_username = se_Username ses, sx_expiresAt = fmtTS (se_ExpiresAt ses)\<rparr>, s)"

definition handleLogout :: "session \<Rightarrow> auth \<Rightarrow> unit answer \<times> auth" where
  "handleLogout ses s =
     (case hubT (mod_db (\<lambda>d. d\<lparr>d_sessions := upd_where (\<lambda>r. ss_id r = se_ID ses) (\<lambda>r. r\<lparr>ss_revoked := True\<rparr>)
        (d_sessions d)\<rparr>)) s of (_, t) \<Rightarrow> (AnswerOk 204 (), t))"

section \<open>The limiter keeps its window\<close>

text \<open>The attempts of one key at the times of a list, in order: the times of those allowed.\<close>

fun attempts :: "string \<Rightarrow> time list \<Rightarrow> (string \<Rightarrow> time list) \<Rightarrow> time list" where
  "attempts key [] hits = []"
| "attempts key (now # ts) hits =
     (case allow now key hits of ((ok, _), hits') \<Rightarrow> (if ok then [now] else []) @ attempts key ts hits')"

text \<open>How many of the times lie in the window that ends at \<open>T\<close>.\<close>

definition in_window :: "time \<Rightarrow> time list \<Rightarrow> nat" where
  "in_window T ts = length (filter (\<lambda>t. T - login_window < t \<and> t \<le> T) ts)"

lemma in_window_append: "in_window T (xs @ ys) = in_window T xs + in_window T ys"
  by (simp add: in_window_def)

text \<open>
  The table holds the recent part of the allowed times \<open>al\<close>, of which no window has more
  than the maximum.
\<close>

definition hits_ok :: "time \<Rightarrow> time list \<Rightarrow> time list \<Rightarrow> bool" where
  "hits_ok now al hs \<longleftrightarrow>
     (\<forall>t \<in> set al. t \<le> now) \<and> (\<forall>now'. now \<le> now' \<longrightarrow>
        filter (\<lambda>t. now' - login_window < t) hs = filter (\<lambda>t. now' - login_window < t) al) \<and>
     (\<forall>T. in_window T al \<le> maxHits)"

lemma hits_ok_allow:
  assumes "hits_ok now al (hits key)" and "now \<le> now'" and "allow now' key hits = ((ok, r), hits')"
  shows "hits_ok now' (al @ (if ok then [now'] else [])) (hits' key)"
proof -
  let ?rec = "\<lambda>n. filter (\<lambda>t. n - login_window < t)"
  have le: "\<forall>t \<in> set al. t \<le> now'" and rec: "\<And>n. now' \<le> n \<Longrightarrow> ?rec n (hits key) = ?rec n al"
    and win: "\<And>T. in_window T al \<le> maxHits"
    using assms(1,2) by (auto simp: hits_ok_def)
  have twice: "?rec n (?rec now' (hits key)) = ?rec n al" if "now' \<le> n" for n
    using rec [OF that] rec [of now'] that
    by (auto simp: filter_filter intro!: filter_cong)
  have new: "in_window T (al @ [now']) \<le> maxHits" if small: "length (?rec now' al) < maxHits" for T
  proof (cases "T < now'")
    case True
    then show ?thesis using win [of T] by (simp add: in_window_append) (simp add: in_window_def)
  next
    case False
    have "length (filter (\<lambda>t. T - login_window < t \<and> t \<le> T) al) \<le> length (?rec now' al)"
      using False by (induction al) auto
    then show ?thesis using small by (simp add: in_window_def)
  qed
  show ?thesis
  proof (cases "maxHits \<le> length (?rec now' (hits key))")
    case True
    then have "ok = False" "hits' key = ?rec now' (hits key)" using assms(3) by (auto simp: allow_def Let_def)
    then show ?thesis using le twice win by (simp add: hits_ok_def)
  next
    case False
    then have ok: "ok = True" "hits' key = ?rec now' (hits key) @ [now']" using assms(3) by (auto simp: allow_def Let_def)
    have "length (?rec now' al) < maxHits" using False rec [of now'] by simp
    with ok le twice new show ?thesis by (simp add: hits_ok_def)
  qed
qed

lemma attempts_windows:
  assumes "hits_ok now al (hits key)" and "sorted (now # ts)"
  shows "in_window T (al @ attempts key ts hits) \<le> maxHits"
  using assms
proof (induction ts arbitrary: now al hits)
  case Nil
  then show ?case by (simp add: hits_ok_def)
next
  case (Cons t ts)
  obtain ok r hits' where a: "allow t key hits = ((ok, r), hits')" by (metis surj_pair)
  have "hits_ok t (al @ (if ok then [t] else [])) (hits' key)"
    using hits_ok_allow [OF Cons.prems(1) _ a] Cons.prems(2) by simp
  from Cons.IH [of t _ hits', OF this] Cons.prems(2) show ?case by (simp add: a)
qed

text \<open>
  C19: whatever the attempts to log in as one user from one address, at most ten of them are
  checked against the password in any five minutes.
\<close>

theorem login_rate_bounded:
  assumes "sorted ts"
  shows "length (filter (\<lambda>t. T - 300000000000 < t \<and> t \<le> T) (attempts key ts (\<lambda>_. []))) \<le> 10"
proof (cases ts)
  case Nil
  then show ?thesis by simp
next
  case (Cons t us)
  have "hits_ok t [] []" by (simp add: hits_ok_def in_window_def)
  from attempts_windows [of t "[]" "\<lambda>_. []" key ts T] this assms Cons show ?thesis
    by (simp add: in_window_def login_window_def maxHits_def)
qed

theorem login_rate_bounded_witness:
  "attempts ''a'' [1,2,3,4,5,6,7,8,9,10,11,300000000002] (\<lambda>_. []) = [1,2,3,4,5,6,7,8,9,10,300000000002] \<and>
   length (filter (\<lambda>t. 10 - 300000000000 < t \<and> t \<le> 10)
     (attempts ''a'' [1,2,3,4,5,6,7,8,9,10,11,300000000002] (\<lambda>_. []))) \<le> 10"
proof
  show "attempts ''a'' [1,2,3,4,5,6,7,8,9,10,11,300000000002] (\<lambda>_. []) = [1,2,3,4,5,6,7,8,9,10,300000000002]"
    by (simp add: allow_def login_window_def maxHits_def Let_def)
  show "length (filter (\<lambda>t. 10 - 300000000000 < t \<and> t \<le> 10)
     (attempts ''a'' [1,2,3,4,5,6,7,8,9,10,11,300000000002] (\<lambda>_. []))) \<le> 10"
    by (rule login_rate_bounded) simp
qed

section \<open>Every run of the operations\<close>

text \<open>
  One step of the sessions: a login, the two statements of a refresh (with any session
  between them, so that refreshes may interleave), a request with a bearer token, a logout,
  and anything else the hub does, which leaves the sessions alone but may draw random bytes.
\<close>

inductive auth_step :: "authEnv \<Rightarrow> auth \<Rightarrow> auth \<Rightarrow> bool" for X where
  login: "handleLogin X ip req s = (a, t) \<Longrightarrow> auth_step X s t"
| rread: "refresh_read X rt s = (r, t) \<Longrightarrow> auth_step X s t"
| rwrite: "refresh_write X ses s = (w, t) \<Longrightarrow> auth_step X s t"
| request: "clientSession X hdr s = (o', t) \<Longrightarrow> auth_step X s t"
| logout: "handleLogout ses' s = (b, t) \<Longrightarrow> auth_step X s t"
| other: "d_sessions (h_db h) = d_sessions (h_db (au_hub s)) \<Longrightarrow> au_rand s \<le> k \<Longrightarrow>
    auth_step X s (s\<lparr>au_hub := h, au_rand := k\<rparr>)"

abbreviation sess :: "auth \<Rightarrow> sessionRow list" where
  "sess s \<equiv> d_sessions (h_db (au_hub s))"

text \<open>The hashes of the tokens with the given numbers, and those the hub accepts.\<close>

definition hashes :: "authEnv \<Rightarrow> string \<Rightarrow> nat set \<Rightarrow> string set" where
  "hashes X p N = (\<lambda>k. hashToken X (token_at X p k)) ` N"

definition live :: "(sessionRow \<Rightarrow> string) \<Rightarrow> auth \<Rightarrow> string set" where
  "live f s = f ` {r \<in> set (sess s). \<not> ss_revoked r}"

text \<open>The first \<open>n\<close> draws give different tokens with different hashes.\<close>

definition fresh_tokens :: "authEnv \<Rightarrow> nat \<Rightarrow> bool" where
  "fresh_tokens X n \<longleftrightarrow>
     inj_on (\<lambda>k. hashToken X (token_at X ''tok_'' k)) {..<n} \<and> inj_on (\<lambda>k. hashToken X (token_at X ''rtok_'' k)) {..<n}"

lemma fresh_tokens_mono: "fresh_tokens X n \<Longrightarrow> m \<le> n \<Longrightarrow> fresh_tokens X m"
  unfolding fresh_tokens_def by (meson inj_on_subset lessThan_subset_iff)

definition grows :: "authEnv \<Rightarrow> (sessionRow \<Rightarrow> string) \<Rightarrow> string \<Rightarrow> auth \<Rightarrow> auth \<Rightarrow> bool" where
  "grows X f p s t \<longleftrightarrow>
     au_rand s \<le> au_rand t \<and> live f t \<subseteq> live f s \<union> hashes X p {au_rand s..<au_rand t}"

definition toks :: "authEnv \<Rightarrow> auth \<Rightarrow> auth \<Rightarrow> bool" where
  "toks X s t \<longleftrightarrow> grows X ss_token_hash ''tok_'' s t \<and> grows X ss_refresh_hash ''rtok_'' s t"

lemma grows_trans: "grows X f p s t \<Longrightarrow> grows X f p t u \<Longrightarrow> grows X f p s u"
proof -
  assume st: "grows X f p s t" and tu: "grows X f p t u"
  then have le: "au_rand s \<le> au_rand t" "au_rand t \<le> au_rand u" by (simp_all add: grows_def)
  have "{au_rand s..<au_rand u} = {au_rand s..<au_rand t} \<union> {au_rand t..<au_rand u}"
    by (rule ivl_disj_un(17) [OF le, symmetric])
  then have "hashes X p {au_rand s..<au_rand u} = hashes X p {au_rand s..<au_rand t} \<union> hashes X p {au_rand t..<au_rand u}"
    by (simp add: hashes_def image_Un)
  with st tu le show ?thesis unfolding grows_def by auto
qed

lemma grows_refl: "grows X f p s s"
  by (simp add: grows_def)

interpretation tk: tx_rel "toks X"
  by unfold_locales (auto simp: toks_def intro: grows_refl grows_trans)

definition sess_inv :: "authEnv \<Rightarrow> auth \<Rightarrow> bool" where
  "sess_inv X s \<longleftrightarrow>
     distinct (map ss_id (sess s)) \<and> distinct (map ss_token_hash (sess s)) \<and> distinct (map ss_refresh_hash (sess s)) \<and>
     ss_token_hash ` set (sess s) \<subseteq> hashes X ''tok_'' {..<au_rand s} \<and>
     ss_refresh_hash ` set (sess s) \<subseteq> hashes X ''rtok_'' {..<au_rand s}"

text \<open>Runs that leave the sessions alone.\<close>

lemma same_sessions:
  assumes "sess t = sess s" and "au_rand s \<le> au_rand t"
  shows "toks X s t" and "sess_inv X s \<Longrightarrow> sess_inv X t"
  using assms by (auto simp: toks_def grows_def live_def sess_inv_def hashes_def)

lemma hubT_run [simp]: "hubT m s = (fst (m (au_hub s)), s\<lparr>au_hub := snd (m (au_hub s))\<rparr>)"
  by (simp add: hubT_def split: prod.split)

lemma randToken_run [simp]: "randToken X p s = (Inr (token_at X p (au_rand s)), s\<lparr>au_rand := Suc (au_rand s)\<rparr>)"
  by (simp add: randToken_def bindT_def thenT_def)

lemma clientSession_same: "clientSession X hdr s = (r, t) \<Longrightarrow> sess t = sess s \<and> au_rand t = au_rand s"
  by (auto simp: clientSession_def bindT_def Let_def split: if_splits option.splits)

lemma refresh_read_same: "refresh_read X rt s = (r, t) \<Longrightarrow> sess t = sess s \<and> au_rand t = au_rand s"
  by (auto simp: refresh_read_def bindT_def Let_def split: if_splits option.splits)

lemma allowT_same: "allowT X key s = (r, t) \<Longrightarrow> sess t = sess s \<and> au_rand t = au_rand s"
  by (auto simp: allowT_def bindT_def split: prod.splits)

text \<open>A new row with the tokens just drawn.\<close>

definition new_session :: "authEnv \<Rightarrow> string \<Rightarrow> string \<Rightarrow> time \<Rightarrow> nat \<Rightarrow> string \<Rightarrow> sessionRow" where
  "new_session X user label now k i =
     \<lparr>ss_id = i, ss_token_hash = hashToken X (token_at X ''tok_'' k),
      ss_refresh_hash = hashToken X (token_at X ''rtok_'' (Suc k)), ss_username = user,
      ss_device_label = (if label = [] then None else Some label), ss_created_at = fmtTS now,
      ss_expires_at = fmtTS (now + tokenTTL), ss_refresh_expires_at = fmtTS (now + refreshTTL), ss_revoked = False\<rparr>"

lemma issueSession_result:
  assumes "issueSession X user label s = (r, t)"
  defines "row \<equiv> new_session X user label (env_clock (ax_env X) (h_clk (au_hub s))) (au_rand s)
     (''ses_'' @ env_ulid (ax_env X) (h_ids (au_hub s)))"
  shows "au_rand t = Suc (Suc (au_rand s)) \<and> au_hits t = au_hits s \<and>
    (case r of
       Inl e \<Rightarrow> sess t = sess s
     | Inr a \<Rightarrow> sess t = sess s @ [row] \<and> ss_id row \<notin> ss_id ` set (sess s) \<and>
         lj_token a = token_at X ''tok_'' (au_rand s) \<and> lj_refreshToken a = token_at X ''rtok_'' (Suc (au_rand s)))"
  using assms
  by (auto simp: issueSession_def insert_session_row_def bindT_def thenT_def new_session_def split: if_splits)

lemma refresh_write_result:
  assumes "refresh_write X ses s = (r, t)"
  defines "now \<equiv> env_clock (ax_env X) (h_clk (au_hub s))" and "k \<equiv> au_rand s"
  shows "au_rand t = Suc (Suc k) \<and>
    sess t = upd_where (\<lambda>r. ss_id r = fst ses \<and> \<not> ss_revoked r)
      (\<lambda>r. r\<lparr>ss_token_hash := hashToken X (token_at X ''tok_'' k),
         ss_refresh_hash := hashToken X (token_at X ''rtok_'' (Suc k)),
         ss_expires_at := fmtTS (now + tokenTTL), ss_refresh_expires_at := fmtTS (now + refreshTTL)\<rparr>) (sess s) \<and>
    r = Inr (if \<exists>r \<in> set (sess s). ss_id r = fst ses \<and> \<not> ss_revoked r
      then Some \<lparr>lj_token = token_at X ''tok_'' k, lj_expiresAt = fmtTS (now + tokenTTL),
        lj_refreshToken = token_at X ''rtok_'' (Suc k), lj_username = snd ses, lj_serverTime = fmtTS now\<rparr> else None)"
  using assms by (auto simp: refresh_write_def bindT_def thenT_def)

lemma refresh_write_total: "\<exists>w t. refresh_write X ses s = (Inr w, t)"
  by (simp add: refresh_write_def bindT_def thenT_def)

lemma hash_new:
  assumes "inj_on (\<lambda>k. hashToken X (token_at X p k)) {..<n}" and "k < n" and "m \<le> k"
  shows "hashToken X (token_at X p k) \<notin> hashes X p {..<m}"
proof
  assume "hashToken X (token_at X p k) \<in> hashes X p {..<m}"
  then obtain j where j: "j < m" "hashToken X (token_at X p k) = hashToken X (token_at X p j)" by (auto simp: hashes_def)
  then have "k = j" using inj_onD [OF assms(1) j(2)] assms(2,3) by simp
  then show False using j(1) assms(3) by simp
qed

lemma hashes_mono: "m \<le> n \<Longrightarrow> hashes X p {..<m} \<subseteq> hashes X p {..<n}"
  by (auto simp: hashes_def)

lemma drawn_more: "A \<subseteq> hashes X p {..<k} \<Longrightarrow> A \<subseteq> hashes X p {..<Suc (Suc k)}"
  by (erule order_trans) (rule hashes_mono, simp)

lemma hash_drawn: "k < n \<Longrightarrow> hashToken X (token_at X p k) \<in> hashes X p {..<n}"
  by (simp add: hashes_def)

lemma pair_new:
  assumes "fresh_tokens X (Suc (Suc k))"
  shows "hashToken X (token_at X ''tok_'' k) \<notin> hashes X ''tok_'' {..<k}"
    and "hashToken X (token_at X ''rtok_'' (Suc k)) \<notin> hashes X ''rtok_'' {..<k}"
  by (rule hash_new [of X _ "Suc (Suc k)"]; use assms in \<open>simp add: fresh_tokens_def\<close>)+

lemma insert_step:
  assumes "sess t = sess s @ [new_session X user label now (au_rand s) i]" and "au_rand t = Suc (Suc (au_rand s))"
  shows "toks X s t"
    and "sess_inv X s \<Longrightarrow> fresh_tokens X (au_rand t) \<Longrightarrow> i \<notin> ss_id ` set (sess s) \<Longrightarrow> sess_inv X t"
proof -
  show "toks X s t" using assms by (auto simp: toks_def grows_def live_def hashes_def new_session_def)
  assume inv: "sess_inv X s" and fr: "fresh_tokens X (au_rand t)" and i: "i \<notin> ss_id ` set (sess s)"
  let ?k = "au_rand s"
  note pair_new [OF fr [unfolded assms(2)]]
  moreover have "ss_token_hash ` set (sess s) \<subseteq> hashes X ''tok_'' {..<Suc (Suc ?k)}"
    "ss_refresh_hash ` set (sess s) \<subseteq> hashes X ''rtok_'' {..<Suc (Suc ?k)}"
    using inv by (auto simp: sess_inv_def intro!: drawn_more del: subsetI)
  ultimately show "sess_inv X t" using inv i assms by (auto simp: sess_inv_def new_session_def hash_drawn)
qed

text \<open>A column after the row of one key got a new value.\<close>

lemma upd_where_Cons: "upd_where p g (r # rs) = (if p r then g r else r) # upd_where p g rs"
  by (simp add: upd_where_def)

lemma distinct_upd_one:
  assumes "distinct (map k rs)" and "distinct (map f rs)" and "v \<notin> f ` set rs"
    and "\<And>r. p r \<Longrightarrow> k r = x" and "\<And>r. f (g r) = v"
  shows "distinct (map f (upd_where p g rs))"
  using assms
proof (induction rs)
  case (Cons r rs)
  have none: "upd_where p g rs = rs" if "p r"
    using Cons.prems(1,4) that by (intro upd_where_none) (auto simp: image_iff)
  have "f r \<notin> f ` set (upd_where p g rs)" if "\<not> p r"
    using Cons.prems(2,3,5) by (auto simp: set_upd_where split: if_splits)
  with Cons none show ?case by (cases "p r") (simp_all add: upd_where_Cons)
qed simp

lemma rotate_step:
  assumes "refresh_write X ses s = (r, t)"
  shows "toks X s t" and "sess_inv X s \<Longrightarrow> fresh_tokens X (au_rand t) \<Longrightarrow> sess_inv X t"
proof -
  note res = refresh_write_result [OF assms]
  let ?k = "au_rand s"
  show "toks X s t" using res by (auto simp: toks_def grows_def live_def hashes_def set_upd_where)
  assume inv: "sess_inv X s" and fr: "fresh_tokens X (au_rand t)"
  note pair_new [OF fr [unfolded conjunct1 [OF res]]]
  then have new: "hashToken X (token_at X ''tok_'' ?k) \<notin> ss_token_hash ` set (sess s)"
    "hashToken X (token_at X ''rtok_'' (Suc ?k)) \<notin> ss_refresh_hash ` set (sess s)"
    using inv by (auto simp: sess_inv_def)
  have old: "ss_token_hash ` set (sess s) \<subseteq> hashes X ''tok_'' {..<Suc (Suc ?k)}"
    "ss_refresh_hash ` set (sess s) \<subseteq> hashes X ''rtok_'' {..<Suc (Suc ?k)}"
    using inv by (auto simp: sess_inv_def intro!: drawn_more del: subsetI)
  have sub: "ss_token_hash ` set (sess t) \<subseteq> hashes X ''tok_'' {..<au_rand t}"
    "ss_refresh_hash ` set (sess t) \<subseteq> hashes X ''rtok_'' {..<au_rand t}"
    using res old by (auto simp: set_upd_where hash_drawn split: if_splits)
  have "distinct (map ss_id (sess t))" using res inv by (simp add: sess_inv_def map_upd_where)
  moreover have "distinct (map ss_token_hash (sess t))"
    unfolding conjunct1 [OF conjunct2 [OF res]]
    by (rule distinct_upd_one [where k = ss_id and x = "fst ses", OF _ _ new(1)]) (use inv in \<open>auto simp: sess_inv_def\<close>)
  moreover have "distinct (map ss_refresh_hash (sess t))"
    unfolding conjunct1 [OF conjunct2 [OF res]]
    by (rule distinct_upd_one [where k = ss_id and x = "fst ses", OF _ _ new(2)]) (use inv in \<open>auto simp: sess_inv_def\<close>)
  ultimately show "sess_inv X t" using sub by (simp add: sess_inv_def)
qed

lemma logout_step:
  assumes "handleLogout ses s = (r, t)"
  shows "toks X s t" and "sess_inv X s \<Longrightarrow> sess_inv X t"
proof -
  have t: "sess t = upd_where (\<lambda>r. ss_id r = se_ID ses) (\<lambda>r. r\<lparr>ss_revoked := True\<rparr>) (sess s)" "au_rand t = au_rand s"
    using assms by (auto simp: handleLogout_def)
  show "toks X s t" using t by (auto simp: toks_def grows_def live_def set_upd_where split: if_splits)
  show "sess_inv X s \<Longrightarrow> sess_inv X t"
    using t by (simp add: sess_inv_def map_upd_where) (auto simp: set_upd_where)
qed

lemma handleLogin_cases:
  assumes "handleLogin X ip req s = (a, t)"
  obtains (same) "sess t = sess s" "au_rand s \<le> au_rand t" "\<And>c resp. a \<noteq> AnswerOk c resp"
  | (new) u resp where "sess u = sess s" "au_rand u = au_rand s" "a = AnswerOk 200 resp"
      "issueSession X (lr_Username req) (lr_DeviceLabel req) u = (Inr resp, t)"
proof -
  obtain l u where al: "allowT X (ip @ CHR ''|'' # lr_Username req) s = (l, u)" by fastforce
  note u = allowT_same [OF al]
  obtain r v where iss: "issueSession X (lr_Username req) (lr_DeviceLabel req) u = (r, v)" by fastforce
  show ?thesis
  proof (cases "t = v \<and> (\<exists>resp. r = Inr resp \<and> a = AnswerOk 200 resp)")
    case True
    then show ?thesis using new u iss by blast
  next
    case False
    have "sess v = sess u \<and> au_rand u \<le> au_rand v" if "r = Inl e" for e
      using issueSession_result [OF iss] that by simp
    then have "sess t = sess s \<and> au_rand s \<le> au_rand t \<and> (\<forall>c resp. a \<noteq> AnswerOk c resp)"
      using assms False u al iss by (auto simp: handleLogin_def split: if_splits sum.splits)
    then show ?thesis using same by blast
  qed
qed

lemma login_step:
  assumes "handleLogin X ip req s = (a, t)"
  shows "toks X s t" and "sess_inv X s \<Longrightarrow> fresh_tokens X (au_rand t) \<Longrightarrow> sess_inv X t"
proof -
  have "toks X s t \<and> (sess_inv X s \<longrightarrow> fresh_tokens X (au_rand t) \<longrightarrow> sess_inv X t)"
    using assms
  proof (cases rule: handleLogin_cases)
    case same
    then show ?thesis using same_sessions by blast
  next
    case (new u resp)
    from issueSession_result [OF new(4)] new(1,2) insert_step [of t s] show ?thesis by (simp add: new_session_def)
  qed
  then show "toks X s t" and "sess_inv X s \<Longrightarrow> fresh_tokens X (au_rand t) \<Longrightarrow> sess_inv X t" by simp_all
qed

lemma request_step:
  assumes "clientSession X hdr s = (r, t)"
  shows "toks X s t" and "sess_inv X s \<Longrightarrow> sess_inv X t"
  using clientSession_same [OF assms] same_sessions [of t s X] by simp_all

lemma rread_step:
  assumes "refresh_read X rt s = (r, t)"
  shows "toks X s t" and "sess_inv X s \<Longrightarrow> sess_inv X t"
  using refresh_read_same [OF assms] same_sessions [of t s X] by simp_all

lemmas step_lemmas = login_step rread_step rotate_step request_step logout_step same_sessions

lemma auth_step_toks: "auth_step X s t \<Longrightarrow> toks X s t"
  by (induction rule: auth_step.induct) (auto intro: step_lemmas)

lemma auth_step_inv: "auth_step X s t \<Longrightarrow> sess_inv X s \<Longrightarrow> fresh_tokens X (au_rand t) \<Longrightarrow> sess_inv X t"
  by (induction rule: auth_step.induct) (auto intro: step_lemmas(2,4,6,8,10,12))

lemma auth_steps_toks: "(auth_step X)\<^sup>*\<^sup>* s t \<Longrightarrow> toks X s t"
  by (induction rule: rtranclp_induct) (auto intro: tk.R_refl tk.R_trans auth_step_toks)

lemma auth_steps_inv:
  "(auth_step X)\<^sup>*\<^sup>* s t \<Longrightarrow> sess_inv X s \<Longrightarrow> fresh_tokens X (au_rand t) \<Longrightarrow> sess_inv X t"
proof (induction rule: rtranclp_induct)
  case (step t u)
  have "au_rand t \<le> au_rand u" using auth_step_toks [OF step.hyps(2)] by (simp add: toks_def grows_def)
  then show ?case using step auth_step_inv fresh_tokens_mono by blast
qed

definition auth_reach :: "authEnv \<Rightarrow> auth \<Rightarrow> bool" where
  "auth_reach X s \<longleftrightarrow> (\<exists>s0. sess s0 = [] \<and> (auth_step X)\<^sup>*\<^sup>* s0 s)"

lemma sess_inv_empty: "sess s = [] \<Longrightarrow> sess_inv X s"
  by (simp add: sess_inv_def)

lemma reach_inv: "auth_reach X s \<Longrightarrow> fresh_tokens X (au_rand s) \<Longrightarrow> sess_inv X s"
  unfolding auth_reach_def using sess_inv_empty auth_steps_inv by blast

lemma toks_rand: "toks X s t \<Longrightarrow> au_rand s \<le> au_rand t"
  by (simp add: toks_def grows_def)

lemma gone_stays:
  assumes "grows X f p t u" and "h \<in> hashes X p {..<au_rand t}" and "h \<notin> live f t"
    and "inj_on (\<lambda>k. hashToken X (token_at X p k)) {..<au_rand u}"
  shows "h \<notin> live f u"
proof
  assume "h \<in> live f u"
  then have "h \<in> hashes X p {au_rand t..<au_rand u}" using assms(1,3) by (auto simp: grows_def)
  then obtain k where k: "au_rand t \<le> k" "k < au_rand u" "h = hashToken X (token_at X p k)" by (auto simp: hashes_def)
  show False using hash_new [OF assms(4) k(2,1)] assms(2) k(3) by simp
qed

text \<open>What the hub answers to a token that is not accepted.\<close>

lemma refused_token: "hashToken X (bearerToken hdr) \<notin> live ss_token_hash s \<Longrightarrow> fst (clientSession X hdr s) = Inr None"
  by (auto simp: clientSession_def bindT_def live_def Let_def image_iff split: option.splits dest!: find_SomeD)

lemma refused_refresh:
  "rt \<noteq> [] \<Longrightarrow> hashToken X rt \<notin> live ss_refresh_hash s \<Longrightarrow> fst (handleRefresh X rt s) = AnswerErr 401 ''invalid_refresh''"
  by (auto simp: handleRefresh_def refresh_read_def bindT_def live_def image_iff split: option.splits dest!: find_SomeD)

text \<open>Neither token of a session is accepted once it was rotated or the session revoked.\<close>

definition gone :: "sessionRow \<Rightarrow> auth \<Rightarrow> bool" where
  "gone r s \<longleftrightarrow> ss_token_hash r \<notin> live ss_token_hash s \<and> ss_refresh_hash r \<notin> live ss_refresh_hash s"

lemma gone_forever:
  assumes "gone r t" and "sess_inv X s" and "r \<in> set (sess s)" and "au_rand s \<le> au_rand t"
    and "(auth_step X)\<^sup>*\<^sup>* t u" and "fresh_tokens X (au_rand u)"
  shows "gone r u"
proof -
  have "ss_token_hash r \<in> hashes X ''tok_'' {..<au_rand t}" "ss_refresh_hash r \<in> hashes X ''rtok_'' {..<au_rand t}"
    using assms(2-4) hashes_mono [of "au_rand s" "au_rand t" X] unfolding sess_inv_def by blast+
  then show ?thesis
    using assms(1,6) auth_steps_toks [OF assms(5)] gone_stays unfolding gone_def toks_def fresh_tokens_def by blast
qed

lemma row_unique:
  assumes "sess_inv X s" and "x \<in> set (sess s)" and "r \<in> set (sess s)"
    and "ss_id x = ss_id r \<or> ss_token_hash x = ss_token_hash r \<or> ss_refresh_hash x = ss_refresh_hash r"
  shows "x = r"
proof -
  have i: "inj_on ss_id (set (sess s))" "inj_on ss_token_hash (set (sess s))" "inj_on ss_refresh_hash (set (sess s))"
    using assms(1) by (simp_all add: sess_inv_def distinct_map)
  show ?thesis using assms(4) i [THEN inj_onD, OF _ assms(2,3)] by (elim disjE)
qed

lemma other_rows:
  assumes "sess_inv X s" and "r \<in> set (sess s)" and "x \<in> set (sess s)" and "ss_id x \<noteq> ss_id r"
  shows "ss_token_hash x \<noteq> ss_token_hash r" and "ss_refresh_hash x \<noteq> ss_refresh_hash r"
  using row_unique [OF assms(1,3,2)] assms(4) by auto

lemma rotate_removes:
  assumes "sess_inv X s" and "refresh_write X (ss_id r, n) s = (w, t)" and "fresh_tokens X (au_rand t)"
    and "r \<in> set (sess s)"
  shows "gone r t"
proof -
  note res = refresh_write_result [OF assms(2)]
  note new = pair_new [OF assms(3) [unfolded conjunct1 [OF res]]]
  have "ss_token_hash r \<in> hashes X ''tok_'' {..<au_rand s}" "ss_refresh_hash r \<in> hashes X ''rtok_'' {..<au_rand s}"
    using assms(1,4) unfolding sess_inv_def by blast+
  with new have "hashToken X (token_at X ''tok_'' (au_rand s)) \<noteq> ss_token_hash r"
    "hashToken X (token_at X ''rtok_'' (Suc (au_rand s))) \<noteq> ss_refresh_hash r" by auto
  then show ?thesis
    using res other_rows [OF assms(1,4), THEN not_sym] by (auto simp: gone_def live_def set_upd_where split: if_splits)
qed

lemma logout_removes:
  assumes "sess_inv X s" and "handleLogout ses s = (a, t)" and "r \<in> set (sess s)" and "ss_id r = se_ID ses"
  shows "gone r t \<and> au_rand t = au_rand s"
proof -
  have "sess t = upd_where (\<lambda>r. ss_id r = se_ID ses) (\<lambda>r. r\<lparr>ss_revoked := True\<rparr>) (sess s)" "au_rand t = au_rand s"
    using assms(2) by (auto simp: handleLogout_def)
  then show ?thesis
    using other_rows [OF assms(1,3), THEN not_sym] assms(4) by (auto simp: gone_def live_def set_upd_where split: if_splits)
qed

lemma refresh_ok:
  assumes "handleRefresh X rt s = (AnswerOk c a, t)"
  obtains r s1 where "r \<in> set (sess s)" "ss_refresh_hash r = hashToken X rt" "\<not> ss_revoked r" "rt \<noteq> []"
    "sess s1 = sess s" "au_rand s1 = au_rand s" "refresh_write X (ss_id r, ss_username r) s1 = (Inr (Some a), t)"
proof -
  from assms obtain ses s1 where rd: "refresh_read X rt s = (Inr (Some ses), s1)" "rt \<noteq> []"
    and w: "refresh_write X ses s1 = (Inr (Some a), t)"
    by (auto simp: handleRefresh_def split: if_splits prod.splits sum.splits option.splits)
  from rd(1) obtain r where "find (\<lambda>r. ss_refresh_hash r = hashToken X rt) (sess s) = Some r" "\<not> ss_revoked r"
    "ses = (ss_id r, ss_username r)"
    by (auto simp: refresh_read_def bindT_def split: option.splits if_splits)
  with that [of r s1] w rd refresh_read_same [OF rd(1)] show ?thesis by (auto dest: find_SomeD)
qed

section \<open>Tokens\<close>

text \<open>
  C18: a refresh token works once.  After a successful refresh in any reachable state, that
  refresh token and the access token it belonged to are refused in every later state,
  whatever logins, refreshes (also interleaved ones), logouts and other operations follow.
  The random tokens drawn are assumed to have different hashes.
\<close>

theorem refresh_token_single_use:
  assumes "auth_reach X s" and "handleRefresh X rt s = (AnswerOk c a, t)" and "(auth_step X)\<^sup>*\<^sup>* t u"
    and "fresh_tokens X (au_rand u)"
  shows "fst (handleRefresh X rt u) = AnswerErr 401 ''invalid_refresh'' \<and>
    (\<forall>r hdr. r \<in> set (d_sessions (h_db (au_hub s))) \<and> ss_refresh_hash r = hashToken X rt \<and>
       ss_token_hash r = hashToken X (bearerToken hdr) \<longrightarrow> fst (clientSession X hdr u) = Inr None)"
proof -
  obtain r s1 where r: "r \<in> set (sess s)" "ss_refresh_hash r = hashToken X rt" "\<not> ss_revoked r" "rt \<noteq> []"
    "sess s1 = sess s" "au_rand s1 = au_rand s" "refresh_write X (ss_id r, ss_username r) s1 = (Inr (Some a), t)"
    by (rule refresh_ok [OF assms(2)])
  have le: "au_rand s1 \<le> au_rand t" "au_rand t \<le> au_rand u"
    using toks_rand [OF rotate_step(1) [OF r(7)]] toks_rand [OF auth_steps_toks [OF assms(3)]] .
  have fr: "fresh_tokens X (au_rand t)" "fresh_tokens X (au_rand s)"
    using fresh_tokens_mono [OF assms(4)] le r(6) by simp_all
  have inv: "sess_inv X s" by (rule reach_inv [OF assms(1) fr(2)])
  then have inv1: "sess_inv X s1" using r(5,6) by (simp add: sess_inv_def)
  have "gone r t" using rotate_removes [OF inv1 r(7) fr(1)] r(1,5) by simp
  from gone_forever [OF this inv r(1) _ assms(3,4)] le(1) r(6) have g: "gone r u" by simp
  have "x = r" if "x \<in> set (sess s)" "ss_refresh_hash x = hashToken X rt" for x
    using row_unique [OF inv that(1) r(1)] that(2) r(2) by simp
  then show ?thesis
    using refused_refresh [OF r(4)] refused_token g r(2) unfolding gone_def by metis
qed

text \<open>
  A logout is final.  Neither the access token that was used for it nor the refresh token
  of its session is accepted in any later state.
\<close>

theorem logout_is_final:
  assumes "auth_reach X s" and "clientSession X hdr s = (Inr (Some ses), s1)" and "handleLogout ses s1 = (a, t)"
    and "(auth_step X)\<^sup>*\<^sup>* t u" and "fresh_tokens X (au_rand u)"
  shows "fst (clientSession X hdr u) = Inr None \<and>
    (\<forall>r rt. r \<in> set (d_sessions (h_db (au_hub s))) \<and> ss_id r = se_ID ses \<and> ss_refresh_hash r = hashToken X rt \<and> rt \<noteq> [] \<longrightarrow>
       fst (handleRefresh X rt u) = AnswerErr 401 ''invalid_refresh'')"
proof -
  note s1 = clientSession_same [OF assms(2)]
  from assms(2) obtain r where r: "r \<in> set (sess s)" "ss_token_hash r = hashToken X (bearerToken hdr)" "ss_id r = se_ID ses"
    by (auto simp: clientSession_def bindT_def Let_def split: if_splits option.splits dest!: find_SomeD)
  have le: "au_rand s1 \<le> au_rand t" "au_rand t \<le> au_rand u"
    using toks_rand [OF logout_step(1) [OF assms(3)]] toks_rand [OF auth_steps_toks [OF assms(4)]] .
  have fr: "fresh_tokens X (au_rand s)" using fresh_tokens_mono [OF assms(5)] le s1 by simp
  have inv: "sess_inv X s" by (rule reach_inv [OF assms(1) fr])
  then have inv1: "sess_inv X s1" using s1 by (simp add: sess_inv_def)
  have "gone r t" using logout_removes [OF inv1 assms(3)] r(1,3) s1 by simp
  from gone_forever [OF this inv r(1) _ assms(4,5)] le(1) s1 have g: "gone r u" by simp
  have "x = r" if "x \<in> set (sess s)" "ss_id x = se_ID ses" for x
    using row_unique [OF inv that(1) r(1)] that(2) r(3) by simp
  then show ?thesis
    using refused_token g r(2) refused_refresh unfolding gone_def by metis
qed

text \<open>A hexadecimal token is its own trimmed form.\<close>

lemma trim_with_id: "s = [] \<or> hd s \<notin> hd ` set ps \<Longrightarrow> trim_with ps s = s"
proof -
  assume a: "s = [] \<or> hd s \<notin> hd ` set ps"
  have "\<not> starts s p" if "p \<in> set ps" for p using a that by (cases s; cases p) (auto simp: starts_def image_iff)
  then have "find (starts s) ps = None" by (simp add: find_None_set)
  then show ?thesis by (simp add: trim_with.simps [of ps s])
qed

definition hex_chars :: string where
  "hex_chars = ''0123456789abcdef''"

lemma hex_digit_range: "n < 16 \<Longrightarrow> hex_digit n \<in> set hex_chars"
proof -
  assume "n < 16"
  moreover have "list_all (\<lambda>n. hex_digit n \<in> set hex_chars) [0..<16]" by code_simp
  ultimately show ?thesis by (simp add: list_all_iff)
qed

lemma hex_encode_range: "c \<in> set (hex_encode b) \<Longrightarrow> c \<in> set hex_chars"
proof -
  assume "c \<in> set (hex_encode b)"
  then obtain x :: char where "c = hex_digit (of_char x div 16) \<or> c = hex_digit (of_char x mod 16)"
    by (auto simp: hex_encode_def)
  moreover have "of_char x div 16 < (16::nat)" using nat_of_char_less_256 [of x] by linarith
  ultimately show ?thesis using hex_digit_range [of "of_char x div 16"] hex_digit_range [of "of_char x mod 16"] by auto
qed

lemma bearer_token:
  assumes "p \<in> {''tok_'', ''ask_''}"
  shows "bearerToken (''Bearer '' @ token_at X p k) = token_at X p k"
proof -
  let ?t = "token_at X p k"
  have ends: "hd (rev ?t) \<in> set (CHR ''_'' # hex_chars)"
    using hex_encode_range [of "hd (rev ?t)" "ax_bytes X k"] assms
    by (cases "hex_encode (ax_bytes X k)" rule: rev_cases) (auto simp: token_at_def)
  have "set (CHR ''_'' # hex_chars) \<inter> hd ` set (map rev go_spaces) = {}" by code_simp
  then have "trim_with (map rev go_spaces) (rev ?t) = rev ?t" using ends by (intro trim_with_id) blast
  moreover have "set ''ta'' \<inter> hd ` set go_spaces = {}" by code_simp
  then have "trim_with go_spaces ?t = ?t" using assms by (intro trim_with_id) (auto simp: token_at_def)
  ultimately show ?thesis by (simp add: bearerToken_def TrimSpace_def)
qed

lemma find_snoc_live:
  assumes "v \<notin> f ` set xs" and "f x = v" and "p x"
  shows "find (\<lambda>r. f r = v \<and> p r) (xs @ [x]) = Some x"
proof -
  have "find (\<lambda>r. f r = v \<and> p r) xs = None" using assms(1) by (auto simp: find_None_set)
  then show ?thesis using assms(2,3) by (simp add: find_append)
qed

text \<open>The row a successful login leaves.\<close>

lemma login_ok:
  assumes "auth_reach X s" and "handleLogin X ip req s = (AnswerOk c a, t)" and "fresh_tokens X (au_rand t)"
  obtains k n i where
    "sess t = sess s @ [new_session X (lr_Username req) (lr_DeviceLabel req) (env_clock (ax_env X) n) k i]"
    "lj_token a = token_at X ''tok_'' k" "lj_refreshToken a = token_at X ''rtok_'' (Suc k)"
    "lj_expiresAt a = fmtTS (env_clock (ax_env X) n + tokenTTL)"
    "hashToken X (token_at X ''tok_'' k) \<notin> ss_token_hash ` set (sess s)"
    "hashToken X (token_at X ''rtok_'' (Suc k)) \<notin> ss_refresh_hash ` set (sess s)"
  using assms(2)
proof (cases rule: handleLogin_cases)
  case same
  then show ?thesis by blast
next
  case (new u resp)
  let ?k = "au_rand s"
  note res = issueSession_result [OF new(4)]
  have t: "au_rand t = Suc (Suc ?k)" using res new(2) by simp
  have "sess_inv X s" using reach_inv [OF assms(1)] fresh_tokens_mono [OF assms(3)] t by simp
  then have "hashToken X (token_at X ''tok_'' ?k) \<notin> ss_token_hash ` set (sess s)"
    "hashToken X (token_at X ''rtok_'' (Suc ?k)) \<notin> ss_refresh_hash ` set (sess s)"
    using pair_new [OF assms(3) [unfolded t]] unfolding sess_inv_def by blast+
  moreover have "lj_expiresAt resp = fmtTS (env_clock (ax_env X) (h_clk (au_hub u)) + tokenTTL)"
    using new(4) by (auto simp: issueSession_def insert_session_row_def bindT_def thenT_def split: if_splits)
  ultimately show ?thesis using that [of "h_clk (au_hub u)" ?k] res new(1-3) by simp
qed

text \<open>
  The access token of a successful login is good for requests as its user exactly until
  the time in the answer, as long as no operation on sessions comes between.
\<close>

theorem login_token_works:
  assumes "auth_reach X s" and "handleLogin X ip req s = (AnswerOk c a, t)" and "fresh_tokens X (au_rand t)"
    and "\<And>k. in_years (env_clock (ax_env X) k + tokenTTL)"
  shows "\<exists>e. parseTS (lj_expiresAt a) = Some e \<and>
    (\<forall>u. d_sessions (h_db (au_hub u)) = d_sessions (h_db (au_hub t)) \<longrightarrow>
      map_option (map_option se_Username) (case fst (clientSession X (''Bearer '' @ lj_token a) u) of Inl _ \<Rightarrow> None | Inr o' \<Rightarrow> Some o')
      = Some (if e < env_clock (ax_env X) (h_clk (au_hub u)) then None else Some (lr_Username req)))"
proof -
  obtain k n i where
    t: "sess t = sess s @ [new_session X (lr_Username req) (lr_DeviceLabel req) (env_clock (ax_env X) n) k i]"
    and a: "lj_token a = token_at X ''tok_'' k" "lj_expiresAt a = fmtTS (env_clock (ax_env X) n + tokenTTL)"
    and new: "hashToken X (token_at X ''tok_'' k) \<notin> ss_token_hash ` set (sess s)"
    by (rule login_ok [OF assms(1-3)])
  let ?row = "new_session X (lr_Username req) (lr_DeviceLabel req) (env_clock (ax_env X) n) k i"
  let ?e = "ms_of (env_clock (ax_env X) n + tokenTTL) * 1000000"
  have p: "parseTS (fmtTS (env_clock (ax_env X) n + tokenTTL)) = Some ?e" by (rule parse_fmt [OF assms(4)])
  have "find (\<lambda>r. ss_token_hash r = hashToken X (token_at X ''tok_'' k) \<and> \<not> ss_revoked r) (sess t) = Some ?row"
    unfolding t by (rule find_snoc_live [OF new]) (simp_all add: new_session_def)
  moreover have "token_at X ''tok_'' k \<noteq> []" by (simp add: token_at_def)
  ultimately show ?thesis
    using p by (simp add: a clientSession_def bearer_token [of "''tok_''", simplified] bindT_def new_session_def)
qed


text \<open>
  C21: two refreshes with the same token that both read the session before either rotates it
  are both answered with new tokens, and the tokens of the first are dead at once.
\<close>

theorem refresh_race:
  assumes "auth_reach X s" and "refresh_read X rt s = (Inr (Some ses), s1)" and "refresh_read X rt s1 = (Inr (Some ses'), s2)"
    and "refresh_write X ses s2 = (Inr w, s3)" and "refresh_write X ses' s3 = (Inr w', s4)" and "fresh_tokens X (au_rand s4)"
  shows "\<exists>a a'. w = Some a \<and> w' = Some a' \<and>
    (\<forall>hdr. bearerToken hdr = lj_token a \<longrightarrow> fst (clientSession X hdr s4) = Inr None) \<and>
    fst (handleRefresh X (lj_refreshToken a) s4) = AnswerErr 401 ''invalid_refresh''"
proof -
  note same = refresh_read_same [OF assms(2)] refresh_read_same [OF assms(3)]
  note r1 = refresh_write_result [OF assms(4)] and r2 = refresh_write_result [OF assms(5)]
  have fr: "fresh_tokens X (au_rand s3)" "fresh_tokens X (au_rand s)"
    using fresh_tokens_mono [OF assms(6)] r1 r2 same by simp_all
  have "sess_inv X s" by (rule reach_inv [OF assms(1) fr(2)])
  then have inv: "sess_inv X s2" using same by (simp add: sess_inv_def)
  then have inv3: "sess_inv X s3" using rotate_step(2) [OF assms(4)] fr(1) by blast
  from assms(2) obtain r where r: "find (\<lambda>r. ss_refresh_hash r = hashToken X rt) (sess s) = Some r" "\<not> ss_revoked r"
    "ses = (ss_id r, ss_username r)"
    by (auto simp: refresh_read_def bindT_def split: option.splits if_splits)
  have ses: "ses' = ses"
    using assms(3) r same by (auto simp: refresh_read_def bindT_def split: option.splits if_splits)
  have mem: "r \<in> set (sess s2)" using find_SomeD [OF r(1)] same by simp
  let ?k = "au_rand s2"
  define r' where "r' = r\<lparr>ss_token_hash := hashToken X (token_at X ''tok_'' ?k),
    ss_refresh_hash := hashToken X (token_at X ''rtok_'' (Suc ?k)),
    ss_expires_at := fmtTS (env_clock (ax_env X) (h_clk (au_hub s2)) + tokenTTL),
    ss_refresh_expires_at := fmtTS (env_clock (ax_env X) (h_clk (au_hub s2)) + refreshTTL)\<rparr>"
  have mem': "r' \<in> set (sess s3)" "ss_id r' = ss_id r" "\<not> ss_revoked r'"
    using r1 r mem by (auto simp: r'_def set_upd_where image_iff)
  have hit: "\<exists>x \<in> set (sess s2). ss_id x = fst ses \<and> \<not> ss_revoked x" "\<exists>x \<in> set (sess s3). ss_id x = fst ses' \<and> \<not> ss_revoked x"
    using mem mem' r ses by auto
  have "refresh_write X (ss_id r', ss_username r) s3 = (Inr w', s4)" using assms(5) r(3) ses mem'(2) by simp
  from rotate_removes [OF inv3 this assms(6) mem'(1)] have g: "gone r' s4" .
  have "w = Some \<lparr>lj_token = token_at X ''tok_'' ?k, lj_expiresAt = fmtTS (env_clock (ax_env X) (h_clk (au_hub s2)) + tokenTTL),
      lj_refreshToken = token_at X ''rtok_'' (Suc ?k), lj_username = snd ses,
      lj_serverTime = fmtTS (env_clock (ax_env X) (h_clk (au_hub s2)))\<rparr>"
    using r1 hit(1) by simp
  moreover have "\<exists>a'. w' = Some a'" using r2 hit(2) by simp
  moreover have "fst (handleRefresh X (token_at X ''rtok_'' (Suc ?k)) s4) = AnswerErr 401 ''invalid_refresh''"
    using g by (intro refused_refresh) (simp_all add: gone_def r'_def token_at_def)
  moreover have "fst (clientSession X hdr s4) = Inr None" if "bearerToken hdr = token_at X ''tok_'' ?k" for hdr
    using g that by (intro refused_token) (simp add: gone_def r'_def)
  ultimately show ?thesis by auto
qed

section \<open>Witnesses\<close>

definition sample_auth :: authEnv where
  "sample_auth = \<lparr>ax_env = sample_env\<lparr>env_clock := (\<lambda>_. 1700000000000000000)\<rparr>, ax_sha256 = (\<lambda>t. t),
     ax_bytes = (\<lambda>k. replicate k CHR ''x''), ax_bcrypt = (\<lambda>h pw. h = pw),
     ax_adminUser = ''admin'', ax_adminHash = ''secret''\<rparr>"

definition sample_login :: "string \<Rightarrow> loginReq" where
  "sample_login label = \<lparr>lr_Username = ''admin'', lr_Password = ''secret'', lr_DeviceLabel = label\<rparr>"

definition auth_start :: auth where
  "auth_start = \<lparr>au_hub = hub_start, au_rand = 0, au_hits = (\<lambda>_. [])\<rparr>"

definition logged_in :: "string \<Rightarrow> auth" where
  "logged_in label = snd (handleLogin sample_auth ''ip'' (sample_login label) auth_start)"

definition answered :: "'a answer \<Rightarrow> 'a option" where
  "answered x = (case x of AnswerErr _ _ \<Rightarrow> None | AnswerOk _ a \<Rightarrow> Some a)"

lemma answered_iff: "answered x \<noteq> None \<longleftrightarrow> (\<exists>c a. x = AnswerOk c a)"
  by (simp add: answered_def split: answer.split)

lemma length_hex_encode [simp]: "length (hex_encode b) = 2 * length b"
  by (induction b) (simp_all add: hex_encode_def)

lemma sample_fresh: "fresh_tokens sample_auth n"
  unfolding fresh_tokens_def
  by (intro conjI inj_onI; drule arg_cong [of _ _ length]) (simp_all add: hashToken_def token_at_def sample_auth_def)

lemma start_reach: "auth_reach sample_auth auth_start"
  unfolding auth_reach_def by (intro exI [of _ auth_start]) (simp add: auth_start_def hub_start_def empty_db_def)

lemma logged_in_reach: "auth_reach sample_auth (logged_in label)"
proof -
  have "auth_step sample_auth auth_start (logged_in label)"
    unfolding logged_in_def by (rule auth_step.login [of _ "''ip''" "sample_login label"]) (simp add: prod_eq_iff)
  then show ?thesis
    unfolding auth_reach_def by (intro exI [of _ auth_start]) (auto simp: auth_start_def hub_start_def empty_db_def)
qed

lemma sample_login_ok:
  "\<exists>c a. handleLogin sample_auth ''ip'' (sample_login label) auth_start = (AnswerOk c a, logged_in label) \<and>
     lj_token a = token_at sample_auth ''tok_'' 0 \<and> lj_refreshToken a = token_at sample_auth ''rtok_'' 1"
  if "label = [] \<or> label = ''phone''"
  using that
  by (auto simp: logged_in_def handleLogin_def sample_login_def allowT_def allow_def maxHits_def checkPassword_def
      sample_auth_def issueSession_def insert_session_row_def bindT_def thenT_def auth_start_def hub_start_def empty_db_def
      Let_def token_at_def)

theorem login_token_works_witness:
  "\<exists>c a. handleLogin sample_auth ''ip'' (sample_login ''phone'') auth_start = (AnswerOk c a, logged_in ''phone'') \<and>
    (\<exists>e. parseTS (lj_expiresAt a) = Some e \<and>
     map_option (map_option se_Username)
       (case fst (clientSession sample_auth (''Bearer '' @ lj_token a) (logged_in ''phone'')) of Inl _ \<Rightarrow> None | Inr o' \<Rightarrow> Some o')
      = Some (if e < env_clock (ax_env sample_auth) (h_clk (au_hub (logged_in ''phone''))) then None else Some ''admin''))"
proof -
  have years: "in_years (env_clock (ax_env sample_auth) k + tokenTTL)" for k
    by (simp add: sample_auth_def in_years_def tokenTTL_def)
  obtain c a where l: "handleLogin sample_auth ''ip'' (sample_login ''phone'') auth_start = (AnswerOk c a, logged_in ''phone'')"
    using sample_login_ok by blast
  from login_token_works [OF start_reach l sample_fresh years] l show ?thesis
    by (fastforce simp: sample_login_def sample_auth_def)
qed


text \<open>The labelled session can be read for a refresh, now and a moment later.\<close>

definition sample_rtok :: string where
  "sample_rtok = token_at sample_auth ''rtok_'' 1"

lemma sample_session:
  "sess (logged_in ''phone'') = [new_session sample_auth ''admin'' ''phone'' 1700000000000000000 0 ''ses_'']"
  by (simp add: logged_in_def handleLogin_def sample_login_def allowT_def allow_def maxHits_def checkPassword_def
      sample_auth_def issueSession_def insert_session_row_def bindT_def thenT_def auth_start_def hub_start_def empty_db_def
      Let_def token_at_def new_session_def sample_env_def)

lemma sample_read:
  assumes "sess s = sess (logged_in ''phone'')"
  shows "\<exists>t. refresh_read sample_auth sample_rtok s = (Inr (Some (''ses_'', ''admin'')), t)"
proof -
  have "parseTS (fmtTS (1700000000000000000 + refreshTTL)) = Some (ms_of (1700000000000000000 + refreshTTL) * 1000000)"
    by (rule parse_fmt) (simp add: in_years_def refreshTTL_def)
  then show ?thesis
    using assms sample_session
    by (simp add: refresh_read_def bindT_def new_session_def sample_rtok_def ms_of_def refreshTTL_def)
      (simp add: sample_auth_def)
qed

theorem refresh_race_witness:
  "\<exists>s1 s2 s3 s4 a a'. refresh_read sample_auth sample_rtok (logged_in ''phone'') = (Inr (Some (''ses_'', ''admin'')), s1) \<and>
    refresh_read sample_auth sample_rtok s1 = (Inr (Some (''ses_'', ''admin'')), s2) \<and>
    refresh_write sample_auth (''ses_'', ''admin'') s2 = (Inr (Some a), s3) \<and>
    refresh_write sample_auth (''ses_'', ''admin'') s3 = (Inr (Some a'), s4) \<and>
    fst (handleRefresh sample_auth (lj_refreshToken a) s4) = AnswerErr 401 ''invalid_refresh''"
proof -
  obtain s1 where r1: "refresh_read sample_auth sample_rtok (logged_in ''phone'') = (Inr (Some (''ses_'', ''admin'')), s1)"
    using sample_read by blast
  obtain s2 where r2: "refresh_read sample_auth sample_rtok s1 = (Inr (Some (''ses_'', ''admin'')), s2)"
    using sample_read refresh_read_same [OF r1] by blast
  obtain w s3 where w: "refresh_write sample_auth (''ses_'', ''admin'') s2 = (Inr w, s3)"
    using refresh_write_total by blast
  obtain w' s4 where w': "refresh_write sample_auth (''ses_'', ''admin'') s3 = (Inr w', s4)"
    using refresh_write_total by blast
  from refresh_race [OF logged_in_reach r1 r2 w w' sample_fresh] r1 r2 w w' show ?thesis by blast
qed

theorem refresh_token_single_use_witness:
  "\<exists>c a t. handleRefresh sample_auth sample_rtok (logged_in ''phone'') = (AnswerOk c a, t) \<and>
    fst (handleRefresh sample_auth sample_rtok t) = AnswerErr 401 ''invalid_refresh''"
proof -
  obtain s1 where r: "refresh_read sample_auth sample_rtok (logged_in ''phone'') = (Inr (Some (''ses_'', ''admin'')), s1)"
    using sample_read by blast
  obtain w t where w: "refresh_write sample_auth (''ses_'', ''admin'') s1 = (w, t)" by fastforce
  have "\<exists>x \<in> set (sess s1). ss_id x = ''ses_'' \<and> \<not> ss_revoked x"
    using refresh_read_same [OF r] sample_session by (simp add: new_session_def)
  then obtain a where "w = Inr (Some a)" using refresh_write_result [OF w] by simp
  then have h: "handleRefresh sample_auth sample_rtok (logged_in ''phone'') = (AnswerOk 200 a, t)"
    using r w by (simp add: handleRefresh_def) (simp add: sample_rtok_def token_at_def)
  from refresh_token_single_use [OF logged_in_reach h rtranclp.rtrancl_refl sample_fresh] h show ?thesis by blast
qed

theorem logout_is_final_witness:
  "\<exists>ses s1 t. clientSession sample_auth (''Bearer '' @ token_at sample_auth ''tok_'' 0) (logged_in ''phone'') = (Inr (Some ses), s1) \<and>
    handleLogout ses s1 = (AnswerOk 204 (), t) \<and>
    fst (clientSession sample_auth (''Bearer '' @ token_at sample_auth ''tok_'' 0) t) = Inr None"
proof -
  let ?hdr = "''Bearer '' @ token_at sample_auth ''tok_'' 0"
  have p: "parseTS (fmtTS (1700000000000000000 + tokenTTL)) = Some (ms_of (1700000000000000000 + tokenTTL) * 1000000)"
    by (rule parse_fmt) (simp add: in_years_def tokenTTL_def)
  have "token_at sample_auth ''tok_'' 0 \<noteq> []" by (simp add: token_at_def)
  then have "\<exists>ses s1. clientSession sample_auth ?hdr (logged_in ''phone'') = (Inr (Some ses), s1)"
    using p sample_session bearer_token [of "''tok_''" sample_auth 0]
    by (simp add: clientSession_def bindT_def new_session_def Let_def ms_of_def tokenTTL_def) (simp add: sample_auth_def)
  then obtain ses s1 where s: "clientSession sample_auth ?hdr (logged_in ''phone'') = (Inr (Some ses), s1)" by blast
  obtain t where l: "handleLogout ses s1 = (AnswerOk 204 (), t)" by (simp add: handleLogout_def)
  from logout_is_final [OF logged_in_reach s l rtranclp.rtrancl_refl sample_fresh] s l show ?thesis by blast
qed

end
