(* ===== verification/Sources.thy ===== *)
theory Sources
  imports Auth
begin

text \<open>
  The administration of sources (\<^verbatim>\<open>hub/admin.go\<close>): create, patch, rotate a key, rotate
  the management key, delete.  A request is taken as decoded; a field whose JSON text the
  handler inspects itself is a value of type \<open>raw\<close>.  The installation notes of the answers
  are not modelled.
\<close>

section \<open>Operations\<close>

text \<open>The scheme and the host that \<^verbatim>\<open>url.Parse\<close> finds, or that it fails.\<close>

type_synonym urlParser = "string \<Rightarrow> (string \<times> string) option"

definition validAttachmentBaseURL :: "urlParser \<Rightarrow> string \<Rightarrow> bool" where
  "validAttachmentBaseURL U u =
     (case U u of None \<Rightarrow> False | Some (scheme, host) \<Rightarrow> host \<noteq> [] \<and> (scheme = ''http'' \<or> scheme = ''https''))"

text \<open>\<open>hintTail\<close>: the last four runes, found from the end of the bytes.\<close>

fun runes_back :: "nat \<Rightarrow> string \<Rightarrow> string" where
  "runes_back 0 s = []"
| "runes_back (Suc n) [] = []"
| "runes_back (Suc n) (c # s) =
     (if 128 \<le> (of_char c :: nat) \<and> (of_char c :: nat) < 192 then c # runes_back (Suc n) s else c # runes_back n s)"

definition hintTail :: "string \<Rightarrow> string" where
  "hintTail s = rev (runes_back 4 (rev s))"

definition last4 :: "string \<Rightarrow> string" where
  "last4 key = drop (length key - 4) key"

text \<open>A raw JSON value, and what \<^verbatim>\<open>json.Unmarshal\<close> makes of it as a string or a truth value.\<close>

datatype raw = RawNull | RawString string | RawBool bool | RawOther

definition raw_string :: "raw \<Rightarrow> string option" where
  "raw_string v = (case v of RawNull \<Rightarrow> Some [] | RawString s \<Rightarrow> Some s | _ \<Rightarrow> None)"

definition raw_bool :: "raw \<Rightarrow> bool option" where
  "raw_bool v = (case v of RawNull \<Rightarrow> Some False | RawBool b \<Rightarrow> Some b | _ \<Rightarrow> None)"

definition mgmt_of :: "raw \<Rightarrow> (string \<times> string) option" where
  "mgmt_of v =
     (if v = RawNull then Some ([], [])
      else case raw_string v of
        None \<Rightarrow> None
      | Some k \<Rightarrow> if k = [] \<or> 200 < length k then None else Some (k, hintTail k))"

record sourceReq =
  sq_Name :: string
  sq_Kind :: string
  sq_AttachmentBaseURL :: "string option"
  sq_MgmtKey :: "raw option"

definition insert_source_row :: "sourceRow \<Rightarrow> unit htx" where
  "insert_source_row r =
     bindT (get_db d_sources) (\<lambda>rs.
       if s_ID r \<in> s_ID ` set rs then failT (ErrConstraint ''sources'')
       else mod_db (\<lambda>d. d\<lparr>d_sources := rs @ [r]\<rparr>))"

definition blank_source :: "string \<Rightarrow> string \<Rightarrow> string \<Rightarrow> string \<Rightarrow> sourceRow" where
  "blank_source i name kind now =
     \<lparr>s_ID = i, s_Name = name, s_Kind = kind, s_Enabled = True, s_KeyHash = [], s_KeyPlain = [], s_KeyHint = [],
      s_MgmtKeyPlain = [], s_MgmtKeyHint = [], s_AttachmentBaseURL = None, s_AgentVersion = None, s_AgentOS = None,
      s_AgentArch = None, s_Hostname = None, s_Capabilities = None, s_LastSeenAt = None, s_LastMetricsSeq = 0,
      s_LastEventSeq = 0, s_LastBootTime = None, s_LastSummary = None, s_PrevSample = None, s_DeletedAt = None,
      s_CreatedAt = now, s_UpdatedAt = now\<rparr>"

text \<open>The row the checks of \<open>handleSourceCreate\<close> build, unless one of them fails.\<close>

definition create_row :: "urlParser \<Rightarrow> sourceReq \<Rightarrow> sourceRow \<Rightarrow> sourceRow option" where
  "create_row U req src =
     (let urlOk = (case sq_AttachmentBaseURL req of None \<Rightarrow> True | Some u \<Rightarrow> u = [] \<or> validAttachmentBaseURL U u);
          src1 = (case sq_AttachmentBaseURL req of None \<Rightarrow> src | Some u \<Rightarrow>
            if u = [] then src else src\<lparr>s_AttachmentBaseURL := Some u\<rparr>) in
      if \<not> urlOk then None
      else case sq_MgmtKey req of
        None \<Rightarrow> Some src1
      | Some v \<Rightarrow>
          if sq_Kind req \<noteq> ''feedback'' then None
          else map_option (\<lambda>k. src1\<lparr>s_MgmtKeyPlain := fst k, s_MgmtKeyHint := snd k\<rparr>) (mgmt_of v))"

record createdJSON =
  cj_source :: sourceJSON
  cj_accessKey :: string

definition set_key :: "authEnv \<Rightarrow> string \<Rightarrow> sourceRow \<Rightarrow> sourceRow" where
  "set_key X key src = src\<lparr>s_KeyPlain := key, s_KeyHash := hashToken X key, s_KeyHint := last4 key\<rparr>"

definition source_view :: "env \<Rightarrow> sourceRow \<Rightarrow> sourceJSON htx" where
  "source_view E src =
     bindT (get_db heartbeatSeconds) (\<lambda>hb. bindT (nowUTC E) (\<lambda>now. retT (toSourceJSON now src hb)))"

text \<open>How the handlers answer the error of a transaction.\<close>

definition admin_error :: "txerr \<Rightarrow> 'a answer" where
  "admin_error e =
     (case e of ErrInvalid \<Rightarrow> AnswerErr 400 ''invalid_request'' | ErrNoRows \<Rightarrow> AnswerErr 404 ''not_found''
      | _ \<Rightarrow> AnswerErr 500 ''internal'')"

definition answerT :: "int \<Rightarrow> 'a atx \<Rightarrow> auth \<Rightarrow> 'a answer \<times> auth" where
  "answerT c m s = (case m s of (Inl e, t) \<Rightarrow> (admin_error e, t) | (Inr x, t) \<Rightarrow> (AnswerOk c x, t))"

definition handleSourceCreate :: "urlParser \<Rightarrow> authEnv \<Rightarrow> sourceReq \<Rightarrow> auth \<Rightarrow> createdJSON answer \<times> auth" where
  "handleSourceCreate U X req s =
     (if sq_Name req = [] then (AnswerErr 400 ''invalid_request'', s)
      else if sq_Kind req \<noteq> ''device'' \<and> sq_Kind req \<noteq> ''feedback'' then (AnswerErr 400 ''invalid_request'', s)
      else answerT 201
        (bindT (hubT (nowUTC (ax_env X))) (\<lambda>now.
         bindT (hubT (newID (ax_env X) ''src_'')) (\<lambda>i.
         bindT (randToken X ''ask_'') (\<lambda>key.
         case create_row U req (set_key X key (blank_source i (sq_Name req) (sq_Kind req) (fmtTS now))) of
           None \<Rightarrow> failT ErrInvalid
         | Some src \<Rightarrow>
             thenT (hubT (withTx (thenT (insert_source_row src) (emitSourceChangeTx (ax_env X) src))))
               (bindT (hubT (source_view (ax_env X) src)) (\<lambda>j. retT \<lparr>cj_source = j, cj_accessKey = key\<rparr>)))))) s)"

definition handleSources :: "authEnv \<Rightarrow> auth \<Rightarrow> sourceJSON list answer \<times> auth" where
  "handleSources X =
     answerT 200
       (bindT (hubT (get_db listSources)) (\<lambda>srcs.
        bindT (hubT (get_db heartbeatSeconds)) (\<lambda>hb.
        foldT (\<lambda>src out. bindT (hubT (nowUTC (ax_env X))) (\<lambda>now. retT (out @ [toSourceJSON now src hb]))) srcs [])))"

text \<open>A source that is there and not deleted.\<close>

definition presentSource :: "string \<Rightarrow> sourceRow htx" where
  "presentSource i = bindT (loadSourceTx i) (\<lambda>src. if s_DeletedAt src \<noteq> None then failT ErrNoRows else retT src)"

definition handleSourceGet :: "authEnv \<Rightarrow> string \<Rightarrow> auth \<Rightarrow> sourceJSON answer \<times> auth" where
  "handleSourceGet X i = answerT 200 (hubT (bindT (presentSource i) (source_view (ax_env X))))"

record patchReq =
  pq_name :: "raw option"
  pq_enabled :: "raw option"
  pq_attachmentBaseUrl :: "raw option"
  pq_mgmtKey :: "raw option"

definition patch_name :: "patchReq \<Rightarrow> sourceRow \<Rightarrow> sourceRow option" where
  "patch_name req src =
     (case pq_name req of
        None \<Rightarrow> Some src
      | Some v \<Rightarrow> (case raw_string v of None \<Rightarrow> None | Some n \<Rightarrow> if n = [] then None else Some (src\<lparr>s_Name := n\<rparr>)))"

definition patch_enabled :: "patchReq \<Rightarrow> sourceRow \<Rightarrow> sourceRow option" where
  "patch_enabled req src =
     (case pq_enabled req of None \<Rightarrow> Some src | Some v \<Rightarrow> map_option (\<lambda>b. src\<lparr>s_Enabled := b\<rparr>) (raw_bool v))"

definition patch_url :: "urlParser \<Rightarrow> patchReq \<Rightarrow> sourceRow \<Rightarrow> sourceRow option" where
  "patch_url U req src =
     (case pq_attachmentBaseUrl req of
        None \<Rightarrow> Some src
      | Some v \<Rightarrow>
          if v = RawNull then Some (src\<lparr>s_AttachmentBaseURL := None\<rparr>)
          else (case raw_string v of
            None \<Rightarrow> None
          | Some u \<Rightarrow> if u \<noteq> [] \<and> \<not> validAttachmentBaseURL U u then None else Some (src\<lparr>s_AttachmentBaseURL := nullStr u\<rparr>)))"

definition patch_mgmt :: "patchReq \<Rightarrow> sourceRow \<Rightarrow> sourceRow option" where
  "patch_mgmt req src =
     (case pq_mgmtKey req of
        None \<Rightarrow> Some src
      | Some v \<Rightarrow>
          if s_Kind src \<noteq> ''feedback'' then None
          else map_option (\<lambda>k. src\<lparr>s_MgmtKeyPlain := fst k, s_MgmtKeyHint := snd k\<rparr>) (mgmt_of v))"

definition patch_row :: "urlParser \<Rightarrow> patchReq \<Rightarrow> sourceRow \<Rightarrow> sourceRow option" where
  "patch_row U req src =
     Option.bind (Option.bind (Option.bind (patch_name req src) (patch_enabled req)) (patch_url U req)) (patch_mgmt req)"

definition sourcePatchTx :: "urlParser \<Rightarrow> env \<Rightarrow> string \<Rightarrow> patchReq \<Rightarrow> sourceJSON htx" where
  "sourcePatchTx U E i req =
     bindT (presentSource i) (\<lambda>src.
       case patch_row U req src of
         None \<Rightarrow> failT ErrInvalid
       | Some p \<Rightarrow>
           bindT (nowUTC E) (\<lambda>now.
             let p' = p\<lparr>s_UpdatedAt := fmtTS now\<rparr> in
             thenT (mod_db (\<lambda>d. d\<lparr>d_sources := upd_where (\<lambda>r. s_ID r = s_ID p')
               (\<lambda>r. r\<lparr>s_Name := s_Name p', s_Enabled := s_Enabled p', s_AttachmentBaseURL := s_AttachmentBaseURL p',
                  s_MgmtKeyPlain := s_MgmtKeyPlain p', s_MgmtKeyHint := s_MgmtKeyHint p', s_UpdatedAt := s_UpdatedAt p'\<rparr>)
               (d_sources d)\<rparr>))
               (thenT (emitSourceChangeTx E p') (source_view E p'))))"

definition handleSourcePatch :: "urlParser \<Rightarrow> authEnv \<Rightarrow> string \<Rightarrow> patchReq \<Rightarrow> auth \<Rightarrow> sourceJSON answer \<times> auth" where
  "handleSourcePatch U X i req = answerT 200 (hubT (withTx (sourcePatchTx U (ax_env X) i req)))"

definition rotateKeyTx :: "authEnv \<Rightarrow> string \<Rightarrow> string \<Rightarrow> unit htx" where
  "rotateKeyTx X i key =
     bindT (presentSource i) (\<lambda>src.
     bindT (nowUTC (ax_env X)) (\<lambda>now.
       let src' = (set_key X key src)\<lparr>s_UpdatedAt := fmtTS now\<rparr> in
       thenT (mod_db (\<lambda>d. d\<lparr>d_sources := upd_where (\<lambda>r. s_ID r = s_ID src')
         (\<lambda>r. r\<lparr>s_KeyHash := s_KeyHash src', s_KeyPlain := s_KeyPlain src', s_KeyHint := s_KeyHint src',
            s_UpdatedAt := s_UpdatedAt src'\<rparr>) (d_sources d)\<rparr>))
         (emitSourceChangeTx (ax_env X) src')))"

text \<open>After the commit the handler reads the source again for its answer.\<close>

definition handleSourceRotateKey :: "authEnv \<Rightarrow> string \<Rightarrow> auth \<Rightarrow> string answer \<times> auth" where
  "handleSourceRotateKey X i =
     answerT 200
       (bindT (randToken X ''ask_'') (\<lambda>key.
        thenT (hubT (withTx (rotateKeyTx X i key)))
          (bindT (hubT (presentSource i)) (\<lambda>_. retT key))))"

definition rotateMgmtKeyTx :: "authEnv \<Rightarrow> string \<Rightarrow> string \<Rightarrow> unit htx" where
  "rotateMgmtKeyTx X i key =
     bindT (presentSource i) (\<lambda>src.
       if s_Kind src \<noteq> ''feedback'' then failT ErrNoRows
       else bindT (nowUTC (ax_env X)) (\<lambda>now.
         let src' = src\<lparr>s_MgmtKeyPlain := key, s_MgmtKeyHint := last4 key, s_UpdatedAt := fmtTS now\<rparr> in
         thenT (mod_db (\<lambda>d. d\<lparr>d_sources := upd_where (\<lambda>r. s_ID r = s_ID src')
           (\<lambda>r. r\<lparr>s_MgmtKeyPlain := s_MgmtKeyPlain src', s_MgmtKeyHint := s_MgmtKeyHint src',
              s_UpdatedAt := s_UpdatedAt src'\<rparr>) (d_sources d)\<rparr>))
           (emitSourceChangeTx (ax_env X) src')))"

definition handleSourceRotateMgmtKey :: "authEnv \<Rightarrow> string \<Rightarrow> auth \<Rightarrow> string answer \<times> auth" where
  "handleSourceRotateMgmtKey X i =
     answerT 200 (bindT (randToken X ''amk_'') (\<lambda>key. thenT (hubT (withTx (rotateMgmtKeyTx X i key))) (retT key)))"

definition sourceDeleteTx :: "env \<Rightarrow> string \<Rightarrow> unit htx" where
  "sourceDeleteTx E i =
     bindT (presentSource i) (\<lambda>src.
     bindT (nowUTC E) (\<lambda>now.
     thenT (mod_db (\<lambda>d. d\<lparr>d_sources := upd_where (\<lambda>r. s_ID r = s_ID src)
       (\<lambda>r. r\<lparr>s_DeletedAt := Some (fmtTS now), s_KeyHash := [], s_KeyPlain := [], s_MgmtKeyPlain := [],
          s_MgmtKeyHint := [], s_UpdatedAt := fmtTS now\<rparr>) (d_sources d)\<rparr>))
     (bindT (insertTombstone E ''source'' (s_ID src)) push_change)))"

definition handleSourceDelete :: "authEnv \<Rightarrow> string \<Rightarrow> auth \<Rightarrow> unit answer \<times> auth" where
  "handleSourceDelete X i = answerT 204 (hubT (withTx (sourceDeleteTx (ax_env X) i)))"

section \<open>Source keys\<close>

abbreviation srcs :: "auth \<Rightarrow> sourceRow list" where
  "srcs s \<equiv> d_sources (h_db (au_hub s))"

text \<open>The columns that decide which keys are accepted.\<close>

definition key_cols :: "sourceRow \<Rightarrow> string \<times> string \<times> string option" where
  "key_cols r = (s_ID r, s_KeyHash r, s_DeletedAt r)"

definition live_keys :: "auth \<Rightarrow> string set" where
  "live_keys s = s_KeyHash ` {r \<in> set (srcs s). s_DeletedAt r = None}"

text \<open>
  One step of the sources: a handler of the administration, or anything else the hub does,
  which may change sources but not these columns, and may draw random bytes.
\<close>

inductive key_step :: "urlParser \<Rightarrow> authEnv \<Rightarrow> auth \<Rightarrow> auth \<Rightarrow> bool" for U X where
  create: "handleSourceCreate U X req s = (a, t) \<Longrightarrow> key_step U X s t"
| patch: "handleSourcePatch U X i preq s = (b, t) \<Longrightarrow> key_step U X s t"
| rotate: "handleSourceRotateKey X i s = (c, t) \<Longrightarrow> key_step U X s t"
| rotateMgmt: "handleSourceRotateMgmtKey X i s = (c, t) \<Longrightarrow> key_step U X s t"
| delete: "handleSourceDelete X i s = (d, t) \<Longrightarrow> key_step U X s t"
| other: "map key_cols (srcs t) = map key_cols (srcs s) \<Longrightarrow> au_rand s \<le> au_rand t \<Longrightarrow> key_step U X s t"

text \<open>What a step may do to the columns: nothing, a new row, a new key, or a deletion.\<close>

inductive key_change :: "authEnv \<Rightarrow> auth \<Rightarrow> auth \<Rightarrow> bool" for X s t where
  none: "map key_cols (srcs t) = map key_cols (srcs s) \<Longrightarrow> au_rand s \<le> au_rand t \<Longrightarrow> key_change X s t"
| row: "map key_cols (srcs t) = map key_cols (srcs s) @ [(i, hashToken X (token_at X ''ask_'' (au_rand s)), None)] \<Longrightarrow>
    i \<notin> s_ID ` set (srcs s) \<Longrightarrow> au_rand t = Suc (au_rand s) \<Longrightarrow> key_change X s t"
| key: "map key_cols (srcs t) = map key_cols (upd_where (\<lambda>r. s_ID r = i)
      (\<lambda>r. r\<lparr>s_KeyHash := hashToken X (token_at X ''ask_'' (au_rand s))\<rparr>) (srcs s)) \<Longrightarrow>
    au_rand t = Suc (au_rand s) \<Longrightarrow> key_change X s t"
| gone: "map key_cols (srcs t) = map key_cols (upd_where (\<lambda>r. s_ID r = i)
      (\<lambda>r. r\<lparr>s_DeletedAt := Some w, s_KeyHash := []\<rparr>) (srcs s)) \<Longrightarrow> au_rand t = au_rand s \<Longrightarrow> key_change X s t"

text \<open>Frames.\<close>

abbreviation hsrcs :: "hub \<Rightarrow> sourceRow list" where
  "hsrcs h \<equiv> d_sources (h_db h)"

lemma srcs_emitSource: "obeys (same hsrcs) (emitSourceChangeTx E src)"
  unfolding emitSourceChangeTx_def by (intro frame.intros same_get_db same_nowUTC same_emitChangeTx) simp_all

lemma srcs_tombstone: "obeys (same hsrcs) (bindT (insertTombstone E typ i) push_change)"
  unfolding insertTombstone_def insertChange_def insertChangeObj_def nextChangeSeq_def insert_change_row_def push_change_def
  by (intro frame.intros same_get_db same_nowUTC same_mod_db) (auto simp: obeys_def same_def)

lemma source_view_run: "\<exists>j h'. source_view E src h = (Inr j, h') \<and> hsrcs h' = hsrcs h"
  by (simp add: source_view_def bindT_def)

lemma presentSource_iff:
  "presentSource i h = (Inr src, h') \<longleftrightarrow> h' = h \<and> find (\<lambda>r. s_ID r = i) (hsrcs h) = Some src \<and> s_DeletedAt src = None"
  by (auto simp: presentSource_def loadSourceTx_def rowT_def bindT_def split: option.splits if_splits)

lemma presentSource_same: "presentSource i h = (r, h') \<Longrightarrow> h' = h"
  by (auto simp: presentSource_def loadSourceTx_def rowT_def bindT_def split: option.splits if_splits)

lemma withTx_srcs:
  assumes "withTx m h = (r, h')"
  obtains (err) e where "r = Inl e" "hsrcs h' = hsrcs h" | (ok) x where "r = Inr x" "m h = (Inr x, h')"
  using assms by (auto simp: withTx_def split: prod.splits sum.splits)

lemma cols_upd:
  "(\<And>r. key_cols (f r) = key_cols (g r)) \<Longrightarrow> map key_cols (upd_where p f rs) = map key_cols (upd_where p g rs)"
  by (simp add: upd_where_def)

lemma cols_upd_same: "(\<And>r. key_cols (f r) = key_cols r) \<Longrightarrow> map key_cols (upd_where p f rs) = map key_cols rs"
  by (simp add: upd_where_def)

text \<open>The transactions: an update of the rows, then the change.\<close>

lemma upd_emit:
  "thenT (mod_db (\<lambda>d. d\<lparr>d_sources := upd_where p f (d_sources d)\<rparr>)) (emitSourceChangeTx E n) h = (Inr x, h') \<Longrightarrow>
     hsrcs h' = upd_where p f (hsrcs h)"
  by (auto simp: thenT_Inr_iff dest: sameD [OF srcs_emitSource])

lemma upd_emit_view:
  assumes "thenT (mod_db (\<lambda>d. d\<lparr>d_sources := upd_where p f (d_sources d)\<rparr>)) (thenT (emitSourceChangeTx E n) (source_view E k)) h
      = (Inr x, h')"
  shows "hsrcs h' = upd_where p f (hsrcs h)"
proof -
  from assms obtain y h2 where e: "emitSourceChangeTx E n (h\<lparr>h_db := (h_db h)\<lparr>d_sources := upd_where p f (hsrcs h)\<rparr>\<rparr>) = (Inr y, h2)"
    "source_view E k h2 = (Inr x, h')" by (auto simp: thenT_Inr_iff)
  obtain j h3 where "source_view E k h2 = (Inr j, h3)" "hsrcs h3 = hsrcs h2" using source_view_run by blast
  then have "hsrcs h' = hsrcs h2" using e(2) by simp
  then show ?thesis using sameD [OF srcs_emitSource e(1)] by simp
qed

lemma upd_tombstone:
  "thenT (mod_db (\<lambda>d. d\<lparr>d_sources := upd_where p f (d_sources d)\<rparr>)) (bindT (insertTombstone E typ n) push_change) h = (Inr x, h') \<Longrightarrow>
     hsrcs h' = upd_where p f (hsrcs h)"
  unfolding thenT_Inr_iff using sameD [OF srcs_tombstone] by fastforce

lemma rotateKeyTx_cols:
  assumes "rotateKeyTx X i key h = (Inr x, h')"
  shows "map key_cols (hsrcs h') = map key_cols (upd_where (\<lambda>r. s_ID r = i) (\<lambda>r. r\<lparr>s_KeyHash := hashToken X key\<rparr>) (hsrcs h))"
  using assms
  by (auto simp: rotateKeyTx_def bindT_Inr_iff presentSource_iff Let_def set_key_def key_cols_def
      dest!: upd_emit find_SomeD intro!: cols_upd)

lemma rotateMgmtKeyTx_cols:
  assumes "rotateMgmtKeyTx X i key h = (Inr x, h')"
  shows "map key_cols (hsrcs h') = map key_cols (hsrcs h)"
  using assms
  by (auto simp: rotateMgmtKeyTx_def bindT_Inr_iff presentSource_iff Let_def key_cols_def
      dest!: upd_emit intro!: cols_upd_same split: if_splits)

lemma sourcePatchTx_cols:
  assumes "sourcePatchTx U E i req h = (Inr x, h')"
  shows "map key_cols (hsrcs h') = map key_cols (hsrcs h)"
  using assms
  by (auto simp: sourcePatchTx_def bindT_Inr_iff presentSource_iff Let_def key_cols_def
      dest!: upd_emit_view intro!: cols_upd_same split: option.splits)

lemma sourceDeleteTx_cols:
  assumes "sourceDeleteTx E i h = (Inr x, h')"
  shows "\<exists>w. map key_cols (hsrcs h') = map key_cols (upd_where (\<lambda>r. s_ID r = i) (\<lambda>r. r\<lparr>s_DeletedAt := Some w, s_KeyHash := []\<rparr>) (hsrcs h))"
proof -
  let ?w = "fmtTS (env_clock E (h_clk h))"
  obtain src where f: "find (\<lambda>r. s_ID r = i) (hsrcs h) = Some src" and r: "thenT (mod_db (\<lambda>d. d\<lparr>d_sources := upd_where (\<lambda>r. s_ID r = s_ID src)
       (\<lambda>r. r\<lparr>s_DeletedAt := Some ?w, s_KeyHash := [], s_KeyPlain := [], s_MgmtKeyPlain := [],
          s_MgmtKeyHint := [], s_UpdatedAt := ?w\<rparr>) (d_sources d)\<rparr>))
     (bindT (insertTombstone E ''source'' (s_ID src)) push_change) (h\<lparr>h_clk := Suc (h_clk h)\<rparr>) = (Inr x, h')"
    using assms unfolding sourceDeleteTx_def bindT_Inr_iff [of "presentSource i"] bindT_Inr_iff [of "nowUTC E"] presentSource_iff
    by auto
  have "s_ID src = i" using find_SomeD [OF f] by simp
  then show ?thesis using upd_tombstone [OF r] by (intro exI [of _ ?w]) (auto simp: key_cols_def intro!: cols_upd)
qed

text \<open>The handlers.\<close>

lemma answerT_state: "answerT c m s = (a, t) \<Longrightarrow> t = snd (m s)"
  by (auto simp: answerT_def split: prod.splits sum.splits)

lemma withTx_cols:
  assumes "\<And>x h'. m h = (Inr x, h') \<Longrightarrow> P (map key_cols (hsrcs h'))" and "P (map key_cols (hsrcs h))"
  shows "P (map key_cols (hsrcs (snd (withTx m h))))"
proof -
  obtain r h' where w: "withTx m h = (r, h')" by fastforce
  then show ?thesis by (cases rule: withTx_srcs) (use assms w in auto)
qed

lemma patch_change:
  assumes "handleSourcePatch U X i preq s = (b, t)"
  shows "key_change X s t"
proof -
  have t: "srcs t = hsrcs (snd (withTx (sourcePatchTx U (ax_env X) i preq) (au_hub s)))" "au_rand t = au_rand s"
    using answerT_state [OF assms [unfolded handleSourcePatch_def]] by simp_all
  have "map key_cols (srcs t) = map key_cols (srcs s)"
    unfolding t by (rule withTx_cols) (auto dest: sourcePatchTx_cols)
  then show ?thesis using t(2) by (intro key_change.none) simp_all
qed

lemma delete_change:
  assumes "handleSourceDelete X i s = (b, t)"
  shows "key_change X s t"
proof -
  have t: "srcs t = hsrcs (snd (withTx (sourceDeleteTx (ax_env X) i) (au_hub s)))" "au_rand t = au_rand s"
    using answerT_state [OF assms [unfolded handleSourceDelete_def]] by simp_all
  have "map key_cols (srcs t) = map key_cols (srcs s) \<or>
      (\<exists>w. map key_cols (srcs t) = map key_cols (upd_where (\<lambda>r. s_ID r = i) (\<lambda>r. r\<lparr>s_DeletedAt := Some w, s_KeyHash := []\<rparr>) (srcs s)))"
    unfolding t by (rule withTx_cols) (auto dest: sourceDeleteTx_cols)
  then show ?thesis using t(2) key_change.none key_change.gone by (metis order_refl)
qed

lemma rotateMgmt_change:
  assumes "handleSourceRotateMgmtKey X i s = (b, t)"
  shows "key_change X s t"
proof -
  let ?m = "withTx (rotateMgmtKeyTx X i (token_at X ''amk_'' (au_rand s)))"
  have t: "srcs t = hsrcs (snd (?m (au_hub s)))" "au_rand t = Suc (au_rand s)"
    using answerT_state [OF assms [unfolded handleSourceRotateMgmtKey_def]]
    by (auto simp: bindT_def thenT_def split: prod.splits sum.splits)
  have "map key_cols (srcs t) = map key_cols (srcs s)"
    unfolding t by (rule withTx_cols) (auto dest: rotateMgmtKeyTx_cols)
  then show ?thesis using t(2) by (intro key_change.none) simp_all
qed

lemma rotate_state:
  assumes "handleSourceRotateKey X i s = (b, t)"
  shows "srcs t = hsrcs (snd (withTx (rotateKeyTx X i (token_at X ''ask_'' (au_rand s))) (au_hub s))) \<and> au_rand t = Suc (au_rand s)"
proof -
  let ?m = "withTx (rotateKeyTx X i (token_at X ''ask_'' (au_rand s)))"
  obtain r h where w: "?m (au_hub s) = (r, h)" by fastforce
  obtain r' h' where p: "presentSource i h = (r', h')" by fastforce
  have "t = s\<lparr>au_rand := Suc (au_rand s), au_hub := h\<rparr>"
    using answerT_state [OF assms [unfolded handleSourceRotateKey_def]] presentSource_same [OF p] w p
    by (cases r; cases r') (simp_all add: bindT_def thenT_def)
  then show ?thesis by (simp add: w)
qed

lemma rotate_change:
  assumes "handleSourceRotateKey X i s = (b, t)"
  shows "key_change X s t"
proof -
  note t = rotate_state [OF assms]
  have "map key_cols (srcs t) = map key_cols (srcs s) \<or>
      map key_cols (srcs t) = map key_cols (upd_where (\<lambda>r. s_ID r = i)
        (\<lambda>r. r\<lparr>s_KeyHash := hashToken X (token_at X ''ask_'' (au_rand s))\<rparr>) (srcs s))"
    unfolding conjunct1 [OF t] by (rule withTx_cols) (auto dest: rotateKeyTx_cols)
  then show ?thesis using conjunct2 [OF t] key_change.none key_change.key by (metis le_SucI order_refl)
qed

lemma thenT_run: "thenT m n s = (case m s of (Inl e, t) \<Rightarrow> (Inl e, t) | (Inr x, t) \<Rightarrow> n t)"
  by (simp add: thenT_def bindT_def)

lemma create_row_cols: "create_row U req src = Some r \<Longrightarrow> key_cols r = key_cols src"
  by (auto simp: create_row_def key_cols_def Let_def split: option.splits if_splits)

lemma create_change:
  assumes "handleSourceCreate U X req s = (a, t)"
  shows "key_change X s t"
proof (cases "sq_Name req = [] \<or> sq_Kind req \<noteq> ''device'' \<and> sq_Kind req \<noteq> ''feedback''")
  case True
  then have "t = s" using assms by (auto simp: handleSourceCreate_def split: if_splits)
  then show ?thesis by (intro key_change.none) simp_all
next
  case False
  let ?E = "ax_env X" and ?h = "au_hub s" and ?key = "token_at X ''ask_'' (au_rand s)"
  define i where "i = ''src_'' @ env_ulid ?E (h_ids ?h)"
  define base where "base = set_key X ?key (blank_source i (sq_Name req) (sq_Kind req) (fmtTS (env_clock ?E (h_clk ?h))))"
  define h1 where "h1 = ?h\<lparr>h_clk := Suc (h_clk ?h), h_ids := Suc (h_ids ?h)\<rparr>"
  have cols: "key_cols base = (i, hashToken X ?key, None)" by (simp add: base_def set_key_def blank_source_def key_cols_def)
  have h1: "hsrcs h1 = srcs s" by (simp add: h1_def)
  show ?thesis
  proof (cases "create_row U req base")
    case None
    then have "t = s\<lparr>au_hub := h1, au_rand := Suc (au_rand s)\<rparr>"
      using assms False by (auto simp: handleSourceCreate_def answerT_def bindT_def i_def base_def h1_def)
    then show ?thesis using h1 by (intro key_change.none) simp_all
  next
    case (Some src)
    let ?m = "thenT (insert_source_row src) (emitSourceChangeTx ?E src)"
    obtain r h2 where w: "withTx ?m h1 = (r, h2)" by fastforce
    obtain j h3 where v: "source_view ?E src h2 = (Inr j, h3)" "hsrcs h3 = hsrcs h2" using source_view_run by blast
    have t: "srcs t = hsrcs h2" "au_rand t = Suc (au_rand s)"
      using assms False Some w v
      by (auto simp: handleSourceCreate_def answerT_def bindT_def thenT_run i_def base_def h1_def
          split: sum.splits)
    from w show ?thesis
    proof (cases rule: withTx_srcs)
      case (err e)
      then show ?thesis using t h1 by (intro key_change.none) simp_all
    next
      case (ok x)
      then have "hsrcs h2 = hsrcs h1 @ [src]" "s_ID src \<notin> s_ID ` set (hsrcs h1)"
        by (auto simp: thenT_Inr_iff insert_source_row_def bindT_def split: if_splits dest!: sameD [OF srcs_emitSource])
      moreover have "key_cols src = (i, hashToken X ?key, None)" using create_row_cols [OF Some] cols by simp
      ultimately show ?thesis using t h1 by (intro key_change.row [of t s i]) (auto simp: key_cols_def)
    qed
  qed
qed

lemma key_step_change: "key_step U X s t \<Longrightarrow> key_change X s t"
  by (cases rule: key_step.cases)
    (auto intro: create_change patch_change rotate_change rotateMgmt_change delete_change key_change.none)

section \<open>Old keys stay out\<close>

definition cols :: "auth \<Rightarrow> (string \<times> string \<times> string option) list" where
  "cols s = map key_cols (srcs s)"

text \<open>The accepted hashes, read off the columns.\<close>

definition live_rows :: "(string \<times> string \<times> string option) list \<Rightarrow> (string \<times> string \<times> string option) list" where
  "live_rows cs = filter (\<lambda>c. snd (snd c) = None) cs"

lemma live_keys_cols: "live_keys s = (fst \<circ> snd) ` set (live_rows (cols s))"
  by (force simp: live_keys_def live_rows_def cols_def key_cols_def image_iff)

definition kgrows :: "authEnv \<Rightarrow> auth \<Rightarrow> auth \<Rightarrow> bool" where
  "kgrows X s t \<longleftrightarrow>
     au_rand s \<le> au_rand t \<and> live_keys t \<subseteq> live_keys s \<union> hashes X ''ask_'' {au_rand s..<au_rand t}"

definition key_inv :: "authEnv \<Rightarrow> auth \<Rightarrow> bool" where
  "key_inv X s \<longleftrightarrow>
     distinct (map fst (cols s)) \<and> distinct (map (fst \<circ> snd) (live_rows (cols s))) \<and>
     live_keys s \<subseteq> hashes X ''ask_'' {..<au_rand s}"

definition fresh_keys :: "authEnv \<Rightarrow> nat \<Rightarrow> bool" where
  "fresh_keys X n \<longleftrightarrow> inj_on (\<lambda>k. hashToken X (token_at X ''ask_'' k)) {..<n}"

lemma fresh_keys_mono: "fresh_keys X n \<Longrightarrow> m \<le> n \<Longrightarrow> fresh_keys X m"
  unfolding fresh_keys_def by (meson inj_on_subset lessThan_subset_iff)

lemma fst_key_cols: "fst (key_cols r) = s_ID r"
  by (simp add: key_cols_def)

lemma cols_upd_where:
  assumes "\<And>r. key_cols (f r) = g (key_cols r)"
  shows "map key_cols (upd_where (\<lambda>r. s_ID r = i) f rs) = upd_where (\<lambda>c. fst c = i) g (map key_cols rs)"
  by (simp add: upd_where_def assms if_distrib [of key_cols] fst_key_cols)

text \<open>The change of the columns in terms of the columns.\<close>

lemma key_change_cols:
  assumes "key_change X s t"
  obtains (none) "cols t = cols s" "au_rand s \<le> au_rand t"
  | (row) i where "cols t = cols s @ [(i, hashToken X (token_at X ''ask_'' (au_rand s)), None)]" "i \<notin> fst ` set (cols s)"
      "au_rand t = Suc (au_rand s)"
  | (key) i where "cols t = upd_where (\<lambda>c. fst c = i) (\<lambda>c. (fst c, hashToken X (token_at X ''ask_'' (au_rand s)), snd (snd c))) (cols s)"
      "au_rand t = Suc (au_rand s)"
  | (gone) i w where "cols t = upd_where (\<lambda>c. fst c = i) (\<lambda>c. (fst c, [], Some w)) (cols s)" "au_rand t = au_rand s"
  using assms
proof cases
  case (row i)
  then show ?thesis using that(2) [of i] by (simp add: cols_def image_image fst_key_cols)
next
  case (key i)
  then show ?thesis using that(3) [of i] by (simp add: cols_def cols_upd_where key_cols_def)
next
  case (gone i w)
  then show ?thesis using that(4) [of i w] by (simp add: cols_def cols_upd_where key_cols_def)
qed (use that(1) in \<open>simp add: cols_def\<close>)

lemma key_change_kgrows:
  assumes "key_change X s t"
  shows "kgrows X s t"
  using assms
proof (cases rule: key_change_cols)
  case (row i)
  then show ?thesis by (auto simp: kgrows_def live_keys_cols live_rows_def hashes_def)
next
  case (key i)
  then show ?thesis by (auto simp: kgrows_def live_keys_cols live_rows_def set_upd_where hashes_def image_iff)
next
  case (gone i w)
  then show ?thesis by (auto simp: kgrows_def live_keys_cols live_rows_def set_upd_where image_iff split: if_splits)
qed (auto simp: kgrows_def live_keys_cols)

lemma live_rows_key:
  "live_rows (upd_where (\<lambda>c. fst c = i) (\<lambda>c. (fst c, h, snd (snd c))) cs) =
     upd_where (\<lambda>c. fst c = i) (\<lambda>c. (fst c, h, snd (snd c))) (live_rows cs)"
  unfolding live_rows_def by (rule filter_upd_where) simp

lemma live_rows_gone:
  "live_rows (upd_where (\<lambda>c. fst c = i) (\<lambda>c. (fst c, h, Some w)) cs) = filter (\<lambda>c. fst c \<noteq> i) (live_rows cs)"
  by (induction cs) (auto simp: live_rows_def upd_where_def)

lemma key_change_inv:
  assumes "key_change X s t" and "key_inv X s" and "fresh_keys X (au_rand t)"
  shows "key_inv X t"
proof -
  have drawn: "live_keys t \<subseteq> hashes X ''ask_'' {..<au_rand t}"
  proof -
    have "au_rand s \<le> au_rand t" using key_change_kgrows [OF assms(1)] by (simp add: kgrows_def)
    then have "hashes X ''ask_'' {..<au_rand s} \<subseteq> hashes X ''ask_'' {..<au_rand t}"
      "hashes X ''ask_'' {au_rand s..<au_rand t} \<subseteq> hashes X ''ask_'' {..<au_rand t}"
      by (auto simp: hashes_def)
    then show ?thesis using key_change_kgrows [OF assms(1)] assms(2) unfolding kgrows_def key_inv_def by blast
  qed
  have new: "hashToken X (token_at X ''ask_'' (au_rand s)) \<notin> (fst \<circ> snd) ` set (live_rows (cols s))" if "au_rand t = Suc (au_rand s)"
    using hash_new [of X "''ask_''" "au_rand t" "au_rand s" "au_rand s"] assms(2,3) that
    unfolding key_inv_def fresh_keys_def live_keys_cols by auto
  have d: "distinct (map fst (cols s))" "distinct (map (fst \<circ> snd) (live_rows (cols s)))"
    using assms(2) by (simp_all add: key_inv_def)
  have "distinct (map fst (cols t)) \<and> distinct (map (fst \<circ> snd) (live_rows (cols t)))"
    using assms(1)
  proof (cases rule: key_change_cols)
    case (row i)
    then show ?thesis using d new by (auto simp: live_rows_def)
  next
    case (key i)
    have "distinct (map fst (live_rows (cols s)))" using d(1) by (simp add: live_rows_def distinct_map_filter)
    from distinct_upd_one [OF this d(2) new [OF key(2)], of "\<lambda>c. fst c = i" i] key d(1) show ?thesis
      by (simp add: live_rows_key map_upd_where)
  next
    case (gone i w)
    then show ?thesis using d by (simp add: live_rows_gone map_upd_where distinct_map_filter)
  qed (use d in simp)
  with drawn show ?thesis by (simp add: key_inv_def)
qed

lemma kgrows_trans:
  assumes "kgrows X s t" and "kgrows X t u"
  shows "kgrows X s u"
proof -
  have le: "au_rand s \<le> au_rand t" "au_rand t \<le> au_rand u" using assms by (simp_all add: kgrows_def)
  then have "hashes X ''ask_'' {au_rand s..<au_rand t} \<subseteq> hashes X ''ask_'' {au_rand s..<au_rand u}"
    "hashes X ''ask_'' {au_rand t..<au_rand u} \<subseteq> hashes X ''ask_'' {au_rand s..<au_rand u}"
    by (auto simp: hashes_def)
  with assms le show ?thesis unfolding kgrows_def by (meson Un_least Un_mono order_trans subset_Un_eq sup_ge1 sup_ge2)
qed

interpretation kg: tx_rel "kgrows X"
  by unfold_locales (auto simp: kgrows_def [of X s s for s] intro: kgrows_trans)

lemma key_steps_kgrows: "(key_step U X)\<^sup>*\<^sup>* s t \<Longrightarrow> kgrows X s t"
  by (induction rule: rtranclp_induct) (auto intro: kg.R_refl kg.R_trans key_change_kgrows key_step_change)

lemma key_steps_inv: "(key_step U X)\<^sup>*\<^sup>* s t \<Longrightarrow> key_inv X s \<Longrightarrow> fresh_keys X (au_rand t) \<Longrightarrow> key_inv X t"
proof (induction rule: rtranclp_induct)
  case (step t u)
  have "au_rand t \<le> au_rand u" using key_change_kgrows [OF key_step_change [OF step.hyps(2)]] by (simp add: kgrows_def)
  then show ?case using step key_change_inv key_step_change fresh_keys_mono by blast
qed

text \<open>States of a hub that began without sources.\<close>

definition key_reach :: "urlParser \<Rightarrow> authEnv \<Rightarrow> auth \<Rightarrow> bool" where
  "key_reach U X s \<longleftrightarrow> (\<exists>s0. srcs s0 = [] \<and> (key_step U X)\<^sup>*\<^sup>* s0 s)"

lemma key_reach_inv: "key_reach U X s \<Longrightarrow> fresh_keys X (au_rand s) \<Longrightarrow> key_inv X s"
  unfolding key_reach_def using key_steps_inv by (fastforce simp: key_inv_def cols_def live_rows_def live_keys_def)

lemma refused_key:
  "hashToken X (bearerToken hdr) \<notin> live_keys s \<Longrightarrow> sourceKeyAuth X hdr next_h s = (AnswerErr 401 ''unauthorized'', s)"
  by (auto simp: sourceKeyAuth_def loadSourceByKeyHash_def live_keys_def Let_def image_iff split: option.splits dest!: find_SomeD)

lemma key_gone:
  assumes "kgrows X t u" and "h \<in> hashes X ''ask_'' {..<au_rand t}" and "h \<notin> live_keys t" and "fresh_keys X (au_rand u)"
  shows "h \<notin> live_keys u"
proof
  assume "h \<in> live_keys u"
  then have "h \<in> hashes X ''ask_'' {au_rand t..<au_rand u}" using assms(1,3) by (auto simp: kgrows_def)
  then obtain k where k: "au_rand t \<le> k" "k < au_rand u" "h = hashToken X (token_at X ''ask_'' k)" by (auto simp: hashes_def)
  show False using hash_new [OF assms(4) [unfolded fresh_keys_def] k(2,1)] assms(2) k(3) by simp
qed

text \<open>Only the row of a key has its hash.\<close>

lemma key_owner:
  assumes "key_inv X s" and "c \<in> set (live_rows (cols s))" and "c' \<in> set (live_rows (cols s))" and "fst (snd c) = fst (snd c')"
  shows "c = c'"
proof -
  have "inj_on (fst \<circ> snd) (set (live_rows (cols s)))" using assms(1) by (simp add: key_inv_def distinct_map)
  from inj_onD [OF this _ assms(2,3)] assms(4) show ?thesis by simp
qed

lemma rotate_ok_cols:
  assumes "handleSourceRotateKey X i s = (AnswerOk c k, t)"
  shows "cols t = upd_where (\<lambda>c. fst c = i) (\<lambda>c. (fst c, hashToken X (token_at X ''ask_'' (au_rand s)), snd (snd c))) (cols s) \<and>
    k = token_at X ''ask_'' (au_rand s) \<and> au_rand t = Suc (au_rand s)"
proof -
  let ?m = "rotateKeyTx X i (token_at X ''ask_'' (au_rand s))"
  obtain r h where w: "withTx ?m (au_hub s) = (r, h)" by fastforce
  then have r: "\<exists>x. r = Inr x" "k = token_at X ''ask_'' (au_rand s)"
    using assms by (auto simp: handleSourceRotateKey_def answerT_def admin_error_def bindT_def thenT_def split: sum.splits prod.splits txerr.splits)
  then have "\<exists>x. ?m (au_hub s) = (Inr x, h)" using w by (auto simp: withTx_def split: prod.splits sum.splits)
  then have "map key_cols (hsrcs h) = map key_cols (upd_where (\<lambda>r. s_ID r = i)
      (\<lambda>r. r\<lparr>s_KeyHash := hashToken X (token_at X ''ask_'' (au_rand s))\<rparr>) (srcs s))" using rotateKeyTx_cols by blast
  then show ?thesis using rotate_state [OF assms] w r(2) by (simp add: cols_def cols_upd_where key_cols_def)
qed

lemma delete_ok_cols:
  assumes "handleSourceDelete X i s = (AnswerOk c x, t)"
  shows "(\<exists>w. cols t = upd_where (\<lambda>c. fst c = i) (\<lambda>c. (fst c, [], Some w)) (cols s)) \<and> au_rand t = au_rand s"
proof -
  let ?m = "sourceDeleteTx (ax_env X) i"
  obtain r h where w: "withTx ?m (au_hub s) = (r, h)" by fastforce
  then have r: "\<exists>x. r = Inr x" "au_hub t = h" "au_rand t = au_rand s"
    using assms by (auto simp: handleSourceDelete_def answerT_def admin_error_def split: sum.splits prod.splits txerr.splits)
  then have "\<exists>x. ?m (au_hub s) = (Inr x, h)" using w by (auto simp: withTx_def split: prod.splits sum.splits)
  then obtain w where "map key_cols (hsrcs h) = map key_cols (upd_where (\<lambda>r. s_ID r = i)
      (\<lambda>r. r\<lparr>s_DeletedAt := Some w, s_KeyHash := []\<rparr>) (srcs s))" using sourceDeleteTx_cols by blast
  also have "\<dots> = upd_where (\<lambda>c. fst c = i) (\<lambda>c. (fst c, [], Some w)) (cols s)"
    unfolding cols_def by (rule cols_upd_where) (simp add: key_cols_def)
  finally show ?thesis using r(2,3) by (auto simp: cols_def)
qed

text \<open>
  C22: a rotated or deleted source key stays out.  Once a source's key was rotated or the source
  deleted, a request with the old key is answered 401 in every later state, whatever the
  administration and the rest of the hub do.  The random keys drawn are assumed to have
  different hashes.
\<close>

theorem old_key_locked_out:
  assumes "key_reach U X s" and "r \<in> set (d_sources (h_db (au_hub s)))" and "s_DeletedAt r = None"
    and "s_KeyHash r = hashToken X (bearerToken hdr)"
    and "handleSourceRotateKey X (s_ID r) s = (AnswerOk c k, t) \<or> handleSourceDelete X (s_ID r) s = (AnswerOk c x, t)"
    and "(key_step U X)\<^sup>*\<^sup>* t u" and "fresh_keys X (au_rand u)"
  shows "sourceKeyAuth X hdr next_h u = (AnswerErr 401 ''unauthorized'', u)"
proof -
  let ?h = "hashToken X (bearerToken hdr)"
  have ch: "key_change X s t" using assms(5) rotate_change delete_change by blast
  have le: "au_rand s \<le> au_rand t" "au_rand t \<le> au_rand u"
    using key_change_kgrows [OF ch] key_steps_kgrows [OF assms(6)] by (simp_all add: kgrows_def)
  have fr: "fresh_keys X (au_rand s)" "fresh_keys X (au_rand t)" using fresh_keys_mono [OF assms(7)] le by simp_all
  have inv: "key_inv X s" by (rule key_reach_inv [OF assms(1) fr(1)])
  have mem: "(s_ID r, ?h, None) \<in> set (live_rows (cols s))"
    using assms(2-4) by (force simp: live_rows_def cols_def key_cols_def)
  have "?h \<in> live_keys s" using mem unfolding live_keys_cols by force
  then have h: "?h \<in> hashes X ''ask_'' {..<au_rand s}" using inv by (auto simp: key_inv_def)
  have own: "fst c = s_ID r" if "c \<in> set (live_rows (cols s))" "fst (snd c) = ?h" for c
    using key_owner [OF inv that(1) mem] that(2) by simp
  have "?h \<notin> live_keys t"
    using assms(5)
  proof
    assume "handleSourceRotateKey X (s_ID r) s = (AnswerOk c k, t)"
    note t = rotate_ok_cols [OF this]
    have "hashToken X (token_at X ''ask_'' (au_rand s)) \<noteq> ?h"
      using hash_new [OF fr(2) [unfolded fresh_keys_def], of "au_rand s" "au_rand s"] t h by auto
    then show ?thesis using t own by (auto simp: live_keys_cols live_rows_key set_upd_where)
  next
    assume "handleSourceDelete X (s_ID r) s = (AnswerOk c x, t)"
    from delete_ok_cols [OF this] own show ?thesis by (auto simp: live_keys_cols live_rows_gone)
  qed
  moreover have "?h \<in> hashes X ''ask_'' {..<au_rand t}" using h hashes_mono [OF le(1)] by blast
  ultimately have "?h \<notin> live_keys u" using key_gone [OF key_steps_kgrows [OF assms(6)]] assms(7) by blast
  then show ?thesis by (rule refused_key)
qed

section \<open>Witness\<close>

definition no_urls :: urlParser where
  "no_urls = (\<lambda>_. None)"

definition sample_create :: sourceReq where
  "sample_create = \<lparr>sq_Name = ''nas'', sq_Kind = ''device'', sq_AttachmentBaseURL = None, sq_MgmtKey = None\<rparr>"

definition with_source :: auth where
  "with_source = snd (handleSourceCreate no_urls sample_auth sample_create auth_start)"

lemma emitSource_run: "changes_wf (h_db h) \<Longrightarrow> \<exists>h'. emitSourceChangeTx E src h = (Inr (), h') \<and> hsrcs h' = hsrcs h"
  by (simp add: emitSourceChangeTx_def bindT_def thenT_def emitChangeTx_run Let_def)

lemma rotate_succeeds:
  assumes "find (\<lambda>r. s_ID r = i) (srcs s) = Some src" and "s_DeletedAt src = None" and "changes_wf (h_db (au_hub s))"
  shows "\<exists>k t. handleSourceRotateKey X i s = (AnswerOk 200 k, t)"
proof -
  let ?key = "token_at X ''ask_'' (au_rand s)"
  let ?f = "\<lambda>r. r\<lparr>s_KeyHash := hashToken X ?key, s_KeyPlain := ?key, s_KeyHint := last4 ?key,
    s_UpdatedAt := fmtTS (env_clock (ax_env X) (h_clk (au_hub s)))\<rparr>"
  let ?h = "(au_hub s)\<lparr>h_clk := Suc (h_clk (au_hub s)), h_db := (h_db (au_hub s))\<lparr>d_sources := upd_where (\<lambda>r. s_ID r = s_ID src) ?f (srcs s)\<rparr>\<rparr>"
  have "changes_wf (h_db ?h)" using assms(3) by (simp add: changes_wf_def change_counter_def)
  from emitSource_run [OF this, of "ax_env X" "(set_key X ?key src)\<lparr>s_UpdatedAt := fmtTS (env_clock (ax_env X) (h_clk (au_hub s)))\<rparr>"]
  obtain h' where e: "emitSourceChangeTx (ax_env X) ((set_key X ?key src)\<lparr>s_UpdatedAt := fmtTS (env_clock (ax_env X) (h_clk (au_hub s)))\<rparr>) ?h = (Inr (), h')"
    "hsrcs h' = hsrcs ?h" by blast
  have p: "presentSource i (au_hub s) = (Inr src, au_hub s)" using assms(1,2) by (simp add: presentSource_iff)
  have i: "s_ID src = i" using find_SomeD [OF assms(1)] by simp
  have "find (\<lambda>r. s_ID r = i) (hsrcs h') = Some (?f src)"
    using e(2) assms(1) i by (simp add: find_upd_where)
  then have p': "presentSource i h' = (Inr (?f src), h')" using assms(2) by (simp add: presentSource_iff)
  have "rotateKeyTx X i ?key (au_hub s) = (Inr (), h')"
    using e(1) by (simp add: rotateKeyTx_def bindT_def thenT_def p Let_def set_key_def)
  then show ?thesis
    by (simp add: handleSourceRotateKey_def answerT_def bindT_def thenT_def withTx_def p')
qed

lemma with_source_state:
  "\<exists>row. srcs with_source = [row] \<and> s_ID row = ''src_'' \<and> s_DeletedAt row = None \<and>
     s_KeyHash row = hashToken sample_auth (token_at sample_auth ''ask_'' 0) \<and> changes_wf (h_db (au_hub with_source))"
  by (simp add: with_source_def handleSourceCreate_def sample_create_def answerT_def bindT_def thenT_def withTx_def
      create_row_def insert_source_row_def emitSourceChangeTx_def emitChangeTx_def insertChangeObj_def nextChangeSeq_def
      insert_change_row_def push_change_def source_view_def auth_start_def hub_start_def empty_db_def Let_def set_key_def
      blank_source_def changes_wf_def change_counter_def)
    (simp add: sample_auth_def sample_env_def)

theorem old_key_locked_out_witness:
  "\<exists>k t. handleSourceRotateKey sample_auth ''src_'' with_source = (AnswerOk 200 k, t) \<and>
    sourceKeyAuth sample_auth (''Bearer '' @ token_at sample_auth ''ask_'' 0) (\<lambda>src u. (AnswerOk 200 (s_ID src), u)) t
      = (AnswerErr 401 ''unauthorized'', t)"
proof -
  obtain row where row: "srcs with_source = [row]" "s_ID row = ''src_''" "s_DeletedAt row = None"
    "s_KeyHash row = hashToken sample_auth (token_at sample_auth ''ask_'' 0)" "changes_wf (h_db (au_hub with_source))"
    using with_source_state by blast
  obtain k t where t: "handleSourceRotateKey sample_auth ''src_'' with_source = (AnswerOk 200 k, t)"
    using rotate_succeeds [of "''src_''" with_source row sample_auth] row by auto
  have "key_step no_urls sample_auth auth_start with_source"
    unfolding with_source_def by (rule key_step.create [of _ _ sample_create]) (simp add: prod_eq_iff)
  moreover have "srcs auth_start = []" by (simp add: auth_start_def hub_start_def empty_db_def)
  ultimately have reach: "key_reach no_urls sample_auth with_source" unfolding key_reach_def by blast
  have fr: "fresh_keys sample_auth (au_rand t)"
    unfolding fresh_keys_def by (rule inj_onI, drule arg_cong [of _ _ length]) (simp add: hashToken_def token_at_def sample_auth_def)
  have hash: "s_KeyHash row = hashToken sample_auth (bearerToken (''Bearer '' @ token_at sample_auth ''ask_'' 0))"
    using row(4) bearer_token [of "''ask_''" sample_auth 0] by simp
  have "row \<in> set (srcs with_source)" using row(1) by simp
  from old_key_locked_out [OF reach this row(3) hash _ rtranclp.rtrancl_refl fr] t row(2) show ?thesis by auto
qed

end
