(* ===== verification/System.thy ===== *)
theory System
  imports Retention Sse Flags Delivery Documents Sources
begin

text \<open>
  The hub as one transition system: every handler, the background jobs, the sessions and the
  administration, in any order.  The steps that the session and key relations know as
  "anything else" are shown to be so: no other part of the hub touches a session or a key.
\<close>

section \<open>Steps\<close>

inductive hub_op :: "env \<Rightarrow> hub \<Rightarrow> hub \<Rightarrow> bool" for E where
  metrics: "handleIngestMetrics E src mreq h = (ma, h') \<Longrightarrow> hub_op E h h'"
| events: "handleIngestEvents E src ereq h = (ea, h') \<Longrightarrow> hub_op E h h'"
| heartbeats: "checkHeartbeats E now h = (u, h') \<Longrightarrow> hub_op E h h'"
| retention: "runRetention E cfg now h = (u, h') \<Longrightarrow> hub_op E h h'"
| rollup: "runRollup bucket now h = (u, h') \<Longrightarrow> hub_op E h h'"
| messageMark: "setMessageRead E i rd h = (mj, h') \<Longrightarrow> hub_op E h h'"
| readAll: "handleMessagesReadAll E before h = (n, h') \<Longrightarrow> hub_op E h h'"
| faultMark: "updateFaultFlags E i op h = (fj, h') \<Longrightarrow> hub_op E h h'"
| overview: "handleOverview E h = (ov, h') \<Longrightarrow> hub_op E h h'"
| rulesPut: "handleRulesPut E rreq h = (rd', h') \<Longrightarrow> hub_op E h h'"
| settingsPatch: "handleSettingsPatch E sreq h = (sd', h') \<Longrightarrow> hub_op E h h'"

inductive sys_step :: "urlParser \<Rightarrow> authEnv \<Rightarrow> auth \<Rightarrow> auth \<Rightarrow> bool" for U X where
  hub: "hub_op (ax_env X) (au_hub s) h' \<Longrightarrow> sys_step U X s (s\<lparr>au_hub := h'\<rparr>)"
| login: "handleLogin X ip req s = (a, t) \<Longrightarrow> sys_step U X s t"
| rread: "refresh_read X rt s = (r, t) \<Longrightarrow> sys_step U X s t"
| rwrite: "refresh_write X ses s = (w, t) \<Longrightarrow> sys_step U X s t"
| request: "clientSession X hdr s = (q, t) \<Longrightarrow> sys_step U X s t"
| logout: "handleLogout ses' s = (b, t) \<Longrightarrow> sys_step U X s t"
| create: "handleSourceCreate U X sreq s = (c, t) \<Longrightarrow> sys_step U X s t"
| patch: "handleSourcePatch U X i preq s = (p, t) \<Longrightarrow> sys_step U X s t"
| rotate: "handleSourceRotateKey X i s = (k, t) \<Longrightarrow> sys_step U X s t"
| rotateMgmt: "handleSourceRotateMgmtKey X i s = (k, t) \<Longrightarrow> sys_step U X s t"
| delete: "handleSourceDelete X i s = (d, t) \<Longrightarrow> sys_step U X s t"

section \<open>What the hub leaves alone\<close>

text \<open>Sessions and the columns of the keys.\<close>

definition access :: "hub_db \<Rightarrow> sessionRow list \<times> (string \<times> string \<times> string option) list" where
  "access d = (d_sessions d, map key_cols (d_sources d))"

abbreviation keeps_access :: "'a htx \<Rightarrow> bool" where
  "keeps_access m \<equiv> obeys (same (\<lambda>h. access (h_db h))) m"

lemma access_upd_sources:
  "(\<And>r. key_cols (f r) = key_cols r) \<Longrightarrow> access (d\<lparr>d_sources := upd_where p f (d_sources d)\<rparr>) = access d"
  by (simp add: access_def cols_upd_same)

lemma access_modT: "(\<And>h. h_db (f h) = h_db h) \<Longrightarrow> keeps_access (modT f)"
  by (simp add: obeys_def same_def)

lemma access_emitChangeTx: "keeps_access (emitChangeTx E typ i mk nb)"
  by (rule same_emitChangeTx) (simp_all add: access_def)

lemma access_mod_db: "(\<And>d. access (f d) = access d) \<Longrightarrow> keeps_access (mod_db f)"
  by (rule same_mod_db)

lemma access_rowT: "keeps_access (rowT q)"
  unfolding rowT_def by (intro same_base)

lemmas access_base = same_base access_emitChangeTx access_rowT

lemma access_emitSource: "keeps_access (emitSourceChangeTx E src)"
  unfolding emitSourceChangeTx_def by (intro access_base)

lemma access_transition: "keeps_access (faultTransitionTx E src ev key)"
  unfolding faultTransitionTx_def Let_def by (intro access_base access_mod_db) (simp_all add: access_def)

lemma access_messages: "access (d\<lparr>d_messages := ms\<rparr>) = access d"
  by (simp add: access_def)

lemma access_backfill: "keeps_access (backfillTx src key oc)"
  unfolding backfillTx_def
  by (auto intro!: frame.ret access_mod_db access_messages split: option.split bool.split)

lemma access_applyEventTx: "keeps_access (applyEventTx E src ev internal ooo)"
  unfolding applyEventTx_def storeFaultTx_def upsertFaultTx_def insert_event_row_def insert_message_row_def Let_def
  by (intro access_base access_transition access_backfill access_mod_db) (simp_all add: access_def)

lemma access_emitHubEventTx: "keeps_access (emitHubEventTx E src k sv fk act t b w)"
  unfolding emitHubEventTx_def nextHubSeqTx_def
  by (intro access_base access_applyEventTx access_mod_db) (simp_all add: access_def)

lemma access_touch: "keeps_access (touchSourceSeenTx E src seen)"
  unfolding touchSourceSeenTx_def Let_def
  by (intro access_base access_emitHubEventTx access_mod_db access_upd_sources) (simp_all add: key_cols_def)

lemma access_loadRules: "keeps_access loadRules"
  unfolding loadRules_def Let_def by (intro access_base access_mod_db) (simp add: access_def)

lemma access_loadSettings: "keeps_access loadSettings"
  unfolding loadSettings_def Let_def by (intro access_base access_mod_db) (simp add: access_def)

lemma access_updateSource: "(\<And>r. key_cols (f r) = key_cols r) \<Longrightarrow> keeps_access (updateSource i f)"
  unfolding updateSource_def by (intro access_mod_db access_upd_sources)

lemmas access_tx = access_base access_emitSource access_applyEventTx access_emitHubEventTx access_touch access_loadRules
  access_loadSettings access_modT

lemma access_evalSample: "keeps_access (evalSample E src doc sample arrival)"
  unfolding evalSample_def evalRule_def evalThreshold_def thresholdStep_def getTimer_def setTimer_def evalContainers_def
    evalSmart_def evalPool_def smartStep_def poolStep_def containerStep_def containerGone_def Let_def
  by (intro access_tx) simp_all

lemma access_ingestMetricsTx: "keeps_access (ingestMetricsTx E i req sample arrival)"
  unfolding ingestMetricsTx_def newSampleTx_def bootTimeTx_def recordSampleTx_def loadSourceTx_def putSample_def
    insertRawMetrics_def
  by (intro access_tx access_updateSource access_evalSample access_mod_db) (simp_all add: key_cols_def access_def)

lemma access_ingestEventsTx: "keeps_access (ingestEventsTx E i events arrival)"
  unfolding ingestEventsTx_def loadSourceTx_def applyItem_def classifyEvent_def Let_def
  by (intro access_tx access_updateSource) (simp_all add: key_cols_def)

lemma access_heartbeatTx: "keeps_access (heartbeatTx E now hb i)"
  unfolding heartbeatTx_def loadSourceTx_def by (intro access_tx)

lemma access_tombstone: "keeps_access (tombstoneTx E typ i)"
  unfolding tombstoneTx_def insertTombstone_def insertChange_def insertChangeObj_def nextChangeSeq_def insert_change_row_def
  by (intro access_base access_mod_db) (simp_all add: access_def)

lemma access_retentionTx: "keeps_access (retentionTx E cfg now)"
  unfolding retentionTx_def dropFault_def dropMessage_def trimChanges_def Let_def
  by (intro access_base access_tombstone access_mod_db) (simp_all add: access_def)

lemma access_rollupTx: "keeps_access (rollupTx bucket now)"
  unfolding rollupTx_def putBucket_def by (intro access_base access_mod_db) (simp add: access_def)

lemma access_storeReadTx: "keeps_access (storeReadTx E m ra)"
  unfolding storeReadTx_def by (intro access_base access_mod_db) (simp_all add: access_def)

lemma access_setMessageReadTx: "keeps_access (setMessageReadTx E i rd)"
  unfolding setMessageReadTx_def loadMessageTx_def by (intro access_base access_storeReadTx)

lemma access_readAllTx: "keeps_access (readAllTx E bts)"
  unfolding readAllTx_def loadMessageTx_def by (intro access_base access_storeReadTx)

lemma access_flagsTx: "keeps_access (updateFaultFlagsTx E i op)"
  unfolding updateFaultFlagsTx_def loadFaultByID_def by (intro access_base access_mod_db) (simp_all add: access_def)

lemma access_overview: "keeps_access (handleOverview E)"
  unfolding handleOverview_def by (intro access_tx)

lemma access_rulesPutTx: "keeps_access (rulesPutTx E v req doc)"
  unfolding rulesPutTx_def Let_def by (intro access_base access_mod_db) (simp add: access_def)

lemma access_settingsPatchTx: "keeps_access (settingsPatchTx E v req doc)"
  unfolding settingsPatchTx_def Let_def by (intro access_base access_mod_db) (simp add: access_def)

lemma access_withTx: "keeps_access m \<Longrightarrow> keeps_access (withTx m)"
proof (rule obeysI)
  fix s
  assume m: "keeps_access m"
  obtain r t where e: "m s = (r, t)" by (cases "m s")
  show "same (\<lambda>h. access (h_db h)) s (snd (withTx m s))"
    using obeysD [OF m e] e by (cases r) (auto simp: withTx_def same_def)
qed

lemma access_checkHeartbeat: "keeps_access (checkHeartbeat E now hb src)"
proof (rule obeysI)
  fix h
  obtain r t where e: "withTx (heartbeatTx E now hb (s_ID src)) h = (r, t)" by fastforce
  have "access (h_db t) = access (h_db h)"
    using obeysD [OF access_withTx [OF access_heartbeatTx] e] by (simp add: same_def)
  then show "same (\<lambda>h. access (h_db h)) h (snd (checkHeartbeat E now hb src h))"
    by (cases r) (auto simp: checkHeartbeat_def e same_def pauseSource_def)
qed

lemma access_checkHeartbeats: "keeps_access (checkHeartbeats E now)"
  unfolding checkHeartbeats_def by (intro access_base access_checkHeartbeat)

text \<open>A handler that runs a transaction keeps what the transaction keeps.\<close>

lemma access_run: "keeps_access m \<Longrightarrow> access (h_db (snd (m h))) = access (h_db h)"
  by (simp add: obeys_def same_def)

lemma access_tx_run: "keeps_access m \<Longrightarrow> withTx m h = (r, h') \<Longrightarrow> access (h_db h') = access (h_db h)"
  using access_run [OF access_withTx, of m h] by simp

lemma access_events:
  assumes "handleIngestEvents E src req h = (a, h')"
  shows "access (h_db h') = access (h_db h)"
proof -
  let ?h = "h\<lparr>h_clk := Suc (h_clk h)\<rparr>"
  obtain r t where e: "withTx (ingestEventsTx E (s_ID src) (er_Events req) (env_clock E (h_clk h))) ?h = (r, t)" by fastforce
  have "access (h_db t) = access (h_db h)" using access_tx_run [OF access_ingestEventsTx e] by simp
  then show ?thesis using assms e by (auto simp: handleIngestEvents_def Let_def split: if_splits sum.splits)
qed

lemma access_metrics:
  assumes "handleIngestMetrics E src req h = (a, h')"
  shows "access (h_db h') = access (h_db h)"
proof -
  let ?h = "h\<lparr>h_clk := Suc (h_clk h)\<rparr>"
  have "access (h_db t) = access (h_db h)"
    if "withTx (ingestMetricsTx E (s_ID src) req sample (env_clock E (h_clk h))) ?h = (r, t)" for sample r t
    using access_tx_run [OF access_ingestMetricsTx that] by simp
  then show ?thesis
    using assms by (auto simp: handleIngestMetrics_def Let_def split: if_splits option.splits prod.splits sum.splits)
qed

lemma access_finish: "keeps_access m \<Longrightarrow> finish m h = (a, h') \<Longrightarrow> access (h_db h') = access (h_db h)"
  using access_tx_run [of m h] by (auto simp: finish_def split: prod.splits sum.splits)

lemma access_readAll:
  assumes "handleMessagesReadAll E before h = (n, h')"
  shows "access (h_db h') = access (h_db h)"
  using assms access_tx_run [OF access_readAllTx]
  by (auto simp: handleMessagesReadAll_def Let_def split: option.splits if_splits prod.splits sum.splits)

lemma access_rulesPut:
  assumes "handleRulesPut E req h = (a, h')"
  shows "access (h_db h') = access (h_db h)"
  using assms
proof (cases rule: handleRulesPut_cases)
  case (tx v doc u r)
  have "access (h_db u) = access (h_db h)" using access_run [OF access_loadRules, of h] tx(2) by simp
  then show ?thesis using access_tx_run [OF access_rulesPutTx tx(5)] by simp
qed simp

lemma access_settingsPatch:
  assumes "handleSettingsPatch E req h = (a, h')"
  shows "access (h_db h') = access (h_db h)"
  using assms
proof (cases rule: handleSettingsPatch_cases)
  case (tx v doc u r)
  have "access (h_db u) = access (h_db h)" using access_run [OF access_loadSettings, of h] tx(2) by simp
  then show ?thesis using access_tx_run [OF access_settingsPatchTx tx(5)] by simp
qed simp

lemma hub_op_access:
  assumes "hub_op E h h'"
  shows "access (h_db h') = access (h_db h)"
  using assms
proof cases
  case heartbeats
  then show ?thesis using access_run [OF access_checkHeartbeats] by (metis snd_conv)
next
  case overview
  then show ?thesis using access_run [OF access_overview] by (metis snd_conv)
next
  case (retention cfg now u)
  then show ?thesis using access_tx_run [OF access_retentionTx] by (simp add: runRetention_def)
next
  case (rollup bucket now u)
  then show ?thesis using access_tx_run [OF access_rollupTx] by (simp add: runRollup_def)
next
  case (messageMark i rd mj)
  then show ?thesis using access_finish [OF access_setMessageReadTx] by (simp add: setMessageRead_def)
next
  case (faultMark i op fj)
  then show ?thesis using access_finish [OF access_flagsTx] by (simp add: updateFaultFlags_def)
qed (blast dest: access_metrics access_events access_readAll access_rulesPut access_settingsPatch)+

section \<open>The invariant of the hub\<close>

lemma safe_loadSettings: "safe E loadSettings"
  unfolding loadSettings_def Let_def by (intro safe_intros safe_mod_db) simp_all

lemma safe_rulesPutTx: "safe E (rulesPutTx E' v req doc)"
  unfolding rulesPutTx_def Let_def by (intro safe_intros safe_mod_db) simp_all

lemma safe_settingsPatchTx: "safe E (settingsPatchTx E' v req doc)"
  unfolding settingsPatchTx_def Let_def by (intro safe_intros safe_mod_db) simp_all

lemma safe_rollupTx: "safe E (rollupTx bucket now)"
  unfolding rollupTx_def putBucket_def by (intro safe_intros safe_mod_db) simp_all

abbreviation keeps_inv :: "env \<Rightarrow> 'a htx \<Rightarrow> bool" where
  "keeps_inv E m \<equiv> obeys (keeps (hub_inv E)) m"

lemma inv_withTx: "safe E m \<Longrightarrow> hub_inv E h \<Longrightarrow> withTx m h = (r, h') \<Longrightarrow> hub_inv E h'"
  using keepsD [OF withTx_keeps] .

lemma inv_clk: "hub_inv E (h\<lparr>h_clk := k\<rparr>) \<longleftrightarrow> hub_inv E h"
  by (auto intro: hub_inv_ids)

lemma inv_nowUTC: "keeps_inv E (nowUTC E')"
  by (rule obeysI) (simp add: keeps_def inv_clk)

lemma inv_get_db: "keeps_inv E (get_db f)"
  by (rule obeysI) (simp add: keeps_def)

lemma inv_newID: "keeps_inv E (newID E' p)"
  by (rule obeysI) (auto simp: keeps_def intro: hub_inv_ids)

text \<open>A computation that cannot fail keeps the invariant outside a transaction too.\<close>

lemma inv_total: "safe E m \<Longrightarrow> (\<And>h. \<exists>x h'. m h = (Inr x, h')) \<Longrightarrow> keeps_inv E m"
  unfolding keeps_def by (rule obeysI) (metis safe_inv snd_conv)

lemma inv_loadRules: "keeps_inv E loadRules"
  by (rule inv_total [OF safe_loadRules]) (use loadRules_run in blast)

lemma inv_loadSettings: "keeps_inv E loadSettings"
  by (rule inv_total [OF safe_loadSettings]) (use loadSettings_run in blast)

lemma inv_overview: "keeps_inv E (handleOverview E')"
  unfolding handleOverview_def by (intro kept.intros inv_nowUTC inv_get_db inv_loadRules inv_loadSettings)

lemma inv_metrics:
  assumes "inj (env_ulid E)" and "hub_inv E h" and "handleIngestMetrics E src req h = (a, h')"
  shows "hub_inv E h'"
proof -
  let ?h = "h\<lparr>h_clk := Suc (h_clk h)\<rparr>"
  have "hub_inv E t" if "withTx (ingestMetricsTx E (s_ID src) req sample (env_clock E (h_clk h))) ?h = (r, t)" for sample r t
    using inv_withTx [OF safe_ingestMetricsTx [OF assms(1)] _ that] assms(2) by (simp add: inv_clk)
  then show ?thesis
    using assms(2,3)
    by (auto simp: handleIngestMetrics_def Let_def inv_clk split: if_splits option.splits prod.splits sum.splits)
qed

lemma inv_events:
  assumes "inj (env_ulid E)" and "hub_inv E h" and "handleIngestEvents E src req h = (a, h')"
  shows "hub_inv E h'"
proof -
  let ?h = "h\<lparr>h_clk := Suc (h_clk h)\<rparr>"
  obtain r t where e: "withTx (ingestEventsTx E (s_ID src) (er_Events req) (env_clock E (h_clk h))) ?h = (r, t)" by fastforce
  have "hub_inv E t" using inv_withTx [OF safe_ingestEventsTx [OF assms(1)] _ e] assms(2) by (simp add: inv_clk)
  then show ?thesis using assms(2,3) e by (auto simp: handleIngestEvents_def Let_def inv_clk split: if_splits sum.splits)
qed

lemma inv_readAll:
  assumes "hub_inv E h" and "handleMessagesReadAll E' before h = (n, h')"
  shows "hub_inv E h'"
  using assms inv_withTx [OF safe_readAllTx assms(1)]
  by (auto simp: handleMessagesReadAll_def Let_def split: option.splits if_splits prod.splits sum.splits)

lemma inv_rulesPut:
  assumes "hub_inv E h" and "handleRulesPut E' req h = (a, h')"
  shows "hub_inv E h'"
  using assms(2)
proof (cases rule: handleRulesPut_cases)
  case (tx v doc u r)
  then show ?thesis using inv_withTx [OF safe_rulesPutTx keepsD [OF inv_loadRules assms(1) tx(2)] tx(5)] by simp
qed (use assms in simp)

lemma inv_settingsPatch:
  assumes "hub_inv E h" and "handleSettingsPatch E' req h = (a, h')"
  shows "hub_inv E h'"
  using assms(2)
proof (cases rule: handleSettingsPatch_cases)
  case (tx v doc u r)
  then show ?thesis using inv_withTx [OF safe_settingsPatchTx keepsD [OF inv_loadSettings assms(1) tx(2)] tx(5)] by simp
qed (use assms in simp)

lemma inv_retention:
  assumes "hub_inv E h" and "runRetention E' cfg now h = (r, h')"
  shows "hub_inv E h'"
proof -
  obtain t where t: "retentionTx E' cfg now h = (Inr (), t)" using retention_total [OF assms(1)] by blast
  then have "h' = t" using assms(2) by (simp add: runRetention_def withTx_def)
  then show ?thesis using retention_hub_inv [OF assms(1) t] by simp
qed

lemma hub_op_inv:
  assumes "hub_op E h h'" and "inj (env_ulid E)" and "hub_inv E h"
  shows "hub_inv E h'"
  using assms(1)
proof cases
  case heartbeats
  then show ?thesis using keepsD [OF checkHeartbeats_keeps [OF assms(2)] assms(3)] by blast
next
  case overview
  then show ?thesis using keepsD [OF inv_overview assms(3)] by blast
next
  case (rollup bucket now u)
  then show ?thesis using inv_withTx [OF safe_rollupTx assms(3)] by (simp add: runRollup_def)
next
  case (messageMark i rd mj)
  then show ?thesis using finish_keeps [OF safe_setMessageReadTx assms(3)] by (metis setMessageRead_def snd_conv)
next
  case (faultMark i op fj)
  then show ?thesis using finish_keeps [OF safe_updateFaultFlagsTx assms(3)] by (metis updateFaultFlags_def snd_conv)
qed (use assms(2,3) in \<open>blast dest: inv_metrics inv_events inv_readAll inv_rulesPut inv_settingsPatch inv_retention\<close>)+

section \<open>Sessions and administration\<close>

abbreviation keeps_hub :: "env \<Rightarrow> 'a atx \<Rightarrow> bool" where
  "keeps_hub E m \<equiv> obeys (keeps (\<lambda>s. hub_inv E (au_hub s))) m"

lemma hub_hubT: "keeps_inv E m \<Longrightarrow> keeps_hub E (hubT m)"
  by (simp add: obeys_def keeps_def)

lemma hub_randToken: "keeps_hub E (randToken X p)"
  by (simp add: obeys_def keeps_def)

lemma inv_sessions: "keeps_inv E (mod_db (\<lambda>d. d\<lparr>d_sessions := f d\<rparr>))"
  by (rule inv_total) (auto intro: safe_mod_db)

lemma inv_insert_session: "keeps_inv E (insert_session_row r)"
  unfolding insert_session_row_def by (intro kept.intros inv_get_db inv_sessions)

lemmas hub_intros = kept.intros hub_hubT hub_randToken inv_nowUTC inv_get_db inv_newID inv_sessions inv_insert_session

lemma hub_clientSession: "keeps_hub E (clientSession X hdr)"
  unfolding clientSession_def Let_def by (intro hub_intros)

lemma hub_refresh_read: "keeps_hub E (refresh_read X rt)"
  unfolding refresh_read_def by (intro hub_intros)

lemma hub_refresh_write: "keeps_hub E (refresh_write X ses)"
  unfolding refresh_write_def by (intro hub_intros)

lemma hub_issueSession: "keeps_hub E (issueSession X user label)"
  unfolding issueSession_def by (intro hub_intros)

lemma allowT_hub: "allowT X key s = (r, t) \<Longrightarrow> au_hub t = (au_hub s)\<lparr>h_clk := Suc (h_clk (au_hub s))\<rparr>"
  by (auto simp: allowT_def bindT_def split: prod.splits)

lemma hub_login:
  assumes "hub_inv E (au_hub s)" and "handleLogin X ip req s = (a, t)"
  shows "hub_inv E (au_hub t)"
proof -
  obtain l u where al: "allowT X (ip @ CHR ''|'' # lr_Username req) s = (l, u)" by fastforce
  then have u: "hub_inv E (au_hub u)" using allowT_hub [OF al] assms(1) by (simp add: inv_clk)
  obtain r v where iss: "issueSession X (lr_Username req) (lr_DeviceLabel req) u = (r, v)" by fastforce
  then have "hub_inv E (au_hub v)" using keepsD [OF hub_issueSession, of E u] u by blast
  then show ?thesis using assms al iss u by (auto simp: handleLogin_def split: if_splits sum.splits)
qed

lemma hub_logout: "hub_inv E (au_hub s) \<Longrightarrow> handleLogout ses s = (a, t) \<Longrightarrow> hub_inv E (au_hub t)"
  using keepsD [OF inv_sessions, of E "au_hub s"] by (auto simp: handleLogout_def)

text \<open>The administration: the invariant, and what it leaves of the sessions.\<close>

lemma safe_presentSource: "safe E (presentSource i)"
  unfolding presentSource_def loadSourceTx_def by (intro safe_intros)

lemma safe_source_view: "safe E (source_view E' src)"
  unfolding source_view_def by (intro safe_intros)

lemma safe_sourcePatchTx: "safe E (sourcePatchTx U E' i req)"
  unfolding sourcePatchTx_def Let_def by (intro safe_intros safe_presentSource safe_source_view safe_mod_db) simp_all

lemma safe_rotateKeyTx: "safe E (rotateKeyTx X i key)"
  unfolding rotateKeyTx_def Let_def by (intro safe_intros safe_presentSource safe_mod_db) simp_all

lemma safe_rotateMgmtKeyTx: "safe E (rotateMgmtKeyTx X i key)"
  unfolding rotateMgmtKeyTx_def Let_def by (intro safe_intros safe_presentSource safe_mod_db) simp_all

lemma tombstone_emit: "bindT (insertTombstone E typ i) push_change = thenT (emitChangeTx E ''tombstone'' i (\<lambda>_. DTombstone typ i) None) (retT ())"
  by (rule ext) (simp add: insertTombstone_def insertChange_def emitChangeTx_def bindT_def thenT_def push_change_def split: prod.split sum.split)

lemma safe_sourceDeleteTx: "safe E (sourceDeleteTx E' i)"
  unfolding sourceDeleteTx_def tombstone_emit by (intro safe_intros safe_presentSource safe_mod_db) simp_all

lemma safe_createTx: "safe E (thenT (insert_source_row src) (emitSourceChangeTx E' src))"
  unfolding insert_source_row_def by (intro safe_intros safe_mod_db) simp_all

text \<open>Sessions and the limiter stay, random numbers are drawn at most.\<close>

definition aside :: "auth \<Rightarrow> auth \<Rightarrow> bool" where
  "aside s t \<longleftrightarrow> sess t = sess s \<and> au_hits t = au_hits s \<and> au_rand s \<le> au_rand t"

interpretation asd: tx_rel aside
  by unfold_locales (auto simp: aside_def)

abbreviation keeps_sessions :: "'a htx \<Rightarrow> bool" where
  "keeps_sessions m \<equiv> obeys (same (\<lambda>h. d_sessions (h_db h))) m"

lemma aside_hubT: "keeps_sessions m \<Longrightarrow> obeys aside (hubT m)"
  by (auto simp: obeys_def same_def aside_def)

lemma aside_randToken: "obeys aside (randToken X p)"
  by (simp add: obeys_def aside_def)

lemma sessions_withTx: "keeps_sessions m \<Longrightarrow> keeps_sessions (withTx m)"
  by (auto simp: obeys_def same_def withTx_def split: prod.splits sum.splits) (metis snd_conv)

lemma sessions_emitSource: "keeps_sessions (emitSourceChangeTx E src)"
  unfolding emitSourceChangeTx_def by (intro same_base same_emitChangeTx) simp_all

lemma sessions_sources: "keeps_sessions (mod_db (\<lambda>d. d\<lparr>d_sources := f d\<rparr>))"
  by (rule same_mod_db) simp

lemma sessions_present: "keeps_sessions (presentSource i)"
  unfolding presentSource_def loadSourceTx_def rowT_def by (intro same_base)

lemma sessions_view: "keeps_sessions (source_view E src)"
  unfolding source_view_def by (intro same_base)

lemma sessions_emit: "keeps_sessions (emitChangeTx E typ i mk nb)"
  by (rule same_emitChangeTx) simp_all

lemmas sessions_intros =
  same_base sessions_emitSource sessions_sources sessions_present sessions_view sessions_emit

lemma sessions_sourcePatchTx: "keeps_sessions (sourcePatchTx U E i req)"
  unfolding sourcePatchTx_def Let_def by (intro sessions_intros)

lemma sessions_rotateKeyTx: "keeps_sessions (rotateKeyTx X i key)"
  unfolding rotateKeyTx_def Let_def by (intro sessions_intros)

lemma sessions_rotateMgmtKeyTx: "keeps_sessions (rotateMgmtKeyTx X i key)"
  unfolding rotateMgmtKeyTx_def Let_def by (intro sessions_intros)

lemma sessions_sourceDeleteTx: "keeps_sessions (sourceDeleteTx E i)"
  unfolding sourceDeleteTx_def tombstone_emit by (intro sessions_intros)

lemma sessions_createTx: "keeps_sessions (thenT (insert_source_row src) (emitSourceChangeTx E src))"
  unfolding insert_source_row_def by (intro sessions_intros)

text \<open>Both at once, for the body of every handler.\<close>

definition admin_ok :: "env \<Rightarrow> 'a atx \<Rightarrow> bool" where
  "admin_ok E m \<longleftrightarrow> keeps_hub E m \<and> obeys aside m"

lemma admin_bind: "admin_ok E m \<Longrightarrow> (\<And>x. admin_ok E (f x)) \<Longrightarrow> admin_ok E (bindT m f)"
  unfolding admin_ok_def by (auto intro: kept.bind asd.bind)

lemma admin_seq: "admin_ok E m \<Longrightarrow> admin_ok E n \<Longrightarrow> admin_ok E (thenT m n)"
  unfolding thenT_def by (rule admin_bind)

lemma admin_ret: "admin_ok E (retT x)" and admin_fail: "admin_ok E (failT e)"
  unfolding admin_ok_def by (auto intro: kept.ret asd.ret kept.fail asd.fail)

lemma admin_opt:
  "(v = None \<Longrightarrow> admin_ok E m) \<Longrightarrow> (\<And>x. v = Some x \<Longrightarrow> admin_ok E (f x)) \<Longrightarrow> admin_ok E (case v of None \<Rightarrow> m | Some x \<Rightarrow> f x)"
  by (cases v) simp_all

lemma admin_hubT: "keeps_inv E m \<Longrightarrow> keeps_sessions m \<Longrightarrow> admin_ok E (hubT m)"
  unfolding admin_ok_def by (auto intro: hub_hubT aside_hubT)

lemma admin_tx: "safe E m \<Longrightarrow> keeps_sessions m \<Longrightarrow> admin_ok E (hubT (withTx m))"
  by (intro admin_hubT withTx_keeps sessions_withTx)

lemma admin_rand: "admin_ok E (randToken X p)"
  unfolding admin_ok_def by (intro conjI hub_randToken aside_randToken)

lemma admin_now: "admin_ok E (hubT (nowUTC E'))" and admin_id: "admin_ok E (hubT (newID E' p))"
  by (intro admin_hubT inv_nowUTC inv_newID same_nowUTC same_newID)+

lemma inv_present: "keeps_inv E (presentSource i)"
  by (rule obeysI) (metis presentSource_same keeps_def prod.collapse)

lemma admin_present: "admin_ok E (hubT (presentSource i))"
  by (intro admin_hubT inv_present sessions_present)

lemma admin_view: "admin_ok E (hubT (source_view E' src))"
  by (intro admin_hubT inv_total [OF safe_source_view] sessions_view) (use source_view_run in blast)

lemmas admin_intros = admin_bind admin_seq admin_ret admin_fail admin_opt admin_rand admin_now admin_id admin_present admin_view
  admin_tx [OF safe_sourcePatchTx sessions_sourcePatchTx] admin_tx [OF safe_rotateKeyTx sessions_rotateKeyTx]
  admin_tx [OF safe_rotateMgmtKeyTx sessions_rotateMgmtKeyTx] admin_tx [OF safe_sourceDeleteTx sessions_sourceDeleteTx]
  admin_tx [OF safe_createTx sessions_createTx]

lemma admin_answer:
  assumes "answerT c m s = (a, t)" and "admin_ok E m"
  shows "aside s t \<and> (hub_inv E (au_hub s) \<longrightarrow> hub_inv E (au_hub t))"
  using answerT_state [OF assms(1)] assms(2) by (auto simp: admin_ok_def obeys_def keeps_def)

text \<open>Every step of the administration keeps the invariant and leaves the sessions alone.\<close>

inductive admin_step :: "urlParser \<Rightarrow> authEnv \<Rightarrow> auth \<Rightarrow> auth \<Rightarrow> bool" for U X where
  "handleSourceCreate U X sreq s = (c, t) \<Longrightarrow> admin_step U X s t"
| "handleSourcePatch U X i preq s = (p, t) \<Longrightarrow> admin_step U X s t"
| "handleSourceRotateKey X i s = (k, t) \<Longrightarrow> admin_step U X s t"
| "handleSourceRotateMgmtKey X i s = (k, t) \<Longrightarrow> admin_step U X s t"
| "handleSourceDelete X i s = (d, t) \<Longrightarrow> admin_step U X s t"

lemma admin_step_ok:
  assumes "admin_step U X s t"
  shows "aside s t \<and> (hub_inv E (au_hub s) \<longrightarrow> hub_inv E (au_hub t))"
  using assms
proof cases
  case (1 sreq c)
  show ?thesis
  proof (cases "sq_Name sreq = [] \<or> sq_Kind sreq \<noteq> ''device'' \<and> sq_Kind sreq \<noteq> ''feedback''")
    case True
    then have "t = s" using 1 by (auto simp: handleSourceCreate_def split: if_splits)
    then show ?thesis by (simp add: asd.R_refl)
  next
    case False
    with 1 show ?thesis unfolding handleSourceCreate_def by (auto elim!: admin_answer intro!: admin_intros split: if_splits)
  qed
next
  case (2 i preq p)
  then show ?thesis unfolding handleSourcePatch_def by (rule admin_answer) (intro admin_intros)
next
  case (3 i k)
  then show ?thesis unfolding handleSourceRotateKey_def by (rule admin_answer) (intro admin_intros)
next
  case (4 i k)
  then show ?thesis unfolding handleSourceRotateMgmtKey_def by (rule admin_answer) (intro admin_intros)
next
  case (5 i d)
  then show ?thesis unfolding handleSourceDelete_def by (rule admin_answer) (intro admin_intros)
qed

text \<open>The operations on sessions leave the sources alone.\<close>

abbreviation keeps_sources :: "'a atx \<Rightarrow> bool" where
  "keeps_sources m \<equiv> obeys (same srcs) m"

lemma sources_hubT: "obeys (same (\<lambda>h. d_sources (h_db h))) m \<Longrightarrow> keeps_sources (hubT m)"
  by (simp add: obeys_def same_def)

lemma sources_randToken: "keeps_sources (randToken X p)"
  by (simp add: obeys_def same_def)

lemma sources_sessions: "obeys (same (\<lambda>h. d_sources (h_db h))) (mod_db (\<lambda>d. d\<lparr>d_sessions := f d\<rparr>))"
  by (rule same_mod_db) simp

lemma sources_insert_session: "obeys (same (\<lambda>h. d_sources (h_db h))) (insert_session_row r)"
  unfolding insert_session_row_def by (intro same_base sources_sessions)

lemmas sources_intros = same_base sources_hubT sources_randToken sources_sessions sources_insert_session

lemma sources_reads: "keeps_sources (clientSession X hdr)" "keeps_sources (refresh_read X rt)"
  unfolding clientSession_def refresh_read_def Let_def by (intro sources_intros)+

lemma sources_writes: "keeps_sources (refresh_write X ses)" "keeps_sources (issueSession X user label)"
  unfolding refresh_write_def issueSession_def by (intro sources_intros)+

lemma sources_login:
  assumes "handleLogin X ip req s = (a, t)"
  shows "srcs t = srcs s"
proof -
  obtain l u where al: "allowT X (ip @ CHR ''|'' # lr_Username req) s = (l, u)" by fastforce
  obtain r v where iss: "issueSession X (lr_Username req) (lr_DeviceLabel req) u = (r, v)" by fastforce
  have "srcs u = srcs s" "srcs v = srcs u" using allowT_hub [OF al] sameD [OF sources_writes(2) iss] by simp_all
  then show ?thesis using assms al iss by (auto simp: handleLogin_def split: if_splits sum.splits)
qed

lemma sources_logout: "handleLogout ses s = (a, t) \<Longrightarrow> srcs t = srcs s"
  by (auto simp: handleLogout_def)

section \<open>The whole system\<close>

text \<open>Every step is a step of the sessions and a step of the keys.\<close>

lemma aside_other: "aside s t \<Longrightarrow> auth_step X s t"
proof -
  assume a: "aside s t"
  then have "t = s\<lparr>au_hub := au_hub t, au_rand := au_rand t\<rparr>" by (simp add: aside_def)
  then show ?thesis using a auth_step.other [of "au_hub t" s "au_rand t" X] by (simp add: aside_def)
qed

lemma admin_auth: "admin_step U X s t \<Longrightarrow> auth_step X s t"
  using admin_step_ok by (intro aside_other) blast

lemma sys_auth_step:
  assumes "sys_step U X s t"
  shows "auth_step X s t"
  using assms
proof cases
  case (hub h')
  have "sess t = sess s" using hub_op_access [OF hub(2)] hub(1) by (simp add: access_def)
  then show ?thesis using hub(1) by (intro aside_other) (simp add: aside_def)
qed (auto intro: auth_step.intros admin_auth admin_step.intros)

lemma same_keys: "srcs t = srcs s \<Longrightarrow> au_rand s \<le> au_rand t \<Longrightarrow> key_step U X s t"
  by (rule key_step.other) simp_all

lemma sys_key_step:
  assumes "sys_step U X s t"
  shows "key_step U X s t"
proof -
  have rand: "au_rand s \<le> au_rand t" using toks_rand [OF auth_step_toks [OF sys_auth_step [OF assms]]] .
  from assms show ?thesis
  proof cases
    case (hub h')
    then show ?thesis using hub_op_access [OF hub(2)] by (intro key_step.other) (simp_all add: access_def)
  next
    case login
    then show ?thesis using rand by (intro same_keys) (auto dest: sources_login)
  next
    case rread
    then show ?thesis using rand by (intro same_keys) (auto dest: sameD [OF sources_reads(2)])
  next
    case rwrite
    then show ?thesis using rand by (intro same_keys) (auto dest: sameD [OF sources_writes(1)])
  next
    case request
    then show ?thesis using rand by (intro same_keys) (auto dest: sameD [OF sources_reads(1)])
  next
    case logout
    then show ?thesis using rand by (intro same_keys) (auto dest: sources_logout)
  qed (auto intro: key_step.intros)
qed

lemma sys_hub_inv:
  assumes "sys_step U X s t" and "inj (env_ulid (ax_env X))" and "hub_inv (ax_env X) (au_hub s)"
  shows "hub_inv (ax_env X) (au_hub t)"
  using assms(1)
proof cases
  case (hub h')
  then show ?thesis using hub_op_inv [OF hub(2) assms(2,3)] by simp
next
  case rread
  then show ?thesis using keepsD [OF hub_refresh_read] assms(3) by blast
next
  case rwrite
  then show ?thesis using keepsD [OF hub_refresh_write] assms(3) by blast
next
  case request
  then show ?thesis using keepsD [OF hub_clientSession] assms(3) by blast
qed (use assms(3) in \<open>auto intro: hub_login hub_logout dest: admin_step.intros [THEN admin_step_ok]\<close>)

definition sys_reach :: "urlParser \<Rightarrow> authEnv \<Rightarrow> auth \<Rightarrow> bool" where
  "sys_reach U X s \<longleftrightarrow> (sys_step U X)\<^sup>*\<^sup>* auth_start s"

lemma sys_steps_auth: "(sys_step U X)\<^sup>*\<^sup>* s t \<Longrightarrow> (auth_step X)\<^sup>*\<^sup>* s t"
  by (rule mono_rtranclp [rule_format, of "sys_step U X"]) (rule sys_auth_step)

lemma sys_steps_key: "(sys_step U X)\<^sup>*\<^sup>* s t \<Longrightarrow> (key_step U X)\<^sup>*\<^sup>* s t"
  by (rule mono_rtranclp [rule_format, of "sys_step U X"]) (rule sys_key_step)

lemma sys_reach_inv:
  assumes "sys_reach U X s" and "inj (env_ulid (ax_env X))"
  shows "hub_inv (ax_env X) (au_hub s)"
  using assms(1) unfolding sys_reach_def
proof (induction rule: rtranclp_induct)
  case base
  then show ?case using hub_inv_start by (simp add: auth_start_def)
next
  case (step t u)
  then show ?case using sys_hub_inv assms(2) by blast
qed

lemma sys_reach_auth: "sys_reach U X s \<Longrightarrow> auth_reach X s"
  unfolding sys_reach_def auth_reach_def using sys_steps_auth
  by (intro exI [of _ auth_start]) (simp add: auth_start_def hub_start_def empty_db_def)

lemma sys_reach_key: "sys_reach U X s \<Longrightarrow> key_reach U X s"
  unfolding sys_reach_def key_reach_def using sys_steps_key
  by (intro exI [of _ auth_start]) (simp add: auth_start_def hub_start_def empty_db_def)

text \<open>
  C3: the invariants hold in every state the hub can reach from an empty database, in any order
  of ingest, background jobs, client requests, logins and administration: faults have one row
  per key, consistent rounds and no ghost opening, messages have different identifiers, the
  change log is numbered in order; sessions and enabled keys have different hashes, all of
  them drawn by the hub.
\<close>

theorem system_invariant:
  assumes "sys_reach U X s" and "inj (env_ulid (ax_env X))" and "fresh_tokens X (au_rand s)" and "fresh_keys X (au_rand s)"
  shows "hub_inv (ax_env X) (au_hub s) \<and> sess_inv X s \<and> key_inv X s"
  using sys_reach_inv [OF assms(1,2)] reach_inv [OF sys_reach_auth [OF assms(1)] assms(3)]
    key_reach_inv [OF sys_reach_key [OF assms(1)] assms(4)] by simp

theorem system_invariant_witness:
  "sys_reach no_urls sample_auth with_source \<and>
   hub_inv (ax_env sample_auth) (au_hub with_source) \<and> sess_inv sample_auth with_source \<and> key_inv sample_auth with_source"
proof -
  have "sys_step no_urls sample_auth auth_start with_source"
    unfolding with_source_def by (rule sys_step.create [of _ _ sample_create]) (simp add: prod_eq_iff)
  then have r: "sys_reach no_urls sample_auth with_source" by (simp add: sys_reach_def)
  have i: "inj (env_ulid (ax_env sample_auth))" using inj_sample_env by (simp add: sample_auth_def)
  have k: "fresh_keys sample_auth (au_rand with_source)"
    unfolding fresh_keys_def by (rule inj_onI, drule arg_cong [of _ _ length]) (simp add: hashToken_def token_at_def sample_auth_def)
  from system_invariant [OF r i sample_fresh k] r show ?thesis by simp
qed

end
