(* ===== verification/AgentRelease.thy ===== *)
theory AgentRelease
  imports Auth
begin

text \<open>
  The distribution of agent releases (\<^verbatim>\<open>hub/agent_release.go\<close>): a directory of cached
  release files, filled from GitHub, verified against the release manifest, limited in size,
  with leases on the files that are being served.

  The directory is a list of entries; every system call on it takes a number, and the
  environment says which calls fail and how much of a failing write reaches the disk.  A
  request holds the gate from its first to its last access to the directory, so requests are
  whole steps; the release of a lease is a step of its own.  \<^verbatim>\<open>sha256\<close>, the JSON decoder and the
  upstream are parameters.  Serving a file (ranges, conditional requests) is the business of
  \<^verbatim>\<open>http.ServeContent\<close> and ends with the release.
\<close>

section \<open>Names and manifests\<close>

definition agentRepo :: string where
  "agentRepo = ''SakuraLoveSmile/Sakura-Assistant''"

definition agentMaxAssetBytes :: int where
  "agentMaxAssetBytes = 128 * 1024 * 1024"

definition agentMaxMetadataBytes :: int where
  "agentMaxMetadataBytes = 1024 * 1024"

definition digits :: "string \<Rightarrow> bool" where
  "digits s \<longleftrightarrow> s \<noteq> [] \<and> list_all is_digit s"

text \<open>\<open>agentVersionRE\<close>: three numbers with dots between them.\<close>

definition version_matches :: "string \<Rightarrow> bool" where
  "version_matches v = (case split_on CHR ''.'' v of [a, b, c] \<Rightarrow> digits a \<and> digits b \<and> digits c | _ \<Rightarrow> False)"

text \<open>\<open>agentHashRE\<close>: 64 lower-case hexadecimal digits.\<close>

definition hash_matches :: "string \<Rightarrow> bool" where
  "hash_matches h \<longleftrightarrow> length h = 64 \<and> list_all (\<lambda>c. is_digit c \<or> c \<in> set ''abcdef'') h"

record agentAsset =
  aa_OS :: string
  aa_Arch :: string
  aa_Name :: string
  aa_Size :: int
  aa_SHA256 :: string

record agentManifest =
  am_SchemaVersion :: int
  am_Version :: string
  am_Assets :: "agentAsset list"

definition validAgentVersion :: "string \<Rightarrow> bool" where
  "validAgentVersion v \<longleftrightarrow> length v \<le> 64 \<and> version_matches v"

definition trimPrefix :: "string \<Rightarrow> string \<Rightarrow> string" where
  "trimPrefix p s = (case strip_prefix p s of None \<Rightarrow> s | Some r \<Rightarrow> r)"

definition trimSuffix :: "string \<Rightarrow> string \<Rightarrow> string" where
  "trimSuffix p s = (case strip_suffix p s of None \<Rightarrow> s | Some r \<Rightarrow> r)"

definition manifest_name :: string where
  "manifest_name = ''agent-manifest.json''"

definition sums_name :: string where
  "sums_name = ''agent-SHA256SUMS.txt''"

definition binary_name :: "string \<Rightarrow> string \<Rightarrow> string" where
  "binary_name version arch = ''assistant-agent_'' @ version @ ''_linux_'' @ arch"

primrec arch_loop :: "string list \<Rightarrow> string \<Rightarrow> bool" where
  "arch_loop [] name = False"
| "arch_loop (arch # rest) name =
     (if strip_prefix ''assistant-agent_'' name \<noteq> None \<and> strip_suffix (''_linux_'' @ arch) name \<noteq> None
      then validAgentVersion (trimSuffix (''_linux_'' @ arch) (trimPrefix ''assistant-agent_'' name))
      else arch_loop rest name)"

definition validAgentAssetName :: "string \<Rightarrow> bool" where
  "validAgentAssetName name =
     (if name = manifest_name \<or> name = sums_name then True else arch_loop [''amd64'', ''arm64''] name)"

definition managedAgentCacheKey :: "string \<Rightarrow> bool" where
  "managedAgentCacheKey key =
     (case cut_at CHR ''_'' key of
        None \<Rightarrow> False
      | Some (version, asset) \<Rightarrow> validAgentVersion version \<and> validAgentAssetName asset)"

definition cache_key :: "string \<Rightarrow> string \<Rightarrow> string" where
  "cache_key version name = version @ ''_'' @ name"

text \<open>
  The environment: failing system calls, the bytes a failing write leaves, the suffixes of
  temporary names, modification times, the order \<^verbatim>\<open>sort.Slice\<close> gives the candidates, whether
  the cache path is a directory, the decoder, the digest and the upstream.
\<close>

record upstreamResponse =
  ur_Status :: int
  ur_ContentLength :: int
  ur_Body :: string
  ur_Broken :: bool \<comment> \<open>reading fails after the bytes of the body\<close>

record releaseEnv =
  re_fail :: "nat \<Rightarrow> bool"
  re_part :: "nat \<Rightarrow> nat"
  re_tmp :: "nat \<Rightarrow> string"
  re_clock :: "nat \<Rightarrow> time"
  re_sort :: "(string \<times> int \<times> time) list \<Rightarrow> (string \<times> int \<times> time) list"
  re_isdir :: bool
  re_json :: "string \<Rightarrow> agentManifest option"
  re_sha :: "string \<Rightarrow> string"
  re_net :: "nat \<Rightarrow> string \<Rightarrow> upstreamResponse option"

definition asset_ok :: "string \<Rightarrow> string list \<Rightarrow> agentAsset \<Rightarrow> bool" where
  "asset_ok version seen x \<longleftrightarrow>
     \<not> (aa_OS x \<noteq> ''linux'' \<or> (aa_Arch x \<noteq> ''amd64'' \<and> aa_Arch x \<noteq> ''arm64'') \<or> aa_Arch x \<in> set seen \<or>
        aa_Size x \<le> 0 \<or> agentMaxAssetBytes < aa_Size x \<or> \<not> hash_matches (aa_SHA256 x) \<or>
        aa_Name x \<noteq> ''assistant-agent_'' @ version @ ''_linux_'' @ aa_Arch x)"

primrec assets_ok :: "string \<Rightarrow> string list \<Rightarrow> agentAsset list \<Rightarrow> bool" where
  "assets_ok version seen [] = True"
| "assets_ok version seen (x # xs) = (asset_ok version seen x \<and> assets_ok version (aa_Arch x # seen) xs)"

definition parseAgentManifest :: "releaseEnv \<Rightarrow> string \<Rightarrow> string \<Rightarrow> agentManifest option" where
  "parseAgentManifest E b version =
     (if agentMaxMetadataBytes < int (length b) \<or> \<not> validAgentVersion version then None
      else case re_json E b of
        None \<Rightarrow> None
      | Some m \<Rightarrow>
          if am_SchemaVersion m \<noteq> 1 \<or> am_Version m \<noteq> version \<or> length (am_Assets m) \<noteq> 2 then None
          else if assets_ok version [] (am_Assets m) then Some m else None)"

definition checksums_text :: "agentManifest \<Rightarrow> string" where
  "checksums_text m = concat (map (\<lambda>x. aa_SHA256 x @ ''  '' @ aa_Name x @ ''\<newline>'') (am_Assets m))"

definition validAgentChecksums :: "string \<Rightarrow> agentManifest \<Rightarrow> bool" where
  "validAgentChecksums b m \<longleftrightarrow> b = checksums_text m"

section \<open>The directory\<close>

record cacheFile =
  cf_Name :: string
  cf_Regular :: bool
  cf_Data :: string
  cf_ModTime :: time

record agentCache =
  ac_max :: int
  ac_files :: "cacheFile list"
  ac_refs :: "string \<Rightarrow> int"
  ac_initialized :: bool
  ac_calls :: nat
  ac_reqs :: nat

datatype osErr = ErrNotExist | ErrCall | ErrText string

type_synonym 'a rtx = "(agentCache, osErr, 'a) tx"

definition newAgentCache :: "int \<Rightarrow> cacheFile list \<Rightarrow> agentCache" where
  "newAgentCache mx files =
     \<lparr>ac_max = mx, ac_files = files, ac_refs = (\<lambda>_. 0), ac_initialized = False, ac_calls = 0, ac_reqs = 0\<rparr>"

text \<open>One system call: its number, or a failure.\<close>

definition sysT :: "releaseEnv \<Rightarrow> nat rtx" where
  "sysT E s = (if re_fail E (ac_calls s) then Inl ErrCall else Inr (ac_calls s), s\<lparr>ac_calls := Suc (ac_calls s)\<rparr>)"

definition find_file :: "string \<Rightarrow> agentCache \<Rightarrow> cacheFile option" where
  "find_file name s = find (\<lambda>f. cf_Name f = name) (ac_files s)"

definition present :: "string \<Rightarrow> cacheFile rtx" where
  "present name = bindT (getT (find_file name)) (\<lambda>f. case f of None \<Rightarrow> failT ErrNotExist | Some f0 \<Rightarrow> retT f0)"

definition osLstat :: "releaseEnv \<Rightarrow> string \<Rightarrow> cacheFile rtx" where
  "osLstat E name = thenT (sysT E) (present name)"

definition del_file :: "string \<Rightarrow> agentCache \<Rightarrow> agentCache" where
  "del_file name s = s\<lparr>ac_files := del_where (\<lambda>f. cf_Name f = name) (ac_files s)\<rparr>"

definition osRemove :: "releaseEnv \<Rightarrow> string \<Rightarrow> unit rtx" where
  "osRemove E name = thenT (sysT E) (thenT (present name) (modT (del_file name)))"

definition osRename :: "releaseEnv \<Rightarrow> string \<Rightarrow> string \<Rightarrow> unit rtx" where
  "osRename E old new =
     thenT (sysT E) (bindT (present old) (\<lambda>f.
       modT (\<lambda>s. (del_file new (del_file old s))\<lparr>ac_files := ac_files (del_file new (del_file old s)) @ [f\<lparr>cf_Name := new\<rparr>]\<rparr>)))"

text \<open>\<^verbatim>\<open>os.CreateTemp\<close> makes a file that did not exist; it gives up when it finds no free name.\<close>

definition tmp_prefix :: string where
  "tmp_prefix = ''.agent-download-''"

definition createTemp :: "releaseEnv \<Rightarrow> string rtx" where
  "createTemp E =
     bindT (sysT E) (\<lambda>n. bindT (getT (find_file (tmp_prefix @ re_tmp E n))) (\<lambda>f.
       if f \<noteq> None then failT ErrCall
       else thenT (modT (\<lambda>s. s\<lparr>ac_files := ac_files s @
           [\<lparr>cf_Name = tmp_prefix @ re_tmp E n, cf_Regular = True, cf_Data = [], cf_ModTime = re_clock E n\<rparr>]\<rparr>))
         (retT (tmp_prefix @ re_tmp E n))))"

text \<open>Writing a file; a failing write leaves a part of the data.\<close>

definition set_data :: "releaseEnv \<Rightarrow> nat \<Rightarrow> string \<Rightarrow> string \<Rightarrow> agentCache \<Rightarrow> agentCache" where
  "set_data E n name b s =
     s\<lparr>ac_files := upd_where (\<lambda>f. cf_Name f = name) (\<lambda>f. f\<lparr>cf_Data := b, cf_ModTime := re_clock E n\<rparr>) (ac_files s)\<rparr>"

definition writeFile :: "releaseEnv \<Rightarrow> string \<Rightarrow> string \<Rightarrow> unit rtx" where
  "writeFile E name b =
     bindT (getT ac_calls) (\<lambda>n. bindT (attemptT (sysT E)) (\<lambda>r.
       case r of
         Inl e \<Rightarrow> thenT (modT (set_data E n name (take (re_part E n) b))) (failT e)
       | Inr _ \<Rightarrow> modT (set_data E n name b)))"

section \<open>Room\<close>

definition file_size :: "cacheFile \<Rightarrow> int" where
  "file_size f = (if cf_Regular f then int (length (cf_Data f)) else 0)"

text \<open>The loop over the entries: the total size and the candidates for eviction.\<close>

definition room_step ::
  "releaseEnv \<Rightarrow> cacheFile \<Rightarrow> int \<times> (string \<times> int \<times> time) list \<Rightarrow> (int \<times> (string \<times> int \<times> time) list) rtx" where
  "room_step E e acc =
     thenT (sysT E) (bindT (getT ac_refs) (\<lambda>refs.
       if \<not> cf_Regular e then retT acc
       else retT (fst acc + int (length (cf_Data e)),
         if managedAgentCacheKey (cf_Name e) \<and> refs (cf_Name e) = 0
         then snd acc @ [(cf_Name e, int (length (cf_Data e)), cf_ModTime e)] else snd acc)))"

primrec evict :: "releaseEnv \<Rightarrow> int \<Rightarrow> int \<Rightarrow> (string \<times> int \<times> time) list \<Rightarrow> int \<Rightarrow> int rtx" where
  "evict E mx extra [] tot = retT tot"
| "evict E mx extra (f # fs) tot =
     (if tot + extra \<le> mx then retT tot
      else thenT (osRemove E (fst f)) (evict E mx extra fs (tot - fst (snd f))))"

definition makeRoom :: "releaseEnv \<Rightarrow> int \<Rightarrow> unit rtx" where
  "makeRoom E extra =
     bindT (getT ac_max) (\<lambda>mx.
       if mx < extra \<or> mx \<le> 0 then failT (ErrText ''cache capacity too small'')
       else
         thenT (sysT E) (bindT (getT (\<lambda>s. sort_key cf_Name (ac_files s))) (\<lambda>entries.
         bindT (foldT (room_step E) entries (0, [])) (\<lambda>acc.
         bindT (evict E mx extra (re_sort E (snd acc)) (fst acc)) (\<lambda>tot.
           if mx < tot + extra then failT (ErrText ''cache capacity exhausted by active files'')
           else retT ())))))"

definition prepare :: "releaseEnv \<Rightarrow> unit rtx" where
  "prepare E =
     thenT (sysT E) (thenT (sysT E) (
       if \<not> re_isdir E then failT (ErrText ''cache is not a directory'')
       else
         bindT (getT ac_initialized) (\<lambda>ini.
         thenT
           (whenT (\<not> ini)
             (thenT (sysT E) (bindT (getT (\<lambda>s. sort_key cf_Name (ac_files s))) (\<lambda>entries.
              thenT
                (forT entries (\<lambda>e.
                   whenT (strip_prefix tmp_prefix (cf_Name e) \<noteq> None \<and> cf_Regular e) (osRemove E (cf_Name e))))
                (modT (\<lambda>s. s\<lparr>ac_initialized := True\<rparr>))))))
           (makeRoom E 0))))"

definition discard :: "releaseEnv \<Rightarrow> string \<Rightarrow> unit rtx" where
  "discard E key =
     bindT (getT (\<lambda>s. ac_refs s key)) (\<lambda>n.
       if n \<noteq> 0 then failT (ErrText ''invalid cache entry currently served'')
       else bindT (attemptT (osRemove E key)) (\<lambda>r.
         case r of Inr _ \<Rightarrow> retT () | Inl e \<Rightarrow> if e = ErrNotExist then retT () else failT e))"

section \<open>Downloads\<close>

definition readSmallAgentFile :: "releaseEnv \<Rightarrow> string \<Rightarrow> string rtx" where
  "readSmallAgentFile E name =
     bindT (osLstat E name) (\<lambda>st.
       if \<not> cf_Regular st \<or> agentMaxMetadataBytes < int (length (cf_Data st))
       then failT (ErrText ''invalid metadata cache file'')
       else thenT (sysT E) (bindT (present name) (\<lambda>f. thenT (sysT E) (
         let b = take (nat (agentMaxMetadataBytes + 1)) (cf_Data f)
         in if agentMaxMetadataBytes < int (length b) then failT (ErrText ''metadata too large'') else retT b))))"

definition endpoint :: "string \<Rightarrow> string \<Rightarrow> string" where
  "endpoint version asset = ''https://github.com/'' @ agentRepo @ ''/releases/download/v'' @ version @ ''/'' @ asset"

definition fetchAgentAsset :: "releaseEnv \<Rightarrow> string \<Rightarrow> string \<Rightarrow> upstreamResponse rtx" where
  "fetchAgentAsset E version asset =
     bindT (getT ac_reqs) (\<lambda>n. thenT (modT (\<lambda>s. s\<lparr>ac_reqs := Suc n\<rparr>)) (
       case re_net E n (endpoint version asset) of
         None \<Rightarrow> failT ErrCall
       | Some resp \<Rightarrow>
           if ur_Status resp \<noteq> 200 then failT (ErrText ''release upstream status'') else retT resp))"

text \<open>The steps from the temporary file to its final name; the deferred calls close and remove it.\<close>

definition withTemp :: "releaseEnv \<Rightarrow> (string \<Rightarrow> unit rtx) \<Rightarrow> unit rtx" where
  "withTemp E body =
     bindT (createTemp E) (\<lambda>tmp. finallyT (body tmp) (thenT (attemptT (sysT E)) (osRemove E tmp)))"

definition publish_temp :: "releaseEnv \<Rightarrow> string \<Rightarrow> string \<Rightarrow> unit rtx" where
  "publish_temp E tmp key = thenT (sysT E) (thenT (sysT E) (osRename E tmp key))"

definition agentMetadata :: "releaseEnv \<Rightarrow> string \<Rightarrow> string \<Rightarrow> (string \<Rightarrow> bool) \<Rightarrow> string rtx" where
  "agentMetadata E version name valid =
     (let key = cache_key version name in
      bindT (attemptT (readSmallAgentFile E key)) (\<lambda>r.
        if (case r of Inl _ \<Rightarrow> False | Inr b \<Rightarrow> valid b) then retT (projr r)
        else
          thenT (discard E key) (bindT (fetchAgentAsset E version name) (\<lambda>resp.
            if agentMaxMetadataBytes < ur_ContentLength resp then failT (ErrText ''metadata too large'')
            else if ur_Broken resp \<and> int (length (ur_Body resp)) \<le> agentMaxMetadataBytes then failT ErrCall
            else
              (let b = take (nat (agentMaxMetadataBytes + 1)) (ur_Body resp) in
               if agentMaxMetadataBytes < int (length b) \<or> \<not> valid b then failT (ErrText ''invalid metadata'')
               else
                 thenT (makeRoom E (int (length b)))
                   (thenT (withTemp E (\<lambda>tmp. thenT (writeFile E tmp b) (publish_temp E tmp key)))
                     (retT b)))))))"

definition validAgentBinary :: "releaseEnv \<Rightarrow> string \<Rightarrow> agentAsset \<Rightarrow> bool rtx" where
  "validAgentBinary E name x =
     bindT (attemptT (bindT (osLstat E name) (\<lambda>info.
       if \<not> cf_Regular info \<or> int (length (cf_Data info)) \<noteq> aa_Size x then retT False
       else thenT (sysT E) (bindT (present name) (\<lambda>f. thenT (sysT E)
         (retT (int (length (take (nat (aa_Size x + 1)) (cf_Data f))) = aa_Size x \<and>
                re_sha E (take (nat (aa_Size x + 1)) (cf_Data f)) = aa_SHA256 x)))))))
       (\<lambda>r. retT (r = Inr True))"

text \<open>Copying, the probe for a further byte, the digest and the final name.\<close>

definition binary_body :: "releaseEnv \<Rightarrow> agentAsset \<Rightarrow> upstreamResponse \<Rightarrow> string \<Rightarrow> string \<Rightarrow> unit rtx" where
  "binary_body E x resp key tmp =
     (let body = take (nat (aa_Size x)) (ur_Body resp) in
      thenT (writeFile E tmp body)
        (if int (length (ur_Body resp)) < aa_Size x then failT (ErrText ''incomplete asset'')
         else if aa_Size x < int (length (ur_Body resp)) \<or> ur_Broken resp then failT (ErrText ''asset size mismatch'')
         else if re_sha E body \<noteq> aa_SHA256 x then failT (ErrText ''asset digest mismatch'')
         else publish_temp E tmp key))"

definition agentBinary :: "releaseEnv \<Rightarrow> string \<Rightarrow> agentAsset \<Rightarrow> unit rtx" where
  "agentBinary E version x =
     (let key = cache_key version (aa_Name x) in
      bindT (validAgentBinary E key x) (\<lambda>ok.
        if ok then retT ()
        else
          thenT (discard E key) (thenT (makeRoom E (aa_Size x)) (bindT (fetchAgentAsset E version (aa_Name x)) (\<lambda>resp.
            if 0 \<le> ur_ContentLength resp \<and> ur_ContentLength resp \<noteq> aa_Size x then failT (ErrText ''asset size mismatch'')
            else
              withTemp E (binary_body E x resp key))))))"

definition lease :: "string \<Rightarrow> agentCache \<Rightarrow> agentCache" where
  "lease key s = s\<lparr>ac_refs := (ac_refs s)(key := ac_refs s key + 1)\<rparr>"

text \<open>An entry whose counter reaches 0 is deleted from the map, so it reads as 0.\<close>

definition release :: "string \<Rightarrow> agentCache \<Rightarrow> agentCache" where
  "release key s = s\<lparr>ac_refs := (ac_refs s)(key := ac_refs s key - 1)\<rparr>"

text \<open>The \<^verbatim>\<open>switch\<close> over the asset: afterwards its file is in the cache.\<close>

definition ensureAsset :: "releaseEnv \<Rightarrow> string \<Rightarrow> string \<Rightarrow> agentManifest \<Rightarrow> unit rtx" where
  "ensureAsset E version asset manifest =
     (if asset = manifest_name then retT ()
      else if asset = sums_name
      then thenT (agentMetadata E version asset (\<lambda>b. validAgentChecksums b manifest)) (retT ())
      else (case find (\<lambda>x. aa_Name x = asset) (am_Assets manifest) of
              None \<Rightarrow> failT (ErrText ''asset not in manifest'')
            | Some x \<Rightarrow> agentBinary E version x))"

definition openAgentAsset :: "releaseEnv \<Rightarrow> bool \<Rightarrow> string \<Rightarrow> string \<Rightarrow> (string \<times> cacheFile) rtx" where
  "openAgentAsset E cancelled version asset =
     (if \<not> validAgentVersion version \<or> \<not> validAgentAssetName asset then failT (ErrText ''invalid asset'')
      else if cancelled then failT (ErrText ''context'')
      else
        thenT (prepare E)
          (bindT (agentMetadata E version manifest_name (\<lambda>b. parseAgentManifest E b version \<noteq> None)) (\<lambda>mb.
           case parseAgentManifest E mb version of
             None \<Rightarrow> failT (ErrText ''invalid agent manifest'')
           | Some manifest \<Rightarrow>
               thenT
                 (ensureAsset E version asset manifest)
                 (thenT (sysT E) (bindT (present (cache_key version asset)) (\<lambda>f.
                    thenT (modT (lease (cache_key version asset))) (retT (cache_key version asset, f))))))))"

section \<open>Handlers\<close>

record assetAnswer =
  as_ContentType :: string
  as_Data :: string

definition agentReleaseErr :: "'a answer" where
  "agentReleaseErr = AnswerErr 502 ''agent_release_unavailable''"

definition asset_type :: "string \<Rightarrow> string" where
  "asset_type asset =
     (if asset = manifest_name then ''application/json; charset=utf-8''
      else if asset = sums_name then ''text/plain; charset=utf-8'' else ''application/octet-stream'')"

text \<open>The lease lasts until the answer has been written: \<open>release\<close>.\<close>

definition serveAgentAsset :: "releaseEnv \<Rightarrow> bool \<Rightarrow> string \<Rightarrow> string \<Rightarrow> agentCache \<Rightarrow> assetAnswer answer \<times> agentCache" where
  "serveAgentAsset E cancelled version asset s =
     (case openAgentAsset E cancelled version asset s of
        (Inl _, t) \<Rightarrow> (agentReleaseErr, t)
      | (Inr (key, f), t) \<Rightarrow>
          (case sysT E t of
             (Inl _, u) \<Rightarrow> (agentReleaseErr, release key u)
           | (Inr _, u) \<Rightarrow> (AnswerOk 200 \<lparr>as_ContentType = asset_type asset, as_Data = cf_Data f\<rparr>, u)))"

definition handleAgentStable :: "releaseEnv \<Rightarrow> bool \<Rightarrow> string \<Rightarrow> agentCache \<Rightarrow> assetAnswer answer \<times> agentCache" where
  "handleAgentStable E cancelled agentVersion s =
     (if \<not> validAgentVersion agentVersion then (agentReleaseErr, s)
      else serveAgentAsset E cancelled agentVersion manifest_name s)"

definition handleAgentAsset ::
  "releaseEnv \<Rightarrow> bool \<Rightarrow> string \<Rightarrow> string \<Rightarrow> agentCache \<Rightarrow> assetAnswer answer \<times> agentCache" where
  "handleAgentAsset E cancelled version asset s =
     (if \<not> validAgentVersion version \<or> \<not> validAgentAssetName asset then (AnswerErr 404 ''not_found'', s)
      else if strip_prefix ''assistant-agent_'' asset \<noteq> None \<and>
        asset \<noteq> ''assistant-agent_'' @ version @ ''_linux_amd64'' \<and> asset \<noteq> ''assistant-agent_'' @ version @ ''_linux_arm64''
      then (AnswerErr 404 ''not_found'', s)
      else serveAgentAsset E cancelled version asset s)"

text \<open>A redirect of the download client: the parts of its address.\<close>

record redirectURL =
  ru_Scheme :: string
  ru_User :: bool
  ru_Fragment :: string
  ru_Port :: string
  ru_Hostname :: string

definition lower_char :: "char \<Rightarrow> char" where
  "lower_char c = (let n = (of_char c :: nat) in if 65 \<le> n \<and> n \<le> 90 then char_of (n + 32) else c)"

definition trusted_hosts :: "string list" where
  "trusted_hosts = [''github.com'', ''release-assets.githubusercontent.com'', ''objects.githubusercontent.com'',
     ''github-releases.githubusercontent.com'']"

definition agentRedirectAllowed :: "redirectURL \<Rightarrow> nat \<Rightarrow> bool" where
  "agentRedirectAllowed u via =
     (if 5 \<le> via \<or> ru_Scheme u \<noteq> ''https'' \<or> ru_User u \<or> ru_Fragment u \<noteq> [] \<or>
         (ru_Port u \<noteq> [] \<and> ru_Port u \<noteq> ''443'') then False
      else map lower_char (ru_Hostname u) \<in> set trusted_hosts)"

record agentStatusJSON =
  as_sourceId :: string
  as_lastSeenAt :: "string option"
  as_lastMetricsSeq :: int
  as_agentVersion :: "string option"

text \<open>\<open>agentStatusAuth\<close> around \<open>handleAgentStatus\<close>, after the source key has been checked.\<close>

definition handleAgentStatus :: "sourceRow \<Rightarrow> agentStatusJSON answer" where
  "handleAgentStatus src =
     AnswerOk 200 \<lparr>as_sourceId = s_ID src, as_lastSeenAt = s_LastSeenAt src, as_lastMetricsSeq = s_LastMetricsSeq src,
       as_agentVersion = s_AgentVersion src\<rparr>"

definition agentStatusAuth :: "(sourceRow \<Rightarrow> 'a answer) \<Rightarrow> sourceRow \<Rightarrow> 'a answer" where
  "agentStatusAuth next_h src = (if s_Kind src \<noteq> ''device'' then AnswerErr 403 ''forbidden'' else next_h src)"

text \<open>What can happen to the cache: requests in any order, and the end of an answer.\<close>

inductive release_step :: "releaseEnv \<Rightarrow> agentCache \<Rightarrow> agentCache \<Rightarrow> bool" for E where
  stable: "handleAgentStable E cancelled version s = (a, t) \<Longrightarrow> release_step E s t"
| asset: "handleAgentAsset E cancelled version name s = (a, t) \<Longrightarrow> release_step E s t"
| finished: "0 < ac_refs s key \<Longrightarrow> release_step E s (release key s)"

section \<open>Names\<close>

lemma split_on_set: "x \<in> set s \<Longrightarrow> x = c \<or> (\<exists>p \<in> set (split_on c s). x \<in> set p)"
proof (induction s)
  case (Cons y s)
  have "split_on c s \<noteq> []" by (cases s) simp_all
  then show ?case using Cons by (cases "split_on c s") auto
qed simp

lemma version_chars: "validAgentVersion v \<Longrightarrow> x \<in> set v \<Longrightarrow> is_digit x \<or> x = CHR ''.''"
  using split_on_set [of x v "CHR ''.''"]
  by (auto simp: validAgentVersion_def version_matches_def digits_def list_all_iff split: list.splits)

lemma version_hd: "validAgentVersion v \<Longrightarrow> \<exists>c w. v = c # w \<and> is_digit c"
  by (cases v) (auto simp: validAgentVersion_def version_matches_def digits_def list_all_iff split: list.splits if_splits)

lemma not_digit: "\<not> is_digit CHR ''.''" "\<not> is_digit CHR ''_''" "\<not> is_digit CHR ''/''"
  by (simp_all add: is_digit_def digit_val_def)

lemma version_no_underscore: "validAgentVersion v \<Longrightarrow> CHR ''_'' \<notin> set v"
  using version_chars [of v "CHR ''_''"] not_digit by auto

lemma cut_cache_key: "CHR ''_'' \<notin> set v \<Longrightarrow> cut_at CHR ''_'' (cache_key v a) = Some (v, a)"
  by (auto simp: cut_at_def cache_key_def takeWhile_append dropWhile_append)

lemma managed_cache_key: "validAgentVersion v \<Longrightarrow> validAgentAssetName a \<Longrightarrow> managedAgentCacheKey (cache_key v a)"
  by (simp add: managedAgentCacheKey_def cut_cache_key version_no_underscore)

lemma managed_not_tmp:
  assumes "managedAgentCacheKey n"
  shows "strip_prefix tmp_prefix n = None"
proof (cases n)
  case (Cons c w)
  obtain v a where v: "cut_at CHR ''_'' n = Some (v, a)" "validAgentVersion v"
    using assms by (auto simp: managedAgentCacheKey_def split: option.splits)
  then have "v = takeWhile (\<lambda>x. x \<noteq> CHR ''_'') n" by (simp add: cut_at_def split: if_splits)
  then have "is_digit c" using version_hd [OF v(2)] Cons by (auto split: if_splits)
  then show ?thesis using Cons not_digit by (auto simp: strip_prefix_def tmp_prefix_def)
qed (use assms in \<open>simp add: managedAgentCacheKey_def cut_at_def\<close>)

lemma key_not_tmp: "validAgentVersion v \<Longrightarrow> validAgentAssetName a \<Longrightarrow> strip_prefix tmp_prefix (cache_key v a) = None"
  by (rule managed_not_tmp [OF managed_cache_key])

lemma tmp_name [simp]: "strip_prefix tmp_prefix (tmp_prefix @ w) = Some w"
  by (simp add: strip_prefix_def)

section \<open>System calls\<close>

abbreviation disk :: "agentCache \<Rightarrow> cacheFile list \<times> (string \<Rightarrow> int) \<times> int" where
  "disk s \<equiv> (ac_files s, ac_refs s, ac_max s)"

lemma sysT_cases: "sysT E s = (r, t) \<Longrightarrow> t = s\<lparr>ac_calls := Suc (ac_calls s)\<rparr>"
  by (simp add: sysT_def)

lemma disk_sysT: "obeys (same disk) (sysT E)"
  by (rule obeysI) (simp add: same_def sysT_def)

lemma disk_present: "obeys (same disk) (present n)"
  unfolding present_def by (intro frame.intros)

lemma disk_osLstat: "obeys (same disk) (osLstat E n)"
  unfolding osLstat_def by (intro frame.intros disk_sysT disk_present)

lemma disk_fetch: "obeys (same disk) (fetchAgentAsset E v a)"
  unfolding fetchAgentAsset_def by (intro frame.intros) (simp add: obeys_def same_def)

lemma disk_readSmall: "obeys (same disk) (readSmallAgentFile E n)"
  unfolding readSmallAgentFile_def Let_def by (intro frame.intros disk_sysT disk_present disk_osLstat)

lemma disk_validBinary: "obeys (same disk) (validAgentBinary E n x)"
  unfolding validAgentBinary_def by (intro frame.intros disk_sysT disk_present disk_osLstat)

lemma disk_room_step: "obeys (same disk) (room_step E e acc)"
  unfolding room_step_def by (intro frame.intros disk_sysT)

lemmas disk_intros = frame.intros disk_sysT disk_present disk_osLstat disk_fetch disk_readSmall disk_validBinary disk_room_step

lemma present_run: "present n s = (Inr f, t) \<longleftrightarrow> find_file n s = Some f \<and> t = s"
  by (auto simp: present_def bindT_def split: option.splits)

section \<open>Protected files\<close>

text \<open>
  A file is protected when it is leased, or when it is not one the cache manages.  No request
  touches a protected file.
\<close>

definition leases_ok :: "agentCache \<Rightarrow> bool" where
  "leases_ok s \<longleftrightarrow> (\<forall>n. 0 \<le> ac_refs s n \<and> (ac_refs s n \<noteq> 0 \<longrightarrow> managedAgentCacheKey n))"

definition protected :: "agentCache \<Rightarrow> string \<Rightarrow> bool" where
  "protected s n \<longleftrightarrow> ac_refs s n \<noteq> 0 \<or> (\<not> managedAgentCacheKey n \<and> strip_prefix tmp_prefix n = None)"

definition protected_files :: "agentCache \<Rightarrow> cacheFile list" where
  "protected_files s = filter (\<lambda>f. protected s (cf_Name f)) (ac_files s)"

definition guarded :: "agentCache \<Rightarrow> agentCache \<Rightarrow> bool" where
  "guarded s t \<longleftrightarrow> ac_refs t = ac_refs s \<and> ac_max t = ac_max s \<and> (leases_ok s \<longrightarrow> protected_files t = protected_files s)"

interpretation grd: tx_rel guarded
  by unfold_locales (auto simp: guarded_def leases_ok_def)

lemma guarded_disk: "obeys (same disk) m \<Longrightarrow> obeys guarded m"
  by (auto simp: obeys_def same_def guarded_def protected_files_def protected_def)

lemma protected_refs [simp]: "protected (s\<lparr>ac_files := fs\<rparr>) = protected s"
  by (simp add: protected_def fun_eq_iff)

lemma protected_del: "\<not> protected s n \<Longrightarrow> protected_files (del_file n s) = protected_files s"
  by (auto simp: protected_files_def del_file_def del_where_def intro!: filter_cong)

lemma protected_snoc: "\<not> protected s (cf_Name f) \<Longrightarrow> protected_files (s\<lparr>ac_files := ac_files s @ [f]\<rparr>) = protected_files s"
  by (simp add: protected_files_def)

lemma filter_upd_other:
  "\<not> p n \<Longrightarrow> (\<And>f. cf_Name (g f) = cf_Name f) \<Longrightarrow>
     filter (\<lambda>f. p (cf_Name f)) (upd_where (\<lambda>f. cf_Name f = n) g fs) = filter (\<lambda>f. p (cf_Name f)) fs"
  by (induction fs) (auto simp: upd_where_def)

lemma protected_set: "\<not> protected s n \<Longrightarrow> protected_files (set_data E k n b s) = protected_files s"
  unfolding protected_files_def set_data_def by (simp add: filter_upd_other)

text \<open>From here on \<open>s0\<close> is the state at the beginning of a request.\<close>

lemma tmp_unprotected: "leases_ok s \<Longrightarrow> \<not> protected s (tmp_prefix @ w)"
  using managed_not_tmp [of "tmp_prefix @ w"] by (auto simp: protected_def leases_ok_def)

lemma guarded_protected: "guarded s t \<Longrightarrow> protected t = protected s"
  by (simp add: guarded_def protected_def fun_eq_iff)

lemma guarded_leases: "guarded s t \<Longrightarrow> leases_ok s \<Longrightarrow> leases_ok t"
  by (simp add: guarded_def leases_ok_def)

lemma guarded_step:
  assumes "guarded s0 s" and "ac_refs t = ac_refs s" and "ac_max t = ac_max s" and "protected_files t = protected_files s"
  shows "guarded s0 t"
  using assms by (simp add: guarded_def)

lemma guard_disk:
  assumes "obeys (same disk) m"
  shows "obeys (keeps (guarded s0)) m"
proof (rule obeysI, unfold keeps_def, rule impI)
  fix s
  assume "guarded s0 s"
  moreover have "guarded s (snd (m s))" using guarded_disk [OF assms] by (simp add: obeys_def)
  ultimately show "guarded s0 (snd (m s))" by (rule grd.R_trans)
qed

lemma guard_del: "\<not> protected s0 n \<Longrightarrow> guarded s0 s \<Longrightarrow> guarded s0 (del_file n s)"
  using protected_del [of s n] guarded_protected [of s0 s]
  by (intro guarded_step [of s0 s "del_file n s"]) (simp_all add: del_file_def)

lemma guard_remove: "\<not> protected s0 n \<Longrightarrow> obeys (keeps (guarded s0)) (osRemove E n)"
  unfolding osRemove_def
  by (intro kept.intros guard_disk [OF disk_sysT] guard_disk [OF disk_present]) (simp add: obeys_def keeps_def guard_del)

lemma guard_rename:
  assumes "\<not> protected s0 n" and "\<not> protected s0 n'"
  shows "obeys (keeps (guarded s0)) (osRename E n n')"
  unfolding osRename_def
proof (intro kept.intros guard_disk [OF disk_sysT] guard_disk [OF disk_present])
  fix f
  show "obeys (keeps (guarded s0)) (modT (\<lambda>s. (del_file n' (del_file n s))\<lparr>ac_files :=
      ac_files (del_file n' (del_file n s)) @ [f\<lparr>cf_Name := n'\<rparr>]\<rparr>))"
  proof (rule obeysI, unfold keeps_def, rule impI)
    fix s
    assume "guarded s0 s"
    then have g: "guarded s0 (del_file n' (del_file n s))" using assms by (intro guard_del)
    show "guarded s0 (snd (modT (\<lambda>s. (del_file n' (del_file n s))\<lparr>ac_files :=
        ac_files (del_file n' (del_file n s)) @ [f\<lparr>cf_Name := n'\<rparr>]\<rparr>) s))"
      unfolding modT_run snd_conv using assms(2) guarded_protected [OF g]
      by (intro guarded_step [OF g]) (simp_all add: protected_snoc)
  qed
qed

lemma guard_write: "\<not> protected s0 n \<Longrightarrow> obeys (keeps (guarded s0)) (writeFile E n b)"
proof -
  assume n: "\<not> protected s0 n"
  have set: "obeys (keeps (guarded s0)) (modT (set_data E k n c))" for k c
    unfolding obeys_def keeps_def modT_run snd_conv
  proof (intro allI impI)
    fix s
    assume g: "guarded s0 s"
    show "guarded s0 (set_data E k n c s)"
      using n guarded_protected [OF g] protected_set [of s n E k c] by (intro guarded_step [OF g]) (simp_all add: set_data_def)
  qed
  have br: "obeys (keeps (guarded s0)) (case r of Inl e \<Rightarrow> thenT (modT (set_data E k n c)) (failT e) | Inr _ \<Rightarrow> modT (set_data E k n d))" for r :: "osErr + nat" and k c d
    by (cases r) (auto intro: kept.intros set)
  show ?thesis unfolding writeFile_def by (intro kept.intros guard_disk [OF disk_sysT] br)
qed

lemma guard_createTemp:
  assumes "leases_ok s0"
  shows "triple (guarded s0) (createTemp E) (\<lambda>tmp s. guarded s0 s \<and> \<not> protected s0 tmp) (guarded s0)"
proof -
  have add: "guarded s0 (s\<lparr>ac_files := ac_files s @ [f]\<rparr>)" if "guarded s0 s" "cf_Name f = tmp_prefix @ w" for s f w
    using that guarded_protected [OF that(1)] tmp_unprotected [OF assms, of w]
    by (intro guarded_step [OF that(1)]) (simp_all add: protected_snoc)
  show ?thesis unfolding createTemp_def
    by (rule triple_bind [OF triple_obeys [OF guard_disk [OF disk_sysT]]], rule triple_bind [OF triple_obeys [OF kept.get]],
        rule triple_cond)
      (auto simp: triple_def thenT_def bindT_def tmp_unprotected [OF assms] intro: add)
qed

section \<open>Capacity\<close>

text \<open>Names in a directory are unique; \<open>used\<close> is the number of bytes in its regular files.\<close>

definition dir_ok :: "agentCache \<Rightarrow> bool" where
  "dir_ok s \<longleftrightarrow> distinct (map cf_Name (ac_files s))"

definition used :: "agentCache \<Rightarrow> int" where
  "used s = sum_list (map file_size (ac_files s))"

definition room :: "int \<Rightarrow> agentCache \<Rightarrow> bool" where
  "room k s \<longleftrightarrow> dir_ok s \<and> used s + k \<le> ac_max s"

text \<open>\<^verbatim>\<open>sort.Slice\<close> permutes the candidates and puts them in the order of their times.\<close>

definition sorts_candidates :: "releaseEnv \<Rightarrow> bool" where
  "sorts_candidates E \<longleftrightarrow> (\<forall>cs. mset (re_sort E cs) = mset cs \<and> sorted (map (\<lambda>c. snd (snd c)) (re_sort E cs)))"

lemma sum_list_mono_filter:
  fixes g :: "'a \<Rightarrow> int"
  shows "(\<And>x. 0 \<le> g x) \<Longrightarrow> sum_list (map g (filter p xs)) \<le> sum_list (map g xs)"
  by (induction xs) (auto intro: add_increasing)

lemma file_size_nonneg [simp]: "0 \<le> file_size f"
  by (simp add: file_size_def)

lemma sum_list_del:
  fixes g :: "cacheFile \<Rightarrow> int"
  shows "distinct (map cf_Name fs) \<Longrightarrow> f \<in> set fs \<Longrightarrow>
     sum_list (map g (del_where (\<lambda>x. cf_Name x = cf_Name f) fs)) = sum_list (map g fs) - g f"
proof (induction fs)
  case (Cons x fs)
  show ?case
  proof (cases "x = f")
    case True
    then have "del_where (\<lambda>y. cf_Name y = cf_Name f) fs = fs"
      using Cons.prems(1) unfolding del_where_def by (intro filter_True) (auto simp: image_iff)
    then show ?thesis using True by (simp add: del_where_def)
  next
    case False
    then have "f \<in> set fs" using Cons.prems by simp
    moreover from this have "cf_Name x \<noteq> cf_Name f" using Cons.prems(1) by (auto simp: image_iff)
    ultimately show ?thesis using Cons by (simp add: del_where_def)
  qed
qed simp

lemma find_file_iff: "dir_ok s \<Longrightarrow> find_file n s = Some f \<longleftrightarrow> f \<in> set (ac_files s) \<and> cf_Name f = n"
  unfolding dir_ok_def find_file_def using find_SomeD find_unique_key by fastforce

lemma used_del: "dir_ok s \<Longrightarrow> find_file n s = Some f \<Longrightarrow> used (del_file n s) = used s - file_size f"
  using sum_list_del [of "ac_files s" f file_size] find_file_iff [of s n f] by (auto simp: used_def del_file_def dir_ok_def)

lemma dir_ok_del: "dir_ok s \<Longrightarrow> dir_ok (del_file n s)"
  by (simp add: dir_ok_def del_file_def del_where_def distinct_map_filter)

lemma osRemove_run:
  "osRemove E n s = (r, t) \<Longrightarrow>
     (r = Inr () \<and> find_file n s \<noteq> None \<and> t = del_file n (s\<lparr>ac_calls := Suc (ac_calls s)\<rparr>)) \<or>
     (r \<noteq> Inr () \<and> t = s\<lparr>ac_calls := Suc (ac_calls s)\<rparr>)"
  by (auto simp: osRemove_def present_def find_file_def thenT_def bindT_def sysT_def split: if_splits option.splits)

definition pruned :: "string set \<Rightarrow> agentCache \<Rightarrow> agentCache \<Rightarrow> bool" where
  "pruned N s t \<longleftrightarrow> ac_files t = filter (\<lambda>f. cf_Name f \<notin> N) (ac_files s) \<and> ac_refs t = ac_refs s \<and> ac_max t = ac_max s"

lemma pruned_disk: "disk t = disk s \<Longrightarrow> pruned {} s t"
  by (simp add: pruned_def)

lemma pruned_trans: "pruned N s t \<Longrightarrow> pruned M t u \<Longrightarrow> pruned (N \<union> M) s u"
  by (auto simp: pruned_def intro!: filter_cong)

lemma pruned_used: "pruned N s t \<Longrightarrow> used t \<le> used s"
  by (simp add: pruned_def used_def sum_list_mono_filter)

lemma pruned_dir: "pruned N s t \<Longrightarrow> dir_ok s \<Longrightarrow> dir_ok t"
  by (simp add: pruned_def dir_ok_def distinct_map_filter)

lemma osRemove_pruned:
  assumes "osRemove E n s = (r, t)"
  shows "pruned (if r = Inr () then {n} else {}) s t"
  using osRemove_run [OF assms] by (auto simp: pruned_def del_file_def del_where_def)

lemma evict_run:
  assumes "evict E mx k cs tot s = (r, t)"
  shows "\<exists>N \<subseteq> fst ` set cs. pruned N s t"
  using assms
proof (induction cs arbitrary: tot s)
  case Nil
  then show ?case by (auto intro: exI [of _ "{}"] simp: pruned_def)
next
  case (Cons c cs)
  show ?case
  proof (cases "tot + k \<le> mx")
    case True
    then show ?thesis using Cons.prems by (intro exI [of _ "{}"]) (simp add: pruned_def)
  next
    case False
    obtain q u where q: "osRemove E (fst c) s = (q, u)" by fastforce
    show ?thesis
    proof (cases "q = Inr ()")
      case True
      then have "evict E mx k cs (tot - fst (snd c)) u = (r, t)" using Cons.prems False q by (simp add: thenT_def bindT_def)
      from Cons.IH [OF this] obtain N where "N \<subseteq> fst ` set cs" "pruned N u t" by blast
      then show ?thesis using osRemove_pruned [OF q] True pruned_trans [of "{fst c}" s u N t]
        by (intro exI [of _ "insert (fst c) N"]) auto
    next
      case qe: False
      then obtain e where "q = Inl e" by (cases q) auto
      then have "t = u" using Cons.prems False q by (simp add: thenT_def bindT_def)
      then show ?thesis using osRemove_pruned [OF q] qe by (intro exI [of _ "{}"]) simp
    qed
  qed
qed

definition lists :: "agentCache \<Rightarrow> (string \<times> int \<times> time) list \<Rightarrow> bool" where
  "lists s cs \<longleftrightarrow> distinct (map fst cs) \<and> (\<forall>c \<in> set cs. \<exists>f. find_file (fst c) s = Some f \<and> file_size f = fst (snd c))"

lemma find_filter_other:
  "m \<notin> N \<Longrightarrow> find (\<lambda>f. cf_Name f = m) (filter (\<lambda>f. cf_Name f \<notin> N) fs) = find (\<lambda>f. cf_Name f = m) fs"
  by (induction fs) auto

lemma find_del_other: "m \<noteq> n \<Longrightarrow> find_file m (del_file n s) = find_file m s"
  using find_filter_other [of m "{n}" "ac_files s"] by (simp add: find_file_def del_file_def del_where_def)

lemma find_file_calls [simp]: "find_file m (s\<lparr>ac_calls := k\<rparr>) = find_file m s"
  by (simp add: find_file_def)

lemma lists_del:
  assumes "lists s (c # cs)"
  shows "lists (del_file (fst c) (s\<lparr>ac_calls := k\<rparr>)) cs"
  unfolding lists_def
proof (intro conjI ballI)
  show "distinct (map fst cs)" using assms by (simp add: lists_def)
next
  fix d
  assume d: "d \<in> set cs"
  then have "fst d \<noteq> fst c" using assms by (auto simp: lists_def image_iff)
  then show "\<exists>f. find_file (fst d) (del_file (fst c) (s\<lparr>ac_calls := k\<rparr>)) = Some f \<and> file_size f = fst (snd d)"
    using assms d by (simp add: lists_def find_del_other)
qed

lemma evict_used:
  assumes "evict E mx k cs (used s) s = (Inr tot, t)" and "dir_ok s" and "lists s cs"
  shows "tot = used t"
  using assms
proof (induction cs arbitrary: s)
  case (Cons c cs)
  show ?case
  proof (cases "used s + k \<le> mx")
    case True
    then show ?thesis using Cons.prems(1) by auto
  next
    case False
    let ?u = "del_file (fst c) (s\<lparr>ac_calls := Suc (ac_calls s)\<rparr>)"
    obtain f where f: "find_file (fst c) s = Some f" "file_size f = fst (snd c)" using Cons.prems(3) by (auto simp: lists_def)
    have u: "used ?u = used s - fst (snd c)"
      using used_del [of "s\<lparr>ac_calls := Suc (ac_calls s)\<rparr>" "fst c" f] f Cons.prems(2) by (simp add: used_def dir_ok_def)
    have "evict E mx k cs (used ?u) ?u = (Inr tot, t)"
      using Cons.prems(1) False osRemove_run [of E "fst c" s] unfolding u by (auto simp: thenT_Inr_iff)
    then show ?thesis
      using Cons.IH lists_del [OF Cons.prems(3)] dir_ok_del [of "s\<lparr>ac_calls := Suc (ac_calls s)\<rparr>"] Cons.prems(2)
      by (simp add: dir_ok_def)
  qed
qed simp

text \<open>The candidates: the regular files the cache manages that nobody reads.\<close>

definition candidate :: "agentCache \<Rightarrow> cacheFile \<Rightarrow> bool" where
  "candidate s f \<longleftrightarrow> cf_Regular f \<and> managedAgentCacheKey (cf_Name f) \<and> ac_refs s (cf_Name f) = 0"

definition entry_of_file :: "cacheFile \<Rightarrow> string \<times> int \<times> time" where
  "entry_of_file f = (cf_Name f, int (length (cf_Data f)), cf_ModTime f)"

lemma room_loop:
  assumes "foldT (room_step E) es (a, cs) s = (Inr acc, t)"
  shows "acc = (a + sum_list (map file_size es), cs @ map entry_of_file (filter (candidate s) es)) \<and> disk t = disk s"
  using assms
proof (induction es arbitrary: a cs s)
  case (Cons e es)
  obtain acc' u where u: "room_step E e (a, cs) s = (Inr acc', u)" "foldT (room_step E) es acc' u = (Inr acc, t)"
    using Cons.prems by (auto simp: bindT_Inr_iff)
  have d: "disk u = disk s" using sameD [OF disk_room_step u(1)] .
  then have c: "candidate u = candidate s" by (simp add: candidate_def fun_eq_iff)
  have "acc' = (a + file_size e, cs @ map entry_of_file (filter (candidate s) [e]))"
    using u(1) by (auto simp: room_step_def thenT_Inr_iff bindT_Inr_iff candidate_def file_size_def entry_of_file_def
        dest!: sysT_cases split: if_splits)
  with Cons.IH [of "fst acc'" "snd acc'" u] u(2) d c show ?case by simp
qed simp

lemma sum_list_mset:
  fixes g :: "'a \<Rightarrow> int"
  shows "mset xs = mset ys \<Longrightarrow> sum_list (map g xs) = sum_list (map g ys)"
  by (metis mset_map sum_mset_sum_list)

lemma sum_list_sort_key:
  fixes g :: "'a \<Rightarrow> int"
  shows "sum_list (map g (sort_key h xs)) = sum_list (map g xs)"
  by (rule sum_list_mset) simp

lemma sorts_set_cs: "sorts_candidates E \<Longrightarrow> set (re_sort E cs) = set cs"
  by (metis sorts_candidates_def set_mset_mset)

lemma sorts_distinct_cs:
  assumes "sorts_candidates E" and "distinct (map fst cs)"
  shows "distinct (map fst (re_sort E cs))"
proof -
  have "mset (map fst (re_sort E cs)) = mset (map fst cs)" using assms(1) by (simp add: sorts_candidates_def)
  then show ?thesis using assms(2) by (metis mset_eq_imp_distinct_iff)
qed

lemma lists_candidates:
  assumes "sorts_candidates E" and "dir_ok s"
  shows "lists s (re_sort E (map entry_of_file (filter (candidate s) (sort_key cf_Name (ac_files s)))))"
proof -
  let ?cs = "map entry_of_file (filter (candidate s) (sort_key cf_Name (ac_files s)))"
  have "mset (map cf_Name (sort_key cf_Name (ac_files s))) = mset (map cf_Name (ac_files s))" by simp
  then have "distinct (map cf_Name (sort_key cf_Name (ac_files s)))"
    using assms(2) unfolding dir_ok_def by (metis mset_eq_imp_distinct_iff)
  moreover have "map fst ?cs = map cf_Name (filter (candidate s) (sort_key cf_Name (ac_files s)))"
    by (simp add: entry_of_file_def)
  ultimately have "distinct (map fst ?cs)" by (metis distinct_map_filter)
  then show ?thesis
    using assms unfolding lists_def
    by (auto simp: sorts_set_cs find_file_iff candidate_def entry_of_file_def file_size_def intro: sorts_distinct_cs)
qed

text \<open>
  What \<open>makeRoom\<close> does: it removes candidates only, and when it succeeds the requested bytes
  are free.
\<close>

definition sorted_candidates :: "releaseEnv \<Rightarrow> agentCache \<Rightarrow> (string \<times> int \<times> time) list" where
  "sorted_candidates E s = re_sort E (map entry_of_file (filter (candidate s) (sort_key cf_Name (ac_files s))))"

lemma makeRoom_parts:
  assumes "makeRoom E k s = (r, t)"
  shows "(\<exists>e. r = Inl e) \<and> disk t = disk s \<or>
    (\<exists>v g. disk v = disk s \<and> evict E (ac_max s) k (sorted_candidates E s) (used s) v = (g, t) \<and>
       (r = Inr () \<longrightarrow> (\<exists>tot. g = Inr tot \<and> tot + k \<le> ac_max s)) \<and> (\<forall>e. g = Inl e \<longrightarrow> r = Inl e))"
proof (cases "ac_max s < k \<or> ac_max s \<le> 0")
  case True
  then show ?thesis using assms by (auto simp: makeRoom_def bindT_def)
next
  case small: False
  let ?es = "sort_key cf_Name (ac_files s)"
  obtain q u where q: "sysT E s = (q, u)" by fastforce
  have du: "disk u = disk s" using sameD [OF disk_sysT q] .
  obtain f v where f: "foldT (room_step E) ?es (0, []) u = (f, v)" by fastforce
  have "obeys (same disk) (foldT (room_step E) ?es (0, []))" by (intro disk_intros)
  from sameD [OF this f] du have dv: "disk v = disk s" by simp
  have run: "makeRoom E k s = (case q of Inl e \<Rightarrow> (Inl e, u) | Inr _ \<Rightarrow> (case f of Inl e \<Rightarrow> (Inl e, v)
      | Inr acc \<Rightarrow> bindT (evict E (ac_max s) k (re_sort E (snd acc)) (fst acc)) (\<lambda>tot.
         if ac_max s < tot + k then failT (ErrText ''cache capacity exhausted by active files'') else retT ()) v))"
    using small q f du by (auto simp: makeRoom_def thenT_def bindT_def [where m = "getT _"] bindT_def [where m = "sysT E"]
        bindT_def [where m = "foldT _ _ _"] split: sum.splits)
  show ?thesis
  proof (cases "\<exists>e. q = Inl e \<or> f = Inl e")
    case True
    then show ?thesis using assms run du dv by (auto split: sum.splits)
  next
    case False
    then obtain n acc where ok: "q = Inr n" "f = Inr acc" by (cases q; cases f) auto
    have cu: "candidate u = candidate s" using du by (simp add: candidate_def fun_eq_iff)
    have acc: "acc = (used s, map entry_of_file (filter (candidate s) ?es))"
      using room_loop [of E ?es 0 "[]" u acc v] f ok cu by (simp add: used_def sum_list_sort_key)
    obtain g w where g: "evict E (ac_max s) k (sorted_candidates E s) (used s) v = (g, w)" by fastforce
    have "makeRoom E k s = (case g of Inl e \<Rightarrow> (Inl e, w) | Inr tot \<Rightarrow>
        (if ac_max s < tot + k then Inl (ErrText ''cache capacity exhausted by active files'') else Inr (), w))"
      unfolding run using ok acc g by (simp add: sorted_candidates_def bindT_def split: sum.splits)
    then show ?thesis using assms g dv by (auto split: sum.splits if_splits)
  qed
qed

lemma makeRoom_run:
  assumes "makeRoom E k s = (r, t)" and "sorts_candidates E" and "dir_ok s"
  shows "\<exists>N. (\<forall>n \<in> N. managedAgentCacheKey n \<and> ac_refs s n = 0) \<and> pruned N s t \<and> (r = Inr () \<longrightarrow> used t + k \<le> ac_max t)"
  using makeRoom_parts [OF assms(1)]
proof (elim disjE exE conjE)
  assume "disk t = disk s"
  fix e
  assume "r = Inl e"
  with \<open>disk t = disk s\<close> show ?thesis using pruned_disk by (intro exI [of _ "{}"]) simp
next
  fix v g
  assume dv: "disk v = disk s" and g: "evict E (ac_max s) k (sorted_candidates E s) (used s) v = (g, t)"
    and r: "r = Inr () \<longrightarrow> (\<exists>tot. g = Inr tot \<and> tot + k \<le> ac_max s)"
  from evict_run [OF g] obtain N where N: "N \<subseteq> fst ` set (sorted_candidates E s)" "pruned N v t" by blast
  have sv: "used s = used v" "lists v (sorted_candidates E s)" "dir_ok v"
    using dv assms lists_candidates by (auto simp: used_def dir_ok_def lists_def find_file_def sorted_candidates_def)
  have "\<forall>n \<in> N. managedAgentCacheKey n \<and> ac_refs s n = 0"
    using N(1) assms(2) by (auto simp: sorts_set_cs entry_of_file_def candidate_def sorted_candidates_def)
  moreover have pr: "pruned N s t" using N(2) dv by (simp add: pruned_def)
  moreover have "r = Inr () \<longrightarrow> used t + k \<le> ac_max t"
    using r evict_used [of E "ac_max s" k "sorted_candidates E s" v _ t] g sv pr by (auto simp: pruned_def)
  ultimately show ?thesis by blast
qed

section \<open>A request\<close>

text \<open>
  During a request that began in \<open>s0\<close>: the protected files are as they were and \<open>k\<close> bytes are
  free.
\<close>

definition during :: "agentCache \<Rightarrow> int \<Rightarrow> agentCache \<Rightarrow> bool" where
  "during s0 k s \<longleftrightarrow> guarded s0 s \<and> room k s"

lemma pruned_guarded: "pruned N s t \<Longrightarrow> \<forall>n \<in> N. \<not> protected s n \<Longrightarrow> guarded s t"
  by (auto simp: guarded_def pruned_def protected_files_def protected_def intro!: filter_cong)

lemma during_pruned:
  assumes "during s0 k s" and "pruned N s t" and "\<forall>n \<in> N. \<not> protected s0 n"
  shows "during s0 k t"
proof -
  have "guarded s t" using assms guarded_protected by (intro pruned_guarded) (auto simp: during_def)
  then show ?thesis
    using assms pruned_used [OF assms(2)] pruned_dir [OF assms(2)] grd.R_trans
    by (auto simp: during_def room_def pruned_def)
qed

lemma during_disk: "obeys (same disk) m \<Longrightarrow> triple (during s0 k) m (\<lambda>_. during s0 k) (during s0 k)"
  by (rule triple_obeys, rule obeysI)
    (auto simp: keeps_def obeys_def same_def intro: during_pruned [where N = "{}"] pruned_disk)

lemma managed_free: "managedAgentCacheKey n \<Longrightarrow> ac_refs s n = 0 \<Longrightarrow> \<not> protected s n"
  by (simp add: protected_def)

lemma during_makeRoom:
  assumes "sorts_candidates E"
  shows "triple (during s0 j) (makeRoom E k) (\<lambda>_. during s0 k) (during s0 j)"
proof -
  have "during s0 j t \<and> (r = Inr () \<longrightarrow> during s0 k t)" if s: "during s0 j s" and m: "makeRoom E k s = (r, t)" for s r t
  proof -
    obtain N where N: "\<forall>n \<in> N. managedAgentCacheKey n \<and> ac_refs s n = 0" "pruned N s t" "r = Inr () \<longrightarrow> used t + k \<le> ac_max t"
      using makeRoom_run [OF m assms] s by (auto simp: during_def room_def)
    have "\<forall>n \<in> N. \<not> protected s0 n" using N(1) s managed_free guarded_protected by (metis during_def)
    from during_pruned [OF s N(2) this] show ?thesis using N(3) by (simp add: during_def room_def)
  qed
  then show ?thesis by (intro triple_bothI) simp
qed

lemma during_remove: "\<not> protected s0 n \<Longrightarrow> triple (during s0 k) (osRemove E n) (\<lambda>_. during s0 k) (during s0 k)"
proof -
  assume n: "\<not> protected s0 n"
  have "during s0 k t" if "during s0 k s" "osRemove E n s = (r, t)" for s r t
    using during_pruned [OF that(1) osRemove_pruned [OF that(2)]] n by (auto split: if_splits)
  then show ?thesis by (intro triple_bothI) simp
qed

lemma during_discard:
  assumes "managedAgentCacheKey key"
  shows "triple (during s0 k) (discard E key) (\<lambda>_ s. during s0 k s \<and> \<not> protected s0 key) (during s0 k)"
proof (cases "ac_refs s0 key = 0")
  case True
  then have n: "\<not> protected s0 key" using assms by (simp add: protected_def)
  have "triple (during s0 k) (discard E key) (\<lambda>_. during s0 k) (during s0 k)"
    unfolding discard_def
    by (rule triple_bind [OF during_disk [OF frame.get]], rule triple_cond, rule triple_fail, assumption,
        rule triple_bind [where Q = "\<lambda>_. during s0 k"], rule triple_attempt, rule triple_conseq [OF during_remove [OF n]])
      (auto intro: triple_ret triple_fail split: sum.split)
  then show ?thesis by (rule triple_conseq) (simp_all add: n)
next
  case False
  then show ?thesis by (auto simp: triple_def discard_def bindT_def during_def guarded_def)
qed

definition empty_tmp :: "string \<Rightarrow> agentCache \<Rightarrow> bool" where
  "empty_tmp tmp s \<longleftrightarrow> (\<exists>w f. tmp = tmp_prefix @ w \<and> find_file tmp s = Some f \<and> cf_Regular f \<and> cf_Data f = [])"

lemma createTemp_run:
  assumes "createTemp E s = (r, t)"
  shows "(\<exists>e. r = Inl e) \<and> disk t = disk s \<or>
    (\<exists>w f. r = Inr (tmp_prefix @ w) \<and> find_file (tmp_prefix @ w) s = None \<and> cf_Name f = tmp_prefix @ w \<and> cf_Regular f \<and>
       cf_Data f = [] \<and> ac_files t = ac_files s @ [f] \<and> ac_refs t = ac_refs s \<and> ac_max t = ac_max s)"
proof (cases "re_fail E (ac_calls s) \<or> find_file (tmp_prefix @ re_tmp E (ac_calls s)) s \<noteq> None")
  case True
  then show ?thesis using assms by (auto simp: createTemp_def bindT_def sysT_def split: if_splits)
next
  case False
  let ?f = "\<lparr>cf_Name = tmp_prefix @ re_tmp E (ac_calls s), cf_Regular = True, cf_Data = [], cf_ModTime = re_clock E (ac_calls s)\<rparr>"
  show ?thesis
    using assms False by (intro disjI2 exI [of _ "re_tmp E (ac_calls s)"] exI [of _ ?f])
      (auto simp: createTemp_def bindT_def thenT_def sysT_def)
qed

lemma during_createTemp:
  assumes "leases_ok s0"
  shows "triple (during s0 k) (createTemp E) (\<lambda>tmp s. during s0 k s \<and> empty_tmp tmp s) (during s0 k)"
proof (rule triple_bothI)
  fix s r t
  assume s: "during s0 k s" and m: "createTemp E s = (r, t)"
  have g: "triple (guarded s0) (createTemp E) (\<lambda>tmp s. guarded s0 s \<and> \<not> protected s0 tmp) (guarded s0)"
    by (rule guard_createTemp [OF assms])
  from createTemp_run [OF m]
  show "(\<forall>x. r = Inr x \<longrightarrow> during s0 k t \<and> empty_tmp x t) \<and> ((\<exists>e. r = Inl e) \<longrightarrow> during s0 k t)"
  proof (elim disjE exE conjE)
    assume d: "disk t = disk s"
    fix e
    assume "r = Inl e"
    then show ?thesis using during_pruned [OF s pruned_disk [OF d]] by simp
  next
    fix w f
    assume r: "r = Inr (tmp_prefix @ w)" and f: "find_file (tmp_prefix @ w) s = None" "cf_Name f = tmp_prefix @ w"
      "cf_Regular f" "cf_Data f = []" and t: "ac_files t = ac_files s @ [f]" "ac_refs t = ac_refs s" "ac_max t = ac_max s"
    have "guarded s0 t" using tripleD [OF g _ m [unfolded r]] s by (simp add: during_def)
    moreover have "find_file (tmp_prefix @ w) t = Some f" using f t by (simp add: find_file_def find_append)
    moreover have "room k t" using s f t
      by (auto simp: during_def room_def dir_ok_def used_def file_size_def find_file_def find_None_set)
    ultimately show ?thesis using r f by (auto simp: during_def empty_tmp_def)
  qed
qed

lemma sum_list_upd:
  assumes "distinct (map cf_Name fs)" and "f \<in> set fs" and "\<And>x. cf_Name (g x) = cf_Name x"
  shows "sum_list (map file_size (upd_where (\<lambda>x. cf_Name x = cf_Name f) g fs)) = sum_list (map file_size fs) - file_size f + file_size (g f)"
  using assms
proof (induction fs)
  case (Cons x fs)
  show ?case
  proof (cases "x = f")
    case True
    then have "upd_where (\<lambda>y. cf_Name y = cf_Name f) g fs = fs"
      using Cons.prems(1) by (intro upd_where_none) (auto simp: image_iff)
    then show ?thesis using True by (simp add: upd_where_def)
  next
    case False
    then have "f \<in> set fs" using Cons.prems by simp
    moreover from this have "cf_Name x \<noteq> cf_Name f" using Cons.prems(1) by (auto simp: image_iff)
    ultimately show ?thesis using Cons by (simp add: upd_where_def)
  qed
qed simp

lemma used_set:
  assumes "dir_ok s" and "find_file n s = Some f" and "cf_Regular f" and "cf_Data f = []"
  shows "used (set_data E k n b s) = used s + int (length b)"
proof -
  have "f \<in> set (ac_files s)" "cf_Name f = n" using assms(2) by (auto simp: find_file_iff [OF assms(1)])
  then show ?thesis
    using sum_list_upd [of "ac_files s" f "\<lambda>f. f\<lparr>cf_Data := b, cf_ModTime := re_clock E k\<rparr>"] assms
    by (simp add: used_def set_data_def dir_ok_def file_size_def)
qed

lemma writeFile_run:
  assumes "writeFile E n b s = (r, t)"
  shows "\<exists>c u. disk u = disk s \<and> t = set_data E (ac_calls s) n c u \<and> length c \<le> length b \<and> (r = Inr () \<longrightarrow> c = b)"
proof -
  let ?u = "s\<lparr>ac_calls := Suc (ac_calls s)\<rparr>"
  have "t = set_data E (ac_calls s) n (if r = Inr () then b else take (re_part E (ac_calls s)) b) ?u"
    using assms by (auto simp: writeFile_def attemptT_def bindT_def thenT_def sysT_def split: if_splits)
  then show ?thesis
    by (intro exI [of _ "if r = Inr () then b else take (re_part E (ac_calls s)) b"] exI [of _ ?u]) simp
qed

lemma during_write:
  assumes "leases_ok s0" and "int (length b) \<le> k"
  shows "triple (\<lambda>s. during s0 k s \<and> empty_tmp tmp s) (writeFile E tmp b) (\<lambda>_. during s0 0) (during s0 0)"
proof (rule triple_bothI)
  fix s r t
  assume s: "during s0 k s \<and> empty_tmp tmp s" and m: "writeFile E tmp b s = (r, t)"
  obtain w f where f: "tmp = tmp_prefix @ w" "find_file tmp s = Some f" "cf_Regular f" "cf_Data f = []"
    using s by (auto simp: empty_tmp_def)
  obtain c u where u: "disk u = disk s" "t = set_data E (ac_calls s) tmp c u" "length c \<le> length b"
    using writeFile_run [OF m] by blast
  have "guarded s0 t"
    using guard_write [OF tmp_unprotected [OF assms(1), of w], of E b] s m f(1) by (auto simp: during_def dest: keepsD)
  moreover have "used t = used u + int (length c)" "dir_ok t"
    using used_set [of u tmp f E "ac_calls s" c] u s f
    by (auto simp: during_def room_def dir_ok_def find_file_def set_data_def map_upd_where)
  moreover have "used u = used s" "ac_max t = ac_max s" using u by (auto simp: used_def set_data_def)
  ultimately have "during s0 0 t" using s u(3) assms(2) by (simp add: during_def room_def)
  then show "(\<forall>x. r = Inr x \<longrightarrow> during s0 0 t) \<and> ((\<exists>e. r = Inl e) \<longrightarrow> during s0 0 t)" by simp
qed

lemma osRename_run:
  assumes "osRename E a b s = (r, t)"
  shows "(\<exists>e. r = Inl e) \<and> disk t = disk s \<or>
    (\<exists>f. r = Inr () \<and> find_file a s = Some f \<and> ac_files t = ac_files (del_file b (del_file a s)) @ [f\<lparr>cf_Name := b\<rparr>] \<and>
       ac_refs t = ac_refs s \<and> ac_max t = ac_max s)"
  using assms by (auto simp: osRename_def present_def thenT_def bindT_def sysT_def del_file_def find_file_def
      split: if_splits option.splits)

lemma used_snoc: "ac_files t = ac_files s @ [f] \<Longrightarrow> used t = used s + file_size f"
  by (simp add: used_def)

lemma used_del_le: "used (del_file n s) \<le> used s"
  by (simp add: used_def del_file_def del_where_def sum_list_mono_filter)

lemma during_rename:
  assumes "\<not> protected s0 a" and "\<not> protected s0 b"
  shows "triple (during s0 k) (osRename E a b) (\<lambda>_. during s0 k) (during s0 k)"
proof (rule triple_bothI)
  fix s r t
  assume s: "during s0 k s" and m: "osRename E a b s = (r, t)"
  have g: "guarded s0 t" using guard_rename [OF assms] s m by (auto simp: during_def dest: keepsD)
  have "room k t" using osRename_run [OF m]
  proof (elim disjE exE conjE)
    assume "disk t = disk s"
    then show ?thesis using s by (simp add: during_def room_def dir_ok_def used_def)
  next
    fix f
    assume f: "find_file a s = Some f"
      and t: "ac_files t = ac_files (del_file b (del_file a s)) @ [f\<lparr>cf_Name := b\<rparr>]" "ac_max t = ac_max s"
    have "used t = used (del_file b (del_file a s)) + file_size f"
      using used_snoc [OF t(1)] by (simp add: file_size_def)
    also have "used (del_file b (del_file a s)) \<le> used (del_file a s)" by (rule used_del_le)
    also have "used (del_file a s) + file_size f = used s" using used_del [OF _ f] s by (simp add: during_def room_def)
    finally have "used t \<le> used s" by simp
    moreover have "dir_ok (del_file b (del_file a s))" using s by (intro dir_ok_del) (simp add: during_def room_def)
    then have "dir_ok t" using t(1) by (auto simp: dir_ok_def del_file_def)
    ultimately show ?thesis using s t(2) by (simp add: during_def room_def)
  qed
  with g show "(\<forall>x. r = Inr x \<longrightarrow> during s0 k t) \<and> ((\<exists>e. r = Inl e) \<longrightarrow> during s0 k t)" by (simp add: during_def)
qed

lemmas during_sys = during_disk [OF disk_sysT]

lemma during_publish:
  assumes "\<not> protected s0 a" and "\<not> protected s0 b"
  shows "triple (during s0 0) (publish_temp E a b) (\<lambda>_. during s0 0) (during s0 0)"
  unfolding publish_temp_def by (intro triple_seq [OF during_sys] during_rename assms)

lemma during_withTemp:
  assumes "leases_ok s0"
    and "\<And>tmp. triple (\<lambda>s. during s0 k s \<and> empty_tmp tmp s) (body tmp) (\<lambda>_. during s0 0) (during s0 0)"
    and "0 \<le> k"
  shows "triple (during s0 k) (withTemp E body) (\<lambda>_. during s0 0) (during s0 0)"
proof -
  have weak: "during s0 0 s" if "during s0 k s" for s using that assms(3) by (simp add: during_def room_def)
  have clean: "triple (during s0 0) (thenT (attemptT (sysT E)) (osRemove E tmp)) (\<lambda>_. during s0 0) (during s0 0)"
    if "\<not> protected s0 tmp" for tmp
    by (intro triple_seq [OF during_disk [OF frame.att [OF disk_sysT]]] during_remove that)
  have fin: "triple (\<lambda>s. during s0 k s \<and> empty_tmp tmp s) (finallyT (body tmp) (thenT (attemptT (sysT E)) (osRemove E tmp)))
      (\<lambda>_. during s0 0) (during s0 0)" for tmp
  proof (cases "\<exists>w. tmp = tmp_prefix @ w")
    case True
    then show ?thesis using tmp_unprotected [OF assms(1)] by (intro triple_finally [OF assms(2)] clean) auto
  next
    case False
    then show ?thesis by (auto simp: triple_def empty_tmp_def)
  qed
  show ?thesis unfolding withTemp_def
    by (rule triple_bind [OF _ fin]) (rule triple_conseq [OF during_createTemp [OF assms(1), of k]], simp_all add: weak)
qed

lemma tmp_body_unprotected:
  assumes "leases_ok s0" and "\<not> protected s0 tmp \<Longrightarrow> triple (\<lambda>s. during s0 k s \<and> empty_tmp tmp s) m Q Z"
  shows "triple (\<lambda>s. during s0 k s \<and> empty_tmp tmp s) m Q Z"
proof (cases "\<exists>w. tmp = tmp_prefix @ w")
  case True
  then show ?thesis using tmp_unprotected [OF assms(1)] by (intro assms(2)) auto
next
  case False
  then show ?thesis by (auto simp: triple_def empty_tmp_def)
qed

lemma during_metadata:
  assumes "leases_ok s0" and "sorts_candidates E" and "managedAgentCacheKey (cache_key v n)"
  shows "triple (during s0 0) (agentMetadata E v n valid) (\<lambda>_. during s0 0) (during s0 0)"
proof -
  have store: "triple (during s0 (int (length b)))
      (withTemp E (\<lambda>tmp. thenT (writeFile E tmp b) (publish_temp E tmp (cache_key v n)))) (\<lambda>_. during s0 0) (during s0 0)"
    if "\<not> protected s0 (cache_key v n)" for b
    by (rule during_withTemp [OF assms(1)], rule tmp_body_unprotected [OF assms(1)],
        rule triple_seq [OF during_write [OF assms(1) order_refl]], erule during_publish [OF _ that]) simp
  have fetch: "triple (during s0 0) (bindT (fetchAgentAsset E v n) f) (\<lambda>_. during s0 0) (during s0 0)"
    if "\<And>resp. triple (during s0 0) (f resp) (\<lambda>_. during s0 0) (during s0 0)" for f :: "_ \<Rightarrow> string rtx"
    by (rule triple_bind [OF during_disk [OF disk_fetch] that])
  show ?thesis unfolding agentMetadata_def Let_def
    apply (rule triple_bind [OF during_disk [OF frame.att [OF disk_readSmall]]])
    apply (rule triple_cond, rule triple_ret, assumption)
    apply (rule triple_seq [OF during_discard [OF assms(3)]], rule triple_const)
    apply (rule fetch, intro triple_cond triple_fail, assumption+)
    by (intro triple_seq [OF during_makeRoom [OF assms(2)]] triple_seq [OF store] triple_ret)
qed

lemma during_binary:
  assumes "leases_ok s0" and "sorts_candidates E" and "managedAgentCacheKey (cache_key v (aa_Name x))" and "0 < aa_Size x"
  shows "triple (during s0 0) (agentBinary E v x) (\<lambda>_. during s0 0) (during s0 0)"
proof -
  have weak: "during s0 0 s" if "during s0 (aa_Size x) s" for s using that assms(4) by (simp add: during_def room_def)
  have len: "int (length (take (nat (aa_Size x)) b)) \<le> aa_Size x" for b :: string using assms(4) by (auto simp: min_def)
  have fetch: "triple (during s0 (aa_Size x)) (fetchAgentAsset E v (aa_Name x)) (\<lambda>_. during s0 (aa_Size x)) (during s0 0)"
    by (rule triple_conseq [OF during_disk [OF disk_fetch, where ?s0.0 = s0 and k = "aa_Size x"]]) (simp_all add: weak)
  show ?thesis unfolding agentBinary_def binary_body_def Let_def
    apply (rule triple_bind [OF during_disk [OF disk_validBinary]])
    apply (rule triple_cond, rule triple_ret, assumption)
    apply (rule triple_seq [OF during_discard [OF assms(3)]], rule triple_const)
    apply (rule triple_seq [OF during_makeRoom [OF assms(2)]])
    apply (rule triple_bind [OF fetch])
    apply (rule triple_cond, rule triple_fail, erule weak)
    apply (rule during_withTemp [OF assms(1)], rule tmp_body_unprotected [OF assms(1)])
     apply (rule triple_seq [OF during_write [OF assms(1) len]])
     apply (intro triple_cond triple_fail during_publish)
    using assms(4) by simp_all
qed

text \<open>At the beginning \<open>j\<close> may be negative: the directory may hold more than the limit.\<close>

lemma during_prepare:
  assumes "leases_ok s0" and "sorts_candidates E"
  shows "triple (during s0 j) (prepare E) (\<lambda>_. during s0 0) (during s0 j)"
proof -
  have stale: "triple (during s0 j) (forT es (\<lambda>e. whenT (strip_prefix tmp_prefix (cf_Name e) \<noteq> None \<and> cf_Regular e)
      (osRemove E (cf_Name e)))) (\<lambda>_. during s0 j) (during s0 j)" for es
  proof (induction es)
    case Nil
    show ?case unfolding forT.simps by (rule triple_ret)
  next
    case (Cons e es)
    have "\<not> protected s0 (cf_Name e)" if "strip_prefix tmp_prefix (cf_Name e) \<noteq> None"
      using that managed_not_tmp [of "cf_Name e"] assms(1) by (auto simp: protected_def leases_ok_def)
    then show ?case unfolding forT.simps by (intro triple_seq [OF _ Cons.IH] triple_when during_remove) simp_all
  qed
  have mark: "triple (during s0 j) (modT (\<lambda>s. s\<lparr>ac_initialized := True\<rparr>)) (\<lambda>_. during s0 j) (during s0 j)"
    by (rule during_disk) (simp add: obeys_def same_def)
  show ?thesis unfolding prepare_def
    by (intro triple_seq [OF during_sys] triple_cond triple_bind [OF during_disk [OF frame.get]] triple_fail
        triple_seq [OF _ during_makeRoom [OF assms(2)]] triple_when triple_seq [OF stale mark])
qed

lemma asset_of_manifest:
  assumes "parseAgentManifest E b v = Some m" and "x \<in> set (am_Assets m)"
  shows "0 < aa_Size x \<and> aa_Size x \<le> agentMaxAssetBytes \<and> (aa_Name x = binary_name v ''amd64'' \<or> aa_Name x = binary_name v ''arm64'')"
proof -
  have "assets_ok v seen xs \<Longrightarrow> x \<in> set xs \<Longrightarrow> \<exists>seen'. asset_ok v seen' x" for seen xs
    by (induction xs arbitrary: seen) auto
  moreover have "assets_ok v [] (am_Assets m)" using assms(1) by (auto simp: parseAgentManifest_def split: if_splits option.splits)
  ultimately obtain seen' where "asset_ok v seen' x" using assms(2) by blast
  then show ?thesis by (auto simp: asset_ok_def binary_name_def)
qed

text \<open>The state of the cache when the file is opened, before the lease.\<close>

definition opened :: "agentCache \<Rightarrow> string \<Rightarrow> agentCache \<Rightarrow> bool" where
  "opened s0 key t \<longleftrightarrow> (\<exists>u. during s0 0 u \<and> t = lease key u)"

lemma during_open:
  assumes "leases_ok s0" and "sorts_candidates E"
  shows "triple (during s0 j) (openAgentAsset E cancelled v a)
    (\<lambda>(key, f). opened s0 (cache_key v a)) (\<lambda>s. during s0 j s \<or> during s0 0 s)"
proof (cases "validAgentVersion v \<and> validAgentAssetName a \<and> \<not> cancelled")
  case False
  then show ?thesis unfolding openAgentAsset_def by (auto simp: triple_def)
next
  case True
  let ?Z = "\<lambda>s. during s0 j s \<or> during s0 0 s"
  have mk: "managedAgentCacheKey (cache_key v manifest_name)" "managedAgentCacheKey (cache_key v a)"
    using True by (auto intro!: managed_cache_key simp: validAgentAssetName_def)
  note meta = during_metadata [OF assms mk(1)] during_metadata [OF assms mk(2)]
  have binary: "triple (during s0 0) (agentBinary E v x) (\<lambda>_. during s0 0) (during s0 0)"
    if "parseAgentManifest E mb v = Some m" "find (\<lambda>x. aa_Name x = a) (am_Assets m) = Some x" for mb m x
    using find_SomeD [OF that(2)] asset_of_manifest [OF that(1)] mk(2) by (intro during_binary assms) auto
  have "triple (during s0 0) (thenT (sysT E) (bindT (present (cache_key v a)) (\<lambda>f.
      thenT (modT (lease (cache_key v a))) (retT (cache_key v a, f))))) (\<lambda>_. opened s0 (cache_key v a)) (during s0 0)"
    by (rule triple_seq [OF during_sys], rule triple_bind [OF during_disk [OF disk_present]])
      (auto simp: triple_def thenT_def bindT_def opened_def)
  then have fin: "triple (during s0 0) (thenT (sysT E) (bindT (present (cache_key v a)) (\<lambda>f.
      thenT (modT (lease (cache_key v a))) (retT (cache_key v a, f))))) (\<lambda>(key, f). opened s0 (cache_key v a)) ?Z"
    by (rule triple_conseq) auto
  have wk: "triple (during s0 0) m (\<lambda>_. during s0 0) ?Z" if "triple (during s0 0) m (\<lambda>_. during s0 0) (during s0 0)"
    for m :: "'b rtx" by (rule triple_conseq [OF that]) auto
  have prep: "triple (during s0 j) (prepare E) (\<lambda>_. during s0 0) ?Z"
    by (rule triple_conseq [OF during_prepare [OF assms, of j]]) auto
  show ?thesis unfolding openAgentAsset_def
    apply (intro triple_cond triple_fail disjI1, assumption, assumption)
    apply (rule triple_seq [OF prep])
    apply (rule triple_bind [OF wk [OF meta(1)]])
    apply (rule triple_opt, rule triple_fail, erule disjI2)
    apply (rule triple_seq [OF wk fin], unfold ensureAsset_def)
    apply (intro triple_cond triple_ret triple_opt triple_fail triple_seq [OF meta(2)])
    by (simp_all add: binary)
qed

end
