(* ===== verification/AgentServe.thy ===== *)
theory AgentServe
  imports AgentRelease
begin

text \<open>
  What the distribution of agent releases guarantees: served files are verified, the cache
  stays within its limit, files in use stay, and a published release can be downloaded.
\<close>

section \<open>What is served is verified\<close>

definition holds :: "string \<Rightarrow> (string \<Rightarrow> bool) \<Rightarrow> agentCache \<Rightarrow> bool" where
  "holds key p s \<longleftrightarrow> (\<exists>f. find_file key s = Some f \<and> cf_Regular f \<and> p (cf_Data f))"

lemma holds_disk: "disk t = disk s \<Longrightarrow> holds key p t = holds key p s"
  by (simp add: holds_def find_file_def)

lemma holds_pruned: "pruned N s t \<Longrightarrow> key \<notin> N \<Longrightarrow> holds key p s \<Longrightarrow> holds key p t"
  by (simp add: pruned_def holds_def find_file_def find_filter_other)

lemma osLstat_run: "osLstat E n s = (Inr f, t) \<Longrightarrow> find_file n s = Some f \<and> disk t = disk s"
  by (auto simp: osLstat_def thenT_Inr_iff present_run dest!: sysT_cases)

lemma readSmall_run:
  assumes "readSmallAgentFile E n s = (Inr b, t)"
  shows "holds n (\<lambda>d. d = b) s \<and> disk t = disk s \<and> int (length b) \<le> agentMaxMetadataBytes"
proof -
  obtain f u where f: "osLstat E n s = (Inr f, u)" "cf_Regular f" "int (length (cf_Data f)) \<le> agentMaxMetadataBytes"
      "thenT (sysT E) (bindT (present n) (\<lambda>f. thenT (sysT E) (let b = take (nat (agentMaxMetadataBytes + 1)) (cf_Data f)
         in if agentMaxMetadataBytes < int (length b) then failT (ErrText ''metadata too large'') else retT b))) u = (Inr b, t)"
    using assms by (auto simp: readSmallAgentFile_def bindT_Inr_iff not_less split: if_splits)
  have ff: "find_file n s = Some f" "disk u = disk s" using osLstat_run [OF f(1)] by auto
  from f(4) obtain v w x where v: "sysT E u = (Inr v, w)" "present n w = (Inr x, w)" "b = take (nat (agentMaxMetadataBytes + 1)) (cf_Data x)"
    by (auto simp: thenT_Inr_iff bindT_Inr_iff present_run Let_def split: if_splits)
  have "x = f" using v ff sysT_cases [OF v(1)] by (simp add: present_run) (simp add: find_file_def)
  then have "b = cf_Data f" using v(3) f(3) by (simp add: agentMaxMetadataBytes_def)
  moreover have "disk t = disk s" using sameD [OF disk_readSmall assms] .
  ultimately show ?thesis using ff f(2,3) by (auto simp: holds_def)
qed

text \<open>After the temporary file has been written and renamed, the final name holds the data.\<close>

lemma stored:
  assumes "withTemp E (\<lambda>tmp. thenT (writeFile E tmp b) (publish_temp E tmp key)) s = (Inr (), t)"
    and "strip_prefix tmp_prefix key = None"
  shows "holds key (\<lambda>d. d = b) t"
proof -
  obtain tmp u v where c: "createTemp E s = (Inr tmp, u)"
      and b: "thenT (writeFile E tmp b) (publish_temp E tmp key) u = (Inr (), v)"
      and t: "t = snd (thenT (attemptT (sysT E)) (osRemove E tmp) v)"
    using assms(1) by (auto simp: withTemp_def bindT_Inr_iff finallyT_iff)
  obtain w f where f: "tmp = tmp_prefix @ w" "find_file tmp s = None" "cf_Name f = tmp" "cf_Regular f" "ac_files u = ac_files s @ [f]"
    using createTemp_run [OF c] by auto
  obtain x where x: "writeFile E tmp b u = (Inr (), x)" "publish_temp E tmp key x = (Inr (), v)" using b by (auto simp: thenT_Inr_iff)
  obtain y where y: "disk y = disk u" "x = set_data E (ac_calls u) tmp b y" using writeFile_run [OF x(1)] by auto
  have "find_file tmp u = Some f" using f by (simp add: find_file_def find_append)
  then have fx: "find_file tmp x = Some (f\<lparr>cf_Data := b, cf_ModTime := re_clock E (ac_calls u)\<rparr>)"
    using y f(3) by (simp add: find_file_def set_data_def find_upd_where)
  define z where "z = x\<lparr>ac_calls := Suc (Suc (ac_calls x))\<rparr>"
  have z: "disk z = disk x" "osRename E tmp key z = (Inr (), v)"
    using x(2) by (auto simp: z_def publish_temp_def thenT_Inr_iff dest!: sysT_cases)
  have "find_file tmp z = find_file tmp x" using z(1) by (simp add: find_file_def)
  with osRename_run [OF z(2)] fx
  have "ac_files v = ac_files (del_file key (del_file tmp z)) @ [f\<lparr>cf_Data := b, cf_ModTime := re_clock E (ac_calls u), cf_Name := key\<rparr>]"
    by auto
  then have hv: "holds key (\<lambda>d. d = b) v"
    using f(4) by (auto simp: holds_def find_file_def find_append del_file_def del_where_def find_None_set split: option.split dest: find_SomeD)
  obtain r q where r: "attemptT (sysT E) v = (r, q)" by fastforce
  have dq: "disk q = disk v" using sameD [OF frame.att [OF disk_sysT] r] .
  obtain r' where "osRemove E tmp q = (r', t)" using t r by (cases "osRemove E tmp q") (auto simp: thenT_def bindT_def attemptT_def split: prod.splits)
  from osRemove_pruned [OF this] have "pruned (if r' = Inr () then {tmp} else {}) q t" .
  moreover have "key \<noteq> tmp" using assms(2) f(1) by auto
  ultimately show ?thesis using hv dq holds_disk [of q v] by (auto intro: holds_pruned split: if_splits)
qed

lemma metadata_verified:
  assumes "agentMetadata E v n valid s = (Inr b, t)" and "strip_prefix tmp_prefix (cache_key v n) = None"
  shows "valid b \<and> holds (cache_key v n) (\<lambda>d. d = b) t"
proof -
  obtain r u where r: "readSmallAgentFile E (cache_key v n) s = (r, u)" by fastforce
  show ?thesis
  proof (cases "case r of Inl _ \<Rightarrow> False | Inr b \<Rightarrow> valid b")
    case True
    then obtain c where c: "r = Inr c" "valid c" by (auto split: sum.splits)
    then have "b = c" "t = u" using assms(1) r by (auto simp: agentMetadata_def attemptT_def bindT_def Let_def)
    then show ?thesis using readSmall_run [of E _ s c u] r c holds_disk [of u s] by auto
  next
    case False
    obtain x resp where w: "valid b" "withTemp E (\<lambda>tmp. thenT (writeFile E tmp b) (publish_temp E tmp (cache_key v n))) x = (Inr (), t)"
      using assms(1) r False
      by (auto simp: agentMetadata_def attemptT_def bindT_Inr_iff thenT_Inr_iff Let_def split: if_splits)
    then show ?thesis using stored [OF w(2) assms(2)] by simp
  qed
qed

definition genuine :: "releaseEnv \<Rightarrow> agentAsset \<Rightarrow> string \<Rightarrow> bool" where
  "genuine E x d \<longleftrightarrow> int (length d) = aa_Size x \<and> re_sha E d = aa_SHA256 x"

lemma validAgentBinary_run:
  assumes "validAgentBinary E n x s = (Inr True, t)" and "0 < aa_Size x"
  shows "holds n (genuine E x) s \<and> disk t = disk s"
proof -
  let ?m = "bindT (osLstat E n) (\<lambda>info.
       if \<not> cf_Regular info \<or> int (length (cf_Data info)) \<noteq> aa_Size x then retT False
       else thenT (sysT E) (bindT (present n) (\<lambda>f. thenT (sysT E)
         (retT (int (length (take (nat (aa_Size x + 1)) (cf_Data f))) = aa_Size x \<and>
                re_sha E (take (nat (aa_Size x + 1)) (cf_Data f)) = aa_SHA256 x)))))"
  have "?m s = (Inr True, t)" using assms(1)
    by (cases "?m s") (auto simp: validAgentBinary_def attemptT_def bindT_def [where m = "attemptT _"])
  then obtain f u v w g where f: "osLstat E n s = (Inr f, u)" "cf_Regular f" "int (length (cf_Data f)) = aa_Size x"
      "sysT E u = (Inr v, w)" "find_file n w = Some g" "re_sha E (take (nat (aa_Size x + 1)) (cf_Data g)) = aa_SHA256 x"
    by (auto simp: bindT_Inr_iff thenT_Inr_iff present_run split: if_splits)
  have ff: "find_file n s = Some f" "disk u = disk s" using osLstat_run [OF f(1)] by auto
  then have "g = f" using f(4,5) sysT_cases [OF f(4)] by (simp add: find_file_def)
  then have "genuine E x (cf_Data f)" using f(3,6) by (simp add: genuine_def)
  then show ?thesis using ff(1) f(2) sameD [OF disk_validBinary assms(1)] by (auto simp: holds_def)
qed

lemma binary_verified:
  assumes "agentBinary E v x s = (Inr (), t)" and "strip_prefix tmp_prefix (cache_key v (aa_Name x)) = None" and "0 < aa_Size x"
  shows "holds (cache_key v (aa_Name x)) (genuine E x) t"
proof -
  obtain ok u where ok: "validAgentBinary E (cache_key v (aa_Name x)) x s = (Inr ok, u)"
    by (cases "validAgentBinary E (cache_key v (aa_Name x)) x s")
      (auto simp: validAgentBinary_def attemptT_def bindT_def split: prod.splits)
  show ?thesis
  proof (cases ok)
    case True
    then have "t = u" using assms(1) ok by (simp add: agentBinary_def bindT_def Let_def)
    then show ?thesis using validAgentBinary_run [of E _ x s u] ok True assms(3) holds_disk [of u s] by auto
  next
    case False
    obtain y resp where w: "withTemp E (binary_body E x resp (cache_key v (aa_Name x))) y = (Inr (), t)"
      using assms(1) ok False by (auto simp: agentBinary_def bindT_Inr_iff thenT_Inr_iff Let_def split: if_splits)
    let ?b = "take (nat (aa_Size x)) (ur_Body resp)"
    obtain tmp u q where "binary_body E x resp (cache_key v (aa_Name x)) tmp u = (Inr (), q)"
      using w by (auto simp: withTemp_def bindT_Inr_iff finallyT_iff)
    then have g: "genuine E x ?b \<and>
        binary_body E x resp (cache_key v (aa_Name x)) = (\<lambda>tmp. thenT (writeFile E tmp ?b) (publish_temp E tmp (cache_key v (aa_Name x))))"
      using assms(3) by (auto simp: binary_body_def Let_def thenT_Inr_iff genuine_def fun_eq_iff split: if_splits)
    then have "withTemp E (\<lambda>tmp. thenT (writeFile E tmp ?b) (publish_temp E tmp (cache_key v (aa_Name x)))) y = (Inr (), t)"
      using w by simp
    from stored [OF this assms(2)] g show ?thesis by (auto simp: holds_def)
  qed
qed

text \<open>The file under the asset's name, for the release described by the manifest \<open>m\<close>.\<close>

definition authentic :: "releaseEnv \<Rightarrow> string \<Rightarrow> string \<Rightarrow> agentManifest \<Rightarrow> string \<Rightarrow> bool" where
  "authentic E v a m d \<longleftrightarrow>
     (if a = manifest_name then parseAgentManifest E d v = Some m
      else if a = sums_name then d = checksums_text m
      else \<exists>x \<in> set (am_Assets m). aa_Name x = a \<and> genuine E x d)"

lemma ensure_verified:
  assumes "ensureAsset E v a m s = (Inr (), t)" and "parseAgentManifest E mb v = Some m"
    and "strip_prefix tmp_prefix (cache_key v a) = None" and "a = manifest_name \<Longrightarrow> holds (cache_key v a) (\<lambda>d. d = mb) s"
  shows "holds (cache_key v a) (authentic E v a m) t"
proof -
  consider "a = manifest_name" | "a \<noteq> manifest_name" "a = sums_name" | "a \<noteq> manifest_name" "a \<noteq> sums_name" by blast
  then show ?thesis
  proof cases
    case 1
    then show ?thesis using assms by (auto simp: ensureAsset_def authentic_def holds_def)
  next
    case 2
    then obtain b where "agentMetadata E v a (\<lambda>b. validAgentChecksums b m) s = (Inr b, t)"
      using assms(1) by (auto simp: ensureAsset_def thenT_Inr_iff)
    from metadata_verified [OF this assms(3)] 2 show ?thesis
      by (auto simp: holds_def authentic_def validAgentChecksums_def)
  next
    case 3
    then obtain x where x: "find (\<lambda>x. aa_Name x = a) (am_Assets m) = Some x" "agentBinary E v x s = (Inr (), t)"
      using assms(1) by (auto simp: ensureAsset_def split: option.splits)
    from find_SomeD [OF x(1)] have xa: "x \<in> set (am_Assets m)" "aa_Name x = a" by auto
    from binary_verified [OF x(2)] xa assms(3) asset_of_manifest [OF assms(2) xa(1)]
    have "holds (cache_key v a) (genuine E x) t" by simp
    then show ?thesis using 3 xa by (auto simp: holds_def authentic_def)
  qed
qed

lemma open_verified:
  assumes "openAgentAsset E cancelled v a s = (Inr (key, f), t)"
  shows "key = cache_key v a \<and> cf_Regular f \<and> find_file key t = Some f \<and>
    (\<exists>mb m. parseAgentManifest E mb v = Some m \<and> authentic E v a m (cf_Data f))"
proof -
  have ok: "validAgentVersion v" "validAgentAssetName a" using assms by (auto simp: openAgentAsset_def split: if_splits)
  have nt: "strip_prefix tmp_prefix (cache_key v manifest_name) = None" "strip_prefix tmp_prefix (cache_key v a) = None"
    using ok by (auto intro!: key_not_tmp simp: validAgentAssetName_def)
  let ?fin = "thenT (sysT E) (bindT (present (cache_key v a)) (\<lambda>f. thenT (modT (lease (cache_key v a))) (retT (cache_key v a, f))))"
  let ?meta = "agentMetadata E v manifest_name (\<lambda>b. parseAgentManifest E b v \<noteq> None)"
  let ?rest = "\<lambda>mb. case parseAgentManifest E mb v of None \<Rightarrow> failT (ErrText ''invalid agent manifest'')
    | Some manifest \<Rightarrow> thenT (ensureAsset E v a manifest) ?fin"
  have "thenT (prepare E) (bindT ?meta ?rest) s = (Inr (key, f), t)" using assms ok by (simp add: openAgentAsset_def split: if_splits)
  then obtain u mb w where u: "?meta u = (Inr mb, w)" "?rest mb w = (Inr (key, f), t)"
    unfolding thenT_Inr_iff bindT_Inr_iff by blast
  then obtain m where m: "parseAgentManifest E mb v = Some m" "thenT (ensureAsset E v a m) ?fin w = (Inr (key, f), t)"
    by (cases "parseAgentManifest E mb v") simp_all
  then obtain y where y: "ensureAsset E v a m w = (Inr (), y)" "?fin y = (Inr (key, f), t)"
    by (auto simp: thenT_Inr_iff [where m = "ensureAsset E v a m"])
  then obtain n z where z: "sysT E y = (Inr n, z)" "find_file (cache_key v a) z = Some f" "key = cache_key v a" "t = lease (cache_key v a) z"
    by (auto simp: thenT_Inr_iff bindT_Inr_iff present_run)
  have "holds (cache_key v a) (authentic E v a m) y"
    using ensure_verified [OF y(1) m(1) nt(2)] metadata_verified [OF u(1) nt(1)] by blast
  then have "cf_Regular f \<and> authentic E v a m (cf_Data f)" using z(2) sysT_cases [OF z(1)] by (auto simp: holds_def find_file_def)
  moreover have "find_file key t = Some f" using z by (simp add: lease_def find_file_def)
  ultimately show ?thesis using z(3) m(1) by blast
qed

section \<open>The cache as a whole\<close>

text \<open>
  The service from its start on: any files may be in the directory, also more of them than
  the limit allows.
\<close>

definition cache_ok :: "int \<Rightarrow> agentCache \<Rightarrow> bool" where
  "cache_ok bound s \<longleftrightarrow> dir_ok s \<and> leases_ok s \<and> used s \<le> bound \<and> ac_max s \<le> bound"

lemma open_cases:
  assumes "openAgentAsset E cancelled v a s = (r, t)" and "leases_ok s" and "dir_ok s" and "sorts_candidates E"
  shows "(\<exists>e. r = Inl e) \<and> (during s (ac_max s - used s) t \<or> during s 0 t) \<or>
    (\<exists>f. r = Inr (cache_key v a, f) \<and> managedAgentCacheKey (cache_key v a) \<and> opened s (cache_key v a) t)"
proof -
  have d: "during s (ac_max s - used s) s" using assms(3) grd.R_refl by (simp add: during_def room_def)
  note tr = during_open [OF assms(2,4), of "ac_max s - used s" cancelled v a]
  show ?thesis
  proof (cases r)
    case (Inl e)
    then show ?thesis using tripleE [OF tr d] assms(1) by blast
  next
    case (Inr x)
    have "validAgentVersion v" "validAgentAssetName a" using assms(1) Inr by (auto simp: openAgentAsset_def split: if_splits)
    then have "managedAgentCacheKey (cache_key v a)" by (rule managed_cache_key)
    moreover have "opened s (cache_key v a) t" using tripleD [OF tr d] assms(1) Inr by (auto split: prod.splits)
    moreover have "fst x = cache_key v a" using open_verified [of E cancelled v a s "fst x" "snd x" t] assms(1) Inr by simp
    ultimately show ?thesis using Inr by (metis prod.collapse)
  qed
qed

text \<open>A served request ends with one more lease on its file, a failed one with the leases as before.\<close>

lemma serve_cases:
  assumes "serveAgentAsset E cancelled v a s = (x, t)" and "leases_ok s" and "dir_ok s" and "sorts_candidates E"
  shows "\<exists>u. (during s (ac_max s - used s) u \<or> during s 0 u) \<and>
    (disk t = disk u \<or> managedAgentCacheKey (cache_key v a) \<and> disk t = disk (lease (cache_key v a) u))"
proof -
  obtain r w where w: "openAgentAsset E cancelled v a s = (r, w)" by fastforce
  show ?thesis using open_cases [OF w assms(2-4)]
  proof (elim disjE exE conjE)
    fix f
    assume r: "r = Inr (cache_key v a, f)" and m: "managedAgentCacheKey (cache_key v a)" and o: "opened s (cache_key v a) w"
    then obtain u where u: "during s 0 u" "w = lease (cache_key v a) u" by (auto simp: opened_def)
    have "disk t = disk w \<or> t = release (cache_key v a) (w\<lparr>ac_calls := Suc (ac_calls w)\<rparr>)"
      using assms(1) w r by (auto simp: serveAgentAsset_def sysT_def split: if_splits)
    then show ?thesis using u m by (intro exI [of _ u]) (auto simp: lease_def release_def)
  qed (use assms(1) w in \<open>auto simp: serveAgentAsset_def\<close>)
qed

lemma release_ok: "leases_ok s \<Longrightarrow> 0 < ac_refs s key \<Longrightarrow> leases_ok (release key s)"
  by (auto simp: leases_ok_def release_def)

lemma release_step_cases:
  assumes "release_step E s t"
  shows "disk t = disk s \<or> (\<exists>cancelled v a x. serveAgentAsset E cancelled v a s = (x, t)) \<or>
    (\<exists>key. 0 < ac_refs s key \<and> t = release key s)"
  using assms
proof cases
  case (stable cancelled v a)
  then show ?thesis by (cases "validAgentVersion v") (auto simp: handleAgentStable_def)
next
  case (asset cancelled v n a)
  then have "t = s \<or> serveAgentAsset E cancelled v n s = (a, t)" by (auto simp: handleAgentAsset_def split: if_splits)
  then show ?thesis by blast
qed blast

lemma lease_ok: "leases_ok s \<Longrightarrow> managedAgentCacheKey key \<Longrightarrow> leases_ok (lease key s)"
  by (auto simp: leases_ok_def lease_def)

lemma ok_disk: "disk t = disk s \<Longrightarrow> cache_ok b t = cache_ok b s"
  by (simp add: cache_ok_def dir_ok_def leases_ok_def used_def)

lemma cache_ok_step:
  assumes "release_step E s t" and "cache_ok b s" and "sorts_candidates E"
  shows "cache_ok b t"
  using release_step_cases [OF assms(1)]
proof (elim disjE exE conjE)
  assume "disk t = disk s"
  then show ?thesis using assms(2) ok_disk by blast
next
  fix cancelled v a x
  assume srv: "serveAgentAsset E cancelled v a s = (x, t)"
  have s: "leases_ok s" "dir_ok s" "used s \<le> b" "ac_max s \<le> b" using assms(2) by (auto simp: cache_ok_def)
  obtain u where u: "during s (ac_max s - used s) u \<or> during s 0 u"
      "disk t = disk u \<or> managedAgentCacheKey (cache_key v a) \<and> disk t = disk (lease (cache_key v a) u)"
    using serve_cases [OF srv s(1,2) assms(3)] by blast
  have "cache_ok b u" using u(1) s guarded_leases by (auto simp: cache_ok_def during_def room_def guarded_def)
  moreover from this have "cache_ok b (lease (cache_key v a) u)" if "managedAgentCacheKey (cache_key v a)"
    using that lease_ok by (auto simp: cache_ok_def dir_ok_def used_def lease_def)
  ultimately show ?thesis using u(2) ok_disk by blast
next
  fix key
  assume "0 < ac_refs s key" "t = release key s"
  then show ?thesis using assms(2) release_ok by (auto simp: cache_ok_def dir_ok_def used_def release_def)
qed

lemma release_step_protected:
  assumes "release_step E s t" and "leases_ok s" and "dir_ok s" and "sorts_candidates E"
  shows "set (protected_files s) \<subseteq> set (ac_files t) \<and> ac_max t = ac_max s"
  using release_step_cases [OF assms(1)]
proof (elim disjE exE conjE)
  fix cancelled v a x
  assume "serveAgentAsset E cancelled v a s = (x, t)"
  from serve_cases [OF this assms(2-4)] obtain u where "guarded s u" "ac_files t = ac_files u" "ac_max t = ac_max u"
    by (auto simp: during_def lease_def)
  moreover from this have "protected_files u = protected_files s" using assms(2) by (simp add: guarded_def)
  moreover have "set (protected_files u) \<subseteq> set (ac_files u)" by (auto simp: protected_files_def)
  ultimately show ?thesis by (simp add: guarded_def)
qed (auto simp: protected_files_def release_def)

lemmas release_step_max = release_step_protected [THEN conjunct2]

section \<open>A request that succeeds\<close>

text \<open>
  No system call fails; nothing is leased; the files the cache does not manage leave \<open>k\<close> bytes;
  every file has property \<open>p\<close>.
\<close>

definition calm :: "releaseEnv \<Rightarrow> bool" where
  "calm E \<longleftrightarrow> (\<forall>n. \<not> re_fail E n) \<and> re_isdir E"

definition foreign :: "agentCache \<Rightarrow> int" where
  "foreign s = sum_list (map file_size (filter (\<lambda>f. \<not> managedAgentCacheKey (cf_Name f)) (ac_files s)))"

definition idle :: "(cacheFile \<Rightarrow> bool) \<Rightarrow> int \<Rightarrow> agentCache \<Rightarrow> bool" where
  "idle p k s \<longleftrightarrow> dir_ok s \<and> (\<forall>n. ac_refs s n = 0) \<and> (\<forall>f \<in> set (ac_files s). strip_prefix tmp_prefix (cf_Name f) = None \<and> p f) \<and>
     0 < k \<and> foreign s + k \<le> ac_max s"

lemma calm_sys: "calm E \<Longrightarrow> sysT E s = (Inr (ac_calls s), s\<lparr>ac_calls := Suc (ac_calls s)\<rparr>)"
  by (simp add: calm_def sysT_def)

lemma calm_remove:
  "calm E \<Longrightarrow> find_file n s = Some f \<Longrightarrow> osRemove E n s = (Inr (), del_file n (s\<lparr>ac_calls := Suc (ac_calls s)\<rparr>))"
  by (simp add: osRemove_def thenT_def bindT_def calm_sys present_def find_file_def)

lemma evict_calm:
  assumes "calm E" and "dir_ok s" and "lists s cs"
  shows "\<exists>tot t. evict E mx k cs (used s) s = (Inr tot, t) \<and> (tot + k \<le> mx \<or> tot = used s - sum_list (map (\<lambda>c. fst (snd c)) cs))"
  using assms(2,3)
proof (induction cs arbitrary: s)
  case (Cons c cs)
  show ?case
  proof (cases "used s + k \<le> mx")
    case False
    let ?u = "del_file (fst c) (s\<lparr>ac_calls := Suc (ac_calls s)\<rparr>)"
    obtain f where f: "find_file (fst c) s = Some f" "file_size f = fst (snd c)" using Cons.prems(2) by (auto simp: lists_def)
    have u: "used ?u = used s - fst (snd c)"
      using used_del [of "s\<lparr>ac_calls := Suc (ac_calls s)\<rparr>" "fst c" f] f Cons.prems(1) by (simp add: used_def dir_ok_def)
    have "dir_ok ?u" using dir_ok_del [of "s\<lparr>ac_calls := Suc (ac_calls s)\<rparr>"] Cons.prems(1) by (simp add: dir_ok_def)
    from Cons.IH [OF this lists_del [OF Cons.prems(2)]] show ?thesis
      using False calm_remove [OF assms(1) f(1)] u by (auto simp: thenT_def bindT_def)
  qed simp
qed simp

lemma room_loop_calm: "calm E \<Longrightarrow> \<exists>acc t. foldT (room_step E) es a s = (Inr acc, t)"
  by (induction es arbitrary: a s) (auto simp: room_step_def thenT_def bindT_def calm_sys)

lemma sum_list_filter_split:
  fixes g :: "'a \<Rightarrow> int"
  shows "sum_list (map g xs) = sum_list (map g (filter p xs)) + sum_list (map g (filter (\<lambda>x. \<not> p x) xs))"
  by (induction xs) auto

lemma candidates_size:
  assumes "sorts_candidates E" and "\<forall>n. ac_refs s n = 0"
  shows "used s - sum_list (map (\<lambda>c. fst (snd c)) (sorted_candidates E s)) = foreign s"
proof -
  let ?m = "\<lambda>f. managedAgentCacheKey (cf_Name f)"
  have "mset (sorted_candidates E s) = mset (map entry_of_file (filter (candidate s) (ac_files s)))"
    using assms(1) by (simp add: sorted_candidates_def sorts_candidates_def)
  then have "sum_list (map (\<lambda>c. fst (snd c)) (sorted_candidates E s)) =
      sum_list (map (\<lambda>c. fst (snd c)) (map entry_of_file (filter (candidate s) (ac_files s))))"
    by (rule sum_list_mset)
  also have "\<dots> = sum_list (map file_size (filter ?m (ac_files s)))"
  proof -
    have "sum_list (map (\<lambda>c. fst (snd c)) (map entry_of_file (filter (candidate s) xs))) = sum_list (map file_size (filter ?m xs))" for xs
      using assms(2) by (induction xs) (auto simp: candidate_def file_size_def entry_of_file_def)
    then show ?thesis .
  qed
  finally show ?thesis using sum_list_filter_split [of file_size "ac_files s" ?m] by (simp add: used_def foreign_def)
qed

lemma makeRoom_calm:
  assumes "calm E" and "sorts_candidates E" and "idle p b s" and "k \<le> b"
  shows "\<exists>t. makeRoom E k s = (Inr (), t)"
proof -
  have s: "dir_ok s" "\<forall>n. ac_refs s n = 0" "0 < b" "foreign s + b \<le> ac_max s" using assms(3) by (auto simp: idle_def)
  have f0: "0 \<le> foreign s" unfolding foreign_def by (rule sum_list_nonneg) auto
  let ?u = "s\<lparr>ac_calls := Suc (ac_calls s)\<rparr>"
  obtain acc v where v: "foldT (room_step E) (sort_key cf_Name (ac_files s)) (0, []) ?u = (Inr acc, v)"
    using room_loop_calm [OF assms(1)] by blast
  have "candidate ?u = candidate s" by (simp add: candidate_def fun_eq_iff)
  then have acc: "acc = (used s, map entry_of_file (filter (candidate s) (sort_key cf_Name (ac_files s))))" "disk v = disk s"
    using room_loop [OF v] by (auto simp: used_def sum_list_sort_key)
  have sv: "used s = used v" "lists v (sorted_candidates E s)" "dir_ok v"
    using acc(2) s assms(2) lists_candidates by (auto simp: used_def dir_ok_def lists_def find_file_def sorted_candidates_def)
  obtain tot t where t: "evict E (ac_max s) k (sorted_candidates E s) (used s) v = (Inr tot, t)"
      "tot + k \<le> ac_max s \<or> tot = used s - sum_list (map (\<lambda>c. fst (snd c)) (sorted_candidates E s))"
    using evict_calm [OF assms(1) sv(3,2), of "ac_max s" k] sv(1) by auto
  have "tot + k \<le> ac_max s" using t(2) candidates_size [OF assms(2) s(2)] s(4) assms(4) by auto
  moreover have "\<not> (ac_max s < k \<or> ac_max s \<le> 0)" using s f0 assms(4) by linarith
  ultimately show ?thesis using v t(1) acc(1)
    by (simp add: makeRoom_def thenT_def bindT_def calm_sys [OF assms(1)] sorted_candidates_def)
qed

text \<open>Whatever succeeds without touching other files leaves the cache idle.\<close>

lemma foreign_pruned: "pruned N s t \<Longrightarrow> (\<forall>n \<in> N. managedAgentCacheKey n) \<Longrightarrow> foreign t = foreign s"
  unfolding foreign_def pruned_def by (auto intro!: arg_cong [where f = "\<lambda>xs. sum_list (map file_size xs)"] filter_cong)

lemma idle_pruned: "idle p b s \<Longrightarrow> pruned N s t \<Longrightarrow> \<forall>n \<in> N. managedAgentCacheKey n \<Longrightarrow> idle p b t"
  using foreign_pruned [of N s t] pruned_dir [of N s t] by (auto simp: idle_def pruned_def)

lemma idle_disk: "obeys (same disk) m \<Longrightarrow> idle p b s \<Longrightarrow> m s = (r, t) \<Longrightarrow> idle p b t"
  using idle_pruned [of p b s "{}" t] pruned_disk [of t s] sameD by fastforce

lemma total_makeRoom:
  assumes "calm E" and "sorts_candidates E" and "k \<le> b"
  shows "total (idle p b) (makeRoom E k) (\<lambda>_. idle p b)"
proof (rule totalI)
  fix s
  assume s: "idle p b s"
  obtain t where t: "makeRoom E k s = (Inr (), t)" using makeRoom_calm [OF assms(1,2) s assms(3)] by blast
  have "dir_ok s" using s by (simp add: idle_def)
  from makeRoom_run [OF t assms(2) this] obtain N where "\<forall>n \<in> N. managedAgentCacheKey n \<and> ac_refs s n = 0" "pruned N s t" by blast
  then have "idle p b t" using idle_pruned [OF s] by blast
  then show "\<exists>x t. makeRoom E k s = (Inr x, t) \<and> idle p b t" using t by blast
qed

lemma total_discard:
  assumes "calm E" and "managedAgentCacheKey key"
  shows "total (idle p b) (discard E key) (\<lambda>_. idle p b)"
proof (rule totalI)
  fix s
  assume s: "idle p b s"
  obtain r t where r: "osRemove E key s = (r, t)" by fastforce
  have "idle p b t" using idle_pruned [OF s osRemove_pruned [OF r]] assms(2) by (auto split: if_splits)
  moreover have "r = Inr () \<or> r = Inl ErrNotExist"
    using r calm_sys [OF assms(1), of s]
    by (auto simp: osRemove_def thenT_def bindT_def present_def find_file_def split: option.splits)
  ultimately show "\<exists>x t. discard E key s = (Inr x, t) \<and> idle p b t"
    using r s by (auto simp: discard_def bindT_def attemptT_def idle_def)
qed

lemma idle_tmp: "idle p b s \<Longrightarrow> find_file (tmp_prefix @ w) s = None"
  by (auto simp: idle_def find_file_def find_None_set)

lemma idle_no_tmp: "idle p b s \<Longrightarrow> f \<in> set (ac_files s) \<Longrightarrow> cf_Name f \<noteq> tmp_prefix @ w"
  by (auto simp: idle_def)

lemma store_calm:
  assumes "calm E" and "idle p b s" and "strip_prefix tmp_prefix key = None"
  shows "\<exists>t m. withTemp E (\<lambda>tmp. thenT (writeFile E tmp c) (publish_temp E tmp key)) s = (Inr (), t) \<and>
    ac_files t = del_where (\<lambda>f. cf_Name f = key) (ac_files s) @ [\<lparr>cf_Name = key, cf_Regular = True, cf_Data = c, cf_ModTime = m\<rparr>] \<and>
    ac_refs t = ac_refs s \<and> ac_max t = ac_max s"
proof -
  define n where "n = ac_calls s"
  define tmp where "tmp = tmp_prefix @ re_tmp E n"
  let ?f = "\<lparr>cf_Name = tmp, cf_Regular = True, cf_Data = [], cf_ModTime = re_clock E n\<rparr>"
  let ?g = "\<lparr>cf_Name = tmp, cf_Regular = True, cf_Data = c, cf_ModTime = re_clock E (Suc n)\<rparr>"
  let ?u = "s\<lparr>ac_calls := Suc n, ac_files := ac_files s @ [?f]\<rparr>"
  let ?v = "s\<lparr>ac_calls := Suc (Suc n), ac_files := ac_files s @ [?g]\<rparr>"
  let ?w = "s\<lparr>ac_files := del_where (\<lambda>f. cf_Name f = key) (ac_files s) @ [?g\<lparr>cf_Name := key\<rparr>], ac_calls := Suc (Suc (Suc (Suc (Suc n))))\<rparr>"
  have no: "\<forall>f \<in> set (ac_files s). cf_Name f \<noteq> tmp" using idle_no_tmp [OF assms(2)] by (simp add: tmp_def)
  have ne: "key \<noteq> tmp" using assms(3) by (auto simp: tmp_def)
  have c: "createTemp E s = (Inr tmp, ?u)"
    using idle_tmp [OF assms(2), of "re_tmp E n"]
    by (simp add: createTemp_def bindT_def thenT_def calm_sys [OF assms(1)] n_def tmp_def)
  have "upd_where (\<lambda>f. cf_Name f = tmp) (\<lambda>f. f\<lparr>cf_Data := c, cf_ModTime := re_clock E (Suc n)\<rparr>) (ac_files s) = ac_files s"
    using no by (intro upd_where_none) blast
  then have w: "writeFile E tmp c ?u = (Inr (), ?v)"
    by (simp add: writeFile_def bindT_def attemptT_def calm_sys [OF assms(1)] set_data_def upd_where_def)
  have "find (\<lambda>f. cf_Name f = tmp) (ac_files s) = None" using no by (simp add: find_None_set)
  then have "find_file tmp (?v\<lparr>ac_calls := k\<rparr>) = Some ?g" for k by (simp add: find_file_def find_append)
  moreover have "del_where (\<lambda>f. cf_Name f = tmp) (ac_files s) = ac_files s" using no by (simp add: del_where_def)
  ultimately have p: "publish_temp E tmp key ?v = (Inr (), ?w)"
    using ne by (simp add: publish_temp_def osRename_def thenT_def bindT_def calm_sys [OF assms(1)] present_def del_file_def) (simp add: del_where_def)
  have "find_file tmp ?w = None" using no ne by (auto simp: find_file_def find_None_set)
  then have "withTemp E (\<lambda>tmp. thenT (writeFile E tmp c) (publish_temp E tmp key)) s =
      (Inr (), ?w\<lparr>ac_calls := Suc (Suc (Suc (Suc (Suc (Suc (Suc n))))))\<rparr>)"
    by (simp add: withTemp_def bindT_def c finallyT_def thenT_def w p attemptT_def calm_sys [OF assms(1)] osRemove_def present_def)
  then show ?thesis by (intro exI conjI) (assumption, simp_all)
qed

lemma idle_stored:
  assumes "idle p b s" and "managedAgentCacheKey (cf_Name f)" and "p f"
    and "ac_files t = del_where (\<lambda>g. cf_Name g = cf_Name f) (ac_files s) @ [f]" and "ac_refs t = ac_refs s" and "ac_max t = ac_max s"
  shows "idle p b t"
proof -
  have "filter (\<lambda>g. \<not> managedAgentCacheKey (cf_Name g)) (ac_files t) = filter (\<lambda>g. \<not> managedAgentCacheKey (cf_Name g)) (ac_files s)"
    using assms(2,4) by (auto simp: del_where_def intro!: filter_cong)
  then have "foreign t = foreign s" by (simp add: foreign_def)
  then show ?thesis using assms managed_not_tmp [OF assms(2)]
    by (auto simp: idle_def dir_ok_def del_where_def distinct_map_filter)
qed

definition admits :: "(cacheFile \<Rightarrow> bool) \<Rightarrow> string \<Rightarrow> string \<Rightarrow> bool" where
  "admits p key c \<longleftrightarrow> (\<forall>mt. p \<lparr>cf_Name = key, cf_Regular = True, cf_Data = c, cf_ModTime = mt\<rparr>)"

lemma total_store:
  assumes "calm E" and "managedAgentCacheKey key"
    and "admits p key c"
  shows "total (idle p b) (withTemp E (\<lambda>tmp. thenT (writeFile E tmp c) (publish_temp E tmp key))) (\<lambda>_. idle p b)"
proof (rule totalI)
  fix s
  assume s: "idle p b s"
  from store_calm [OF assms(1) s managed_not_tmp [OF assms(2)], of c] obtain t m
    where t: "withTemp E (\<lambda>tmp. thenT (writeFile E tmp c) (publish_temp E tmp key)) s = (Inr (), t)"
      "ac_files t = del_where (\<lambda>f. cf_Name f = key) (ac_files s) @ [\<lparr>cf_Name = key, cf_Regular = True, cf_Data = c, cf_ModTime = m\<rparr>]"
      "ac_refs t = ac_refs s" "ac_max t = ac_max s" by blast
  have "idle p b t" using idle_stored [OF s _ _ _ t(3,4), of "\<lparr>cf_Name = key, cf_Regular = True, cf_Data = c, cf_ModTime = m\<rparr>"] assms(2,3) t(2)
    by (simp add: admits_def)
  then show "\<exists>x t. withTemp E (\<lambda>tmp. thenT (writeFile E tmp c) (publish_temp E tmp key)) s = (Inr x, t) \<and> idle p b t" using t(1) by blast
qed

text \<open>The upstream has the file, completely and with its length or without one.\<close>

definition upstream_has :: "releaseEnv \<Rightarrow> string \<Rightarrow> string \<Rightarrow> string \<Rightarrow> bool" where
  "upstream_has E v a d \<longleftrightarrow>
     (\<forall>n. \<exists>resp. re_net E n (endpoint v a) = Some resp \<and> ur_Status resp = 200 \<and> ur_Body resp = d \<and> \<not> ur_Broken resp \<and>
        (ur_ContentLength resp = -1 \<or> ur_ContentLength resp = int (length d)))"

lemma total_fetch:
  assumes "upstream_has E v a d"
  shows "total (idle p b) (fetchAgentAsset E v a) (\<lambda>resp s. idle p b s \<and> ur_Body resp = d \<and> \<not> ur_Broken resp \<and>
    (ur_ContentLength resp = -1 \<or> ur_ContentLength resp = int (length d)))"
proof (rule totalI)
  fix s
  assume s: "idle p b s"
  obtain resp where r: "re_net E (ac_reqs s) (endpoint v a) = Some resp" "ur_Status resp = 200" "ur_Body resp = d" "\<not> ur_Broken resp"
      "ur_ContentLength resp = -1 \<or> ur_ContentLength resp = int (length d)"
    using assms unfolding upstream_has_def by metis
  have f: "fetchAgentAsset E v a s = (Inr resp, s\<lparr>ac_reqs := Suc (ac_reqs s)\<rparr>)"
    using r by (simp add: fetchAgentAsset_def bindT_def thenT_def)
  show "\<exists>x t. fetchAgentAsset E v a s = (Inr x, t) \<and> idle p b t \<and> ur_Body x = d \<and> \<not> ur_Broken x \<and>
      (ur_ContentLength x = -1 \<or> ur_ContentLength x = int (length d))"
    using f r idle_disk [OF disk_fetch s f] by blast
qed

lemma total_metadata:
  assumes "calm E" and "sorts_candidates E" and "managedAgentCacheKey (cache_key v n)" and "upstream_has E v n d" and "valid d"
    and "int (length d) \<le> b" and "int (length d) \<le> agentMaxMetadataBytes"
    and "admits p (cache_key v n) d"
  shows "total (idle p b) (agentMetadata E v n valid) (\<lambda>_. idle p b)"
proof -
  have att: "total (idle p b) (attemptT (readSmallAgentFile E k)) (\<lambda>_. idle p b)" for k
  proof (rule totalI)
    fix s
    assume s: "idle p b s"
    obtain r t where r: "readSmallAgentFile E k s = (r, t)" by fastforce
    from idle_disk [OF disk_readSmall s r] r
    show "\<exists>x t. attemptT (readSmallAgentFile E k) s = (Inr x, t) \<and> idle p b t" by (auto simp: attemptT_def)
  qed
  have tail: "total (idle p b) (thenT (makeRoom E (int (length d)))
      (thenT (withTemp E (\<lambda>tmp. thenT (writeFile E tmp d) (publish_temp E tmp (cache_key v n)))) (retT d))) (\<lambda>_. idle p b)"
    by (intro total_seq [OF total_makeRoom [OF assms(1,2,6)]] total_seq [OF total_store [OF assms(1,3,8)]] total_ret)
  have len: "take (nat (agentMaxMetadataBytes + 1)) d = d" using assms(7) by (simp add: agentMaxMetadataBytes_def)
  show ?thesis unfolding agentMetadata_def Let_def
    apply (rule total_bind [OF att], rule total_cond, rule total_ret, assumption)
    apply (rule total_seq [OF total_discard [OF assms(1,3)]])
    apply (rule total_bind [OF total_fetch [OF assms(4)]], rule total_const)
    using assms(5,7) len tail by (auto simp: agentMaxMetadataBytes_def)
qed

lemma total_binary:
  assumes "calm E" and "sorts_candidates E" and "managedAgentCacheKey (cache_key v (aa_Name x))"
    and "upstream_has E v (aa_Name x) d" and "genuine E x d" and "aa_Size x \<le> b"
    and "admits p (cache_key v (aa_Name x)) d"
  shows "total (idle p b) (agentBinary E v x) (\<lambda>_. idle p b)"
proof -
  have valid: "total (idle p b) (validAgentBinary E k x) (\<lambda>_. idle p b)" for k
    unfolding validAgentBinary_def
    by (rule total_bind [OF total_attempt], rule idle_disk [OF _ _ prod.collapse [symmetric]])
      (intro disk_intros, assumption, rule total_ret, assumption)
  have body: "binary_body E x resp k = (\<lambda>tmp. thenT (writeFile E tmp d) (publish_temp E tmp k))"
    if "ur_Body resp = d" "\<not> ur_Broken resp" for resp k
  proof -
    have "take (nat (aa_Size x)) d = d" using assms(5) by (auto simp: genuine_def)
    then show ?thesis using that assms(5) by (simp add: binary_body_def genuine_def fun_eq_iff Let_def)
  qed
  show ?thesis unfolding agentBinary_def Let_def
    apply (rule total_bind [OF valid], rule total_cond, rule total_ret, assumption)
    apply (rule total_seq [OF total_discard [OF assms(1,3)]])
    apply (rule total_seq [OF total_makeRoom [OF assms(1,2,6)]])
    apply (rule total_bind [OF total_fetch [OF assms(4)]], rule total_const)
    using assms(5) total_store [OF assms(1,3,7), of b] by (auto simp: body genuine_def)
qed

lemma total_sys: "calm E \<Longrightarrow> total (idle p b) (sysT E) (\<lambda>_. idle p b)"
  by (rule totalI) (use calm_sys idle_disk [OF disk_sysT] in blast)

lemma total_prepare:
  assumes "calm E" and "sorts_candidates E"
  shows "total (idle p b) (prepare E) (\<lambda>_. idle p b)"
proof -
  have dir: "re_isdir E" using assms(1) by (simp add: calm_def)
  have stale: "total (\<lambda>s. idle p b s \<and> set es \<subseteq> set (ac_files s)) (forT es (\<lambda>e. whenT (strip_prefix tmp_prefix (cf_Name e) \<noteq> None \<and>
      cf_Regular e) (osRemove E (cf_Name e)))) (\<lambda>_. idle p b)" for es
  proof (induction es)
    case (Cons e es)
    show ?case unfolding forT.simps
      by (rule total_seq [OF _ Cons.IH]) (auto simp: total_def whenT_def idle_def)
  next
    case Nil
    show ?case unfolding forT.simps by (rule total_ret) simp
  qed
  have mark: "total (idle p b) (modT (\<lambda>s. s\<lparr>ac_initialized := True\<rparr>)) (\<lambda>_. idle p b)"
    by (rule totalI) (auto simp: idle_def dir_ok_def foreign_def)
  have entries: "total (idle p b) (getT (\<lambda>s. sort_key cf_Name (ac_files s))) (\<lambda>es s. idle p b s \<and> set es \<subseteq> set (ac_files s))"
    by (rule totalI) simp
  have flag: "total (idle p b) (getT ac_initialized) (\<lambda>_. idle p b)" by (rule totalI) simp
  have room0: "total (idle p b) (makeRoom E 0) (\<lambda>_. idle p b)"
  proof (cases "0 \<le> b")
    case True
    then show ?thesis by (rule total_makeRoom [OF assms])
  next
    case False
    then show ?thesis by (simp add: total_def idle_def)
  qed
  show ?thesis unfolding prepare_def
    using dir by (intro total_seq [OF total_sys [OF assms(1)]] total_cond total_bind [OF flag] total_seq [OF _ room0] total_when
        total_bind [OF entries] total_seq [OF stale mark]) simp_all
qed

text \<open>
  The release is published: the manifest, the asset with its contents, and no other manifest
  of this version in the cache.
\<close>

definition published :: "releaseEnv \<Rightarrow> string \<Rightarrow> string \<Rightarrow> string \<Rightarrow> string \<Rightarrow> agentManifest \<Rightarrow> bool" where
  "published E v a mb d m \<longleftrightarrow>
     parseAgentManifest E mb v = Some m \<and> upstream_has E v manifest_name mb \<and>
     (a = sums_name \<longrightarrow> upstream_has E v a d \<and> d = checksums_text m \<and> int (length d) \<le> agentMaxMetadataBytes) \<and>
     (a \<noteq> manifest_name \<and> a \<noteq> sums_name \<longrightarrow>
        upstream_has E v a d \<and> (\<exists>x. find (\<lambda>x. aa_Name x = a) (am_Assets m) = Some x \<and> genuine E x d))"

lemma names_differ: "manifest_name \<noteq> sums_name"
  by (simp add: manifest_name_def sums_name_def)

lemma total_ensure:
  assumes "calm E" and "sorts_candidates E" and "managedAgentCacheKey (cache_key v a)" and "published E v a mb d m" and "int (length d) \<le> b"
    and "a \<noteq> manifest_name \<Longrightarrow> admits p (cache_key v a) d"
  shows "total (idle p b) (ensureAsset E v a m) (\<lambda>_. idle p b)"
proof -
  consider "a = manifest_name" | "a = sums_name" "a \<noteq> manifest_name" | "a \<noteq> manifest_name" "a \<noteq> sums_name" by blast
  then show ?thesis
  proof cases
    case 1
    then show ?thesis unfolding ensureAsset_def if_P [OF 1] by (intro total_ret)
  next
    case 2
    then have d: "upstream_has E v a d" "d = checksums_text m" "int (length d) \<le> agentMaxMetadataBytes"
      using assms(4) by (auto simp: published_def)
    have "total (idle p b) (agentMetadata E v a (\<lambda>b. validAgentChecksums b m)) (\<lambda>_. idle p b)"
      using total_metadata [OF assms(1-3) d(1) _ assms(5) d(3) assms(6) [OF 2(2)]] d(2) by (simp add: validAgentChecksums_def)
    then show ?thesis unfolding ensureAsset_def if_not_P [OF 2(2)] if_P [OF 2(1)] by (intro total_seq total_ret)
  next
    case 3
    then obtain x where x: "find (\<lambda>x. aa_Name x = a) (am_Assets m) = Some x" "genuine E x d" "upstream_has E v a d"
      using assms(4) by (auto simp: published_def)
    then have n: "aa_Name x = a" using find_SomeD by fastforce
    have "aa_Size x \<le> b" using x(2) assms(5) by (simp add: genuine_def)
    then show ?thesis using total_binary [OF assms(1,2), of v x d b p] x n assms(3,6) 3 by (simp add: ensureAsset_def)
  qed
qed

lemma metadata_source:
  assumes "agentMetadata E v n valid s = (Inr b, t)" and "upstream_has E v n d" and "int (length d) \<le> agentMaxMetadataBytes"
  shows "valid b \<and> (b = d \<or> holds (cache_key v n) (\<lambda>e. e = b) s)"
proof -
  obtain r u where r: "readSmallAgentFile E (cache_key v n) s = (r, u)" by fastforce
  show ?thesis
  proof (cases "case r of Inl _ \<Rightarrow> False | Inr b \<Rightarrow> valid b")
    case True
    then obtain c where c: "r = Inr c" "valid c" by (auto split: sum.splits)
    then have "b = c" using assms(1) r by (auto simp: agentMetadata_def attemptT_def bindT_def Let_def)
    then show ?thesis using readSmall_run [of E _ s c u] r c by auto
  next
    case False
    obtain resp w x where w: "fetchAgentAsset E v n w = (Inr resp, x)" "valid b" "b = take (nat (agentMaxMetadataBytes + 1)) (ur_Body resp)"
      using assms(1) r False
      by (auto simp: agentMetadata_def attemptT_def bindT_Inr_iff thenT_Inr_iff Let_def split: if_splits)
    have "ur_Body resp = d" using assms(2) w(1) unfolding upstream_has_def fetchAgentAsset_def
      by (auto simp: bindT_Inr_iff thenT_Inr_iff split: option.splits if_splits) (metis option.inject)
    then show ?thesis using w(2,3) assms(3) by (simp add: agentMaxMetadataBytes_def)
  qed
qed

text \<open>Every manifest of this version in the cache that can be read is the published one.\<close>

definition consistent :: "releaseEnv \<Rightarrow> string \<Rightarrow> agentManifest \<Rightarrow> cacheFile \<Rightarrow> bool" where
  "consistent E v m f \<longleftrightarrow>
     (cf_Name f = cache_key v manifest_name \<longrightarrow> parseAgentManifest E (cf_Data f) v \<in> {None, Some m})"

lemma open_available:
  assumes "calm E" and "sorts_candidates E" and "validAgentVersion v" and "validAgentAssetName a" and "published E v a mb d m"
    and "idle (consistent E v m) b s" and "int (length mb) \<le> b" and "int (length d) \<le> b"
  shows "\<exists>f t. openAgentAsset E False v a s = (Inr (cache_key v a, f), t)"
proof -
  let ?p = "consistent E v m"
  have pm: "parseAgentManifest E mb v = Some m" "upstream_has E v manifest_name mb" using assms(5) by (auto simp: published_def)
  then have mb: "int (length mb) \<le> agentMaxMetadataBytes" by (simp add: parseAgentManifest_def split: if_splits)
  have mk: "managedAgentCacheKey (cache_key v manifest_name)" "managedAgentCacheKey (cache_key v a)"
    using assms(3,4) by (auto intro!: managed_cache_key simp: validAgentAssetName_def)
  have ad: "admits ?p (cache_key v manifest_name) mb" "a \<noteq> manifest_name \<Longrightarrow> admits ?p (cache_key v a) d"
    using pm(1) by (auto simp: admits_def consistent_def cache_key_def)
  obtain s1 where s1: "prepare E s = (Inr (), s1)" "idle ?p b s1" using totalD [OF total_prepare [OF assms(1,2)] assms(6)] by auto
  have "total (idle ?p b) (agentMetadata E v manifest_name (\<lambda>b. parseAgentManifest E b v \<noteq> None)) (\<lambda>_. idle ?p b)"
    using total_metadata [OF assms(1,2) mk(1) pm(2) _ assms(7) mb ad(1)] pm(1) by simp
  from totalD [OF this s1(2)] obtain c s2 where s2: "agentMetadata E v manifest_name (\<lambda>b. parseAgentManifest E b v \<noteq> None) s1 = (Inr c, s2)"
    "idle ?p b s2" by blast
  have "c = mb \<or> holds (cache_key v manifest_name) (\<lambda>e. e = c) s1" and some: "parseAgentManifest E c v \<noteq> None"
    using metadata_source [OF s2(1) pm(2) mb] by auto
  then have c: "parseAgentManifest E c v = Some m"
    using pm(1) s1(2) by (auto simp: holds_def find_file_def idle_def consistent_def dest!: find_SomeD)
  obtain s3 where s3: "ensureAsset E v a m s2 = (Inr (), s3)"
    using totalD [OF total_ensure [OF assms(1,2) mk(2) assms(5,8) ad(2)] s2(2)] by auto
  have "holds (cache_key v a) (authentic E v a m) s3"
    using ensure_verified [OF s3 c managed_not_tmp [OF mk(2)]] metadata_verified [OF s2(1) managed_not_tmp [OF mk(1)]] by blast
  then obtain f where f: "find_file (cache_key v a) s3 = Some f" by (auto simp: holds_def)
  then show ?thesis using assms(3,4) s1(1) s2(1) c s3
    by (simp add: openAgentAsset_def thenT_def bindT_def calm_sys [OF assms(1)] present_def)
qed

section \<open>Properties\<close>


text \<open>
  C29: the cache never takes more space than its limit, or than the directory held when the
  service started, if that was more; and whenever a file is served it is within the limit.
\<close>

theorem cache_within_limit:
  assumes "(release_step E)\<^sup>*\<^sup>* (newAgentCache mx files) s" and "distinct (map cf_Name files)" and "sorts_candidates E"
  shows "used s \<le> max mx (used (newAgentCache mx files)) \<and>
    (\<forall>cancelled v a c x t. serveAgentAsset E cancelled v a s = (AnswerOk c x, t) \<longrightarrow> used t \<le> mx)"
proof -
  let ?b = "max mx (used (newAgentCache mx files))"
  have ok: "cache_ok ?b s \<and> ac_max s = mx" using assms(1)
  proof (induction rule: rtranclp_induct)
    case base
    then show ?case using assms(2) by (auto simp: cache_ok_def dir_ok_def leases_ok_def newAgentCache_def)
  next
    case (step t u)
    have "ac_max u = ac_max t" using release_step_max [OF step(2) _ _ assms(3)] step(3) by (simp add: cache_ok_def)
    then show ?case using step cache_ok_step assms(3) by auto
  qed
  moreover have "used t \<le> mx" if "serveAgentAsset E cancelled v a s = (AnswerOk c x, t)" for cancelled v a c x t
  proof -
    obtain r w where w: "openAgentAsset E cancelled v a s = (r, w)" by fastforce
    have "leases_ok s" "dir_ok s" using ok by (auto simp: cache_ok_def)
    from open_cases [OF w this assms(3)] that w have "opened s (cache_key v a) w"
      by (auto simp: serveAgentAsset_def agentReleaseErr_def)
    moreover have "disk t = disk w"
      using that w by (auto simp: serveAgentAsset_def agentReleaseErr_def sysT_def split: sum.splits prod.splits if_splits)
    ultimately show ?thesis using ok by (auto simp: opened_def during_def room_def guarded_def used_def lease_def)
  qed
  ultimately show ?thesis by (auto simp: cache_ok_def)
qed

text \<open>
  C30: no request removes or changes a file that is being served, nor a file in the directory
  that the cache does not manage.
\<close>

theorem leased_files_untouched:
  assumes "release_step E s t" and "leases_ok s" and "dir_ok s" and "sorts_candidates E"
    and "f \<in> set (ac_files s)"
    and "0 < ac_refs s (cf_Name f) \<or> \<not> managedAgentCacheKey (cf_Name f) \<and> strip_prefix tmp_prefix (cf_Name f) = None"
  shows "f \<in> set (ac_files t)"
proof -
  have "f \<in> set (protected_files s)" using assms(5,6) by (auto simp: protected_files_def protected_def)
  then show ?thesis using release_step_protected [OF assms(1-4)] by blast
qed


section \<open>A concrete release\<close>

definition sample_manifest :: agentManifest where
  "sample_manifest = \<lparr>am_SchemaVersion = 1, am_Version = ''1.2.3'', am_Assets =
     map (\<lambda>arch. \<lparr>aa_OS = ''linux'', aa_Arch = arch, aa_Name = ''assistant-agent_1.2.3_linux_'' @ arch, aa_Size = 3,
       aa_SHA256 = replicate 64 CHR ''a''\<rparr>) [''amd64'', ''arm64'']\<rparr>"

definition sample_release :: releaseEnv where
  "sample_release = \<lparr>re_fail = (\<lambda>_. False), re_part = (\<lambda>_. 0), re_tmp = (\<lambda>n. replicate n CHR ''x''), re_clock = int,
     re_sort = sort_key (\<lambda>c. snd (snd c)), re_isdir = True, re_json = (\<lambda>_. Some sample_manifest),
     re_sha = (\<lambda>_. replicate 64 CHR ''a''),
     re_net = (\<lambda>_ _. Some \<lparr>ur_Status = 200, ur_ContentLength = -1, ur_Body = ''bin'', ur_Broken = False\<rparr>)\<rparr>"

definition sample_binary :: string where
  "sample_binary = ''assistant-agent_1.2.3_linux_amd64''"

definition notes_file :: cacheFile where
  "notes_file = \<lparr>cf_Name = ''notes'', cf_Regular = True, cf_Data = ''text'', cf_ModTime = 0\<rparr>"

definition sample_cache :: agentCache where
  "sample_cache = newAgentCache 10 [notes_file]"

lemma sample_version: "validAgentVersion ''1.2.3''"
  by (simp add: validAgentVersion_def version_matches_def digits_def is_digit_def digit_val_def)

lemma sample_asset: "validAgentAssetName sample_binary"
  using sample_version
  by (simp add: validAgentAssetName_def sample_binary_def manifest_name_def sums_name_def strip_prefix_def strip_suffix_def
      trimPrefix_def trimSuffix_def)

lemma sample_parse: "int (length b) \<le> agentMaxMetadataBytes \<Longrightarrow> parseAgentManifest sample_release b ''1.2.3'' = Some sample_manifest"
  using sample_version
  by (simp add: parseAgentManifest_def sample_release_def sample_manifest_def asset_ok_def hash_matches_def agentMaxAssetBytes_def list_all_iff)

lemma sample_published: "published sample_release ''1.2.3'' sample_binary ''bin'' ''bin'' sample_manifest"
proof -
  have "upstream_has sample_release ''1.2.3'' a ''bin''" for a by (simp add: upstream_has_def sample_release_def)
  moreover have "parseAgentManifest sample_release ''bin'' ''1.2.3'' = Some sample_manifest"
    by (rule sample_parse) (simp add: agentMaxMetadataBytes_def)
  moreover have "sample_binary \<noteq> sums_name" by (simp add: sample_binary_def sums_name_def)
  moreover have "\<exists>x. find (\<lambda>x. aa_Name x = sample_binary) (am_Assets sample_manifest) = Some x \<and> genuine sample_release x ''bin''"
    by (simp add: sample_manifest_def sample_binary_def genuine_def sample_release_def)
  ultimately show ?thesis by (simp add: published_def)
qed

lemma sample_sorts: "sorts_candidates sample_release"
  by (simp add: sorts_candidates_def sample_release_def)

lemma notes_unmanaged: "\<not> managedAgentCacheKey (cf_Name notes_file) \<and> strip_prefix tmp_prefix (cf_Name notes_file) = None"
  by (simp add: notes_file_def managedAgentCacheKey_def cut_at_def strip_prefix_def tmp_prefix_def)

lemma sample_idle: "idle (consistent sample_release ''1.2.3'' sample_manifest) 6 sample_cache"
proof -
  have "cf_Name notes_file \<noteq> cache_key ''1.2.3'' manifest_name" by (simp add: notes_file_def cache_key_def)
  then show ?thesis using notes_unmanaged
    by (simp add: idle_def sample_cache_def newAgentCache_def dir_ok_def consistent_def foreign_def file_size_def)
      (simp add: notes_file_def)
qed

lemma sample_calm: "calm sample_release"
  by (simp add: calm_def sample_release_def)


lemma sample_served: "\<exists>x t. serveAgentAsset sample_release False ''1.2.3'' sample_binary sample_cache = (AnswerOk 200 x, t)"
  using open_available [OF sample_calm sample_sorts sample_version sample_asset sample_published sample_idle] calm_sys [OF sample_calm]
  by (auto simp: serveAgentAsset_def)


lemma sample_step: "\<exists>t. release_step sample_release sample_cache t"
proof -
  obtain a t where "handleAgentAsset sample_release False ''1.2.3'' sample_binary sample_cache = (a, t)" by fastforce
  then show ?thesis using release_step.asset by blast
qed

theorem leased_files_untouched_witness:
  "\<exists>t. release_step sample_release sample_cache t \<and> notes_file \<in> set (ac_files t)"
proof -
  obtain t where t: "release_step sample_release sample_cache t" using sample_step by blast
  have "leases_ok sample_cache" "dir_ok sample_cache" "notes_file \<in> set (ac_files sample_cache)"
    by (simp_all add: leases_ok_def dir_ok_def sample_cache_def newAgentCache_def)
  from leased_files_untouched [OF t this(1,2) sample_sorts this(3)] notes_unmanaged t show ?thesis by blast
qed

theorem cache_within_limit_witness:
  "\<exists>t. release_step sample_release sample_cache t \<and> used t \<le> 10"
proof -
  obtain t where t: "release_step sample_release sample_cache t" using sample_step by blast
  then have "(release_step sample_release)\<^sup>*\<^sup>* (newAgentCache 10 [notes_file]) t" by (simp add: sample_cache_def)
  moreover have "used (newAgentCache 10 [notes_file]) = 4" by (simp add: used_def newAgentCache_def notes_file_def file_size_def)
  ultimately show ?thesis using cache_within_limit [of sample_release 10 "[notes_file]" t] sample_sorts t by auto
qed

end
