(* ===== verification/FeedbackProxy.thy ===== *)
theory FeedbackProxy
  imports Auth
begin

text \<open>
  The proxy to the feedback services (\<^verbatim>\<open>hub/feedback_proxy.go\<close>) and the download of message
  attachments (\<^verbatim>\<open>hub/attachments.go\<close>).  A handler reads the database, sends requests to the
  upstream of a source and answers the client; the state is the list of the requests sent so
  far.  The upstream and the JSON decoder and encoder are parameters; a JSON number is kept as
  its text.
\<close>

section \<open>JSON values\<close>

datatype json = JNull | JBool bool | JNum string | JStr string | JArr "json list" | JObj "(string \<times> json) list"

definition jget :: "string \<Rightarrow> (string \<times> json) list \<Rightarrow> json option" where
  "jget k obj = map_of obj k"

text \<open>Assignment to a key of a Go map.\<close>

definition jset :: "string \<Rightarrow> json \<Rightarrow> (string \<times> json) list \<Rightarrow> (string \<times> json) list" where
  "jset k v obj = filter (\<lambda>e. fst e \<noteq> k) obj @ [(k, v)]"

lemma jget_jset [simp]: "jget k (jset l v obj) = (if k = l then Some v else jget k obj)"
proof -
  have "map_of (filter (\<lambda>e. fst e \<noteq> l) obj) k = (if k = l then None else map_of obj k)" by (induction obj) auto
  then show ?thesis by (simp add: jget_def jset_def map_add_def split: option.split)
qed

section \<open>The upstream\<close>

record fbRequest =
  fr_Method :: string
  fr_URL :: string
  fr_Bearer :: string \<comment> \<open>empty: no header\<close>
  fr_Payload :: "string option"
  fr_Timeout :: duration

text \<open>A header that is absent is the empty string, as \<^verbatim>\<open>Header.Get\<close> gives it.\<close>

record fbResponse =
  fp_Status :: int
  fp_Body :: string
  fp_Broken :: bool \<comment> \<open>reading fails after the bytes of the body\<close>
  fp_RetryAfter :: string
  fp_ContentType :: string
  fp_ContentLength :: string
  fp_ETag :: string
  fp_ContentDisposition :: string

text \<open>
  \<open>px_errcode\<close> is what decoding gives for the field \<open>error.code\<close> of an error envelope, \<open>px_ref\<close>
  for \<open>feedbackId\<close> of a reference, \<open>px_float\<close> is \<^verbatim>\<open>json.Number.Float64\<close>.
\<close>

record proxyEnv =
  px_net :: "nat \<Rightarrow> fbRequest \<Rightarrow> fbResponse option"
  px_badURL :: "string \<Rightarrow> bool"
  px_unmarshal :: "string \<Rightarrow> json option"
  px_marshal :: "json \<Rightarrow> string"
  px_errcode :: "string \<Rightarrow> string option"
  px_ref :: "string \<Rightarrow> string option"
  px_float :: "string \<Rightarrow> rat option"

type_synonym fbLog = "fbRequest list"

text \<open>\<open>FbError\<close> carries the header \<open>Retry-After\<close>, \<open>FbRaw\<close> the bytes of an upstream answer.\<close>

record fileHead =
  fh_ContentType :: string
  fh_ContentLength :: string
  fh_ETag :: string
  fh_ContentDisposition :: string

datatype fbAnswer = FbError int string string | FbJSON int "(string \<times> json) list" | FbRaw int string | FbFile fileHead string

definition maxAttachmentBytes :: nat where
  "maxAttachmentBytes = 10 * 2 ^ 20"

definition upstreamID :: "string \<Rightarrow> bool" where
  "upstreamID s \<longleftrightarrow> 1 \<le> length s \<and> length s \<le> 128 \<and> list_all (\<lambda>c. is_alnum c \<or> c \<in> set ''_-'') s"

definition fbLifecycleActions :: "string list" where
  "fbLifecycleActions = [''archive'', ''unarchive'', ''trash'', ''restore'', ''resume_processing'']"

definition fbRevisionActions :: "string list" where
  "fbRevisionActions = [''retry'', ''recheck'']"

definition fbPassThroughCodes :: "string list" where
  "fbPassThroughCodes = [''invalid_request'', ''not_found'', ''version_conflict'', ''revision_conflict'', ''invalid_state'',
     ''busy'', ''request_id_conflict'', ''request_in_flight'', ''outcome_uncertain'']"

definition fbTimeoutRead :: duration where "fbTimeoutRead = 10 * 1000000000"

definition fbTimeoutWrite :: duration where "fbTimeoutWrite = 30 * 1000000000"

definition not_found :: fbAnswer where
  "not_found = FbError 404 ''not_found'' []"

definition unavailable :: fbAnswer where
  "unavailable = FbError 502 ''feedback_unavailable'' []"

section \<open>Preconditions\<close>

definition fbPrecond :: "hub_db \<Rightarrow> string \<Rightarrow> fbAnswer + sourceRow" where
  "fbPrecond d srcId =
     (case find (\<lambda>r. s_ID r = srcId) (d_sources d) of
        None \<Rightarrow> Inl not_found
      | Some src \<Rightarrow>
          if s_DeletedAt src \<noteq> None \<or> s_Kind src \<noteq> ''feedback'' then Inl not_found
          else if s_AttachmentBaseURL src = None \<or> s_AttachmentBaseURL src = Some [] then
            Inl (FbError 409 ''feedback_upstream_not_configured'' [])
          else Inr src)"

definition fbPrecondMgmt :: "hub_db \<Rightarrow> string \<Rightarrow> fbAnswer + sourceRow" where
  "fbPrecondMgmt d srcId =
     (case fbPrecond d srcId of
        Inl a \<Rightarrow> Inl a
      | Inr src \<Rightarrow> if s_MgmtKeyPlain src = [] then Inl (FbError 409 ''feedback_mgmt_not_configured'' []) else Inr src)"

definition fbBase :: "sourceRow \<Rightarrow> string" where
  "fbBase src = trim_right CHR ''/'' (case s_AttachmentBaseURL src of None \<Rightarrow> [] | Some u \<Rightarrow> u)"

text \<open>Reading a body up to the limit and one byte more.\<close>

definition limited :: "fbResponse \<Rightarrow> string option" where
  "limited r = (if fp_Broken r \<and> length (fp_Body r) \<le> maxAttachmentBytes then None
     else Some (take (maxAttachmentBytes + 1) (fp_Body r)))"

definition fbDo :: "proxyEnv \<Rightarrow> fbRequest \<Rightarrow> fbLog \<Rightarrow> (fbResponse \<times> string) option \<times> fbLog" where
  "fbDo P req sent =
     (if px_badURL P (fr_URL req) then (None, sent)
      else (case px_net P (length sent) req of
              None \<Rightarrow> None
            | Some resp \<Rightarrow> map_option (\<lambda>body. (resp, body)) (limited resp), sent @ [req]))"

definition fbWriteUpstreamErr :: "proxyEnv \<Rightarrow> (fbResponse \<times> string) option \<Rightarrow> fbAnswer option" where
  "fbWriteUpstreamErr P r =
     (case r of
        None \<Rightarrow> Some unavailable
      | Some (resp, body) \<Rightarrow>
          if fp_Status resp = 429 then Some (FbError 429 ''rate_limited'' (fp_RetryAfter resp))
          else if fp_Status resp = 401 then Some unavailable
          else if 500 \<le> fp_Status resp then Some unavailable
          else if 400 \<le> fp_Status resp then
            (case px_errcode P body of
               Some code \<Rightarrow> if code \<in> set fbPassThroughCodes then Some (FbRaw (fp_Status resp) body) else Some unavailable
             | None \<Rightarrow> Some unavailable)
          else None)"

section \<open>Lists and details\<close>

text \<open>\<^verbatim>\<open>url.Values.Encode\<close>: sorted by key, with \<^verbatim>\<open>QueryEscape\<close> on keys and values.\<close>

definition query_escape :: "string \<Rightarrow> string" where
  "query_escape s = concat (map (\<lambda>c.
     if is_alnum c \<or> c \<in> set ''-_.~'' then [c]
     else if c = CHR '' '' then ''+''
     else let n = (of_char c :: nat) in [CHR ''%'', hex_char (n div 16), hex_char (n mod 16)]) s)"

definition encode_query :: "(string \<times> string) list \<Rightarrow> string" where
  "encode_query kvs =
     concat (case map (\<lambda>kv. query_escape (fst kv) @ ''='' @ query_escape (snd kv)) (sort_key fst kvs) of
       [] \<Rightarrow> [] | p # ps \<Rightarrow> p # map (\<lambda>q. CHR ''&'' # q) ps)"

definition list_request :: "sourceRow \<Rightarrow> (string \<Rightarrow> string) \<Rightarrow> fbRequest" where
  "list_request src query =
     (let q = filter (\<lambda>kv. snd kv \<noteq> []) (map (\<lambda>k. (k, query k)) [''view'', ''cursor'', ''limit'', ''q'']) in
      \<lparr>fr_Method = ''GET'', fr_URL = fbBase src @ ''/api/assist/manage/feedback'' @ (if q \<noteq> [] then ''?'' @ encode_query q else []),
       fr_Bearer = s_MgmtKeyPlain src, fr_Payload = None, fr_Timeout = fbTimeoutWrite\<rparr>)"

definition handleFeedbackList :: "proxyEnv \<Rightarrow> hub_db \<Rightarrow> string \<Rightarrow> (string \<Rightarrow> string) \<Rightarrow> fbLog \<Rightarrow> fbAnswer \<times> fbLog" where
  "handleFeedbackList P d srcId query sent =
     (case fbPrecondMgmt d srcId of
        Inl a \<Rightarrow> (a, sent)
      | Inr src \<Rightarrow>
          (case fbDo P (list_request src query) sent of
                (r, sent') \<Rightarrow>
                  (case r of
                     Some (resp, body) \<Rightarrow>
                       if fp_Status resp = 404 then FbError 409 ''feedback_mgmt_unsupported'' []
                       else (case fbWriteUpstreamErr P r of
                               Some a \<Rightarrow> a
                             | None \<Rightarrow>
                                 if fp_Status resp \<noteq> 200 then unavailable
                                 else (case px_unmarshal P body of
                                         Some (JObj obj) \<Rightarrow>
                                           FbJSON 200 (jset ''sourceName'' (JStr (s_Name src)) (jset ''sourceId'' (JStr (s_ID src)) obj))
                                       | _ \<Rightarrow> unavailable))
                   | None \<Rightarrow> unavailable, sent')))"

text \<open>The flag \<open>manage\<close> of the capabilities; anything but a truth value counts as false.\<close>

definition capabilities :: "(string \<times> json) list \<Rightarrow> (string \<times> json) list" where
  "capabilities detail = (case jget ''capabilities'' detail of Some (JObj caps) \<Rightarrow> caps | _ \<Rightarrow> [])"

definition manage_flag :: "(string \<times> json) list \<Rightarrow> bool" where
  "manage_flag detail = (case jget ''manage'' (capabilities detail) of Some (JBool b) \<Rightarrow> b | _ \<Rightarrow> False)"

definition present_detail :: "sourceRow \<Rightarrow> (string \<times> json) list \<Rightarrow> (string \<times> json) list" where
  "present_detail src detail =
     jset ''capabilities'' (JObj (jset ''manage'' (JBool (manage_flag detail \<and> s_MgmtKeyPlain src \<noteq> [])) (capabilities detail)))
       (jset ''sourceName'' (JStr (s_Name src)) (jset ''sourceId'' (JStr (s_ID src)) detail))"

definition detail_request :: "sourceRow \<Rightarrow> string \<Rightarrow> fbRequest" where
  "detail_request src fbID =
     \<lparr>fr_Method = ''GET'', fr_URL = fbBase src @ ''/api/assist/feedback/'' @ fbID, fr_Bearer = s_KeyPlain src, fr_Payload = None,
      fr_Timeout = fbTimeoutRead\<rparr>"

definition handleFeedbackDetail :: "proxyEnv \<Rightarrow> hub_db \<Rightarrow> string \<Rightarrow> string \<Rightarrow> fbLog \<Rightarrow> fbAnswer \<times> fbLog" where
  "handleFeedbackDetail P d srcId fbID sent =
     (case fbPrecond d srcId of
        Inl a \<Rightarrow> (a, sent)
      | Inr src \<Rightarrow>
          if \<not> upstreamID fbID then (not_found, sent)
          else
            (case fbDo P (detail_request src fbID) sent of
               (r, sent') \<Rightarrow>
                 (case r of
                    Some (resp, body) \<Rightarrow>
                      if fp_Status resp = 404 then not_found
                      else (case fbWriteUpstreamErr P r of
                              Some a \<Rightarrow> a
                            | None \<Rightarrow>
                                if fp_Status resp \<noteq> 200 then unavailable
                                else (case px_unmarshal P body of
                                        Some (JObj detail) \<Rightarrow> FbJSON 200 (present_detail src detail)
                                      | _ \<Rightarrow> unavailable))
                  | None \<Rightarrow> unavailable, sent')))"

section \<open>Actions\<close>

definition fbNonNegInt :: "proxyEnv \<Rightarrow> json option \<Rightarrow> bool" where
  "fbNonNegInt P v =
     (case v of
        Some (JNum n) \<Rightarrow>
          (case parse_int64 n of
             Some i \<Rightarrow> 0 \<le> i
           | None \<Rightarrow> (case px_float P n of None \<Rightarrow> False | Some f \<Rightarrow> 0 \<le> f \<and> f = of_int (floor f)))
      | _ \<Rightarrow> False)"

text \<open>\<^verbatim>\<open>json.Unmarshal\<close> into a string: \<open>null\<close> leaves it empty.\<close>

definition json_string :: "json option \<Rightarrow> string option" where
  "json_string v = (case v of Some (JStr s) \<Rightarrow> Some s | Some JNull \<Rightarrow> Some [] | _ \<Rightarrow> None)"

definition action_valid_req :: "proxyEnv \<Rightarrow> (string \<times> json) list \<Rightarrow> bool" where
  "action_valid_req P req =
     (case json_string (jget ''requestId'' req) of
        None \<Rightarrow> False
      | Some reqID \<Rightarrow>
          if \<not> id_matches 128 reqID then False
          else
            (case json_string (jget ''action'' req) of
               None \<Rightarrow> False
             | Some action \<Rightarrow>
                 if action \<notin> set fbLifecycleActions \<and> action \<notin> set fbRevisionActions then False
                 else if action \<in> set fbLifecycleActions \<and> \<not> fbNonNegInt P (jget ''expectedLifecycleVersion'' req) then False
                 else if action \<in> set fbRevisionActions \<and> \<not> fbNonNegInt P (jget ''expectedRevision'' req) then False
                 else True))"

definition fbActionProbe :: "proxyEnv \<Rightarrow> sourceRow \<Rightarrow> string \<Rightarrow> fbLog \<Rightarrow> fbAnswer \<times> fbLog" where
  "fbActionProbe P src fbID sent =
     (case fbDo P (detail_request src fbID) sent of
        (r, sent') \<Rightarrow>
          (case r of
             None \<Rightarrow> unavailable
           | Some (resp, body) \<Rightarrow>
               if fp_Status resp = 404 then not_found
               else if fp_Status resp \<noteq> 200 then unavailable
               else if (case px_unmarshal P body of Some (JObj detail) \<Rightarrow> manage_flag detail | _ \<Rightarrow> False) then not_found
               else FbError 409 ''feedback_mgmt_unsupported'' [], sent'))"

text \<open>The body of a successful action, with the source added to its detail.\<close>

definition action_body :: "proxyEnv \<Rightarrow> sourceRow \<Rightarrow> int \<Rightarrow> string \<Rightarrow> string" where
  "action_body P src status body =
     (if status = 200 then
        (case px_unmarshal P body of
           Some (JObj obj) \<Rightarrow>
             (case jget ''detail'' obj of
                Some (JObj detail) \<Rightarrow>
                  px_marshal P (JObj (jset ''detail''
                    (JObj (jset ''sourceName'' (JStr (s_Name src)) (jset ''sourceId'' (JStr (s_ID src)) detail))) obj))
              | _ \<Rightarrow> body)
         | _ \<Rightarrow> body)
      else body)"

definition action_request :: "sourceRow \<Rightarrow> string \<Rightarrow> string \<Rightarrow> fbRequest" where
  "action_request src fbID payload =
     \<lparr>fr_Method = ''POST'', fr_URL = fbBase src @ ''/api/assist/manage/feedback/'' @ fbID @ ''/action'',
      fr_Bearer = s_MgmtKeyPlain src, fr_Payload = Some payload, fr_Timeout = fbTimeoutWrite\<rparr>"

definition handleFeedbackAction ::
  "proxyEnv \<Rightarrow> hub_db \<Rightarrow> string \<Rightarrow> string \<Rightarrow> (string \<times> json) list \<Rightarrow> fbLog \<Rightarrow> fbAnswer \<times> fbLog" where
  "handleFeedbackAction P d srcId fbID req sent =
     (case fbPrecondMgmt d srcId of
        Inl a \<Rightarrow> (a, sent)
      | Inr src \<Rightarrow>
          if \<not> upstreamID fbID then (not_found, sent)
          else if \<not> action_valid_req P req then (FbError 400 ''invalid_request'' [], sent)
          else
            (case fbDo P (action_request src fbID (px_marshal P (JObj req))) sent of
               (r, sent') \<Rightarrow>
                 (case r of
                    None \<Rightarrow> (unavailable, sent')
                  | Some (resp, body) \<Rightarrow>
                      if fp_Status resp = 404 then fbActionProbe P src fbID sent'
                      else (case fbWriteUpstreamErr P r of
                              Some a \<Rightarrow> (a, sent')
                            | None \<Rightarrow> (FbRaw (fp_Status resp) (action_body P src (fp_Status resp) body), sent')))))"

section \<open>Attachments\<close>

text \<open>The path of an attachment under a feedback: the screenshot, or a log by its identifier.\<close>

definition attachment_path :: "string \<Rightarrow> string \<Rightarrow> string option" where
  "attachment_path fbID attID =
     (if attID = ''screenshot'' then Some (''/api/assist/feedback/'' @ fbID @ ''/attachments/screenshot'')
      else case strip_prefix ''logs/'' attID of
        None \<Rightarrow> None
      | Some logID \<Rightarrow>
          if \<not> upstreamID logID then None
          else Some (''/api/assist/feedback/'' @ fbID @ ''/attachments/logs/'' @ logID))"

definition att_unavailable :: fbAnswer where
  "att_unavailable = FbError 502 ''attachment_unavailable'' []"

definition content_length :: "fbResponse \<Rightarrow> string \<Rightarrow> string" where
  "content_length resp body = (if fp_ContentLength resp \<noteq> [] then fp_ContentLength resp else itoa (int (length body)))"

definition handleFeedbackAttachment ::
  "proxyEnv \<Rightarrow> hub_db \<Rightarrow> string \<Rightarrow> string \<Rightarrow> string \<Rightarrow> fbLog \<Rightarrow> fbAnswer \<times> fbLog" where
  "handleFeedbackAttachment P d srcId fbID attID sent =
     (case fbPrecond d srcId of
        Inl a \<Rightarrow> (a, sent)
      | Inr src \<Rightarrow>
          if \<not> upstreamID fbID then (not_found, sent)
          else
            (case attachment_path fbID attID of
               None \<Rightarrow> (not_found, sent)
             | Some path \<Rightarrow>
                 (case fbDo P \<lparr>fr_Method = ''GET'', fr_URL = fbBase src @ path, fr_Bearer = s_KeyPlain src, fr_Payload = None,
                          fr_Timeout = fbTimeoutRead\<rparr> sent of
                    (r, sent') \<Rightarrow>
                      (case r of
                         None \<Rightarrow> att_unavailable
                       | Some (resp, body) \<Rightarrow>
                           if fp_Status resp = 200 then
                             (if maxAttachmentBytes < length body then att_unavailable
                              else FbFile \<lparr>fh_ContentType = fp_ContentType resp, fh_ContentLength = content_length resp body,
                                     fh_ETag = fp_ETag resp, fh_ContentDisposition = fp_ContentDisposition resp\<rparr> body)
                           else if fp_Status resp = 404 then not_found
                           else att_unavailable, sent'))))"

text \<open>The attachment of a message: the status is examined before the body is read.\<close>

definition attachment_answer :: "attachmentDesc \<Rightarrow> fbResponse option \<Rightarrow> fbAnswer" where
  "attachment_answer desc r =
     (case r of
        None \<Rightarrow> att_unavailable
      | Some resp \<Rightarrow>
          if fp_Status resp = 200 then
            (case limited resp of
               None \<Rightarrow> att_unavailable
             | Some body \<Rightarrow>
                 if maxAttachmentBytes < length body then att_unavailable
                 else FbFile
                   \<lparr>fh_ContentType = (if fp_ContentType resp = [] then at_Mime desc else fp_ContentType resp),
                    fh_ContentLength = content_length resp body,
                    fh_ETag = (if fp_ETag resp = [] \<and> at_SHA256 desc \<noteq> [] then [CHR 0x22] @ at_SHA256 desc @ [CHR 0x22]
                               else fp_ETag resp),
                    fh_ContentDisposition = fp_ContentDisposition resp\<rparr> body)
          else if fp_Status resp = 404 then not_found
          else att_unavailable)"

definition message_feedback :: "proxyEnv \<Rightarrow> messageRow \<Rightarrow> string" where
  "message_feedback P m =
     (case m_Ref m of None \<Rightarrow> [] | Some ref \<Rightarrow> (case px_ref P ref of None \<Rightarrow> [] | Some i \<Rightarrow> i))"

definition fetchAttachment :: "proxyEnv \<Rightarrow> sourceRow \<Rightarrow> attachmentDesc \<Rightarrow> string \<Rightarrow> fbLog \<Rightarrow> fbAnswer \<times> fbLog" where
  "fetchAttachment P src desc path sent =
     (if px_badURL P (fbBase src @ path) then (FbError 500 ''internal'' [], sent)
      else
        (let req = \<lparr>fr_Method = ''GET'', fr_URL = fbBase src @ path, fr_Bearer = s_KeyPlain src, fr_Payload = None,
               fr_Timeout = fbTimeoutRead\<rparr>
         in (attachment_answer desc (px_net P (length sent) req), sent @ [req])))"

definition handleAttachment :: "proxyEnv \<Rightarrow> hub_db \<Rightarrow> string \<Rightarrow> string \<Rightarrow> fbLog \<Rightarrow> fbAnswer \<times> fbLog" where
  "handleAttachment P d msgID attID sent =
     (case find (\<lambda>m. m_ID m = msgID) (d_messages d) of
        None \<Rightarrow> (not_found, sent)
      | Some m \<Rightarrow>
          (case find (\<lambda>a. at_ID a = attID) (m_Attachments m) of
             None \<Rightarrow> (not_found, sent)
           | Some desc \<Rightarrow>
               (case find (\<lambda>r. s_ID r = m_SourceID m) (d_sources d) of
                  None \<Rightarrow> (not_found, sent)
                | Some src \<Rightarrow>
                    if s_AttachmentBaseURL src = None \<or> s_AttachmentBaseURL src = Some [] then (not_found, sent)
                    else
                      if \<not> upstreamID (message_feedback P m) then (not_found, sent)
                      else
                        (case attachment_path (message_feedback P m) attID of
                           None \<Rightarrow> (not_found, sent)
                         | Some path \<Rightarrow> fetchAttachment P src desc path sent))))"

text \<open>The routes of the proxy.\<close>

datatype fbCall =
    FbList string "string \<Rightarrow> string"
  | FbDetail string string
  | FbAction string string "(string \<times> json) list"
  | FbAttachment string string string
  | MsgAttachment string string

primrec handleFeedback :: "proxyEnv \<Rightarrow> hub_db \<Rightarrow> fbCall \<Rightarrow> fbLog \<Rightarrow> fbAnswer \<times> fbLog" where
  "handleFeedback P d (FbList srcId query) sent = handleFeedbackList P d srcId query sent"
| "handleFeedback P d (FbDetail srcId fbID) sent = handleFeedbackDetail P d srcId fbID sent"
| "handleFeedback P d (FbAction srcId fbID req) sent = handleFeedbackAction P d srcId fbID req sent"
| "handleFeedback P d (FbAttachment srcId fbID attID) sent = handleFeedbackAttachment P d srcId fbID attID sent"
| "handleFeedback P d (MsgAttachment msgID attID) sent = handleAttachment P d msgID attID sent"

section \<open>Properties\<close>

definition read_path :: "string \<Rightarrow> bool" where
  "read_path p \<longleftrightarrow> (\<exists>fbID rest. upstreamID fbID \<and> p = ''/api/assist/feedback/'' @ fbID @ rest \<and>
     (rest = [] \<or> rest = ''/attachments/screenshot'' \<or> (\<exists>l. upstreamID l \<and> rest = ''/attachments/logs/'' @ l)))"

definition manage_path :: "string \<Rightarrow> bool" where
  "manage_path p \<longleftrightarrow> p = ''/api/assist/manage/feedback'' \<or> (\<exists>q. p = ''/api/assist/manage/feedback?'' @ encode_query q) \<or>
     (\<exists>fbID. upstreamID fbID \<and> p = ''/api/assist/manage/feedback/'' @ fbID @ ''/action'')"

definition may_send :: "hub_db \<Rightarrow> fbRequest \<Rightarrow> bool" where
  "may_send d r \<longleftrightarrow> (\<exists>src \<in> set (d_sources d). \<exists>base path.
     s_AttachmentBaseURL src = Some base \<and> base \<noteq> [] \<and> fr_URL r = trim_right CHR ''/'' base @ path \<and>
     (read_path path \<and> fr_Method r = ''GET'' \<and> fr_Bearer r = s_KeyPlain src \<or>
      manage_path path \<and> fr_Bearer r = s_MgmtKeyPlain src \<and> s_MgmtKeyPlain src \<noteq> [] \<and> s_Kind src = ''feedback'' \<and> s_DeletedAt src = None))"

definition sends :: "hub_db \<Rightarrow> fbLog \<Rightarrow> fbLog \<Rightarrow> nat \<Rightarrow> bool" where
  "sends d sent sent' n \<longleftrightarrow> (\<exists>new. sent' = sent @ new \<and> length new \<le> n \<and> list_all (may_send d) new)"

lemma sends_refl: "sends d sent sent n"
  by (simp add: sends_def)

lemma sends_trans: "sends d a b m \<Longrightarrow> sends d b c n \<Longrightarrow> sends d a c (m + n)"
  unfolding sends_def by (elim exE conjE) (rule exI, auto)

lemma sends_mono: "sends d a b m \<Longrightarrow> m \<le> n \<Longrightarrow> sends d a b n"
  by (auto simp: sends_def)

lemma sends_fbDo: "fbDo P req sent = (r, sent') \<Longrightarrow> may_send d req \<Longrightarrow> sends d sent sent' 1"
  by (auto simp: fbDo_def sends_def split: if_splits)

lemma precond_source:
  assumes "fbPrecond d srcId = Inr src"
  shows "src \<in> set (d_sources d) \<and> s_ID src = srcId \<and> s_Kind src = ''feedback'' \<and> s_DeletedAt src = None \<and>
    (\<exists>b. s_AttachmentBaseURL src = Some b \<and> b \<noteq> [] \<and> fbBase src = trim_right CHR ''/'' b)"
  using assms by (auto simp: fbPrecond_def fbBase_def split: option.splits if_splits dest: find_SomeD)

lemma precond_mgmt: "fbPrecondMgmt d srcId = Inr src \<Longrightarrow> fbPrecond d srcId = Inr src \<and> s_MgmtKeyPlain src \<noteq> []"
  by (auto simp: fbPrecondMgmt_def split: sum.splits if_splits)

lemma may_read:
  assumes "src \<in> set (d_sources d)" and "s_AttachmentBaseURL src = Some b" and "b \<noteq> []" and "read_path path"
    and "fr_URL r = fbBase src @ path" and "fr_Method r = ''GET''" and "fr_Bearer r = s_KeyPlain src"
  shows "may_send d r"
  unfolding may_send_def using assms by (auto simp: fbBase_def)

lemma may_manage:
  assumes "fbPrecondMgmt d srcId = Inr src" and "manage_path path" and "fr_URL r = fbBase src @ path" and "fr_Bearer r = s_MgmtKeyPlain src"
  shows "may_send d r"
proof -
  obtain b where "src \<in> set (d_sources d)" "s_Kind src = ''feedback''" "s_DeletedAt src = None" "s_MgmtKeyPlain src \<noteq> []"
      "s_AttachmentBaseURL src = Some b" "b \<noteq> []" "fbBase src = trim_right CHR ''/'' b"
    using precond_mgmt [OF assms(1)] precond_source [of d srcId src] by blast
  then show ?thesis unfolding may_send_def using assms(2-4) by (intro bexI [of _ src] exI [of _ b] exI [of _ path]) simp_all
qed

lemma read_detail: "upstreamID fbID \<Longrightarrow> read_path (''/api/assist/feedback/'' @ fbID)"
  unfolding read_path_def by (intro exI [of _ fbID] exI [of _ "[]"]) simp

lemma read_attachment:
  assumes "upstreamID fbID" and "attachment_path fbID attID = Some path"
  shows "read_path path"
  using assms unfolding read_path_def attachment_path_def
  by (intro exI [of _ fbID] exI [of _ "drop (length (''/api/assist/feedback/'' @ fbID)) path"])
    (auto split: if_splits option.splits)

lemma may_detail: "fbPrecond d srcId = Inr src \<Longrightarrow> upstreamID fbID \<Longrightarrow> may_send d (detail_request src fbID)"
  using precond_source [of d srcId src] may_read [OF _ _ _ read_detail] by (fastforce simp: detail_request_def)

lemma sends_list:
  assumes "handleFeedbackList P d srcId query sent = (a, sent')"
  shows "sends d sent sent' 1"
proof (cases "fbPrecondMgmt d srcId")
  case (Inr src)
  define q where "q = filter (\<lambda>kv. snd kv \<noteq> []) (map (\<lambda>k. (k, query k)) [''view'', ''cursor'', ''limit'', ''q''])"
  have "manage_path (''/api/assist/manage/feedback'' @ (if q \<noteq> [] then ''?'' @ encode_query q else []))"
    by (auto simp: manage_path_def)
  then have m: "may_send d (list_request src query)"
    by (rule may_manage [OF Inr]) (simp_all add: list_request_def Let_def q_def)
  have "snd (fbDo P (list_request src query) sent) = sent'" using assms Inr by (simp add: handleFeedbackList_def split: prod.splits)
  then show ?thesis using sends_fbDo [OF _ m] by (metis prod.collapse)
qed (use assms in \<open>simp add: handleFeedbackList_def sends_refl\<close>)

lemma sends_detail:
  assumes "handleFeedbackDetail P d srcId fbID sent = (a, sent')"
  shows "sends d sent sent' 1"
proof (cases "fbPrecond d srcId")
  case (Inr src)
  show ?thesis
  proof (cases "upstreamID fbID")
    case True
    then have "snd (fbDo P (detail_request src fbID) sent) = sent'"
      using assms Inr by (simp add: handleFeedbackDetail_def split: prod.splits)
    then show ?thesis using sends_fbDo may_detail [OF Inr True] by (metis prod.collapse)
  qed (use assms Inr in \<open>simp add: handleFeedbackDetail_def sends_refl\<close>)
qed (use assms in \<open>simp add: handleFeedbackDetail_def sends_refl\<close>)

lemma sends_probe:
  assumes "fbActionProbe P src fbID sent = (a, sent')" and "fbPrecond d srcId = Inr src" and "upstreamID fbID"
  shows "sends d sent sent' 1"
proof -
  have "snd (fbDo P (detail_request src fbID) sent) = sent'" using assms(1) by (simp add: fbActionProbe_def split: prod.splits)
  then show ?thesis using sends_fbDo may_detail [OF assms(2,3)] by (metis prod.collapse)
qed

lemma sends_action:
  assumes "handleFeedbackAction P d srcId fbID req sent = (a, sent')"
  shows "sends d sent sent' 2"
proof (cases "fbPrecondMgmt d srcId")
  case (Inr src)
  show ?thesis
  proof (cases "upstreamID fbID \<and> action_valid_req P req")
    case True
    define q where "q = action_request src fbID (px_marshal P (JObj req))"
    obtain r mid where m: "fbDo P q sent = (r, mid)" by fastforce
    have "manage_path (''/api/assist/manage/feedback/'' @ fbID @ ''/action'')" using True by (auto simp: manage_path_def)
    then have "may_send d q" by (rule may_manage [OF Inr]) (simp_all add: q_def action_request_def)
    from sends_fbDo [OF m this] have s1: "sends d sent mid 1" .
    have "handleFeedbackAction P d srcId fbID req sent = (case r of None \<Rightarrow> (unavailable, mid)
        | Some (resp, body) \<Rightarrow> if fp_Status resp = 404 then fbActionProbe P src fbID mid
            else (case fbWriteUpstreamErr P r of Some a \<Rightarrow> (a, mid)
               | None \<Rightarrow> (FbRaw (fp_Status resp) (action_body P src (fp_Status resp) body), mid)))"
      using Inr True m by (simp add: handleFeedbackAction_def q_def)
    then have "sent' = mid \<or> fbActionProbe P src fbID mid = (a, sent')"
      using assms by (auto dest: sym [of "(a, sent')"] split: option.splits if_splits prod.splits)
    then show ?thesis
    proof
      assume "fbActionProbe P src fbID mid = (a, sent')"
      from sends_probe [OF this] precond_mgmt [OF Inr] True have "sends d mid sent' 1" by blast
      from sends_trans [OF s1 this] show ?thesis by (simp add: numeral_2_eq_2)
    qed (use sends_mono [OF s1] in simp)
  qed (use assms Inr in \<open>auto simp: handleFeedbackAction_def sends_refl split: if_splits\<close>)
qed (use assms in \<open>simp add: handleFeedbackAction_def sends_refl\<close>)

lemma sends_fb_attachment:
  assumes "handleFeedbackAttachment P d srcId fbID attID sent = (a, sent')"
  shows "sends d sent sent' 1"
proof (cases "fbPrecond d srcId")
  case (Inr src)
  show ?thesis
  proof (cases "upstreamID fbID \<and> attachment_path fbID attID \<noteq> None")
    case True
    then obtain path where path: "upstreamID fbID" "attachment_path fbID attID = Some path" by blast
    define q where "q = \<lparr>fr_Method = ''GET'', fr_URL = fbBase src @ path, fr_Bearer = s_KeyPlain src, fr_Payload = None,
      fr_Timeout = fbTimeoutRead\<rparr>"
    have "may_send d q" using precond_source [OF Inr] may_read [OF _ _ _ read_attachment [OF path]] by (fastforce simp: q_def)
    moreover have "snd (fbDo P q sent) = sent'"
      using assms Inr path by (simp add: handleFeedbackAttachment_def q_def split: prod.splits)
    ultimately show ?thesis using sends_fbDo by (metis prod.collapse)
  qed (use assms Inr in \<open>auto simp: handleFeedbackAttachment_def sends_refl split: if_splits\<close>)
qed (use assms in \<open>simp add: handleFeedbackAttachment_def sends_refl\<close>)

lemma sends_fetch:
  assumes "fetchAttachment P src desc path sent = (a, sent')" and "attachment_path fbID attID = Some path" and "upstreamID fbID"
    and "src \<in> set (d_sources d)" and "s_AttachmentBaseURL src = Some b" and "b \<noteq> []"
  shows "sends d sent sent' 1"
proof -
  have "may_send d \<lparr>fr_Method = ''GET'', fr_URL = fbBase src @ path, fr_Bearer = s_KeyPlain src, fr_Payload = None,
      fr_Timeout = fbTimeoutRead\<rparr>"
    by (rule may_read [OF assms(4-6) read_attachment [OF assms(3,2)]]) simp_all
  then show ?thesis using assms(1) by (auto simp: fetchAttachment_def sends_def Let_def split: if_splits)
qed

lemma sends_msg_attachment: "handleAttachment P d msgID attID sent = (a, sent') \<Longrightarrow> sends d sent sent' 1"
  by (auto simp: handleAttachment_def sends_refl simp del: One_nat_def intro: sends_fetch split: option.splits if_splits dest!: find_SomeD)


text \<open>The status of an answer.\<close>

primrec answer_status :: "fbAnswer \<Rightarrow> int" where
  "answer_status (FbError c code ra) = c"
| "answer_status (FbJSON c obj) = c"
| "answer_status (FbRaw c body) = c"
| "answer_status (FbFile h body) = 200"

definition masked :: "proxyEnv \<Rightarrow> fbAnswer \<Rightarrow> bool" where
  "masked P a \<longleftrightarrow> answer_status a \<noteq> 401 \<and> (500 \<le> answer_status a \<longrightarrow> answer_status a = 502) \<and>
     (\<forall>st b. a = FbRaw st b \<and> 400 \<le> st \<longrightarrow> (\<exists>code \<in> set fbPassThroughCodes. px_errcode P b = Some code))"

lemma masked_simps [simp]:
  "masked P not_found" "masked P unavailable" "masked P att_unavailable" "masked P (FbFile h b)" "masked P (FbJSON 200 obj)"
  "masked P (FbError 409 code [])" "masked P (FbError 400 code [])"
  by (simp_all add: masked_def not_found_def unavailable_def att_unavailable_def)

lemma masked_upstream: "fbWriteUpstreamErr P r = Some a \<Longrightarrow> masked P a"
  by (auto simp: fbWriteUpstreamErr_def masked_def unavailable_def split: option.splits if_splits)

lemma upstream_passed: "fbWriteUpstreamErr P (Some (resp, body)) = None \<Longrightarrow> fp_Status resp < 400"
  by (auto simp: fbWriteUpstreamErr_def split: option.splits if_splits)

lemma masked_precond: "fbPrecond d i = Inl a \<Longrightarrow> masked P a" "fbPrecondMgmt d i = Inl a \<Longrightarrow> masked P a"
  by (auto simp: fbPrecondMgmt_def fbPrecond_def split: option.splits if_splits sum.splits)

lemma masked_list: "handleFeedbackList P d i query sent = (a, sent') \<Longrightarrow> masked P a"
  by (auto simp: handleFeedbackList_def intro: masked_precond masked_upstream
      split: sum.splits prod.splits option.splits if_splits json.splits)

lemma masked_detail: "handleFeedbackDetail P d i fbID sent = (a, sent') \<Longrightarrow> masked P a"
  by (auto simp: handleFeedbackDetail_def intro: masked_precond masked_upstream
      split: sum.splits prod.splits option.splits if_splits json.splits)

lemma masked_probe: "fbActionProbe P src fbID sent = (a, sent') \<Longrightarrow> masked P a"
  by (auto simp: fbActionProbe_def split: prod.splits option.splits if_splits)

lemma masked_raw: "st < 400 \<Longrightarrow> masked P (FbRaw st b)"
  by (simp add: masked_def)

lemma masked_action:
  assumes "handleFeedbackAction P d i fbID req sent = (a, sent')"
  shows "masked P a"
proof (cases "fbPrecondMgmt d i")
  case (Inr src)
  show ?thesis
  proof (cases "upstreamID fbID \<and> action_valid_req P req")
    case True
    obtain r mid where m: "fbDo P (action_request src fbID (px_marshal P (JObj req))) sent = (r, mid)" by fastforce
    show ?thesis
    proof (cases r)
      case (Some rb)
      obtain resp body where rb: "rb = (resp, body)" by fastforce
      show ?thesis
      proof (cases "fp_Status resp = 404")
        case True': True
        then show ?thesis using assms Inr True m Some rb masked_probe by (auto simp: handleFeedbackAction_def)
      next
        case False
        then show ?thesis using assms Inr True m Some rb upstream_passed [of P resp body] masked_upstream [of P r]
          by (auto simp: handleFeedbackAction_def intro: masked_raw split: option.splits)
      qed
    qed (use assms Inr True m in \<open>simp add: handleFeedbackAction_def\<close>)
  qed (use assms Inr in \<open>auto simp: handleFeedbackAction_def split: if_splits\<close>)
qed (use assms masked_precond in \<open>auto simp: handleFeedbackAction_def\<close>)

lemma masked_fb_attachment: "handleFeedbackAttachment P d i fbID attID sent = (a, sent') \<Longrightarrow> masked P a"
  by (auto simp: handleFeedbackAttachment_def intro: masked_precond split: sum.splits prod.splits option.splits if_splits)

lemma masked_attachment_answer: "masked P (attachment_answer desc r)"
  by (simp add: attachment_answer_def split: option.split)

lemma masked_msg_attachment: "handleAttachment P d i attID sent = (a, sent') \<Longrightarrow> masked P a \<or> a = FbError 500 ''internal'' []"
  by (auto simp: handleAttachment_def fetchAttachment_def masked_attachment_answer Let_def split: option.splits if_splits)


text \<open>
  A detail is delivered with the identifier and the name of its source and the management
  flag recomputed: it is set exactly when the upstream sets it and the source has a management
  key; all other fields are those of the upstream.
\<close>

theorem detail_manage_recomputed:
  assumes "handleFeedbackDetail P d srcId fbID sent = (FbJSON c obj, sent')"
  shows "\<exists>src detail caps. src \<in> set (d_sources d) \<and> s_ID src = srcId \<and> c = 200 \<and>
    (\<exists>body. px_unmarshal P body = Some (JObj detail)) \<and>
    jget ''sourceId'' obj = Some (JStr srcId) \<and> jget ''sourceName'' obj = Some (JStr (s_Name src)) \<and>
    jget ''capabilities'' obj = Some (JObj caps) \<and>
    jget ''manage'' caps = Some (JBool (s_MgmtKeyPlain src \<noteq> [] \<and>
       (\<exists>up. jget ''capabilities'' detail = Some (JObj up) \<and> jget ''manage'' up = Some (JBool True)))) \<and>
    (\<forall>k. k \<notin> {''sourceId'', ''sourceName'', ''capabilities''} \<longrightarrow> jget k obj = jget k detail)"
proof -
  obtain src body detail where src: "fbPrecond d srcId = Inr src" "px_unmarshal P body = Some (JObj detail)" "c = 200"
      "obj = present_detail src detail"
    using assms
    by (auto simp: handleFeedbackDetail_def not_found_def unavailable_def fbPrecond_def fbWriteUpstreamErr_def
        split: sum.splits prod.splits option.splits if_splits json.splits)
  have "manage_flag detail = (\<exists>up. jget ''capabilities'' detail = Some (JObj up) \<and> jget ''manage'' up = Some (JBool True))"
    by (auto simp: manage_flag_def capabilities_def jget_def split: option.splits json.splits)
  then show ?thesis using src precond_source [OF src(1)] unfolding present_detail_def
    by (intro exI [of _ src] exI [of _ detail] exI [of _ "jset ''manage'' (JBool (manage_flag detail \<and> s_MgmtKeyPlain src \<noteq> [])) (capabilities detail)"]) auto
qed

text \<open>
  An empty attachment whose upstream answer has no length is announced to the client with
  the length 1.
\<close>

theorem empty_attachment_announced:
  assumes "fbPrecond d srcId = Inr src" and "upstreamID fbID" and "attachment_path fbID attID = Some path"
    and "fbDo P \<lparr>fr_Method = ''GET'', fr_URL = fbBase src @ path, fr_Bearer = s_KeyPlain src, fr_Payload = None, fr_Timeout = fbTimeoutRead\<rparr>
           sent = (Some (resp, []), sent')"
    and "fp_Status resp = 200" and "fp_ContentLength resp = []"
  shows "\<exists>h. handleFeedbackAttachment P d srcId fbID attID sent = (FbFile h [], sent') \<and> fh_ContentLength h = ''1''"
  using assms by (simp add: handleFeedbackAttachment_def content_length_def itoa_def)

section \<open>A concrete source\<close>

definition sample_feedback :: sourceRow where
  "sample_feedback = sample_source\<lparr>s_ID := ''fb'', s_Kind := ''feedback'', s_AttachmentBaseURL := Some ''https://f/'',
     s_MgmtKeyPlain := ''m''\<rparr>"

definition sample_fb_db :: hub_db where
  "sample_fb_db = empty_db\<lparr>d_sources := [sample_feedback]\<rparr>"

definition sample_response :: fbResponse where
  "sample_response = \<lparr>fp_Status = 200, fp_Body = [], fp_Broken = False, fp_RetryAfter = [], fp_ContentType = [],
     fp_ContentLength = [], fp_ETag = [], fp_ContentDisposition = []\<rparr>"

definition sample_proxy :: proxyEnv where
  "sample_proxy = \<lparr>px_net = (\<lambda>_ _. Some sample_response), px_badURL = (\<lambda>_. False), px_unmarshal = (\<lambda>_. Some (JObj [])),
     px_marshal = (\<lambda>_. []), px_errcode = (\<lambda>_. None), px_ref = (\<lambda>_. None), px_float = (\<lambda>_. None)\<rparr>"

lemma sample_precond: "fbPrecond sample_fb_db ''fb'' = Inr sample_feedback"
  by (simp add: fbPrecond_def sample_fb_db_def sample_feedback_def sample_source_def)

lemma sample_upstreamID: "upstreamID ''x''"
  by (simp add: upstreamID_def is_alnum_def)

lemma sample_do: "fbDo sample_proxy req sent = (Some (sample_response, []), sent @ [req])"
  by (simp add: fbDo_def sample_proxy_def sample_response_def limited_def)

lemma sample_detail:
  "handleFeedback sample_proxy sample_fb_db (FbDetail ''fb'' ''x'') [] =
     (FbJSON 200 (present_detail sample_feedback []), [detail_request sample_feedback ''x''])"
  by (simp add: handleFeedbackDetail_def sample_precond sample_upstreamID sample_do fbWriteUpstreamErr_def)
    (simp add: sample_response_def sample_proxy_def)



theorem detail_manage_recomputed_witness:
  "\<exists>obj sent'. handleFeedbackDetail sample_proxy sample_fb_db ''fb'' ''x'' [] = (FbJSON 200 obj, sent') \<and>
     jget ''sourceId'' obj = Some (JStr ''fb'')"
  using detail_manage_recomputed [of sample_proxy sample_fb_db "''fb''" "''x''" "[]"] sample_detail by auto

theorem empty_attachment_announced_witness:
  "\<exists>h sent'. handleFeedbackAttachment sample_proxy sample_fb_db ''fb'' ''x'' ''screenshot'' [] = (FbFile h [], sent') \<and>
     fh_ContentLength h = ''1''"
proof -
  have "attachment_path ''x'' ''screenshot'' = Some ''/api/assist/feedback/x/attachments/screenshot''"
    by (simp add: attachment_path_def)
  moreover have "fp_Status sample_response = 200" "fp_ContentLength sample_response = []" by (simp_all add: sample_response_def)
  ultimately show ?thesis using empty_attachment_announced [OF sample_precond sample_upstreamID _ sample_do] by blast
qed

end
