(* ===== verification/MetricSeries.thy ===== *)
theory MetricSeries
  imports Retention Documents
begin

text \<open>
  The metric series of a source (\<^verbatim>\<open>handleMetricsSeries\<close> of \<^verbatim>\<open>hub/api.go\<close>): raw points, the
  five-minute buckets, or the buckets joined to hours.  A query parameter that is absent is
  the empty string.
\<close>

section \<open>The handler\<close>

record seriesReq =
  sr_source :: string
  sr_metric :: string
  sr_label :: string
  sr_step :: string
  sr_from :: string
  sr_to :: string

record point =
  pt_TS :: string
  pt_Avg :: rat
  pt_Min :: rat
  pt_Max :: rat

record agg =
  ag_sumW :: rat
  ag_min :: rat
  ag_max :: rat
  ag_n :: int

text \<open>A bound as it stands in the query: none, or the time in the format of the columns.\<close>

definition ts_bound :: "string \<Rightarrow> string option" where
  "ts_bound v = (if v = [] then Some [] else map_option fmtTS (parseTS v))"

definition in_range :: "string \<Rightarrow> string \<Rightarrow> string \<Rightarrow> bool" where
  "in_range from_ts to_ts ts \<longleftrightarrow> (from_ts = [] \<or> from_ts \<le> ts) \<and> (to_ts = [] \<or> ts \<le> to_ts)"

definition series_raw :: "hub_db \<Rightarrow> string \<Rightarrow> string \<Rightarrow> string \<Rightarrow> string \<Rightarrow> string \<Rightarrow> point list" where
  "series_raw d src metric label from_ts to_ts =
     map (\<lambda>r. \<lparr>pt_TS = mw_ts r, pt_Avg = mw_value r, pt_Min = mw_value r, pt_Max = mw_value r\<rparr>)
       (sort_key mw_ts (filter (\<lambda>r. mw_source_id r = src \<and> mw_metric r = metric \<and> mw_label r = label \<and>
          in_range from_ts to_ts (mw_ts r)) (d_raw d)))"

definition series_rows :: "hub_db \<Rightarrow> string \<Rightarrow> string \<Rightarrow> string \<Rightarrow> string \<Rightarrow> string \<Rightarrow> rollRow list" where
  "series_rows d src metric label from_ts to_ts =
     sort_key rr_bucket (filter (\<lambda>r. rr_source_id r = src \<and> rr_metric r = metric \<and> rr_label r = label \<and>
       in_range from_ts to_ts (rr_bucket r)) (d_5m d))"

text \<open>\<^verbatim>\<open>bucketOf\<close>: the bucket itself, or the hour it lies in.\<close>

definition bucketOf :: "string \<Rightarrow> string \<Rightarrow> string" where
  "bucketOf step ts =
     (if step = ''5m'' then ts
      else case parseTS ts of None \<Rightarrow> ts | Some t \<Rightarrow> fmtTS (t - t mod 3600000000000))"

definition new_agg :: "rollRow \<Rightarrow> agg" where
  "new_agg r = \<lparr>ag_sumW = 0, ag_min = rr_min r, ag_max = rr_max r, ag_n = 0\<rparr>"

definition add_row :: "rollRow \<Rightarrow> agg \<Rightarrow> agg" where
  "add_row r g =
     (let g1 = g\<lparr>ag_sumW := ag_sumW g + rr_avg r * of_int (rr_n r), ag_n := ag_n g + rr_n r\<rparr>;
          g2 = (if rr_min r < ag_min g1 then g1\<lparr>ag_min := rr_min r\<rparr> else g1)
      in if ag_max g2 < rr_max r then g2\<lparr>ag_max := rr_max r\<rparr> else g2)"

definition series_step ::
  "string \<Rightarrow> rollRow \<Rightarrow> string list \<times> (string \<Rightarrow> agg option) \<Rightarrow> string list \<times> (string \<Rightarrow> agg option)" where
  "series_step step r acc =
     (let bk = bucketOf step (rr_bucket r) in
      case snd acc bk of
        None \<Rightarrow> (fst acc @ [bk], (snd acc)(bk \<mapsto> add_row r (new_agg r)))
      | Some g \<Rightarrow> (fst acc, (snd acc)(bk \<mapsto> add_row r g)))"

definition agg_point :: "string \<Rightarrow> agg \<Rightarrow> point" where
  "agg_point bk g =
     \<lparr>pt_TS = bk, pt_Avg = (if 0 < ag_n g then ag_sumW g / of_int (ag_n g) else 0), pt_Min = ag_min g, pt_Max = ag_max g\<rparr>"

definition series_buckets :: "string \<Rightarrow> rollRow list \<Rightarrow> point list" where
  "series_buckets step rows =
     (let acc = fold (series_step step) rows ([], (\<lambda>_. None))
      in map (\<lambda>bk. agg_point bk (the (snd acc bk))) (fst acc))"

definition handleMetricsSeries :: "hub_db \<Rightarrow> seriesReq \<Rightarrow> point list answer" where
  "handleMetricsSeries d q =
     (let bad = AnswerErr 400 ''invalid_request'';
          label = (if sr_metric q = ''disk_percent'' then sr_label q else []);
          step = (if sr_step q = [] then ''raw'' else sr_step q) in
      if sr_source q = [] then bad
      else if sr_metric q \<notin> set seriesMetrics then bad
      else if sr_metric q = ''disk_percent'' \<and> label = [] then bad
      else if step \<noteq> ''raw'' \<and> step \<noteq> ''5m'' \<and> step \<noteq> ''1h'' then bad
      else case ts_bound (sr_from q) of
        None \<Rightarrow> bad
      | Some from_ts \<Rightarrow>
          (case ts_bound (sr_to q) of
             None \<Rightarrow> bad
           | Some to_ts \<Rightarrow>
               AnswerOk 200
                 (if step = ''raw'' then series_raw d (sr_source q) (sr_metric q) label from_ts to_ts
                  else series_buckets step (series_rows d (sr_source q) (sr_metric q) label from_ts to_ts))))"

section \<open>Reference\<close>

text \<open>The same by grouping: the buckets in the order of their first rows, each with all its rows.\<close>

fun firsts :: "'a list \<Rightarrow> 'a list" where
  "firsts [] = []"
| "firsts (x # xs) = x # filter (\<lambda>y. y \<noteq> x) (firsts xs)"

definition group_of :: "string \<Rightarrow> rollRow list \<Rightarrow> string \<Rightarrow> rollRow list" where
  "group_of step rows bk = filter (\<lambda>r. bucketOf step (rr_bucket r) = bk) rows"

definition group_point :: "string \<Rightarrow> rollRow list \<Rightarrow> point" where
  "group_point bk rs =
     (let n = sum_list (map rr_n rs) in
      \<lparr>pt_TS = bk, pt_Avg = (if 0 < n then sum_list (map (\<lambda>r. rr_avg r * of_int (rr_n r)) rs) / of_int n else 0),
       pt_Min = Min (rr_min ` set rs), pt_Max = Max (rr_max ` set rs)\<rparr>)"

definition series_ref :: "string \<Rightarrow> rollRow list \<Rightarrow> point list" where
  "series_ref step rows = map (\<lambda>bk. group_point bk (group_of step rows bk)) (firsts (map (\<lambda>r. bucketOf step (rr_bucket r)) rows))"

lemma firsts_snoc: "firsts (xs @ [x]) = (if x \<in> set xs then firsts xs else firsts xs @ [x])"
  by (induction xs) auto

lemma set_firsts [simp]: "set (firsts xs) = set xs"
  by (induction xs) auto

lemma distinct_firsts: "distinct (firsts xs)"
  by (induction xs) auto

definition agg_of :: "rollRow list \<Rightarrow> agg" where
  "agg_of rs = \<lparr>ag_sumW = sum_list (map (\<lambda>r. rr_avg r * of_int (rr_n r)) rs), ag_min = Min (rr_min ` set rs),
     ag_max = Max (rr_max ` set rs), ag_n = sum_list (map rr_n rs)\<rparr>"

lemma add_row_new: "add_row r (new_agg r) = agg_of [r]"
  by (simp add: add_row_def new_agg_def agg_of_def)

lemma add_row_agg:
  assumes "rs \<noteq> []"
  shows "add_row r (agg_of rs) = agg_of (rs @ [r])"
proof -
  define m M where "m = Min (rr_min ` set rs)" and "M = Max (rr_max ` set rs)"
  have "Min (rr_min ` set (rs @ [r])) = min (rr_min r) m" "Max (rr_max ` set (rs @ [r])) = max (rr_max r) M"
    using assms by (simp_all add: m_def M_def)
  then show ?thesis unfolding agg_of_def m_def [symmetric] M_def [symmetric] by (auto simp: add_row_def Let_def)
qed

lemma series_loop:
  "fold (series_step step) rows ([], (\<lambda>_. None)) =
     (firsts (map (\<lambda>r. bucketOf step (rr_bucket r)) rows),
      (\<lambda>bk. if group_of step rows bk = [] then None else Some (agg_of (group_of step rows bk))))"
proof (induction rows rule: rev_induct)
  case (snoc r rows)
  define bk where "bk = bucketOf step (rr_bucket r)"
  have grp: "group_of step (rows @ [r]) b = group_of step rows b @ (if b = bk then [r] else [])" for b
    by (auto simp: group_of_def bk_def)
  have mem: "bk \<in> set (map (\<lambda>r. bucketOf step (rr_bucket r)) rows) \<longleftrightarrow> group_of step rows bk \<noteq> []"
    by (auto simp: group_of_def filter_empty_conv image_iff)
  show ?case
  proof (cases "group_of step rows bk = []")
    case True
    then show ?thesis using snoc mem
      by (simp add: series_step_def firsts_snoc grp bk_def [symmetric] add_row_new fun_eq_iff)
  next
    case False
    then show ?thesis using snoc mem
      by (simp add: series_step_def firsts_snoc grp bk_def [symmetric] add_row_agg fun_eq_iff)
  qed
qed (simp add: group_of_def)

lemma series_buckets_ref: "series_buckets step rows = series_ref step rows"
proof -
  have "agg_point bk (agg_of rs) = group_point bk rs" for bk rs by (simp add: agg_point_def agg_of_def group_point_def Let_def)
  moreover have "group_of step rows bk \<noteq> []" if "bk \<in> set (map (\<lambda>r. bucketOf step (rr_bucket r)) rows)" for bk
    using that by (auto simp: group_of_def filter_empty_conv)
  ultimately show ?thesis unfolding series_buckets_def series_ref_def series_loop Let_def fst_conv snd_conv
    by (intro map_cong) auto
qed

text \<open>
  C34: the series over buckets has one point for every bucket or hour with data, in the order
  of time of the rows, with the weighted average, the minimum and the maximum of all its
  rows; the loop with the running aggregates computes the same as grouping.
\<close>

theorem series_is_grouping:
  "handleMetricsSeries d q = AnswerOk c ps \<Longrightarrow> sr_step q = ''5m'' \<or> sr_step q = ''1h'' \<Longrightarrow>
   \<exists>label from_ts to_ts. ts_bound (sr_from q) = Some from_ts \<and> ts_bound (sr_to q) = Some to_ts \<and>
     label = (if sr_metric q = ''disk_percent'' then sr_label q else []) \<and>
     ps = series_ref (sr_step q) (series_rows d (sr_source q) (sr_metric q) label from_ts to_ts)"
  by (auto simp: handleMetricsSeries_def Let_def series_buckets_ref split: if_splits option.splits)

section \<open>Series and roll-up\<close>

text \<open>Every bucket is the aggregate of some points; \<open>V\<close> gives the points of a key.\<close>

definition buckets_of :: "(rollKey \<Rightarrow> rat list) \<Rightarrow> hub_db \<Rightarrow> bool" where
  "buckets_of V d \<longleftrightarrow> (\<forall>r \<in> set (d_5m d). V (roll_key r) \<noteq> [] \<and> r = aggregate (roll_key r) (V (roll_key r)))"

lemma aggregate_fields:
  assumes "vs \<noteq> []"
  shows "rr_avg (aggregate k vs) * of_int (rr_n (aggregate k vs)) = sum_list vs" "rr_n (aggregate k vs) = int (length vs)"
    "rr_min (aggregate k vs) = Min (set vs)" "rr_max (aggregate k vs) = Max (set vs)"
  using assms by (auto simp: aggregate_def Min.set_eq_fold [symmetric] Max.set_eq_fold [symmetric] split: prod.split list.split)

lemma Min_concat: "rs \<noteq> [] \<Longrightarrow> (\<And>r. r \<in> set rs \<Longrightarrow> f r \<noteq> []) \<Longrightarrow>
    Min ((\<lambda>r. Min (set (f r))) ` set rs) = Min (set (concat (map f rs)))"
  for f :: "'b \<Rightarrow> rat list"
proof (induction rs)
  case (Cons r rs)
  then show ?case by (cases "rs = []") (auto simp: Min_Un)
qed simp

lemma Max_concat: "rs \<noteq> [] \<Longrightarrow> (\<And>r. r \<in> set rs \<Longrightarrow> f r \<noteq> []) \<Longrightarrow>
    Max ((\<lambda>r. Max (set (f r))) ` set rs) = Max (set (concat (map f rs)))"
  for f :: "'b \<Rightarrow> rat list"
proof (induction rs)
  case (Cons r rs)
  then show ?case by (cases "rs = []") (auto simp: Max_Un)
qed simp

lemma group_point_exact:
  assumes "rs \<noteq> []" and "\<And>r. r \<in> set rs \<Longrightarrow> V (roll_key r) \<noteq> [] \<and> r = aggregate (roll_key r) (V (roll_key r))"
  defines "vs \<equiv> concat (map (\<lambda>r. V (roll_key r)) rs)"
  shows "group_point bk rs = \<lparr>pt_TS = bk, pt_Avg = sum_list vs / of_nat (length vs), pt_Min = Min (set vs), pt_Max = Max (set vs)\<rparr>"
proof -
  let ?V = "\<lambda>r. V (roll_key r)"
  have f: "rr_avg r * of_int (rr_n r) = sum_list (?V r)" "rr_n r = int (length (?V r))" "rr_min r = Min (set (?V r))"
    "rr_max r = Max (set (?V r))" if "r \<in> set rs" for r
    using aggregate_fields [of "?V r" "roll_key r"] assms(2) [OF that] by auto
  have "sum_list (map (\<lambda>r. rr_avg r * of_int (rr_n r)) rs) = sum_list (map (\<lambda>r. sum_list (?V r)) rs)"
    using f(1) by (intro arg_cong [where f = sum_list] map_cong) auto
  also have "\<dots> = sum_list vs" unfolding vs_def by (induction rs) simp_all
  finally have s: "sum_list (map (\<lambda>r. rr_avg r * of_int (rr_n r)) rs) = sum_list vs" .
  have "sum_list (map rr_n rs) = sum_list (map (\<lambda>r. int (length (?V r))) rs)"
    using f(2) by (intro arg_cong [where f = sum_list] map_cong) auto
  also have "\<dots> = int (length vs)" unfolding vs_def by (induction rs) simp_all
  finally have n: "sum_list (map rr_n rs) = int (length vs)" .
  have ne: "vs \<noteq> []" using assms(1,2) unfolding vs_def by (cases rs) auto
  have "rr_min ` set rs = (\<lambda>r. Min (set (?V r))) ` set rs" "rr_max ` set rs = (\<lambda>r. Max (set (?V r))) ` set rs"
    using f(3,4) by auto
  then have "Min (rr_min ` set rs) = Min (set vs)" "Max (rr_max ` set rs) = Max (set vs)"
    using Min_concat [OF assms(1), of ?V] Max_concat [OF assms(1), of ?V] assms(2) by (simp_all add: vs_def)
  then show ?thesis using s n ne by (simp add: group_point_def Let_def)
qed

text \<open>
  When the buckets hold the aggregates of their points, as the roll-up leaves them, a
  point of the hourly series is exact: its average is the average of all points of the hour
  (in the range), not the average of averages, and its bounds are their minimum and maximum.
\<close>

theorem hourly_point_exact:
  assumes "handleMetricsSeries d q = AnswerOk c ps" and "sr_step q = ''1h''" and "p \<in> set ps" and "buckets_of V d"
  shows "\<exists>rs vs. rs \<noteq> [] \<and> vs = concat (map (\<lambda>r. V (roll_key r)) rs) \<and>
    (\<forall>r. r \<in> set rs \<longleftrightarrow> r \<in> set (d_5m d) \<and> rr_source_id r = sr_source q \<and> rr_metric r = sr_metric q \<and>
       rr_label r = (if sr_metric q = ''disk_percent'' then sr_label q else []) \<and>
       in_range (the (ts_bound (sr_from q))) (the (ts_bound (sr_to q))) (rr_bucket r) \<and> bucketOf ''1h'' (rr_bucket r) = pt_TS p) \<and>
    pt_Avg p = sum_list vs / of_nat (length vs) \<and> pt_Min p = Min (set vs) \<and> pt_Max p = Max (set vs)"
proof -
  define label where "label = (if sr_metric q = ''disk_percent'' then sr_label q else [])"
  obtain a b where ab: "ts_bound (sr_from q) = Some a" "ts_bound (sr_to q) = Some b"
      "ps = series_ref ''1h'' (series_rows d (sr_source q) (sr_metric q) label a b)"
    using assms(1,2) by (auto simp: handleMetricsSeries_def Let_def series_buckets_ref label_def split: if_splits option.splits)
  define rs where "rs = group_of ''1h'' (series_rows d (sr_source q) (sr_metric q) label a b) (pt_TS p)"
  have "p \<in> set (series_ref ''1h'' (series_rows d (sr_source q) (sr_metric q) label a b))" using assms(3) ab(3) by simp
  then have p: "p = group_point (pt_TS p) rs" and ne: "rs \<noteq> []"
    by (auto simp: series_ref_def rs_def group_point_def Let_def group_of_def filter_empty_conv)
  have mem: "r \<in> set rs \<longleftrightarrow> r \<in> set (d_5m d) \<and> rr_source_id r = sr_source q \<and> rr_metric r = sr_metric q \<and> rr_label r = label \<and>
      in_range a b (rr_bucket r) \<and> bucketOf ''1h'' (rr_bucket r) = pt_TS p" for r
    by (auto simp: rs_def group_of_def series_rows_def)
  have "V (roll_key r) \<noteq> [] \<and> r = aggregate (roll_key r) (V (roll_key r))" if "r \<in> set rs" for r
    using assms(4) that mem by (simp add: buckets_of_def)
  from group_point_exact [OF ne this, of "pt_TS p"] p mem ne ab(1,2) show ?thesis
    by (intro exI [of _ rs] exI [of _ "concat (map (\<lambda>r. V (roll_key r)) rs)"]) (auto simp: label_def dest: arg_cong [of _ _ pt_Avg] arg_cong [of _ _ pt_Min] arg_cong [of _ _ pt_Max])
qed

section \<open>Witnesses\<close>

definition sample_bucket :: rollRow where
  "sample_bucket = aggregate (''src_1'', ''b'', ''cpu_percent'', []) [40, 60]"

definition series_db :: hub_db where
  "series_db = empty_db\<lparr>d_5m := [sample_bucket]\<rparr>"

definition sample_query :: seriesReq where
  "sample_query = \<lparr>sr_source = ''src_1'', sr_metric = ''cpu_percent'', sr_label = [], sr_step = ''1h'', sr_from = [], sr_to = []\<rparr>"

lemma sample_series: "\<exists>p. handleMetricsSeries series_db sample_query = AnswerOk 200 [p]"
  by (simp add: handleMetricsSeries_def sample_query_def seriesMetrics_def ts_bound_def series_rows_def in_range_def series_db_def
      sample_bucket_def aggregate_def series_buckets_ref series_ref_def Let_def)

theorem series_is_grouping_witness:
  "\<exists>p. handleMetricsSeries series_db sample_query = AnswerOk 200 [p] \<and>
     (\<exists>a b. [p] = series_ref ''1h'' (series_rows series_db ''src_1'' ''cpu_percent'' [] a b))"
proof -
  obtain p where p: "handleMetricsSeries series_db sample_query = AnswerOk 200 [p]" using sample_series by blast
  have "sr_step sample_query = ''5m'' \<or> sr_step sample_query = ''1h''" by (simp add: sample_query_def)
  from series_is_grouping [OF p this] p show ?thesis by (auto simp: sample_query_def)
qed

theorem hourly_point_exact_witness:
  "\<exists>p. handleMetricsSeries series_db sample_query = AnswerOk 200 [p] \<and> pt_Avg p \<ge> pt_Min p"
proof -
  obtain p where p: "handleMetricsSeries series_db sample_query = AnswerOk 200 [p]" using sample_series by blast
  have step: "sr_step sample_query = ''1h''" by (simp add: sample_query_def)
  have "buckets_of (\<lambda>_. [40, 60]) series_db"
    by (simp add: buckets_of_def series_db_def sample_bucket_def roll_key_def aggregate_def)
  from hourly_point_exact [OF p step _ this, of p] obtain rs :: "rollRow list" where
    rs: "rs \<noteq> []" "\<forall>r \<in> set rs. r \<in> set (d_5m series_db)"
      "pt_Avg p = sum_list (concat (map (\<lambda>_. [40, 60]) rs)) / of_nat (length (concat (map (\<lambda>_. [40::rat, 60]) rs)))"
      "pt_Min p = Min (set (concat (map (\<lambda>_. [40, 60]) rs)))"
    by auto
  have "sum_list (concat (map (\<lambda>_. [40::rat, 60]) rs)) = 100 * of_nat (length rs)"
    "length (concat (map (\<lambda>_. [40::rat, 60]) rs)) = 2 * length rs" by (induction rs) auto
  moreover have "set (concat (map (\<lambda>_. [40::rat, 60]) rs)) = {40, 60}" using rs(1) by (cases rs) auto
  ultimately have "pt_Avg p = 50" "pt_Min p = 40" using rs(1,3,4) by simp_all
  with p show ?thesis by auto
qed

end
