(* ===== verification/HubServer.thy ===== *)
theory HubServer
  imports Auth
begin

text \<open>
  The frame of the hub: the routes and their guards (\<^verbatim>\<open>routes\<close> of \<^verbatim>\<open>hub/api.go\<close>), reading request
  bodies and checking the hub's own address (\<^verbatim>\<open>hub/util.go\<close>), the installation command
  (\<^verbatim>\<open>installBlock\<close> of \<^verbatim>\<open>hub/admin.go\<close>), the configuration (\<^verbatim>\<open>hub/main.go\<close>) and the migration of
  the database (\<^verbatim>\<open>hub/db.go\<close>).  The handlers themselves are a parameter here; the other theories
  model them.  A path is the list of its unescaped segments after \<^verbatim>\<open>/api/v1\<close>, cleaned as
  \<^verbatim>\<open>http.ServeMux\<close> cleans it; a slash at the end is an empty last segment.
\<close>

section \<open>Routes\<close>

datatype seg = Lit string | Var | Rest

datatype guard = Open | Client | SourceKey | DeviceKey

record route =
  ro_method :: string
  ro_segs :: "seg list"
  ro_guard :: guard
  ro_handler :: string

definition open_routes :: "route list" where
  "open_routes =
     [\<lparr>ro_method = ''POST'', ro_segs = [Lit ''auth'', Lit ''login''], ro_guard = Open, ro_handler = ''handleLogin''\<rparr>,
      \<lparr>ro_method = ''POST'', ro_segs = [Lit ''auth'', Lit ''refresh''], ro_guard = Open, ro_handler = ''handleRefresh''\<rparr>,
      \<lparr>ro_method = ''GET'', ro_segs = [Lit ''agent'', Lit ''install.sh''], ro_guard = Open, ro_handler = ''handleAgentInstallScript''\<rparr>,
      \<lparr>ro_method = ''GET'', ro_segs = [Lit ''agent'', Lit ''releases'', Lit ''stable''], ro_guard = Open, ro_handler = ''handleAgentStable''\<rparr>,
      \<lparr>ro_method = ''GET'', ro_segs = [Lit ''agent'', Lit ''releases'', Var, Var], ro_guard = Open, ro_handler = ''handleAgentAsset''\<rparr>,
      \<lparr>ro_method = ''GET'', ro_segs = [Lit ''health''], ro_guard = Open, ro_handler = ''health''\<rparr>,
      \<lparr>ro_method = ''GET'', ro_segs = [Lit ''version''], ro_guard = Open, ro_handler = ''version''\<rparr>]"

definition source_routes :: "route list" where
  "source_routes =
     [\<lparr>ro_method = ''POST'', ro_segs = [Lit ''ingest'', Lit ''metrics''], ro_guard = SourceKey, ro_handler = ''handleIngestMetrics''\<rparr>,
      \<lparr>ro_method = ''POST'', ro_segs = [Lit ''ingest'', Lit ''events''], ro_guard = SourceKey, ro_handler = ''handleIngestEvents''\<rparr>,
      \<lparr>ro_method = ''GET'', ro_segs = [Lit ''agent'', Lit ''status''], ro_guard = DeviceKey, ro_handler = ''handleAgentStatus''\<rparr>]"

definition client_route :: "string \<Rightarrow> seg list \<Rightarrow> string \<Rightarrow> route" where
  "client_route m p h = \<lparr>ro_method = m, ro_segs = p, ro_guard = Client, ro_handler = h\<rparr>"

definition read_routes :: "route list" where
  "read_routes =
     [client_route ''GET'' [Lit ''auth'', Lit ''session''] ''handleSession'',
      client_route ''POST'' [Lit ''auth'', Lit ''logout''] ''handleLogout'',
      client_route ''GET'' [Lit ''overview''] ''handleOverview'',
      client_route ''GET'' [Lit ''sync''] ''handleSync'',
      client_route ''GET'' [Lit ''stream''] ''handleStream'',
      client_route ''GET'' [Lit ''messages''] ''handleMessages'',
      client_route ''GET'' [Lit ''messages'', Var] ''handleMessageDetail'',
      client_route ''POST'' [Lit ''messages'', Var, Lit ''read''] ''handleMessageRead'',
      client_route ''POST'' [Lit ''messages'', Var, Lit ''unread''] ''handleMessageUnread'',
      client_route ''POST'' [Lit ''messages'', Lit ''read-all''] ''handleMessagesReadAll'',
      client_route ''GET'' [Lit ''messages'', Var, Lit ''attachments'', Rest] ''handleAttachment'',
      client_route ''GET'' [Lit ''faults''] ''handleFaults'',
      client_route ''POST'' [Lit ''faults'', Var, Lit ''read''] ''handleFaultRead'',
      client_route ''POST'' [Lit ''faults'', Var, Lit ''mute''] ''handleFaultMute'',
      client_route ''POST'' [Lit ''faults'', Var, Lit ''unmute''] ''handleFaultUnmute'',
      client_route ''GET'' [Lit ''metrics'', Lit ''series''] ''handleMetricsSeries'']"

definition manage_routes :: "route list" where
  "manage_routes =
     [client_route ''GET'' [Lit ''sources''] ''handleSources'',
      client_route ''POST'' [Lit ''sources''] ''handleSourceCreate'',
      client_route ''GET'' [Lit ''sources'', Var] ''handleSourceGet'',
      client_route ''PATCH'' [Lit ''sources'', Var] ''handleSourcePatch'',
      client_route ''POST'' [Lit ''sources'', Var, Lit ''rotate-key''] ''handleSourceRotateKey'',
      client_route ''POST'' [Lit ''sources'', Var, Lit ''rotate-mgmt-key''] ''handleSourceRotateMgmtKey'',
      client_route ''DELETE'' [Lit ''sources'', Var] ''handleSourceDelete'',
      client_route ''GET'' [Lit ''sources'', Var, Lit ''feedback''] ''handleFeedbackList'',
      client_route ''GET'' [Lit ''sources'', Var, Lit ''feedback'', Var] ''handleFeedbackDetail'',
      client_route ''POST'' [Lit ''sources'', Var, Lit ''feedback'', Var, Lit ''action''] ''handleFeedbackAction'',
      client_route ''GET'' [Lit ''sources'', Var, Lit ''feedback'', Var, Lit ''attachments'', Rest] ''handleFeedbackAttachment'',
      client_route ''GET'' [Lit ''rules''] ''handleRulesGet'',
      client_route ''PUT'' [Lit ''rules''] ''handleRulesPut'',
      client_route ''GET'' [Lit ''settings''] ''handleSettingsGet'',
      client_route ''PATCH'' [Lit ''settings''] ''handleSettingsPatch'']"

definition routes :: "route list" where
  "routes = open_routes @ source_routes @ read_routes @ manage_routes"

text \<open>\<^verbatim>\<open>http.ServeMux\<close>: a variable takes one segment that is not empty, the last pattern all that is left.\<close>

fun seg_match :: "seg list \<Rightarrow> string list \<Rightarrow> bool" where
  "seg_match [] [] = True"
| "seg_match [Rest] (s # p) = True"
| "seg_match (Lit w # q) (s # p) = (w = s \<and> seg_match q p)"
| "seg_match (Var # q) (s # p) = (s \<noteq> [] \<and> seg_match q p)"
| "seg_match q p = False"

text \<open>A pattern for \<open>GET\<close> also takes \<open>HEAD\<close>.\<close>

definition method_match :: "string \<Rightarrow> string \<Rightarrow> bool" where
  "method_match m r \<longleftrightarrow> m = r \<or> m = ''HEAD'' \<and> r = ''GET''"

definition route_match :: "string \<Rightarrow> string list \<Rightarrow> route \<Rightarrow> bool" where
  "route_match m p r \<longleftrightarrow> method_match m (ro_method r) \<and> seg_match (ro_segs r) p"

datatype routed = To route | Moved | MethodNotAllowed | NotFound

definition dispatch :: "string \<Rightarrow> string list \<Rightarrow> routed" where
  "dispatch m p =
     (case find (route_match m p) routes of
        Some r \<Rightarrow> To r
      | None \<Rightarrow>
          if (p \<noteq> [] \<and> List.last p \<noteq> []) \<and>
             list_ex (\<lambda>r. route_match m (p @ [[]]) r \<and> length (ro_segs r) = Suc (length p)) routes then Moved
          else if list_ex (\<lambda>r. seg_match (ro_segs r) p) routes then MethodNotAllowed
          else NotFound)"

type_synonym 'a handlers = "string \<Rightarrow> string list \<Rightarrow> session option \<Rightarrow> sourceRow option \<Rightarrow> auth \<Rightarrow> 'a answer \<times> auth"

definition serve :: "authEnv \<Rightarrow> 'a handlers \<Rightarrow> string \<Rightarrow> string list \<Rightarrow> string \<Rightarrow> auth \<Rightarrow> 'a answer \<times> auth" where
  "serve X H m p hdr s =
     (case dispatch m p of
        NotFound \<Rightarrow> (AnswerErr 404 [], s)
      | MethodNotAllowed \<Rightarrow> (AnswerErr 405 [], s)
      | Moved \<Rightarrow> (AnswerErr 301 [], s)
      | To r \<Rightarrow>
          (case ro_guard r of
             Open \<Rightarrow> H (ro_handler r) p None None s
           | Client \<Rightarrow> requireClient X hdr (\<lambda>ses. H (ro_handler r) p (Some ses) None) s
           | SourceKey \<Rightarrow> sourceKeyAuth X hdr (\<lambda>src. H (ro_handler r) p None (Some src)) s
           | DeviceKey \<Rightarrow>
               sourceKeyAuth X hdr (\<lambda>src t.
                 if s_Kind src \<noteq> ''device'' then (AnswerErr 403 ''forbidden'', t)
                 else H (ro_handler r) p None (Some src) t) s))"

section \<open>Request bodies\<close>

text \<open>
  The decompressor as a parameter: whether the header of the compressed text is accepted, and the
  bytes it gives with how it ends: at the end of the data, with an error in the data, or for lack
  of input.
\<close>

datatype gzEnd = GzEof | GzCorrupt | GzShort

record bodyEnv =
  be_header :: "string \<Rightarrow> bool"
  be_gunzip :: "string \<Rightarrow> string \<times> gzEnd"

definition maxBody :: nat where
  "maxBody = 256 * 1024"

datatype bodyError = UnsupportedEncoding | TooLarge | BadBody

primrec body_status :: "bodyError \<Rightarrow> int" where
  "body_status UnsupportedEncoding = 415"
| "body_status TooLarge = 413"
| "body_status BadBody = 400"

definition lower :: "string \<Rightarrow> string" where
  "lower s = map (\<lambda>c. let n = (of_char c :: nat) in if 65 \<le> n \<and> n \<le> 90 then char_of (n + 32) else c) s"

text \<open>
  What \<^verbatim>\<open>io.ReadAll\<close> gets.  Reading past the limit of \<^verbatim>\<open>http.MaxBytesReader\<close> fails; the decompressor
  meets this failure where it lacks input.  At most one byte more than the limit is taken from the
  decompressor.
\<close>

definition read_plain :: "string \<Rightarrow> bodyError + string" where
  "read_plain raw = (if maxBody < length raw then Inl TooLarge else Inr raw)"

definition rawLimit :: nat where
  "rawLimit = maxBody + 8 * 1024"

definition read_gzip :: "bodyEnv \<Rightarrow> string \<Rightarrow> bodyError + string" where
  "read_gzip B raw =
     (let inp = take rawLimit raw in
      if \<not> be_header B inp then Inl BadBody
      else
        (case be_gunzip B inp of (out, fin) \<Rightarrow>
          if maxBody < length out then Inl TooLarge
          else (case fin of
                  GzEof \<Rightarrow> Inr out
                | GzCorrupt \<Rightarrow> Inl BadBody
                | GzShort \<Rightarrow> Inl (if rawLimit < length raw then TooLarge else BadBody))))"

definition decodeBody :: "bodyEnv \<Rightarrow> (string \<Rightarrow> 'a option) \<Rightarrow> string \<Rightarrow> string \<Rightarrow> bodyError + 'a" where
  "decodeBody B unmarshal encoding raw =
     (let e = lower (TrimSpace encoding) in
      if e \<notin> {[], ''identity'', ''gzip''} then Inl UnsupportedEncoding
      else case (if e = ''gzip'' then read_gzip B raw else read_plain raw) of
        Inl err \<Rightarrow> Inl err
      | Inr data \<Rightarrow> (case unmarshal data of None \<Rightarrow> Inl BadBody | Some v \<Rightarrow> Inr v))"

section \<open>The address of the hub and the installation command\<close>

definition host_char :: "char \<Rightarrow> bool" where
  "host_char c \<longleftrightarrow> is_alnum c \<or> c \<in> set ''.-''"

definition v6_char :: "char \<Rightarrow> bool" where
  "v6_char c \<longleftrightarrow> c \<in> set ''0123456789abcdefABCDEF:''"

definition path_char :: "char \<Rightarrow> bool" where
  "path_char c \<longleftrightarrow> is_alnum c \<or> c \<in> set ''._~%/-''"

text \<open>\<open>installerURLRE\<close>, read from the left: the scheme, the host, an optional port, an optional path.\<close>

definition match_path :: "string \<Rightarrow> bool" where
  "match_path s = (case s of [] \<Rightarrow> True | c # r \<Rightarrow> c = CHR ''/'' \<and> list_all path_char r)"

definition match_port :: "string \<Rightarrow> bool" where
  "match_port s =
     (case s of
        c # r \<Rightarrow>
          if c = CHR '':'' then
            (let ds = takeWhile is_digit r in 1 \<le> length ds \<and> length ds \<le> 5 \<and> match_path (dropWhile is_digit r))
          else match_path s
      | [] \<Rightarrow> True)"

definition installerURL :: "string \<Rightarrow> bool" where
  "installerURL raw =
     (case strip_prefix ''https://'' raw of
        None \<Rightarrow> False
      | Some r \<Rightarrow>
          (case r of
             [] \<Rightarrow> False
           | c # t \<Rightarrow>
               if c = CHR ''['' then
                 takeWhile v6_char t \<noteq> [] \<and> (case dropWhile v6_char t of d # u \<Rightarrow> d = CHR '']'' \<and> match_port u | [] \<Rightarrow> False)
               else takeWhile host_char r \<noteq> [] \<and> match_port (dropWhile host_char r)))"

text \<open>What the code reads of \<^verbatim>\<open>url.Parse\<close>.\<close>

record parsedURL =
  pu_User :: bool
  pu_RawQuery :: string
  pu_Fragment :: string
  pu_Path :: string

fun has_sub :: "string \<Rightarrow> string \<Rightarrow> bool" where
  "has_sub p s = (strip_prefix p s \<noteq> None \<or> (case s of [] \<Rightarrow> False | _ # r \<Rightarrow> has_sub p r))"

declare has_sub.simps [simp del]

definition normalizedHTTPSURL :: "(string \<Rightarrow> parsedURL option) \<Rightarrow> string \<Rightarrow> string option" where
  "normalizedHTTPSURL parse raw =
     (case parse raw of
        None \<Rightarrow> None
      | Some u \<Rightarrow>
          if \<not> installerURL raw \<or> pu_User u \<or> pu_RawQuery u \<noteq> [] \<or> pu_Fragment u \<noteq> [] then None
          else if has_sub ''//'' (pu_Path u) then None
          else if list_ex (\<lambda>g. g = ''.'' \<or> g = ''..'') (split_on CHR ''/'' (pu_Path u)) then None
          else Some (trim_right CHR ''/'' raw))"

definition curl_head :: string where
  "curl_head = ''(tmpdir=$(mktemp -d) && trap '' @ [CHR 0x27] @ ''rm -rf \"$tmpdir\"'' @ [CHR 0x27] @
     '' EXIT && curl -q --fail --silent --show-error --max-redirs 0 --proto '' @ [CHR 0x27] @ ''=https'' @ [CHR 0x27] @
     '' --proto-redir '' @ [CHR 0x27] @ ''=https'' @ [CHR 0x27] @ '' --tlsv1.2 --connect-timeout 10 --max-time 120 ''"

definition install_command :: "string \<Rightarrow> bool \<Rightarrow> string" where
  "install_command base reconfigure =
     (let flag = (if reconfigure then '' --reconfigure'' else []) in
      curl_head @ shellQuote (base @ ''/api/v1/agent/install.sh'') @
      '' -o \"$tmpdir/install.sh\" && if [ \"$(id -u)\" -eq 0 ]; then bash \"$tmpdir/install.sh\" --hub '' @ shellQuote base @ flag @
      ''; else sudo bash \"$tmpdir/install.sh\" --hub '' @ shellQuote base @ flag @ ''; fi)'')"

record installJSON =
  ij_HubURL :: string
  ij_SourceKey :: string
  ij_command :: string

definition installBlock :: "(string \<Rightarrow> parsedURL option) \<Rightarrow> string \<Rightarrow> string \<Rightarrow> string \<Rightarrow> bool \<Rightarrow> installJSON" where
  "installBlock parse baseURL accessKey kind reconfigure =
     \<lparr>ij_HubURL = baseURL, ij_SourceKey = accessKey,
      ij_command =
        (if kind = ''device'' then
           (case normalizedHTTPSURL parse baseURL of None \<Rightarrow> [] | Some base \<Rightarrow> install_command base reconfigure)
         else [])\<rparr>"

section \<open>The configuration\<close>

definition getenv :: "(string \<Rightarrow> string) \<Rightarrow> string \<Rightarrow> string \<Rightarrow> string" where
  "getenv env key deflt = (if env key \<noteq> [] then env key else deflt)"

definition getenvInt :: "(string \<Rightarrow> string) \<Rightarrow> string \<Rightarrow> int \<Rightarrow> int" where
  "getenvInt env key deflt =
     (if env key \<noteq> [] then (case parse_int64 (env key) of None \<Rightarrow> deflt | Some n \<Rightarrow> if 0 < n then n else deflt) else deflt)"

record hubConfig =
  hc_bind :: string
  hc_dbPath :: string
  hc_adminUser :: string
  hc_adminPassword :: string
  hc_baseURL :: string
  hc_rawDays :: int
  hc_rollupDays :: int
  hc_messagesDays :: int
  hc_changesDays :: int
  hc_changesMinSeq :: int
  hc_heartbeatInterval :: duration
  hc_rollupInterval :: duration
  hc_retentionInterval :: duration
  hc_agentVersion :: string
  hc_agentCacheDir :: string
  hc_agentCacheMaxBytes :: int

definition hubVersion :: string where
  "hubVersion = ''1.2.0''"

text \<open>\<open>besideDB\<close> is \<^verbatim>\<open>filepath.Join(filepath.Dir(dbPath), "agent-cache")\<close>.\<close>

definition loadConfig :: "(string \<Rightarrow> string) \<Rightarrow> (string \<Rightarrow> string) \<Rightarrow> hubConfig" where
  "loadConfig besideDB env =
     (let dbPath = getenv env ''ASSIST_DB_PATH'' ''assistant-hub.db'' in
      \<lparr>hc_bind = getenv env ''ASSIST_BIND'' '':8795'', hc_dbPath = dbPath,
       hc_adminUser = getenv env ''ASSIST_ADMIN_USER'' ''admin'', hc_adminPassword = env ''ASSIST_ADMIN_PASSWORD'',
       hc_baseURL = getenv env ''ASSIST_BASE_URL'' ''http://localhost:8795'',
       hc_rawDays = getenvInt env ''ASSIST_RETENTION_RAW_DAYS'' 7,
       hc_rollupDays = getenvInt env ''ASSIST_RETENTION_ROLLUP_DAYS'' 90,
       hc_messagesDays = getenvInt env ''ASSIST_RETENTION_MESSAGES_DAYS'' 90,
       hc_changesDays = getenvInt env ''ASSIST_RETENTION_CHANGES_DAYS'' 7,
       hc_changesMinSeq = getenvInt env ''ASSIST_RETENTION_CHANGES_MIN_SEQ'' 100000,
       hc_heartbeatInterval = 2 * 1000000000, hc_rollupInterval = 60 * 1000000000, hc_retentionInterval = 3600 * 1000000000,
       hc_agentVersion = getenv env ''ASSIST_AGENT_VERSION'' hubVersion,
       hc_agentCacheDir = getenv env ''ASSIST_AGENT_CACHE_DIR'' (besideDB dbPath),
       hc_agentCacheMaxBytes = getenvInt env ''ASSIST_AGENT_CACHE_MAX_BYTES'' (512 * 1024 * 1024)\<rparr>)"

text \<open>The part of \<^verbatim>\<open>newApp\<close> that completes a configuration, and the password it hashes.\<close>

definition complete :: "(string \<Rightarrow> string) \<Rightarrow> hubConfig \<Rightarrow> hubConfig" where
  "complete besideDB cfg =
     cfg\<lparr>hc_agentVersion := (if hc_agentVersion cfg = [] then hubVersion else hc_agentVersion cfg),
         hc_agentCacheDir := (if hc_agentCacheDir cfg = [] then besideDB (hc_dbPath cfg) else hc_agentCacheDir cfg),
         hc_agentCacheMaxBytes := (if hc_agentCacheMaxBytes cfg \<le> 0 then 512 * 1024 * 1024 else hc_agentCacheMaxBytes cfg)\<rparr>"

definition admin_password :: "authEnv \<Rightarrow> hubConfig \<Rightarrow> nat \<Rightarrow> string" where
  "admin_password X cfg k = (if hc_adminPassword cfg = [] then token_at X ''admin_'' k else hc_adminPassword cfg)"

section \<open>The migration\<close>

text \<open>\<open>ddl\<close> says whether the statement that adds a column succeeds; the columns are those of \<^verbatim>\<open>sources\<close>.\<close>

primrec migrate_loop :: "(string \<Rightarrow> bool) \<Rightarrow> string list \<Rightarrow> string list \<Rightarrow> string list \<Rightarrow> bool \<times> string list" where
  "migrate_loop ddl cols [] tbl = (True, tbl)"
| "migrate_loop ddl cols (c # cs) tbl =
     (if c \<in> set cols then migrate_loop ddl cols cs tbl
      else if \<not> ddl c then (False, tbl)
      else migrate_loop ddl cols cs (tbl @ [c]))"

definition migrateSourcesV11 :: "(string \<Rightarrow> bool) \<Rightarrow> string list \<Rightarrow> bool \<times> string list" where
  "migrateSourcesV11 ddl tbl = migrate_loop ddl tbl [''mgmt_key_plain'', ''mgmt_key_hint''] tbl"

section \<open>Who reaches the handlers\<close>

text \<open>Two patterns that some path could match both.\<close>

fun overlap :: "seg list \<Rightarrow> seg list \<Rightarrow> bool" where
  "overlap [] [] = True"
| "overlap [Rest] (s # p) = True"
| "overlap (s # p) [Rest] = True"
| "overlap (Lit w # q) (Lit v # p) = (w = v \<and> overlap q p)"
| "overlap (Lit w # q) (Var # p) = (w \<noteq> [] \<and> overlap q p)"
| "overlap (Var # q) (Lit w # p) = (w \<noteq> [] \<and> overlap q p)"
| "overlap (Var # q) (Var # p) = overlap q p"
| "overlap q p = False"

lemma overlap_both: "seg_match a p \<Longrightarrow> seg_match b p \<Longrightarrow> overlap a b"
proof (induction a p arbitrary: b rule: seg_match.induct)
  case (2 s p)
  then show ?case by (cases b) auto
next
  case (3 w q s p)
  then show ?case by (cases b rule: list.exhaust; cases "hd b"; cases "tl b") (auto split: if_splits)
next
  case (4 q s p)
  then show ?case by (cases b rule: list.exhaust; cases "hd b"; cases "tl b") (auto split: if_splits)
qed (auto elim: seg_match.elims)

lemma method_both: "method_match m a \<Longrightarrow> method_match m b \<Longrightarrow> a = b \<or> a = ''HEAD'' \<or> b = ''HEAD''"
  by (auto simp: method_match_def)

lemma routes_apart:
  "sorted_wrt (\<lambda>a b. \<not> (ro_method a = ro_method b \<and> overlap (ro_segs a) (ro_segs b))) routes"
  by code_simp

lemma routes_methods: "list_all (\<lambda>r. ro_method r \<noteq> ''HEAD'') routes"
  by code_simp

lemma sorted_wrt_unique:
  "sorted_wrt R xs \<Longrightarrow> x \<in> set xs \<Longrightarrow> y \<in> set xs \<Longrightarrow> \<not> R x y \<Longrightarrow> \<not> R y x \<Longrightarrow> x = y"
  by (induction xs) auto

text \<open>
  No request is ambiguous: of all routes at most one matches a method and a path, so which
  handler answers, and behind which guard, does not depend on the order of registration.
\<close>

theorem routes_unambiguous:
  assumes "a \<in> set routes" "b \<in> set routes" "route_match m p a" "route_match m p b"
  shows "a = b"
proof (rule sorted_wrt_unique[OF routes_apart assms(1,2)])
  have h: "ro_method a \<noteq> ''HEAD''" "ro_method b \<noteq> ''HEAD''" using routes_methods assms(1,2) by (auto simp: list_all_iff)
  have m: "ro_method a = ro_method b" using assms(3,4) h method_both by (auto simp: route_match_def)
  have "overlap (ro_segs a) (ro_segs b)" "overlap (ro_segs b) (ro_segs a)"
    using assms(3,4) overlap_both by (auto simp: route_match_def)
  with m show "\<not> \<not> (ro_method a = ro_method b \<and> overlap (ro_segs a) (ro_segs b))"
    "\<not> \<not> (ro_method b = ro_method a \<and> overlap (ro_segs b) (ro_segs a))" by simp_all
qed

theorem routes_unambiguous_witness:
  "find (route_match ''HEAD'' [''rules'']) routes = Some (client_route ''GET'' [Lit ''rules''] ''handleRulesGet'')"
proof -
  let ?r = "client_route ''GET'' [Lit ''rules''] ''handleRulesGet''"
  have a: "?r \<in> set routes" by (simp add: routes_def manage_routes_def)
  have m: "route_match ''HEAD'' [''rules''] ?r" by (simp add: route_match_def method_match_def client_route_def)
  with a obtain b where b: "find (route_match ''HEAD'' [''rules'']) routes = Some b"
    by (cases "find (route_match ''HEAD'' [''rules'']) routes") (auto simp: find_None_iff)
  then have "b \<in> set routes" "route_match ''HEAD'' [''rules''] b" by (auto simp: find_Some_iff)
  with a m routes_unambiguous b show ?thesis by blast
qed

text \<open>The endpoints that need no credential.\<close>

definition open_endpoint :: "string \<Rightarrow> string list \<Rightarrow> bool" where
  "open_endpoint m p \<longleftrightarrow>
     m = ''POST'' \<and> (p = [''auth'', ''login''] \<or> p = [''auth'', ''refresh'']) \<or>
     (m = ''GET'' \<or> m = ''HEAD'') \<and>
       (p = [''agent'', ''install.sh''] \<or> p = [''agent'', ''releases'', ''stable''] \<or> p = [''health''] \<or> p = [''version''] \<or>
        (\<exists>v a. p = [''agent'', ''releases'', v, a]))"

lemma seg_match_lits:
  "seg_match [Lit a] p \<longleftrightarrow> p = [a]" "seg_match [Lit a, Lit b] p \<longleftrightarrow> p = [a, b]"
  "seg_match [Lit a, Lit b, Lit c] p \<longleftrightarrow> p = [a, b, c]"
proof -
  show 1: "seg_match [Lit a] p \<longleftrightarrow> p = [a]" for a p by (cases p; cases "tl p") auto
  show 2: "seg_match [Lit a, Lit b] p \<longleftrightarrow> p = [a, b]" for a b p using 1 by (cases p) auto
  show "seg_match [Lit a, Lit b, Lit c] p \<longleftrightarrow> p = [a, b, c]" using 2 by (cases p) auto
qed

lemma seg_match_vars: "seg_match [Lit a, Lit b, Var, Var] p \<Longrightarrow> \<exists>v w. p = [a, b, v, w]"
proof -
  assume m: "seg_match [Lit a, Lit b, Var, Var] p"
  have 1: "seg_match [Var] q \<Longrightarrow> \<exists>w. q = [w]" for q by (cases q; cases "tl q") auto
  have 2: "seg_match [Var, Var] q \<Longrightarrow> \<exists>v w. q = [v, w]" for q using 1 by (cases q) auto
  have 3: "seg_match [Lit b, Var, Var] q \<Longrightarrow> \<exists>v w. q = [b, v, w]" for q using 2 by (cases q) auto
  show ?thesis using m 3 by (cases p) auto
qed

lemma open_route_endpoint:
  assumes "r \<in> set routes" "ro_guard r = Open" "route_match m p r"
  shows "open_endpoint m p"
proof -
  have "list_all (\<lambda>r. ro_guard r \<noteq> Open) (source_routes @ read_routes @ manage_routes)" by code_simp
  then have r: "r \<in> set open_routes" using assms(1,2) by (auto simp: routes_def list_all_iff)
  have get: "method_match m ''GET'' \<Longrightarrow> m = ''GET'' \<or> m = ''HEAD''" and post: "method_match m ''POST'' \<Longrightarrow> m = ''POST''"
    by (auto simp: method_match_def)
  have "list_all (\<lambda>r. method_match m (ro_method r) \<and> seg_match (ro_segs r) p \<longrightarrow> open_endpoint m p) open_routes"
    unfolding open_routes_def open_endpoint_def list.pred_inject route.simps seg_match_lits
    by (intro conjI impI list.pred_inject(1); elim conjE; (drule get | drule post); (drule seg_match_vars)?; blast)
  then show ?thesis using r assms(3) by (auto simp: route_match_def list_all_iff)
qed

lemma dispatch_route: "dispatch m p = To r \<Longrightarrow> r \<in> set routes \<and> route_match m p r"
  by (auto simp: dispatch_def find_Some_iff split: option.splits if_splits)

lemma clientSession_db: "h_db (au_hub (snd (clientSession X hdr s))) = h_db (au_hub s)"
  by (auto simp: clientSession_def bindT_def Let_def hubT_def get_db_def getT_def nowUTC_def retT_def failT_def modT_def thenT_def
      split: if_splits option.splits prod.splits sum.splits)

text \<open>
  C38: A request without a credential stays outside: when the header carries no token of a live
  session and no key of a live source, every request but those to the seven open endpoints is
  answered by the frame itself, with 401 or with the answers of the router (301, 404, 405), no
  handler runs, and nothing in the hub's database changes.
\<close>

theorem anonymous_requests_confined:
  assumes "fst (clientSession X hdr s) = Inr None"
    and "loadSourceByKeyHash (h_db (au_hub s)) (hashToken X (bearerToken hdr)) = None"
    and "\<not> open_endpoint m p"
  shows "\<exists>c e u. serve X H m p hdr s = (AnswerErr c e, u) \<and> c \<in> {301, 401, 404, 405} \<and> h_db (au_hub u) = h_db (au_hub s)"
proof (cases "dispatch m p")
  case (To r)
  then have "ro_guard r \<noteq> Open" using dispatch_route open_route_endpoint assms(3) by blast
  moreover obtain t where "clientSession X hdr s = (Inr None, t)" "h_db (au_hub t) = h_db (au_hub s)"
    using assms(1) clientSession_db[of X hdr s] by (metis prod.collapse)
  ultimately show ?thesis
    using assms(2) To by (cases "ro_guard r") (auto simp: serve_def requireClient_def sourceKeyAuth_def Let_def)
qed (auto simp: serve_def)

section \<open>Bodies, addresses and configuration\<close>

text \<open>
  A request body is never larger than 256 KiB when it is decoded: on success the decoded text
  is the body itself or what the decompressor gave up to its regular end, and has at most 262144
  bytes.  A longer body is refused with 413, compressed or not, and the refusals have the status
  codes 400, 413 and 415.
\<close>

theorem decoded_body_bounded:
  "(\<forall>v. decodeBody B unmarshal enc raw = Inr v \<longrightarrow>
      (\<exists>text. length text \<le> 262144 \<and> unmarshal text = Some v \<and> (text = raw \<or> be_gunzip B (take rawLimit raw) = (text, GzEof)))) \<and>
   (262144 < length raw \<and> lower (TrimSpace enc) \<in> {[], ''identity''} \<longrightarrow> decodeBody B unmarshal enc raw = Inl TooLarge) \<and>
   (lower (TrimSpace enc) = ''gzip'' \<and> be_header B (take rawLimit raw) \<and> 262144 < length (fst (be_gunzip B (take rawLimit raw))) \<longrightarrow>
      decodeBody B unmarshal enc raw = Inl TooLarge) \<and>
   (\<forall>e. decodeBody B unmarshal enc raw = Inl e \<longrightarrow> body_status e \<in> {400, 413, 415})"
proof -
  have m: "maxBody = 262144" by (simp add: maxBody_def)
  have status: "body_status e \<in> {400, 413, 415}" for e by (cases e) simp_all
  have plain: "read_plain raw = Inr d \<Longrightarrow> d = raw \<and> length d \<le> 262144" for d
    by (auto simp: read_plain_def m split: if_splits)
  have gz: "read_gzip B raw = Inr d \<Longrightarrow> be_gunzip B (take rawLimit raw) = (d, GzEof) \<and> length d \<le> 262144" for d
    by (auto simp: read_gzip_def m Let_def split: if_splits prod.splits gzEnd.splits)
  have ok: "\<exists>text. length text \<le> 262144 \<and> unmarshal text = Some v \<and> (text = raw \<or> be_gunzip B (take rawLimit raw) = (text, GzEof))"
    if "decodeBody B unmarshal enc raw = Inr v" for v
    using that plain gz by (auto simp: decodeBody_def Let_def split: if_splits sum.splits option.splits)
  have big: "262144 < length raw \<Longrightarrow> read_plain raw = Inl TooLarge" by (simp add: read_plain_def m)
  have bomb: "be_header B (take rawLimit raw) \<Longrightarrow> 262144 < length (fst (be_gunzip B (take rawLimit raw))) \<Longrightarrow> read_gzip B raw = Inl TooLarge"
    by (auto simp: read_gzip_def m Let_def split: prod.splits)
  show ?thesis using ok big bomb status by (auto simp: decodeBody_def Let_def)
qed

text \<open>The characters that a shell takes literally in a quoted address.\<close>

definition safe_char :: "char \<Rightarrow> bool" where
  "safe_char c \<longleftrightarrow> is_alnum c \<or> c \<in> set ''.-_~%/:[]''"

lemma safe_lit: "c \<in> set ''.-_~%/:[]'' \<Longrightarrow> safe_char c"
  by (simp only: safe_char_def) simp

lemma safe_alnum: "is_alnum c \<Longrightarrow> safe_char c"
  by (simp add: safe_char_def)

lemma digit_safe: "is_digit c \<Longrightarrow> safe_char c"
proof (rule safe_alnum)
  assume "is_digit c"
  then have "48 \<le> int (of_char c)" "int (of_char c) \<le> 57"
    by (auto simp: is_digit_def digit_val_def Let_def of_nat_of_char split: if_splits)
  then show "is_alnum c" by (auto simp: is_alnum_def Let_def)
qed

lemma strip_prefix_append: "strip_prefix p s = Some r \<Longrightarrow> s = p @ r"
  by (auto simp: strip_prefix_def split: if_splits) (metis append_take_drop_id)

lemma host_safe: "host_char c \<Longrightarrow> safe_char c"
  by (auto simp: host_char_def intro: safe_alnum safe_lit)

lemma path_safe: "path_char c \<Longrightarrow> safe_char c"
  by (auto simp: path_char_def intro: safe_alnum safe_lit)

lemma v6_safe: "v6_char c \<Longrightarrow> safe_char c"
proof -
  have "list_all safe_char ''0123456789abcdefABCDEF:''" by code_simp
  moreover assume "v6_char c"
  ultimately show ?thesis unfolding v6_char_def list_all_iff by blast
qed

lemma take_safe: "(\<And>c. P c \<Longrightarrow> safe_char c) \<Longrightarrow> list_all safe_char (takeWhile P s)"
  by (auto simp: list_all_iff dest: set_takeWhileD)

lemma split_at: "list_all safe_char (takeWhile P s) \<Longrightarrow> list_all safe_char (dropWhile P s) \<Longrightarrow> list_all safe_char s"
  by (metis list_all_append takeWhile_dropWhile_id)

lemma match_path_safe: "match_path s \<Longrightarrow> list_all safe_char s"
  using path_safe by (cases s) (auto simp: match_path_def list_all_iff intro: safe_lit)

lemma match_port_safe: "match_port s \<Longrightarrow> list_all safe_char s"
proof (cases s)
  case (Cons c r)
  assume a: "match_port s"
  show ?thesis
  proof (cases "c = CHR '':''")
    case True
    then have "match_path (dropWhile is_digit r)" using a Cons by (simp add: match_port_def Let_def)
    then have "list_all safe_char r" using split_at[OF take_safe[OF digit_safe] match_path_safe] by blast
    then show ?thesis using Cons True safe_lit[of c] by simp
  next
    case False
    then have "match_path s" using a Cons by (simp add: match_port_def)
    then show ?thesis by (rule match_path_safe)
  qed
qed simp

lemma installerURL_safe: "installerURL raw \<Longrightarrow> list_all safe_char raw"
proof -
  assume a: "installerURL raw"
  then obtain r where s: "strip_prefix ''https://'' raw = Some r" by (cases "strip_prefix ''https://'' raw") (simp_all add: installerURL_def)
  then have r: "raw = ''https://'' @ r" by (rule strip_prefix_append)
  have "list_all safe_char r"
  proof (cases r)
    case Nil
    then show ?thesis by simp
  next
    case (Cons c t)
    then have body: "if c = CHR ''['' then
        takeWhile v6_char t \<noteq> [] \<and> (case dropWhile v6_char t of d # u \<Rightarrow> d = CHR '']'' \<and> match_port u | [] \<Rightarrow> False)
      else takeWhile host_char r \<noteq> [] \<and> match_port (dropWhile host_char r)"
      using a unfolding installerURL_def s by (simp only: option.case list.case)
    show ?thesis
    proof (cases "c = CHR ''[''")
      case True
      with body have "case dropWhile v6_char t of d # u \<Rightarrow> d = CHR '']'' \<and> match_port u | [] \<Rightarrow> False" by simp
      then have "list_all safe_char (dropWhile v6_char t)"
        using match_port_safe safe_lit[of "CHR '']''"] by (cases "dropWhile v6_char t") auto
      then have "list_all safe_char t" using split_at[OF take_safe[OF v6_safe]] by blast
      then show ?thesis using Cons True safe_lit[of c] by simp
    next
      case False
      then have "match_port (dropWhile host_char r)" using body by simp
      then show ?thesis using split_at[OF take_safe[OF host_safe] match_port_safe] by blast
    qed
  qed
  moreover have "list_all safe_char ''https://''" by code_simp
  ultimately show ?thesis using r by simp
qed

lemma trim_right_sub: "set (trim_right c s) \<subseteq> set s"
  by (auto simp: trim_right_def dest: set_dropWhileD)


lemma getenvInt_pos: "0 < deflt \<Longrightarrow> 0 < getenvInt env key deflt"
  by (auto simp: getenvInt_def split: option.splits)

interpretation hub_env: env_lookup getenv
  by unfold_locales (simp_all add: getenv_def)

lemma complete_id: "hc_agentVersion cfg \<noteq> [] \<Longrightarrow> hc_agentCacheDir cfg \<noteq> [] \<Longrightarrow> 0 < hc_agentCacheMaxBytes cfg \<Longrightarrow> complete b cfg = cfg"
  by (simp add: complete_def)

text \<open>
  Whatever the environment holds, the hub starts with a usable configuration: every retention
  period, the number of changes that are kept and the size of the release cache are positive, and
  the address to listen on, the database, the administrator's name, the hub's address and the
  version of the agent are not empty; the password that is hashed is never empty.  Completing a
  configuration keeps these and does nothing to one that was loaded.
\<close>

theorem loaded_config_usable:
  assumes "\<forall>d. besideDB d \<noteq> []"
  shows "let cfg = loadConfig besideDB env in
     0 < hc_rawDays cfg \<and> 0 < hc_rollupDays cfg \<and> 0 < hc_messagesDays cfg \<and> 0 < hc_changesDays cfg \<and> 0 < hc_changesMinSeq cfg \<and>
     0 < hc_agentCacheMaxBytes cfg \<and> hc_bind cfg \<noteq> [] \<and> hc_dbPath cfg \<noteq> [] \<and> hc_adminUser cfg \<noteq> [] \<and> hc_baseURL cfg \<noteq> [] \<and>
     hc_agentVersion cfg \<noteq> [] \<and> hc_agentCacheDir cfg \<noteq> [] \<and> admin_password X cfg k \<noteq> [] \<and> complete besideDB cfg = cfg"
proof -
  let ?c = "loadConfig besideDB env"
  have n: "0 < hc_rawDays ?c" "0 < hc_rollupDays ?c" "0 < hc_messagesDays ?c" "0 < hc_changesDays ?c" "0 < hc_changesMinSeq ?c"
    "0 < hc_agentCacheMaxBytes ?c"
    by (simp_all add: loadConfig_def Let_def getenvInt_pos)
  have t: "hc_bind ?c \<noteq> []" "hc_dbPath ?c \<noteq> []" "hc_adminUser ?c \<noteq> []" "hc_baseURL ?c \<noteq> []" "hc_agentVersion ?c \<noteq> []"
    "hc_agentCacheDir ?c \<noteq> []"
    using assms by (simp_all add: loadConfig_def Let_def hub_env.look_nonempty hubVersion_def)
  have "admin_password X ?c k \<noteq> []" by (simp add: admin_password_def token_at_def)
  moreover have "complete besideDB ?c = ?c" using n(6) t(5,6) by (rule complete_id[rotated 2])
  ultimately show ?thesis using n t by (simp only: Let_def) simp
qed

theorem loaded_config_usable_witness:
  "let cfg = loadConfig (\<lambda>d. ''agent-cache'') (\<lambda>v. if v = ''ASSIST_RETENTION_RAW_DAYS'' then ''-3'' else []) in
     0 < hc_rawDays cfg \<and> complete (\<lambda>d. ''agent-cache'') cfg = cfg"
  using loaded_config_usable[of "\<lambda>d. ''agent-cache''" "\<lambda>v. if v = ''ASSIST_RETENTION_RAW_DAYS'' then ''-3'' else []"]
  by (simp only: Let_def) simp

section \<open>Columns\<close>

lemma migrate_done: "set cs \<subseteq> set cols \<Longrightarrow> migrate_loop ddl cols cs tbl = (True, tbl)"
  by (induction cs) auto

lemma migrate_adds: "migrate_loop ddl cols cs tbl = (True, t) \<Longrightarrow> set cols \<subseteq> set tbl \<Longrightarrow> set tbl \<union> set cs \<subseteq> set t"
  by (induction cs arbitrary: tbl) (fastforce split: if_splits)+

text \<open>
  The migration of the table of sources, once it has succeeded, leaves both columns of the
  management key beside all older ones, and running it again changes nothing, even if no
  statement could be run.
\<close>

theorem migration_idempotent:
  assumes "migrateSourcesV11 ddl tbl = (True, t)"
  shows "set tbl \<union> {''mgmt_key_plain'', ''mgmt_key_hint''} \<subseteq> set t \<and> migrateSourcesV11 ddl' t = (True, t)"
proof -
  have a: "set tbl \<union> set [''mgmt_key_plain'', ''mgmt_key_hint''] \<subseteq> set t"
    using assms migrate_adds unfolding migrateSourcesV11_def by blast
  then have "set [''mgmt_key_plain'', ''mgmt_key_hint''] \<subseteq> set t" by simp
  from migrate_done[OF this] a show ?thesis by (simp add: migrateSourcesV11_def)
qed

section \<open>Witnesses\<close>

theorem anonymous_requests_confined_witness:
  "\<exists>c e u. serve sample_auth (\<lambda>h p ses src s. (AnswerOk 200 (), s)) ''PUT'' [''rules''] [] auth_start = (AnswerErr c e, u) \<and>
     c \<in> {301, 401, 404, 405} \<and> h_db (au_hub u) = h_db (au_hub auth_start)"
proof (rule anonymous_requests_confined)
  have b: "bearerToken [] = []" by code_simp
  show "fst (clientSession sample_auth [] auth_start) = Inr None" by (simp add: clientSession_def b)
  show "loadSourceByKeyHash (h_db (au_hub auth_start)) (hashToken sample_auth (bearerToken [])) = None"
    by (simp add: loadSourceByKeyHash_def auth_start_def hub_start_def empty_db_def)
  show "\<not> open_endpoint ''PUT'' [''rules'']" by (simp add: open_endpoint_def)
qed

definition plain_gzip :: bodyEnv where
  "plain_gzip = \<lparr>be_header = (\<lambda>x. True), be_gunzip = (\<lambda>x. (x, GzEof))\<rparr>"

theorem decoded_body_bounded_witness:
  "decodeBody plain_gzip Some ''identity'' (replicate 262145 CHR ''x'') = Inl TooLarge \<and> body_status TooLarge \<in> {400, 413, 415}"
proof -
  have "lower (TrimSpace ''identity'') \<in> {[], ''identity''}" by code_simp
  moreover have "262144 < length (replicate 262145 CHR ''x'')" by simp
  ultimately show ?thesis
    using decoded_body_bounded[of plain_gzip Some "''identity''" "replicate 262145 CHR ''x''"] by blast
qed

definition sample_url :: "string \<Rightarrow> parsedURL option" where
  "sample_url raw = Some \<lparr>pu_User = False, pu_RawQuery = [], pu_Fragment = [], pu_Path = ''/''\<rparr>"


theorem migration_idempotent_witness:
  "migrateSourcesV11 (\<lambda>c. True) [''id'', ''name''] = (True, [''id'', ''name'', ''mgmt_key_plain'', ''mgmt_key_hint'']) \<and>
   migrateSourcesV11 (\<lambda>c. False) [''id'', ''name'', ''mgmt_key_plain'', ''mgmt_key_hint''] =
     (True, [''id'', ''name'', ''mgmt_key_plain'', ''mgmt_key_hint''])"
proof -
  have "migrateSourcesV11 (\<lambda>c. True) [''id'', ''name''] = (True, [''id'', ''name'', ''mgmt_key_plain'', ''mgmt_key_hint''])"
    by (simp add: migrateSourcesV11_def)
  with migration_idempotent[OF this, of "\<lambda>c. False"] show ?thesis by blast
qed

end
