(* ===== verification/Collect.thy ===== *)
theory Collect
  imports Reporter
begin

text \<open>
  The agent's collectors (\<^verbatim>\<open>agent/internal/collect\<close>).  What the operating system, Docker and the
  tools deliver is a parameter \<open>probe\<close>: the readings of \<^verbatim>\<open>gopsutil\<close>, the answers of the
  Docker API, the output of commands, files and directories, and the decoded form of
  \<^verbatim>\<open>smartctl\<close>'s JSON.  The state is the last reading of the counters and the list of the
  commands that were run.  Goroutines that write to different fields_of are run one after the
  other.  Tools print ASCII; letters are compared without case for ASCII only.
\<close>

section \<open>Text\<close>

definition is_space :: "char \<Rightarrow> bool" where
  "is_space c \<longleftrightarrow> c \<in> {CHR 0x09, CHR 0x0A, CHR 0x0B, CHR 0x0C, CHR 0x0D, CHR '' ''}"

text \<open>The class \<^verbatim>\<open>\s\<close> of regular expressions has no vertical tab.\<close>

definition re_space :: "char \<Rightarrow> bool" where
  "re_space c \<longleftrightarrow> is_space c \<and> c \<noteq> CHR 0x0B"

definition lower_c :: "char \<Rightarrow> char" where
  "lower_c c = (let n = (of_char c :: nat) in if 65 \<le> n \<and> n \<le> 90 then char_of (n + 32) else c)"

definition toLower :: "string \<Rightarrow> string" where
  "toLower s = map lower_c s"

definition toUpper :: "string \<Rightarrow> string" where
  "toUpper s = map (\<lambda>c. let n = (of_char c :: nat) in if 97 \<le> n \<and> n \<le> 122 then char_of (n - 32) else c) s"

fun str_contains :: "string \<Rightarrow> string \<Rightarrow> bool" where
  "str_contains p s = (strip_prefix p s \<noteq> None \<or> (case s of [] \<Rightarrow> False | _ # r \<Rightarrow> str_contains p r))"

declare str_contains.simps [simp del]

definition trimSpace :: "string \<Rightarrow> string" where
  "trimSpace s = rev (dropWhile is_space (rev (dropWhile is_space s)))"

text \<open>\<^verbatim>\<open>strings.Fields\<close>: the maximal runs of characters that are not spaces.\<close>

function (sequential) fields_of :: "string \<Rightarrow> string list" where
  "fields_of [] = []"
| "fields_of (c # s) =
     (if is_space c then fields_of s
      else (c # takeWhile (\<lambda>x. \<not> is_space x) s) # fields_of (dropWhile (\<lambda>x. \<not> is_space x) s))"
  by pat_completeness auto
termination
  by (relation "measure length") (auto simp: less_Suc_eq_le length_dropWhile_le)

definition split_lines :: "string \<Rightarrow> string list" where
  "split_lines s = split_on CHR 0x0A s"

section \<open>SMART (smartctl.go)\<close>

record smartctlJSON =
  sj_ExitStatus :: "int option"          \<comment> \<open>\<open>None\<close>: no block \<open>smartctl\<close>\<close>
  sj_Messages :: "string list"
  sj_PowerMode :: string
  sj_Passed :: "bool option"
  sj_Temperature :: "rat option"
  sj_NvmeTemperature :: "rat option"
  sj_NvmeWarning :: "int option"

text \<open>\<^verbatim>\<open>int(x)\<close> of a float truncates towards zero.\<close>

definition trunc :: "rat \<Rightarrow> int" where
  "trunc x = (if 0 \<le> x then floor x else - floor (- x))"

definition smartTemp :: "smartctlJSON \<Rightarrow> int option" where
  "smartTemp j =
     (case sj_Temperature j of
        Some t \<Rightarrow> Some (trunc (t + 1 / 2))
      | None \<Rightarrow>
          (case sj_NvmeTemperature j of
             None \<Rightarrow> None
           | Some k \<Rightarrow>
               if 0 < k then (let v = trunc (k - 27315 / 100 + 1 / 2) in if v < -50 \<or> 200 < v then None else Some v)
               else None))"

definition standbyMsg :: "string \<Rightarrow> bool" where
  "standbyMsg s \<longleftrightarrow> (\<exists>p \<in> set [''in standby'', ''in sleep'', ''sleep mode'', ''is sleeping'']. str_contains p (toLower s))"

definition smartUnsup :: "string \<Rightarrow> bool" where
  "smartUnsup s \<longleftrightarrow> (\<exists>p \<in> set [''unknown usb bridge'', ''unable to detect device type'', ''lacks smart'', ''smart not supported'',
     ''please specify device type'']. str_contains p (toLower s))"

text \<open>The state and the temperature; the empty state when the output cannot be read.\<close>

definition parseSmartctlA :: "(string \<Rightarrow> smartctlJSON option) \<Rightarrow> string \<Rightarrow> string \<times> int option" where
  "parseSmartctlA decode out =
     (if trimSpace out = [] then ([], None)
      else case decode out of
        None \<Rightarrow> ([], None)
      | Some j \<Rightarrow>
          if str_contains ''STANDBY'' (toUpper (sj_PowerMode j)) \<or> str_contains ''SLEEP'' (toUpper (sj_PowerMode j)) then (''asleep'', None)
          else
            (let msgs = (if sj_ExitStatus j = None then [] else sj_Messages j);
                 unsup = list_ex smartUnsup msgs;
                 standby = list_ex (\<lambda>s. standbyMsg s \<and> \<not> str_contains ''not in'' (toLower s)) msgs;
                 temp = smartTemp j in
             if standby then (''asleep'', None)
             else case sj_Passed j of
               Some p \<Rightarrow> (if p then ''ok'' else ''failing'', temp)
             | None \<Rightarrow>
                 (case sj_NvmeWarning j of
                    Some w \<Rightarrow> (if w = 0 then ''ok'' else ''failing'', temp)
                  | None \<Rightarrow>
                      if (case sj_ExitStatus j of None \<Rightarrow> False | Some x \<Rightarrow> bit x 3) then (''failing'', temp)
                      else if unsup then (''unsupported'', temp)
                      else (''failed'', temp))))"

definition shortDev :: "string \<Rightarrow> string" where
  "shortDev dev = (case strip_prefix ''/dev/'' dev of None \<Rightarrow> dev | Some r \<Rightarrow> r)"

text \<open>\<open>sysBlockDiskRe\<close>: \<open>sd\<close> or \<open>hd\<close> with letters, or \<open>nvme\<close> with two numbers.\<close>

definition is_lower_c :: "char \<Rightarrow> bool" where
  "is_lower_c c \<longleftrightarrow> 97 \<le> (of_char c :: nat) \<and> (of_char c :: nat) \<le> 122"

definition sysBlockDisk :: "string \<Rightarrow> bool" where
  "sysBlockDisk s =
     ((case strip_prefix ''sd'' s of None \<Rightarrow> False | Some r \<Rightarrow> r \<noteq> [] \<and> list_all is_lower_c r) \<or>
      (case strip_prefix ''hd'' s of None \<Rightarrow> False | Some r \<Rightarrow> r \<noteq> [] \<and> list_all is_lower_c r) \<or>
      (case strip_prefix ''nvme'' s of
         None \<Rightarrow> False
       | Some r \<Rightarrow>
           (case dropWhile is_digit r of
              [] \<Rightarrow> False
            | c # t \<Rightarrow> takeWhile is_digit r \<noteq> [] \<and> c = CHR ''n'' \<and> t \<noteq> [] \<and> list_all is_digit t)))"

text \<open>
  The probes.  A command gives its output and the text of its error, if any.
\<close>

type_synonym cmdLog = "string list list"

record probe =
  pr_run :: "nat \<Rightarrow> string list \<Rightarrow> string \<times> string option"
  pr_look :: "string \<Rightarrow> bool"
  pr_readFile :: "string \<Rightarrow> string option"
  pr_listDir :: "string \<Rightarrow> string list option"
  pr_scan :: "string \<Rightarrow> string list option"
  pr_smart :: "string \<Rightarrow> smartctlJSON option"
  pr_smartMode :: string
  pr_mdadm :: bool

definition runT :: "probe \<Rightarrow> string list \<Rightarrow> cmdLog \<Rightarrow> (string \<times> string option) \<times> cmdLog" where
  "runT p cmd cl = (pr_run p (length cl) cmd, cl @ [cmd])"

definition discoverSmartDevices :: "probe \<Rightarrow> cmdLog \<Rightarrow> string list \<times> cmdLog" where
  "discoverSmartDevices p cl =
     (case runT p [''smartctl'', ''--scan'', ''-j''] cl of ((out, err), cl1) \<Rightarrow>
       (let devs = (if err = None then (case pr_scan p out of None \<Rightarrow> [] | Some ns \<Rightarrow> filter (\<lambda>n. n \<noteq> []) ns) else []) in
        if devs \<noteq> [] then (sort devs, cl1)
        else
          (sort (case pr_listDir p ''/sys/block'' of None \<Rightarrow> [] | Some es \<Rightarrow> map (\<lambda>e. ''/dev/'' @ e) (filter sysBlockDisk es)), cl1)))"

definition smartOne :: "probe \<Rightarrow> string \<Rightarrow> cmdLog \<Rightarrow> nasDiskPayload \<times> cmdLog" where
  "smartOne p dev cl =
     (case runT p [''smartctl'', ''-n'', ''standby'', ''-A'', ''-j'', dev] cl of ((out, err), cl1) \<Rightarrow>
       (case parseSmartctlA (pr_smart p) out of (state, temp) \<Rightarrow>
         (let state1 = (if state \<noteq> [] then state else if err = None \<and> out = [] then ''unsupported'' else ''failed'') in
          (\<lparr>nd_Dev = shortDev dev, nd_Smart = state1, nd_TempC = map_option of_int temp\<rparr>, cl1))))"

primrec smartAll :: "probe \<Rightarrow> string list \<Rightarrow> cmdLog \<Rightarrow> nasDiskPayload list \<times> cmdLog" where
  "smartAll p [] cl = ([], cl)"
| "smartAll p (dev # devs) cl =
     (case smartOne p dev cl of (d, cl1) \<Rightarrow> case smartAll p devs cl1 of (ds, cl2) \<Rightarrow> (d # ds, cl2))"

definition count_state :: "string \<Rightarrow> nasDiskPayload list \<Rightarrow> nat" where
  "count_state st ds = length (filter (\<lambda>d. nd_Smart d = st) ds)"

definition smartCap :: "nasDiskPayload list \<Rightarrow> string" where
  "smartCap results =
     (if count_state ''failed'' results = length results then ''failed''
      else if count_state ''unsupported'' results = length results then ''unsupported''
      else if 0 < count_state ''asleep'' results then ''asleep''
      else ''ok'')"

definition probeSmart :: "probe \<Rightarrow> cmdLog \<Rightarrow> (nasDiskPayload list \<times> string) \<times> cmdLog" where
  "probeSmart p cl =
     (let mode = (if pr_smartMode p = [] then ''auto'' else pr_smartMode p) in
      if mode = ''off'' then (([], ''unsupported''), cl)
      else if \<not> pr_look p ''smartctl'' then (([], if mode = ''on'' then ''failed'' else ''unsupported''), cl)
      else
        (case discoverSmartDevices p cl of (devs, cl1) \<Rightarrow>
          if devs = [] then (([], ''unsupported''), cl1)
          else (case smartAll p devs cl1 of (results, cl2) \<Rightarrow> ((results, smartCap results), cl2))))"

section \<open>Storage pools (pools.go)\<close>

text \<open>\<open>btrfsLabelRe\<close>: the quoted and the plain label and the identifier of the first match.\<close>

definition btrfs_rest :: "string \<Rightarrow> string option" where
  "btrfs_rest s =
     (case dropWhile re_space s of
        t \<Rightarrow> if s = t then None
             else case strip_prefix ''uuid:'' t of
               None \<Rightarrow> None
             | Some u \<Rightarrow>
                 if u \<noteq> [] \<and> re_space (hd u) \<and> takeWhile (\<lambda>c. \<not> re_space c) (dropWhile re_space u) \<noteq> []
                 then Some (takeWhile (\<lambda>c. \<not> re_space c) (dropWhile re_space u)) else None)"

definition btrfs_at :: "string \<Rightarrow> (string \<times> string) option" where
  "btrfs_at s =
     (case strip_prefix ''Label:'' s of
        None \<Rightarrow> None
      | Some r \<Rightarrow>
          if r = [] \<or> \<not> re_space (hd r) then None
          else
            (let t = dropWhile re_space r;
                 quoted = (case t of
                   c # u \<Rightarrow>
                     if c = CHR 0x27 \<and> CHR 0x27 \<in> set u then
                       map_option (\<lambda>i. (takeWhile (\<lambda>x. x \<noteq> CHR 0x27) u, i)) (btrfs_rest (List.tl (dropWhile (\<lambda>x. x \<noteq> CHR 0x27) u)))
                     else None
                 | [] \<Rightarrow> None)
             in case quoted of
                  Some m \<Rightarrow> Some m
                | None \<Rightarrow>
                    if takeWhile (\<lambda>c. \<not> re_space c) t = [] then None
                    else map_option (\<lambda>i. ([], i)) (btrfs_rest (dropWhile (\<lambda>c. \<not> re_space c) t))))"

fun btrfs_match :: "string \<Rightarrow> (string \<times> string) option" where
  "btrfs_match [] = None"
| "btrfs_match (c # s) = (case btrfs_at (c # s) of Some m \<Rightarrow> Some m | None \<Rightarrow> btrfs_match s)"

definition flush :: "nasPoolPayload list \<times> nasPoolPayload option \<Rightarrow> nasPoolPayload list" where
  "flush acc = fst acc @ (case snd acc of None \<Rightarrow> [] | Some c \<Rightarrow> [c])"

definition btrfs_line ::
  "string \<Rightarrow> nasPoolPayload list \<times> nasPoolPayload option \<Rightarrow> nasPoolPayload list \<times> nasPoolPayload option" where
  "btrfs_line line acc =
     (case btrfs_match line of
        Some (label, uuid) \<Rightarrow>
          (flush acc, Some \<lparr>npl_Name = (if label = [] \<or> label = ''none'' then uuid else label), npl_State = ''ok''\<rparr>)
      | None \<Rightarrow>
          (fst acc, if str_contains ''Some devices missing'' line then map_option (\<lambda>c. c\<lparr>npl_State := ''degraded''\<rparr>) (snd acc)
                    else snd acc))"

definition parseBtrfsShow :: "string \<Rightarrow> nasPoolPayload list" where
  "parseBtrfsShow out = flush (fold btrfs_line (split_lines out) ([], None))"

definition zpoolHealth :: "string \<Rightarrow> string" where
  "zpoolHealth h =
     (let u = toUpper h in
      if u = ''ONLINE'' then ''ok''
      else if u = ''DEGRADED'' then ''degraded''
      else if u \<in> {''FAULTED'', ''UNAVAIL'', ''REMOVED'', ''SUSPENDED''} then ''error''
      else ''unknown'')"

definition zpool_line :: "string \<Rightarrow> nasPoolPayload list" where
  "zpool_line l =
     (case fields_of (trimSpace l) of n # h # _ \<Rightarrow> [\<lparr>npl_Name = n, npl_State = zpoolHealth h\<rparr>] | _ \<Rightarrow> [])"

definition parseZpoolList :: "string \<Rightarrow> nasPoolPayload list" where
  "parseZpoolList out = concat (map zpool_line (split_lines out))"

definition is_word :: "char \<Rightarrow> bool" where
  "is_word c \<longleftrightarrow> is_alnum c \<or> c = CHR ''_''"

text \<open>\<open>mdadmArrayRe\<close>: the name of the array and the word after the colon.\<close>

definition md_array :: "string \<Rightarrow> (string \<times> string) option" where
  "md_array line =
     (case strip_prefix ''md'' line of
        None \<Rightarrow> None
      | Some r \<Rightarrow>
          if takeWhile is_digit r = [] then None
          else
            (case dropWhile re_space (dropWhile is_digit r) of
               c # t \<Rightarrow>
                 if c = CHR '':'' \<and> takeWhile is_word (dropWhile re_space t) \<noteq> []
                 then Some (''md'' @ takeWhile is_digit r, takeWhile is_word (dropWhile re_space t)) else None
             | [] \<Rightarrow> None))"

text \<open>\<open>mdadmStatusRe\<close>: the first bracket that holds only \<open>U\<close> and \<open>_\<close>.\<close>

fun md_status :: "string \<Rightarrow> string option" where
  "md_status [] = None"
| "md_status (c # s) =
     (let w = takeWhile (\<lambda>x. x = CHR ''U'' \<or> x = CHR ''_'') s; r = dropWhile (\<lambda>x. x = CHR ''U'' \<or> x = CHR ''_'') s in
      if c = CHR ''['' \<and> w \<noteq> [] \<and> r \<noteq> [] \<and> hd r = CHR '']'' then Some w else md_status s)"

definition md_line ::
  "string \<Rightarrow> nasPoolPayload list \<times> nasPoolPayload option \<Rightarrow> nasPoolPayload list \<times> nasPoolPayload option" where
  "md_line line acc =
     (case md_array line of
        Some (name, word) \<Rightarrow>
          (flush acc, Some \<lparr>npl_Name = name, npl_State =
             (if toLower word = ''active'' then ''ok'' else if toLower word = ''inactive'' then ''error'' else ''unknown'')\<rparr>)
      | None \<Rightarrow>
          (case snd acc of
             None \<Rightarrow> acc
           | Some cur \<Rightarrow>
               (case md_status line of
                  None \<Rightarrow> acc
                | Some w \<Rightarrow>
                    if CHR ''_'' \<in> set w then (fst acc, Some (cur\<lparr>npl_State := ''degraded''\<rparr>))
                    else if npl_State cur = ''unknown'' then (fst acc, Some (cur\<lparr>npl_State := ''ok''\<rparr>))
                    else acc)))"

definition parseMdstat :: "string \<Rightarrow> nasPoolPayload list" where
  "parseMdstat content = flush (fold md_line (split_lines content) ([], None))"

text \<open>The text of \<^verbatim>\<open>wrapRunErr\<close>: the output is added when there is any.\<close>

definition wrapRunErr :: "string \<Rightarrow> string \<Rightarrow> string \<Rightarrow> string" where
  "wrapRunErr what out err = (if trimSpace out = [] then err else what @ '': '' @ err @ '': '' @ trimSpace out)"

definition btrfsPools :: "probe \<Rightarrow> cmdLog \<Rightarrow> (string + nasPoolPayload list) \<times> cmdLog" where
  "btrfsPools p cl =
     (case runT p [''btrfs'', ''filesystem'', ''show''] cl of ((out, err), cl1) \<Rightarrow>
       (case err of Some e \<Rightarrow> Inl (wrapRunErr ''btrfs filesystem show'' out e) | None \<Rightarrow> Inr (parseBtrfsShow out), cl1))"

definition zpoolPools :: "probe \<Rightarrow> cmdLog \<Rightarrow> (string + nasPoolPayload list) \<times> cmdLog" where
  "zpoolPools p cl =
     (case runT p [''zpool'', ''list'', ''-H'', ''-o'', ''name,health''] cl of ((out, err), cl1) \<Rightarrow>
       (case err of Some e \<Rightarrow> Inl (wrapRunErr ''zpool list'' out e) | None \<Rightarrow> Inr (parseZpoolList out), cl1))"

definition mdadmPools :: "probe \<Rightarrow> nasPoolPayload list" where
  "mdadmPools p = (case pr_readFile p ''/proc/mdstat'' of None \<Rightarrow> [] | Some b \<Rightarrow> parseMdstat b)"

definition btrfsMountPools :: "diskPayload list \<Rightarrow> nasPoolPayload list" where
  "btrfsMountPools ds = map (\<lambda>d. \<lparr>npl_Name = dk_Mount d, npl_State = ''ok''\<rparr>) (filter (\<lambda>d. dk_FSType d = ''btrfs'') ds)"

definition btrfsNone :: "string \<Rightarrow> bool" where
  "btrfsNone e \<longleftrightarrow> (\<exists>q \<in> set [''no btrfs'', ''no valid btrfs'', ''can'' @ [CHR 0x27] @ ''t read'']. str_contains q (toLower e))"

definition zpoolNoPools :: "string \<Rightarrow> bool" where
  "zpoolNoPools e \<longleftrightarrow> str_contains ''no pools available'' (toLower e)"

text \<open>One source of pools: what it adds, and whether it counts as an error.\<close>

definition add_pools :: "(string \<Rightarrow> bool) \<Rightarrow> string + nasPoolPayload list \<Rightarrow> nasPoolPayload list \<times> nat" where
  "add_pools harmless r = (case r of Inl e \<Rightarrow> ([], if harmless e then 0 else 1) | Inr ps \<Rightarrow> (ps, 0))"

definition probePools :: "probe \<Rightarrow> diskPayload list \<Rightarrow> cmdLog \<Rightarrow> (nasPoolPayload list \<times> string) \<times> cmdLog" where
  "probePools p ds cl =
     (case (if pr_look p ''btrfs'' then (case btrfsPools p cl of (r, cl1) \<Rightarrow> (add_pools btrfsNone r, cl1))
            else ((btrfsMountPools ds, 0), cl)) of ((bp, be), cl1) \<Rightarrow>
      (case (if pr_look p ''zpool'' then (case zpoolPools p cl1 of (r, cl2) \<Rightarrow> (add_pools zpoolNoPools r, cl2))
             else (([], 0), cl1)) of ((zp, ze), cl2) \<Rightarrow>
        (let pools = bp @ zp @ (if pr_mdadm p then mdadmPools p else []) in
         (if pools \<noteq> [] then (pools, ''ok'') else if 0 < be + ze then ([], ''failed'') else ([], ''unsupported''), cl2))))"

section \<open>What the SMART probe runs and reports\<close>

definition scan_cmd :: "string list" where
  "scan_cmd = [''smartctl'', ''--scan'', ''-j'']"

definition standby_cmd :: "string \<Rightarrow> string list" where
  "standby_cmd dev = [''smartctl'', ''-n'', ''standby'', ''-A'', ''-j'', dev]"

lemma smartOne_runs: "snd (smartOne p dev cl) = cl @ [standby_cmd dev]"
  by (simp add: smartOne_def runT_def standby_cmd_def Let_def split: prod.splits)

lemma smartAll_runs: "snd (smartAll p devs cl) = cl @ map standby_cmd devs"
proof (induction devs arbitrary: cl)
  case Nil
  then show ?case by simp
next
  case (Cons dev devs)
  have "snd (smartAll p (dev # devs) cl) = snd (smartAll p devs (snd (smartOne p dev cl)))"
    by (simp split: prod.splits)
  with Cons.IH show ?case by (simp add: smartOne_runs)
qed

lemma smartAll_devs: "map nd_Dev (fst (smartAll p devs cl)) = map shortDev devs"
proof (induction devs arbitrary: cl)
  case Nil
  then show ?case by simp
next
  case (Cons dev devs)
  have one: "nd_Dev (fst (smartOne p dev cl)) = shortDev dev"
    by (simp add: smartOne_def Let_def split: prod.splits)
  have "fst (smartAll p (dev # devs) cl) = fst (smartOne p dev cl) # fst (smartAll p devs (snd (smartOne p dev cl)))"
    by (simp split: prod.splits)
  with Cons.IH one show ?case by simp
qed

definition smart_states :: "string set" where
  "smart_states = {''ok'', ''failing'', ''asleep'', ''unsupported'', ''failed''}"

lemma parse_state: "fst (parseSmartctlA decode out) \<in> insert [] smart_states"
  by (auto simp: parseSmartctlA_def smart_states_def Let_def split: option.splits)

lemma smartOne_state: "nd_Smart (fst (smartOne p dev cl)) \<in> smart_states"
proof -
  obtain out err where r: "pr_run p (length cl) (standby_cmd dev) = (out, err)" by fastforce
  obtain st temp where q: "parseSmartctlA (pr_smart p) out = (st, temp)" by fastforce
  from parse_state[of "pr_smart p" out] q have "st \<in> insert [] smart_states" by simp
  moreover have "nd_Smart (fst (smartOne p dev cl)) =
      (if st \<noteq> [] then st else if err = None \<and> out = [] then ''unsupported'' else ''failed'')"
    using r q by (simp add: smartOne_def runT_def standby_cmd_def Let_def)
  ultimately show ?thesis by (auto simp: smart_states_def split: if_splits)
qed

lemma smartAll_states: "\<forall>d \<in> set (fst (smartAll p devs cl)). nd_Smart d \<in> smart_states"
proof (induction devs arbitrary: cl)
  case Nil
  then show ?case by simp
next
  case (Cons dev devs)
  have "fst (smartAll p (dev # devs) cl) = fst (smartOne p dev cl) # fst (smartAll p devs (snd (smartOne p dev cl)))"
    by (simp split: prod.splits)
  with Cons.IH smartOne_state show ?case by simp
qed

lemma discover_runs: "snd (discoverSmartDevices p cl) = cl @ [scan_cmd]"
  by (simp add: discoverSmartDevices_def runT_def scan_cmd_def Let_def split: prod.splits)

lemma probeSmart_cases:
  obtains (none) c where "probeSmart p cl = (([], c), cl)" "c \<in> {''unsupported'', ''failed''}"
  | (empty) "probeSmart p cl = (([], ''unsupported''), cl @ [scan_cmd])"
  | (some) devs ds where "devs \<noteq> []" "devs = fst (discoverSmartDevices p cl)"
      "ds = fst (smartAll p devs (cl @ [scan_cmd]))"
      "probeSmart p cl = ((ds, smartCap ds), cl @ scan_cmd # map standby_cmd devs)"
proof -
  obtain devs where d: "discoverSmartDevices p cl = (devs, cl @ [scan_cmd])"
    using discover_runs[of p cl] by (metis prod.collapse)
  obtain ds where a: "smartAll p devs (cl @ [scan_cmd]) = (ds, (cl @ [scan_cmd]) @ map standby_cmd devs)"
    using smartAll_runs[of p devs "cl @ [scan_cmd]"] by (metis prod.collapse)
  let ?off = "(if pr_smartMode p = [] then ''auto'' else pr_smartMode p) = ''off''"
  consider "?off" | "\<not> ?off" "\<not> pr_look p ''smartctl''" | "\<not> ?off" "pr_look p ''smartctl''" by blast
  then show ?thesis
  proof cases
    case 1
    then have "probeSmart p cl = (([], ''unsupported''), cl)" by (simp only: probeSmart_def Let_def if_True refl)
    then show ?thesis using none by simp
  next
    case 2
    then have "\<exists>c \<in> {''unsupported'', ''failed''}. probeSmart p cl = (([], c), cl)"
      by (simp only: probeSmart_def Let_def if_False if_True not_False_eq_True) simp
    then show ?thesis using none by blast
  next
    case 3
    then have "probeSmart p cl = (if devs = [] then (([], ''unsupported''), cl @ [scan_cmd])
        else ((ds, smartCap ds), cl @ scan_cmd # map standby_cmd devs))"
      unfolding probeSmart_def Let_def by (simp only: if_False d a prod.case not_True_eq_False append_assoc append.simps)
    then have e: "devs = [] \<Longrightarrow> probeSmart p cl = (([], ''unsupported''), cl @ [scan_cmd])"
      and f: "devs \<noteq> [] \<Longrightarrow> probeSmart p cl = ((ds, smartCap ds), cl @ scan_cmd # map standby_cmd devs)" by simp_all
    have "devs = fst (discoverSmartDevices p cl)" "ds = fst (smartAll p devs (cl @ [scan_cmd]))" by (simp_all only: d a fst_conv)
    then show ?thesis using empty[OF e] some[OF _ _ _ f] by blast
  qed
qed


definition awake :: "smartctlJSON \<Rightarrow> bool" where
  "awake j \<longleftrightarrow>
     \<not> str_contains ''STANDBY'' (toUpper (sj_PowerMode j)) \<and> \<not> str_contains ''SLEEP'' (toUpper (sj_PowerMode j)) \<and>
     (sj_ExitStatus j = None \<or> (\<forall>m \<in> set (sj_Messages j). standbyMsg m \<longrightarrow> str_contains ''not in'' (toLower m)))"

lemma smartctl_ok:
  assumes "fst (parseSmartctlA decode out) = ''ok''"
  shows "\<exists>j. decode out = Some j \<and> awake j \<and>
     (sj_Passed j = Some True \<or> sj_Passed j = None \<and> sj_NvmeWarning j = Some 0)"
  using assms
  by (auto simp: parseSmartctlA_def awake_def Let_def list_ex_iff split: option.splits if_splits)

text \<open>
  A disk is reported healthy only on evidence: if the state of a device is \<open>ok\<close>, then the
  output of \<^verbatim>\<open>smartctl\<close> for it decodes, says that the disk is awake and either that the
  self-assessment passed or, where there is none, that the NVMe critical warning is zero.  A
  command that fails without readable output is reported as \<open>failed\<close>.
\<close>

theorem smart_ok_has_evidence:
  assumes "nd_Smart (fst (smartOne p dev cl)) = ''ok''"
  shows "\<exists>j. pr_smart p (fst (pr_run p (length cl) (standby_cmd dev))) = Some j \<and> awake j \<and>
     (sj_Passed j = Some True \<or> sj_Passed j = None \<and> sj_NvmeWarning j = Some 0)"
proof (rule smartctl_ok)
  obtain out err where r: "pr_run p (length cl) (standby_cmd dev) = (out, err)" by fastforce
  obtain st temp where q: "parseSmartctlA (pr_smart p) out = (st, temp)" by fastforce
  have "nd_Smart (fst (smartOne p dev cl)) =
      (if st \<noteq> [] then st else if err = None \<and> out = [] then ''unsupported'' else ''failed'')"
    using r q by (simp add: smartOne_def runT_def standby_cmd_def Let_def)
  with assms have "st = ''ok''" by (auto split: if_splits)
  with r q show "fst (parseSmartctlA (pr_smart p) (fst (pr_run p (length cl) (standby_cmd dev)))) = ''ok''" by simp
qed

definition sample_smart :: smartctlJSON where
  "sample_smart = \<lparr>sj_ExitStatus = Some 0, sj_Messages = [], sj_PowerMode = [], sj_Passed = Some True,
     sj_Temperature = Some 38, sj_NvmeTemperature = None, sj_NvmeWarning = None\<rparr>"

definition sample_probe :: probe where
  "sample_probe = \<lparr>pr_run = (\<lambda>n c. (''{}'', None)), pr_look = (\<lambda>t. t = ''smartctl''), pr_readFile = (\<lambda>f. None),
     pr_listDir = (\<lambda>d. None), pr_scan = (\<lambda>x. Some [''/dev/sda'']), pr_smart = (\<lambda>x. Some sample_smart),
     pr_smartMode = ''auto'', pr_mdadm = False\<rparr>"

lemma sample_smart_ok: "nd_Smart (fst (smartOne sample_probe ''/dev/sda'' [])) = ''ok''"
  by (simp add: smartOne_def runT_def sample_probe_def parseSmartctlA_def trimSpace_def is_space_def sample_smart_def
      toUpper_def str_contains.simps strip_prefix_def Let_def)

theorem smart_ok_has_evidence_witness:
  "nd_Smart (fst (smartOne sample_probe ''/dev/sda'' [])) = ''ok'' \<and>
   (\<exists>j. pr_smart sample_probe (fst (pr_run sample_probe (length ([] :: cmdLog)) (standby_cmd ''/dev/sda''))) = Some j \<and> awake j \<and>
     (sj_Passed j = Some True \<or> sj_Passed j = None \<and> sj_NvmeWarning j = Some 0))"
  using sample_smart_ok smart_ok_has_evidence[OF sample_smart_ok] by blast

section \<open>What the pool parsers give\<close>

definition pool_states :: "string set" where
  "pool_states = {''ok'', ''degraded'', ''error'', ''unknown''}"

definition pools_ok :: "nasPoolPayload list \<times> nasPoolPayload option \<Rightarrow> bool" where
  "pools_ok acc \<longleftrightarrow> (\<forall>q \<in> set (flush acc). npl_State q \<in> pool_states)"

text \<open>
  The two parsers that scan a tool's output line by line share this contract: a line never turns
  the pools found so far, the open one included, into anything but pools with a known state.
\<close>

locale line_parser =
  fixes line :: "string \<Rightarrow> nasPoolPayload list \<times> nasPoolPayload option \<Rightarrow> nasPoolPayload list \<times> nasPoolPayload option"
  assumes line_ok: "pools_ok a \<Longrightarrow> pools_ok (line l a)"
begin

lemma scan_ok: "pools_ok a \<Longrightarrow> pools_ok (fold line ls a)"
  by (induction ls arbitrary: a) (simp_all add: line_ok)

lemma scan_states: "q \<in> set (flush (fold line ls ([], None))) \<Longrightarrow> npl_State q \<in> pool_states"
  using scan_ok[of "([], None)" ls] by (simp add: pools_ok_def flush_def)

end

interpretation btrfs: line_parser btrfs_line
proof
  show "pools_ok (btrfs_line l a)" if "pools_ok a" for a l
    using that by (cases "snd a") (auto simp: pools_ok_def btrfs_line_def flush_def pool_states_def split: option.splits)
qed

interpretation mdstat: line_parser md_line
  by unfold_locales (auto simp: pools_ok_def md_line_def flush_def pool_states_def split: option.splits)

lemma btrfs_states: "q \<in> set (parseBtrfsShow out) \<Longrightarrow> npl_State q \<in> pool_states"
  unfolding parseBtrfsShow_def by (rule btrfs.scan_states)

lemma mdstat_states: "q \<in> set (parseMdstat out) \<Longrightarrow> npl_State q \<in> pool_states"
  unfolding parseMdstat_def by (rule mdstat.scan_states)

lemma zpool_states: "q \<in> set (parseZpoolList out) \<Longrightarrow> npl_State q \<in> pool_states"
  by (auto simp: parseZpoolList_def zpool_line_def zpoolHealth_def pool_states_def Let_def split: list.splits if_splits)

text \<open>The table that \<^verbatim>\<open>zpool list -H -o name,health\<close> prints.\<close>

definition zpool_print :: "(string \<times> string) list \<Rightarrow> string" where
  "zpool_print ps = concat (map (\<lambda>(n, h). n @ CHR 0x09 # h @ [CHR 0x0A]) ps)"

definition word_ok :: "string \<Rightarrow> bool" where
  "word_ok w \<longleftrightarrow> w \<noteq> [] \<and> (\<forall>c \<in> set w. \<not> is_space c)"

lemma fields_word: "word_ok w \<Longrightarrow> fields_of (w @ CHR 0x09 # s) = w # fields_of s"
proof -
  assume w: "word_ok w"
  then obtain c v where v: "w = c # v" by (cases w) (auto simp: word_ok_def)
  have t: "is_space CHR 0x09" by (simp add: is_space_def)
  have "takeWhile (\<lambda>x. \<not> is_space x) (v @ CHR 0x09 # s) = v"
    "dropWhile (\<lambda>x. \<not> is_space x) (v @ CHR 0x09 # s) = CHR 0x09 # s"
    using w v t by (auto simp: word_ok_def takeWhile_append2 dropWhile_append2)
  then show ?thesis using w v t by (simp add: word_ok_def)
qed

lemma fields_single: "word_ok w \<Longrightarrow> fields_of w = [w]"
proof -
  assume w: "word_ok w"
  then obtain c v where v: "w = c # v" by (cases w) (auto simp: word_ok_def)
  have a: "takeWhile (\<lambda>x. \<not> is_space x) v = v" and b: "dropWhile (\<lambda>x. \<not> is_space x) v = []" and c: "\<not> is_space c"
    using w v by (auto simp: word_ok_def takeWhile_eq_all_conv dropWhile_eq_Nil_conv)
  show ?thesis unfolding v fields_of.simps using c by (simp only: a b if_False fields_of.simps)
qed

lemma trim_row: "word_ok n \<Longrightarrow> word_ok h \<Longrightarrow> trimSpace (n @ CHR 0x09 # h) = n @ CHR 0x09 # h"
proof -
  assume n: "word_ok n" and h: "word_ok h"
  have a: "dropWhile is_space (n @ CHR 0x09 # h) = n @ CHR 0x09 # h"
    using n by (cases n) (auto simp: word_ok_def)
  have "rev h \<noteq> []" "\<not> is_space (hd (rev h))"
    using h by (auto simp: word_ok_def hd_rev)
  then have "dropWhile is_space (rev h @ CHR 0x09 # rev n) = rev h @ CHR 0x09 # rev n"
    by (cases "rev h") auto
  with a show ?thesis by (simp add: trimSpace_def)
qed

lemma zpool_row: "word_ok n \<Longrightarrow> word_ok h \<Longrightarrow> zpool_line (n @ CHR 0x09 # h) = [\<lparr>npl_Name = n, npl_State = zpoolHealth h\<rparr>]"
  by (simp add: zpool_line_def trim_row fields_word fields_single)

lemma split_on_line: "CHR 0x0A \<notin> set l \<Longrightarrow> split_on CHR 0x0A (l @ CHR 0x0A # s) = l # split_on CHR 0x0A s"
  by (induction l) (auto split: list.splits)

lemma word_no_newline: "word_ok w \<Longrightarrow> CHR 0x0A \<notin> set w"
  by (auto simp: word_ok_def is_space_def)

text \<open>
  The pool list is read back as it was printed: for pools whose names and health words are not
  empty and hold no space, parsing the table that \<^verbatim>\<open>zpool list -H -o name,health\<close> prints gives
  these pools, in their order, none lost and none added, each with the state of its health.
\<close>

theorem zpool_list_roundtrip:
  assumes "\<forall>(n, h) \<in> set ps. word_ok n \<and> word_ok h"
  shows "parseZpoolList (zpool_print ps) = map (\<lambda>(n, h). \<lparr>npl_Name = n, npl_State = zpoolHealth h\<rparr>) ps"
  using assms
proof (induction ps)
  case Nil
  then show ?case by (simp add: zpool_print_def parseZpoolList_def split_lines_def zpool_line_def trimSpace_def)
next
  case (Cons q ps)
  obtain n h where q: "q = (n, h)" by fastforce
  with Cons.prems have w: "word_ok n" "word_ok h" by auto
  have "zpool_print (q # ps) = (n @ CHR 0x09 # h) @ CHR 0x0A # zpool_print ps"
    by (simp add: zpool_print_def q)
  moreover have "CHR 0x0A \<notin> set (n @ CHR 0x09 # h)" using w by (simp add: word_no_newline)
  ultimately have "split_on CHR 0x0A (zpool_print (q # ps)) = (n @ CHR 0x09 # h) # split_on CHR 0x0A (zpool_print ps)"
    using split_on_line by metis
  then have "parseZpoolList (zpool_print (q # ps)) = zpool_line (n @ CHR 0x09 # h) @ parseZpoolList (zpool_print ps)"
    by (simp add: parseZpoolList_def split_lines_def)
  with Cons w q show ?case by (simp add: zpool_row)
qed

theorem zpool_list_roundtrip_witness:
  "parseZpoolList (zpool_print [(''tank'', ''ONLINE''), (''usb'', ''FAULTED'')]) =
     [\<lparr>npl_Name = ''tank'', npl_State = ''ok''\<rparr>, \<lparr>npl_Name = ''usb'', npl_State = ''error''\<rparr>]"
proof -
  have "zpoolHealth ''ONLINE'' = ''ok''" "zpoolHealth ''FAULTED'' = ''error''" by code_simp+
  moreover have "\<forall>(n, h) \<in> set [(''tank'', ''ONLINE''), (''usb'', ''FAULTED'')]. word_ok n \<and> word_ok h"
    by (simp add: word_ok_def is_space_def)
  ultimately show ?thesis using zpool_list_roundtrip[of "[(''tank'', ''ONLINE''), (''usb'', ''FAULTED'')]"] by simp
qed

section \<open>What the pool probe gives\<close>

lemma btrfsMount_states: "q \<in> set (btrfsMountPools ds) \<Longrightarrow> npl_State q \<in> pool_states"
  by (auto simp: btrfsMountPools_def pool_states_def)

lemma mdadm_states: "q \<in> set (mdadmPools p) \<Longrightarrow> npl_State q \<in> pool_states"
  by (auto simp: mdadmPools_def mdstat_states split: option.splits)

definition source_ok :: "(nasPoolPayload list \<times> nat) \<times> cmdLog \<Rightarrow> bool" where
  "source_ok r \<longleftrightarrow> (\<forall>q \<in> set (fst (fst r)). npl_State q \<in> pool_states)"

lemma btrfs_source: "source_ok (case btrfsPools p cl of (r, cl1) \<Rightarrow> (add_pools btrfsNone r, cl1))"
  by (auto simp: source_ok_def btrfsPools_def add_pools_def btrfs_states split: prod.splits option.splits)

lemma zpool_source: "source_ok (case zpoolPools p cl of (r, cl1) \<Rightarrow> (add_pools zpoolNoPools r, cl1))"
  by (auto simp: source_ok_def zpoolPools_def add_pools_def zpool_states split: prod.splits option.splits)

lemma probePools_ok:
  "npl_State ` set (fst (fst (probePools p ds cl))) \<subseteq> pool_states \<and>
   snd (fst (probePools p ds cl)) \<in> {''ok'', ''failed'', ''unsupported''} \<and>
   (fst (fst (probePools p ds cl)) = [] \<longleftrightarrow> snd (fst (probePools p ds cl)) \<noteq> ''ok'')"
proof -
  obtain bp be cl1 where b: "(if pr_look p ''btrfs'' then (case btrfsPools p cl of (r, cl1) \<Rightarrow> (add_pools btrfsNone r, cl1))
            else ((btrfsMountPools ds, 0), cl)) = ((bp, be), cl1)" by (metis prod.collapse)
  obtain zp ze cl2 where z: "(if pr_look p ''zpool'' then (case zpoolPools p cl1 of (r, cl2) \<Rightarrow> (add_pools zpoolNoPools r, cl2))
             else (([], 0), cl1)) = ((zp, ze), cl2)" by (metis prod.collapse)
  have sb: "\<forall>q \<in> set bp. npl_State q \<in> pool_states"
  proof (cases "pr_look p ''btrfs''")
    case True
    then show ?thesis using b btrfs_source[of p cl] by (simp add: source_ok_def)
  next
    case False
    then show ?thesis using b btrfsMount_states by auto
  qed
  have sz: "\<forall>q \<in> set zp. npl_State q \<in> pool_states"
  proof (cases "pr_look p ''zpool''")
    case True
    then show ?thesis using z zpool_source[of p cl1] by (simp add: source_ok_def)
  next
    case False
    then show ?thesis using z by auto
  qed
  define ps where "ps = bp @ zp @ (if pr_mdadm p then mdadmPools p else [])"
  have "probePools p ds cl =
      (if ps \<noteq> [] then (ps, ''ok'') else if 0 < be + ze then ([], ''failed'') else ([], ''unsupported''), cl2)"
    by (simp only: probePools_def b z prod.case Let_def ps_def)
  moreover have "\<forall>q \<in> set ps. npl_State q \<in> pool_states"
    using sb sz mdadm_states by (auto simp: ps_def)
  ultimately show ?thesis by auto
qed

end
