(* ===== verification/Provider.thy ===== *)
theory Provider
  imports Collect
begin

text \<open>
  One frame of the agent (\<^verbatim>\<open>basic.go\<close>, \<^verbatim>\<open>docker.go\<close> and \<^verbatim>\<open>provider.go\<close> of
  \<^verbatim>\<open>agent/internal/collect\<close>).  A frame \<open>f\<close> holds what \<^verbatim>\<open>gopsutil\<close> and Docker answer during
  one run of \<open>Collect\<close>; the counters are read twice, once for the snapshot that is kept and once
  for the rates.  Byte counters are 64-bit words.  Floating-point numbers are rationals; the
  conversion of a floating-point number to \<^verbatim>\<open>uint64\<close>, which Go leaves to the implementation
  outside the range, is the parameter \<open>u64\<close>.
\<close>

section \<open>Basic metrics (basic.go)\<close>

record reading =
  rd_at :: time
  rd_cpu :: "(rat \<times> rat \<times> rat) option"                  \<comment> \<open>total, idle, waiting for I/O\<close>
  rd_net :: "(string \<times> 64 word \<times> 64 word) list option"    \<comment> \<open>interface, received, sent\<close>

record counterState =
  cs_cpuTotal :: rat
  cs_cpuIdle :: rat
  cs_netRx :: "64 word"
  cs_netTx :: "64 word"
  cs_netAt :: time

definition isLoopback :: "string \<Rightarrow> bool" where
  "isLoopback name \<longleftrightarrow> name = ''lo'' \<or> strip_prefix ''lo'' name \<noteq> None"

primrec net_sum :: "(string \<times> 64 word \<times> 64 word) list \<Rightarrow> 64 word \<times> 64 word \<Rightarrow> 64 word \<times> 64 word" where
  "net_sum [] acc = acc"
| "net_sum (io # ios) acc =
     (case io of (name, rx, tx) \<Rightarrow> net_sum ios (if isLoopback name then acc else (fst acc + rx, snd acc + tx)))"

definition readCounters :: "reading \<Rightarrow> counterState" where
  "readCounters r =
     (let net = (case rd_net r of None \<Rightarrow> (0, 0) | Some ios \<Rightarrow> net_sum ios (0, 0)) in
      \<lparr>cs_cpuTotal = (case rd_cpu r of None \<Rightarrow> 0 | Some (t, i, w) \<Rightarrow> t),
       cs_cpuIdle = (case rd_cpu r of None \<Rightarrow> 0 | Some (t, i, w) \<Rightarrow> i + w),
       cs_netRx = fst net, cs_netTx = snd net, cs_netAt = rd_at r\<rparr>)"

definition round2 :: "rat \<Rightarrow> rat" where
  "round2 v = of_int (trunc (v * 100 + 1 / 2)) / 100"

record mounts =
  mo_parts :: "(string \<times> string) list option"             \<comment> \<open>mount point and type of the file system\<close>
  mo_usage :: "string \<Rightarrow> (rat \<times> int \<times> int) option"        \<comment> \<open>percent, used, total\<close>

primrec disks_loop :: "mounts \<Rightarrow> (string \<times> string) list \<Rightarrow> string list \<Rightarrow> diskPayload list" where
  "disks_loop m [] seen = []"
| "disks_loop m (pt # pts) seen =
     (if fst pt = [] \<or> fst pt \<in> set seen then disks_loop m pts seen
      else (case mo_usage m (fst pt) of
              None \<Rightarrow> []
            | Some (pct, used, tot) \<Rightarrow>
                if tot = 0 then []
                else [\<lparr>dk_Mount = fst pt, dk_Percent = Some (round2 pct), dk_UsedBytes = Some used,
                       dk_TotalBytes = Some tot, dk_FSType = snd pt\<rparr>])
           @ disks_loop m pts (fst pt # seen))"

definition collectDisks :: "mounts \<Rightarrow> diskPayload list" where
  "collectDisks m = (case mo_parts m of None \<Rightarrow> [] | Some pts \<Rightarrow> disks_loop m pts [])"

section \<open>Containers (docker.go)\<close>

record dockerURL =
  du_Scheme :: string
  du_Path :: string
  du_Host :: string
  du_String :: string

datatype dockerError = DockerAbsent | DockerFailed

record dockerClient =
  dc_base :: string
  dc_sockPath :: string

definition newDockerClient :: "(string \<Rightarrow> dockerURL option) \<Rightarrow> string \<Rightarrow> dockerError + dockerClient" where
  "newDockerClient parse host =
     (if trimSpace host = [] then Inl DockerAbsent
      else case parse host of
        None \<Rightarrow> Inl DockerFailed
      | Some u \<Rightarrow>
          if du_Scheme u = ''unix'' then
            (if du_Path u = [] then Inl DockerAbsent
             else Inr \<lparr>dc_base = ''http://docker.sock'', dc_sockPath = du_Path u\<rparr>)
          else if du_Scheme u = ''tcp'' then Inr \<lparr>dc_base = ''http://'' @ du_Host u, dc_sockPath = []\<rparr>
          else if du_Scheme u = ''http'' \<or> du_Scheme u = ''https'' then
            Inr \<lparr>dc_base = trim_right CHR ''/'' (du_String u), dc_sockPath = []\<rparr>
          else Inl DockerFailed)"

record dockerListEntry =
  dl_ID :: string
  dl_Names :: "string list"
  dl_State :: string

record dockerInspect =
  di_Name :: string
  di_RestartCount :: int
  di_Status :: string
  di_ExitCode :: int
  di_StartedAt :: string

text \<open>
  The answers of the Docker engine to a request: the status and the decoded body, or nothing when
  the request fails.
\<close>

record docker =
  do_stat :: "string \<Rightarrow> bool"
  do_list :: "string \<Rightarrow> (int \<times> dockerListEntry list option) option"
  do_inspect :: "string \<Rightarrow> (int \<times> dockerInspect option) option"

definition getJSON :: "(string \<Rightarrow> (int \<times> 'a option) option) \<Rightarrow> dockerClient \<Rightarrow> string \<Rightarrow> 'a option" where
  "getJSON send c path =
     (case send (dc_base c @ path) of
        None \<Rightarrow> None
      | Some (status, body) \<Rightarrow> if status < 200 \<or> 300 \<le> status then None else body)"

definition dockerName :: "string list \<Rightarrow> string" where
  "dockerName names =
     (case names of [] \<Rightarrow> [] | n # _ \<Rightarrow> (case strip_prefix ''/'' n of None \<Rightarrow> n | Some r \<Rightarrow> r))"

text \<open>
  \<open>t.Year()\<close> is the year in the zone of the timestamp, the four digits the timestamp starts with.
\<close>

definition parseDockerTime :: "string \<Rightarrow> string option" where
  "parseDockerTime s =
     (if s = [] then None
      else case parseTS s of
        None \<Rightarrow> None
      | Some t \<Rightarrow> (case dec_value 0 (take 4 s) of None \<Rightarrow> None | Some y \<Rightarrow> if y \<le> 1 then None else Some (fmtTS t)))"

definition container_of :: "dockerListEntry \<Rightarrow> dockerInspect option \<Rightarrow> containerPayload" where
  "container_of e ins =
     (case ins of
        None \<Rightarrow> \<lparr>ct_Name = dockerName (dl_Names e), ct_State = dl_State e, ct_ExitCode = None, ct_StartedAt = None,
                 ct_RestartCount = Some 0\<rparr>
      | Some i \<Rightarrow>
          (let state = (if di_Status i \<noteq> [] then di_Status i else dl_State e);
               name = dockerName (dl_Names e) in
           \<lparr>ct_Name = (if name = [] then (case strip_prefix ''/'' (di_Name i) of None \<Rightarrow> di_Name i | Some r \<Rightarrow> r) else name),
            ct_State = state,
            ct_ExitCode = (if state = ''running'' \<or> state = ''created'' then None else Some (di_ExitCode i)),
            ct_StartedAt = parseDockerTime (di_StartedAt i),
            ct_RestartCount = Some (di_RestartCount i)\<rparr>))"

definition dockerContainers :: "docker \<Rightarrow> dockerClient \<Rightarrow> dockerError + containerPayload list" where
  "dockerContainers d c =
     (if dc_sockPath c \<noteq> [] \<and> \<not> do_stat d (dc_sockPath c) then Inl DockerAbsent
      else case getJSON (do_list d) c ''/containers/json?all=1'' of
        None \<Rightarrow> Inl DockerFailed
      | Some es \<Rightarrow>
          Inr (map (\<lambda>e. container_of e (getJSON (do_inspect d) c (''/containers/'' @ path_escape (dl_ID e) @ ''/json''))) es))"

section \<open>The provider (provider.go)\<close>

record sysFrame =
  fr_ts :: time
  fr_kept :: reading
  fr_cur :: reading
  fr_mem :: "(rat \<times> int \<times> int) option"
  fr_load1 :: "rat option"
  fr_uptime :: "int option"
  fr_boot :: "int option"
  fr_disks :: mounts
  fr_poolDisks :: mounts
  fr_docker :: docker
  fr_probe :: probe

record sysProvider =
  sy_docker :: "dockerError + dockerClient"
  sy_prev :: counterState
  sy_log :: cmdLog

definition newSysProvider :: "(string \<Rightarrow> dockerURL option) \<Rightarrow> string \<Rightarrow> reading \<Rightarrow> sysProvider" where
  "newSysProvider parse host r = \<lparr>sy_docker = newDockerClient parse host, sy_prev = readCounters r, sy_log = []\<rparr>"

definition cpu_percent :: "counterState \<Rightarrow> (rat \<times> rat \<times> rat) option \<Rightarrow> rat option" where
  "cpu_percent prev r =
     (case r of
        None \<Rightarrow> None
      | Some (tot, i, w) \<Rightarrow>
          if 0 < cs_cpuTotal prev then
            (let idle = i + w; dt = tot - cs_cpuTotal prev; db = dt - (idle - cs_cpuIdle prev) in
             if 0 < dt \<and> 0 \<le> db then (let v = round2 (db / dt * 100) in Some (if 100 < v then 100 else v)) else None)
          else None)"

text \<open>The difference of the counters is that of \<^verbatim>\<open>uint64\<close> values; it wraps.\<close>

definition net_rate :: "(rat \<Rightarrow> int) \<Rightarrow> counterState \<Rightarrow> time \<Rightarrow> 64 word \<times> 64 word \<Rightarrow> netPayload option" where
  "net_rate u64 prev now rxtx =
     (if 0 < cs_netAt prev div 1000000000 then
        (let dt = rat_of_int (time_sub now (cs_netAt prev)) / 1000000000 in
         if 0 < dt then
           Some \<lparr>np_RxBps = Some (of_int (u64 (of_int (uint (fst rxtx - cs_netRx prev)) / dt))),
                 np_TxBps = Some (of_int (u64 (of_int (uint (snd rxtx - cs_netTx prev)) / dt)))\<rparr>
         else None)
      else None)"

definition collectBasics :: "(rat \<Rightarrow> int) \<Rightarrow> sysFrame \<Rightarrow> counterState \<Rightarrow> samplePayload \<Rightarrow> string \<times> samplePayload" where
  "collectBasics u64 f prev s =
     (let s1 = s\<lparr>sp_CPUPercent := cpu_percent prev (rd_cpu (fr_cur f)),
                 sp_MemPercent := map_option (\<lambda>(pct, used, tot). round2 pct) (fr_mem f),
                 sp_MemUsedBytes := map_option (\<lambda>(pct, used, tot). used) (fr_mem f),
                 sp_MemTotalBytes := map_option (\<lambda>(pct, used, tot). tot) (fr_mem f),
                 sp_Load1 := fr_load1 f,
                 sp_UptimeSeconds := fr_uptime f,
                 sp_BootTime := (case fr_boot f of None \<Rightarrow> None
                   | Some b \<Rightarrow> if 0 < b then Some (fmtTS (wrap64 b * 1000000000)) else None),
                 sp_Disks := collectDisks (fr_disks f)\<rparr> in
      case rd_net (fr_cur f) of
        None \<Rightarrow> (''failed'', s1)
      | Some ios \<Rightarrow> (''ok'', s1\<lparr>sp_Net := net_rate u64 prev (rd_at (fr_cur f)) (net_sum ios (0, 0))\<rparr>))"

definition collectContainers :: "sysFrame \<Rightarrow> sysProvider \<Rightarrow> samplePayload \<Rightarrow> string \<times> samplePayload" where
  "collectContainers f p s =
     (case sy_docker p of
        Inl e \<Rightarrow> (''unsupported'', s)
      | Inr c \<Rightarrow>
          (case dockerContainers (fr_docker f) c of
             Inl DockerAbsent \<Rightarrow> (''unsupported'', s)
           | Inl DockerFailed \<Rightarrow> (''failed'', s)
           | Inr cs \<Rightarrow> (''ok'', s\<lparr>sp_Containers := Some cs\<rparr>)))"

definition collectNAS :: "sysFrame \<Rightarrow> cmdLog \<Rightarrow> samplePayload \<Rightarrow> (string \<times> string \<times> samplePayload) \<times> cmdLog" where
  "collectNAS f cl s =
     (case probeSmart (fr_probe f) cl of ((disks, smart), cl1) \<Rightarrow>
      case probePools (fr_probe f) (collectDisks (fr_poolDisks f)) cl1 of ((pools, pool), cl2) \<Rightarrow>
        ((smart, pool, if disks \<noteq> [] \<or> pools \<noteq> [] then s\<lparr>sp_NAS := Some \<lparr>nas_Disks = disks, nas_Pools = pools\<rparr>\<rparr> else s), cl2))"

definition emptySample :: "time \<Rightarrow> samplePayload" where
  "emptySample ts =
     \<lparr>sp_TS = fmtTS ts, sp_CPUPercent = None, sp_MemPercent = None, sp_MemUsedBytes = None, sp_MemTotalBytes = None,
      sp_Load1 = None, sp_UptimeSeconds = None, sp_BootTime = None, sp_Disks = [], sp_Net = None,
      sp_Containers = None, sp_NAS = None\<rparr>"

definition Collect_frame :: "(rat \<Rightarrow> int) \<Rightarrow> sysFrame \<Rightarrow> sysProvider \<Rightarrow> collectResult \<times> sysProvider" where
  "Collect_frame u64 f p =
     (let prev = sy_prev p; p1 = p\<lparr>sy_prev := readCounters (fr_kept f)\<rparr> in
      case collectContainers f p1 (emptySample (fr_ts f)) of (containers, s1) \<Rightarrow>
      case collectNAS f (sy_log p1) s1 of ((smart, pool, s2), cl) \<Rightarrow>
      case collectBasics u64 f prev s2 of (network, s3) \<Rightarrow>
        (\<lparr>co_Sample = s3,
          co_Capabilities = [(''containers'', containers), (''smart'', smart), (''storagePool'', pool), (''network'', network)]\<rparr>,
         p1\<lparr>sy_log := cl\<rparr>))"

section \<open>What a frame holds\<close>

lemma trunc_nonneg: "0 \<le> x \<Longrightarrow> 0 \<le> trunc x"
  by (simp add: trunc_def)

lemma round2_nonneg: "0 \<le> v \<Longrightarrow> 0 \<le> round2 v"
  by (simp add: round2_def trunc_nonneg)

lemma cpu_percent_bounds: "cpu_percent prev r = Some v \<Longrightarrow> 0 \<le> v \<and> v \<le> 100"
  by (auto simp: cpu_percent_def Let_def round2_nonneg split: option.splits prod.splits if_splits)

definition disk_ok :: "diskPayload \<Rightarrow> bool" where
  "disk_ok d \<longleftrightarrow> dk_Mount d \<noteq> [] \<and> dk_Percent d \<noteq> None \<and> dk_TotalBytes d \<noteq> None \<and> dk_TotalBytes d \<noteq> Some 0"

lemma disks_loop_ok:
  "distinct (map dk_Mount (disks_loop m pts seen)) \<and> list_all disk_ok (disks_loop m pts seen) \<and>
   (\<forall>d \<in> set (disks_loop m pts seen). dk_Mount d \<notin> set seen)"
proof (induction pts arbitrary: seen)
  case Nil
  then show ?case by simp
next
  case (Cons pt pts)
  note a = Cons.IH[of seen] and b = Cons.IH[of "fst pt # seen"]
  show ?case
  proof (cases "fst pt = [] \<or> fst pt \<in> set seen")
    case True
    then show ?thesis using a by simp
  next
    case False
    then show ?thesis
    proof (cases "mo_usage m (fst pt)")
      case None
      then show ?thesis using False b by auto
    next
      case (Some u)
      then show ?thesis using False b by (cases u) (auto simp: disk_ok_def)
    qed
  qed
qed

lemma collectDisks_ok: "distinct (map dk_Mount (collectDisks m)) \<and> list_all disk_ok (collectDisks m)"
  using disks_loop_ok by (simp add: collectDisks_def split: option.split)

definition container_ok :: "containerPayload \<Rightarrow> bool" where
  "container_ok c \<longleftrightarrow> (ct_State c = ''running'' \<or> ct_State c = ''created'' \<longrightarrow> ct_ExitCode c = None) \<and> ct_RestartCount c \<noteq> None"

lemma container_of_ok: "container_ok (container_of e ins)"
  by (auto simp: container_of_def container_ok_def Let_def split: option.splits)

definition nas_ok :: "nasPayload \<Rightarrow> bool" where
  "nas_ok n \<longleftrightarrow> (nas_Disks n \<noteq> [] \<or> nas_Pools n \<noteq> []) \<and>
     nd_Smart ` set (nas_Disks n) \<subseteq> smart_states \<and> npl_State ` set (nas_Pools n) \<subseteq> pool_states"

lemma collectContainers_ok:
  assumes "collectContainers f p s = (c, t)" "sp_Containers s = None"
  shows "c \<in> {''ok'', ''unsupported'', ''failed''}" "sp_Containers t = None \<longleftrightarrow> c \<noteq> ''ok''"
    "list_all container_ok (case sp_Containers t of None \<Rightarrow> [] | Some cs \<Rightarrow> cs)"
    "sp_NAS t = sp_NAS s" "sp_Net t = sp_Net s" "sp_TS t = sp_TS s"
  using assms
  by (auto simp: collectContainers_def dockerContainers_def list_all_iff container_of_ok
      split: sum.splits dockerError.splits if_splits option.splits)

lemma smartCap_range: "smartCap ds \<in> {''ok'', ''asleep'', ''unsupported'', ''failed''}"
  by (simp add: smartCap_def)

lemma probeSmart_ok:
  "nd_Smart ` set (fst (fst (probeSmart p cl))) \<subseteq> smart_states \<and>
   snd (fst (probeSmart p cl)) \<in> {''ok'', ''asleep'', ''unsupported'', ''failed''}"
proof (cases rule: probeSmart_cases[of p cl])
  case (some devs ds)
  have "nd_Smart ` set ds \<subseteq> smart_states" using some(3) smartAll_states by blast
  then show ?thesis using some(4) smartCap_range[of ds] by simp
qed auto

lemma collectNAS_ok:
  assumes "collectNAS f cl s = ((c, d, t), cl')" "sp_NAS s = None"
  shows "c \<in> {''ok'', ''asleep'', ''unsupported'', ''failed''}" "d \<in> {''ok'', ''unsupported'', ''failed''}"
    "\<forall>n. sp_NAS t = Some n \<longrightarrow> nas_ok n"
    "sp_Containers t = sp_Containers s" "sp_Net t = sp_Net s" "sp_TS t = sp_TS s"
proof -
  obtain disks cap cl1 where a: "probeSmart (fr_probe f) cl = ((disks, cap), cl1)" by (metis prod.collapse)
  obtain pools pcap cl2 where b: "probePools (fr_probe f) (collectDisks (fr_poolDisks f)) cl1 = ((pools, pcap), cl2)"
    by (metis prod.collapse)
  have t: "c = cap" "d = pcap"
    "t = (if disks \<noteq> [] \<or> pools \<noteq> [] then s\<lparr>sp_NAS := Some \<lparr>nas_Disks = disks, nas_Pools = pools\<rparr>\<rparr> else s)"
    using assms(1) by (simp_all add: collectNAS_def a b)
  have p: "nd_Smart ` set disks \<subseteq> smart_states" "cap \<in> {''ok'', ''asleep'', ''unsupported'', ''failed''}"
    using probeSmart_ok[of "fr_probe f" cl] by (simp_all add: a)
  have q: "npl_State ` set pools \<subseteq> pool_states" "pcap \<in> {''ok'', ''failed'', ''unsupported''}"
    using probePools_ok[of "fr_probe f" "collectDisks (fr_poolDisks f)" cl1] by (simp_all add: b)
  show "c \<in> {''ok'', ''asleep'', ''unsupported'', ''failed''}" using t p by simp
  show "d \<in> {''ok'', ''unsupported'', ''failed''}" using t q by blast
  show "\<forall>n. sp_NAS t = Some n \<longrightarrow> nas_ok n" using t p q assms(2) by (auto simp: nas_ok_def split: if_splits)
  show "sp_Containers t = sp_Containers s" "sp_Net t = sp_Net s" "sp_TS t = sp_TS s" using t by simp_all
qed

lemma collectBasics_ok:
  assumes "collectBasics u64 f prev s = (c, t)" "sp_Net s = None"
  shows "c \<in> {''ok'', ''failed''}" "sp_Net t \<noteq> None \<longrightarrow> c = ''ok''"
    "sp_CPUPercent t = cpu_percent prev (rd_cpu (fr_cur f))" "sp_Disks t = collectDisks (fr_disks f)"
    "sp_TS t = sp_TS s" "sp_Containers t = sp_Containers s" "sp_NAS t = sp_NAS s"
  using assms by (auto simp: collectBasics_def Let_def split: option.splits)

lemma collectBasics_net:
  assumes "collectBasics u64 f prev s = (c, t)" "rd_net (fr_cur f) = Some ios"
  shows "sp_Net t = net_rate u64 prev (rd_at (fr_cur f)) (net_sum ios (0, 0))"
  using assms by (auto simp: collectBasics_def Let_def)

lemma Collect_frame_parts:
  obtains c s1 sm po s2 cl nw s3 where
    "collectContainers f (p\<lparr>sy_prev := readCounters (fr_kept f)\<rparr>) (emptySample (fr_ts f)) = (c, s1)"
    "collectNAS f (sy_log p) s1 = ((sm, po, s2), cl)"
    "collectBasics u64 f (sy_prev p) s2 = (nw, s3)"
    "Collect_frame u64 f p = (\<lparr>co_Sample = s3,
        co_Capabilities = [(''containers'', c), (''smart'', sm), (''storagePool'', po), (''network'', nw)]\<rparr>,
      p\<lparr>sy_prev := readCounters (fr_kept f), sy_log := cl\<rparr>)"
proof -
  obtain c s1 where a: "collectContainers f (p\<lparr>sy_prev := readCounters (fr_kept f)\<rparr>) (emptySample (fr_ts f)) = (c, s1)"
    by fastforce
  obtain sm po s2 cl where b: "collectNAS f (sy_log p) s1 = ((sm, po, s2), cl)" by (metis prod.collapse)
  obtain nw s3 where d: "collectBasics u64 f (sy_prev p) s2 = (nw, s3)" by fastforce
  show ?thesis using a b d by (intro that[OF a b d]) (simp add: Collect_frame_def Let_def)
qed

text \<open>The form of a frame that the contract with the hub asks for.\<close>

definition frame_ok :: "collectResult \<Rightarrow> bool" where
  "frame_ok r \<longleftrightarrow>
     (\<exists>c sm po nw. co_Capabilities r = [(''containers'', c), (''smart'', sm), (''storagePool'', po), (''network'', nw)] \<and>
        c \<in> {''ok'', ''unsupported'', ''failed''} \<and> sm \<in> {''ok'', ''asleep'', ''unsupported'', ''failed''} \<and>
        po \<in> {''ok'', ''unsupported'', ''failed''} \<and> nw \<in> {''ok'', ''failed''} \<and>
        (sp_Containers (co_Sample r) = None \<longleftrightarrow> c \<noteq> ''ok'') \<and> (sp_Net (co_Sample r) \<noteq> None \<longrightarrow> nw = ''ok'')) \<and>
     (\<forall>v. sp_CPUPercent (co_Sample r) = Some v \<longrightarrow> 0 \<le> v \<and> v \<le> 100) \<and>
     distinct (map dk_Mount (sp_Disks (co_Sample r))) \<and> list_all disk_ok (sp_Disks (co_Sample r)) \<and>
     list_all container_ok (case sp_Containers (co_Sample r) of None \<Rightarrow> [] | Some cs \<Rightarrow> cs) \<and>
     (\<forall>n. sp_NAS (co_Sample r) = Some n \<longrightarrow> nas_ok n)"

text \<open>
  C35: Every frame has the form of the contract, whatever the system, Docker and the tools answer:
  exactly the four capabilities, each with one of its values; containers are listed if and only
  if the capability is \<open>ok\<close>, a running container has no exit code; the CPU percentage lies
  between 0 and 100; each mount point appears once; SMART and pool states are those of the
  contract and the NAS block is absent when it would be empty.  The timestamp is the hub's
  format, so a frame taken in a four-digit year passes the hub's check of the timestamp.
\<close>

theorem collected_frame_typed:
  assumes "in_years (fr_ts f)"
  shows "frame_ok (fst (Collect_frame u64 f p)) \<and> parseTS (sp_TS (co_Sample (fst (Collect_frame u64 f p)))) \<noteq> None"
proof (rule Collect_frame_parts[of f p u64])
  fix c s1 sm po s2 cl nw s3
  assume a: "collectContainers f (p\<lparr>sy_prev := readCounters (fr_kept f)\<rparr>) (emptySample (fr_ts f)) = (c, s1)"
    and b: "collectNAS f (sy_log p) s1 = ((sm, po, s2), cl)"
    and d: "collectBasics u64 f (sy_prev p) s2 = (nw, s3)"
    and r: "Collect_frame u64 f p = (\<lparr>co_Sample = s3,
        co_Capabilities = [(''containers'', c), (''smart'', sm), (''storagePool'', po), (''network'', nw)]\<rparr>,
      p\<lparr>sy_prev := readCounters (fr_kept f), sy_log := cl\<rparr>)"
  have A: "sp_Containers (emptySample (fr_ts f)) = None" "sp_NAS (emptySample (fr_ts f)) = None"
    "sp_Net (emptySample (fr_ts f)) = None" "sp_TS (emptySample (fr_ts f)) = fmtTS (fr_ts f)"
    by (simp_all add: emptySample_def)
  note B = collectContainers_ok[OF a A(1)]
  have n1: "sp_NAS s1 = None" using A(2) B(4) by simp
  note C = collectNAS_ok[OF b n1]
  have n2: "sp_Net s2 = None" using A(3) B(5) C(5) by simp
  note D = collectBasics_ok[OF d n2]
  have cs: "sp_Containers s3 = sp_Containers s1" using C(4) D(6) by simp
  have nas: "sp_NAS s3 = sp_NAS s2" by (rule D(7))
  have ts: "sp_TS s3 = fmtTS (fr_ts f)" using A(4) B(6) C(6) D(5) by simp
  have cpu: "\<forall>v. sp_CPUPercent s3 = Some v \<longrightarrow> 0 \<le> v \<and> v \<le> 100" using D(3) cpu_percent_bounds by simp
  have "frame_ok (fst (Collect_frame u64 f p))"
    unfolding frame_ok_def r fst_conv collectResult.simps cs nas D(4)
  proof (intro conjI)
    show "\<exists>c' sm' po' nw'. [(''containers'', c), (''smart'', sm), (''storagePool'', po), (''network'', nw)] =
        [(''containers'', c'), (''smart'', sm'), (''storagePool'', po'), (''network'', nw')] \<and>
        c' \<in> {''ok'', ''unsupported'', ''failed''} \<and> sm' \<in> {''ok'', ''asleep'', ''unsupported'', ''failed''} \<and>
        po' \<in> {''ok'', ''unsupported'', ''failed''} \<and> nw' \<in> {''ok'', ''failed''} \<and>
        (sp_Containers s1 = None \<longleftrightarrow> c' \<noteq> ''ok'') \<and> (sp_Net s3 \<noteq> None \<longrightarrow> nw' = ''ok'')"
      by (intro exI[of _ c] exI[of _ sm] exI[of _ po] exI[of _ nw] conjI refl B(1,2) C(1,2) D(1,2))
  qed (use B(3) C(3) cpu collectDisks_ok in simp_all)
  moreover have "parseTS (sp_TS (co_Sample (fst (Collect_frame u64 f p)))) \<noteq> None"
    using parse_fmt[OF assms] by (simp add: r ts)
  ultimately show ?thesis by blast
qed

definition sample_reading :: "time \<Rightarrow> nat \<Rightarrow> reading" where
  "sample_reading t n = \<lparr>rd_at = t, rd_cpu = Some (of_nat (100 + n), of_nat (50 + n div 2), 0),
     rd_net = Some [(''lo'', 7, 7), (''eth0'', of_nat (1000 + n), of_nat (2000 + n))]\<rparr>"

definition sample_docker :: docker where
  "sample_docker = \<lparr>do_stat = (\<lambda>x. True), do_list = (\<lambda>x. None), do_inspect = (\<lambda>x. None)\<rparr>"

definition sample_mounts :: mounts where
  "sample_mounts = \<lparr>mo_parts = Some [(''/'', ''ext4'')], mo_usage = (\<lambda>x. Some (40, 40, 100))\<rparr>"

definition sample_frame :: "time \<Rightarrow> nat \<Rightarrow> sysFrame" where
  "sample_frame t n = \<lparr>fr_ts = t, fr_kept = sample_reading t n, fr_cur = sample_reading t n, fr_mem = Some (50, 1, 2),
     fr_load1 = Some 1, fr_uptime = Some 10, fr_boot = Some 5, fr_disks = sample_mounts, fr_poolDisks = sample_mounts,
     fr_docker = sample_docker, fr_probe = sample_probe\<rparr>"

definition sample_provider :: sysProvider where
  "sample_provider = newSysProvider (\<lambda>x. None) [] (sample_reading 1789712938000000000 0)"

theorem collected_frame_typed_witness:
  "frame_ok (fst (Collect_frame floor (sample_frame 1789712998000000000 200) sample_provider)) \<and>
   parseTS (sp_TS (co_Sample (fst (Collect_frame floor (sample_frame 1789712998000000000 200) sample_provider)))) \<noteq> None"
proof -
  have "in_years (fr_ts (sample_frame 1789712998000000000 200))" by (simp add: sample_frame_def) code_simp
  then show ?thesis by (rule collected_frame_typed)
qed

section \<open>Network rates over two frames\<close>

lemma Collect_frame_kept: "sy_prev (snd (Collect_frame u64 f p)) = readCounters (fr_kept f)"
  by (rule Collect_frame_parts[of f p u64]) simp

lemma Collect_frame_net:
  assumes "rd_net (fr_cur f) = Some ios"
  shows "sp_Net (co_Sample (fst (Collect_frame u64 f p))) = net_rate u64 (sy_prev p) (rd_at (fr_cur f)) (net_sum ios (0, 0))"
proof (rule Collect_frame_parts[of f p u64])
  fix c s1 sm po s2 cl nw s3
  assume d: "collectBasics u64 f (sy_prev p) s2 = (nw, s3)"
    and r: "Collect_frame u64 f p = (\<lparr>co_Sample = s3,
        co_Capabilities = [(''containers'', c), (''smart'', sm), (''storagePool'', po), (''network'', nw)]\<rparr>,
      p\<lparr>sy_prev := readCounters (fr_kept f), sy_log := cl\<rparr>)"
  show ?thesis using collectBasics_net[OF d assms] by (simp add: r)
qed

text \<open>The totals that a reading keeps; none of the interfaces counts when it fails.\<close>

definition kept_total :: "reading \<Rightarrow> 64 word \<times> 64 word" where
  "kept_total r = (case rd_net r of None \<Rightarrow> (0, 0) | Some ios \<Rightarrow> net_sum ios (0, 0))"

definition u64_conv :: "(rat \<Rightarrow> int) \<Rightarrow> bool" where
  "u64_conv u64 \<longleftrightarrow> (\<forall>x. 0 \<le> x \<and> x < 2 ^ 64 \<longrightarrow> u64 x = floor x)"

definition rate :: "64 word \<Rightarrow> 64 word \<Rightarrow> int \<Rightarrow> int" where
  "rate a b d = (if a \<le> b then uint b - uint a else 2 ^ 64 - (uint a - uint b)) * 1000000000 div d"

lemma uint_diff: "uint (b - a :: 64 word) = (if a \<le> b then uint b - uint a else 2 ^ 64 - (uint a - uint b))"
  by (auto simp: uint_sub_if' word_le_def)

lemma rate_conv:
  assumes "u64_conv u64" "1000000000 \<le> d"
  shows "u64 (of_int (uint (b - a :: 64 word)) / (rat_of_int d / 1000000000)) = rate a b d"
proof -
  define x where "x = uint (b - a)"
  have x: "0 \<le> x" "x < 2 ^ 64" using uint_lt2p[of "b - a"] by (simp_all add: x_def)
  have q: "rat_of_int x / (rat_of_int d / 1000000000) = rat_of_int (x * 1000000000) / rat_of_int d" by simp
  have "rat_of_int (x * 1000000000) \<le> rat_of_int (x * d)" using x assms(2) by (simp add: mult_left_mono)
  then have "rat_of_int (x * 1000000000) / rat_of_int d \<le> rat_of_int x"
    using assms(2) by (simp add: divide_le_eq)
  moreover have "rat_of_int x < 2 ^ 64" using x(2) by (metis of_int_less_iff of_int_numeral of_int_power)
  ultimately have "rat_of_int x / (rat_of_int d / 1000000000) < 2 ^ 64" unfolding q by (rule order.strict_trans1)
  moreover have "0 \<le> rat_of_int x / (rat_of_int d / 1000000000)" using x(1) assms(2) by simp
  ultimately have "u64 (rat_of_int x / (rat_of_int d / 1000000000)) = floor (rat_of_int (x * 1000000000) / rat_of_int d)"
    using assms(1) q by (simp add: u64_conv_def)
  also have "\<dots> = x * 1000000000 div d" by (rule floor_divide_of_int_eq)
  finally show ?thesis by (simp only: x_def uint_diff rate_def)
qed



end
