(* ===== verification/AgentConfig.thy ===== *)
theory AgentConfig
  imports Provider Auth
begin

text \<open>
  The start of the agent: the flags and environment variables (\<^verbatim>\<open>agent/internal/config/config.go\<close>)
  and \<^verbatim>\<open>agent/cmd/assistant-agent/main.go\<close>.  The flags are read as Go's package \<^verbatim>\<open>flag\<close> reads
  them.  \<open>startEnv\<close> holds what is not computed here: the grammars of \<^verbatim>\<open>strconv.ParseInt\<close> with
  base 0, \<^verbatim>\<open>time.ParseDuration\<close>, \<^verbatim>\<open>strconv.ParseFloat\<close> with the conversion to a duration, and
  \<^verbatim>\<open>url.Parse\<close> (scheme and host); the file system and the reporter are arguments of \<open>run\<close>.
  The texts of the error messages are left out.
\<close>

section \<open>Flags\<close>

record flagValues =
  fl_hubURL :: string
  fl_sourceKey :: string
  fl_interval :: string
  fl_queueDir :: string
  fl_queueMaxBatches :: int
  fl_queueMaxEvents :: int
  fl_hostname :: string
  fl_dockerHost :: string
  fl_smart :: string
  fl_gzip :: bool
  fl_logLevel :: string
  fl_version :: bool
  fl_check :: bool

definition DefaultQueueDir :: string where
  "DefaultQueueDir = ''/var/lib/assistant-agent''"

definition FallbackQueueDir :: string where
  "FallbackQueueDir = ''./data''"

definition default_flags :: flagValues where
  "default_flags =
     \<lparr>fl_hubURL = [], fl_sourceKey = [], fl_interval = ''30s'', fl_queueDir = DefaultQueueDir, fl_queueMaxBatches = 500,
      fl_queueMaxEvents = 1000, fl_hostname = [], fl_dockerHost = ''unix:///var/run/docker.sock'', fl_smart = ''auto'',
      fl_gzip = False, fl_logLevel = ''info'', fl_version = False, fl_check = False\<rparr>"

datatype configError = BadFlag | BadInterval | BadMaxBatches | BadMaxEvents | BadGzip | BadSmart | BadLogLevel
  | NoHubURL | BadHubURL | BadSourceKey

record startEnv =
  st_parseInt0 :: "string \<Rightarrow> int option"
  st_parseDuration :: "string \<Rightarrow> duration option"
  st_parseSeconds :: "string \<Rightarrow> duration option"
  st_parseURL :: "string \<Rightarrow> (string \<times> string) option"

text \<open>\<^verbatim>\<open>strconv.ParseBool\<close>.\<close>

definition parse_bool :: "string \<Rightarrow> bool option" where
  "parse_bool s =
     (if s \<in> {''1'', ''t'', ''T'', ''TRUE'', ''true'', ''True''} then Some True
      else if s \<in> {''0'', ''f'', ''F'', ''FALSE'', ''false'', ''False''} then Some False
      else None)"

text \<open>Whether a name is a flag, and whether it is a Boolean one.\<close>

definition flag_kind :: "string \<Rightarrow> bool option" where
  "flag_kind name =
     (if name \<in> {''gzip'', ''version'', ''check''} then Some True
      else if name \<in> {''hub-url'', ''source-key'', ''interval'', ''queue-dir'', ''queue-max-batches'', ''queue-max-events'',
        ''hostname'', ''docker-host'', ''smart'', ''log-level''} then Some False
      else None)"

definition flag_set :: "startEnv \<Rightarrow> string \<Rightarrow> string \<Rightarrow> flagValues \<Rightarrow> flagValues option" where
  "flag_set S name v fs =
     (if name = ''hub-url'' then Some (fs\<lparr>fl_hubURL := v\<rparr>)
      else if name = ''source-key'' then Some (fs\<lparr>fl_sourceKey := v\<rparr>)
      else if name = ''interval'' then Some (fs\<lparr>fl_interval := v\<rparr>)
      else if name = ''queue-dir'' then Some (fs\<lparr>fl_queueDir := v\<rparr>)
      else if name = ''queue-max-batches'' then map_option (\<lambda>n. fs\<lparr>fl_queueMaxBatches := n\<rparr>) (st_parseInt0 S v)
      else if name = ''queue-max-events'' then map_option (\<lambda>n. fs\<lparr>fl_queueMaxEvents := n\<rparr>) (st_parseInt0 S v)
      else if name = ''hostname'' then Some (fs\<lparr>fl_hostname := v\<rparr>)
      else if name = ''docker-host'' then Some (fs\<lparr>fl_dockerHost := v\<rparr>)
      else if name = ''smart'' then Some (fs\<lparr>fl_smart := v\<rparr>)
      else if name = ''gzip'' then map_option (\<lambda>b. fs\<lparr>fl_gzip := b\<rparr>) (parse_bool v)
      else if name = ''log-level'' then Some (fs\<lparr>fl_logLevel := v\<rparr>)
      else if name = ''version'' then map_option (\<lambda>b. fs\<lparr>fl_version := b\<rparr>) (parse_bool v)
      else if name = ''check'' then map_option (\<lambda>b. fs\<lparr>fl_check := b\<rparr>) (parse_bool v)
      else None)"

text \<open>The name and the value of an argument without its dashes; the equals sign is sought after the first character.\<close>

definition flag_split :: "string \<Rightarrow> string \<times> string option" where
  "flag_split name =
     (case name of
        [] \<Rightarrow> ([], None)
      | c # r \<Rightarrow>
          if CHR ''='' \<in> set r
          then (c # takeWhile (\<lambda>x. x \<noteq> CHR ''='') r, Some (drop 1 (dropWhile (\<lambda>x. x \<noteq> CHR ''='') r)))
          else (name, None))"

text \<open>\<^verbatim>\<open>FlagSet.Parse\<close>; \<open>None\<close> is an error, as is the request for help.\<close>

fun flag_parse :: "startEnv \<Rightarrow> string list \<Rightarrow> flagValues \<Rightarrow> flagValues option" where
  "flag_parse S [] fs = Some fs"
| "flag_parse S (s # args) fs =
     (if length s < 2 \<or> hd s \<noteq> CHR ''-'' \<or> s = ''--'' then Some fs
      else
        (let name = (if s ! 1 = CHR ''-'' then drop 2 s else drop 1 s) in
         if name = [] \<or> hd name = CHR ''-'' \<or> hd name = CHR ''='' then None
         else
           (case flag_split name of (n, v) \<Rightarrow>
             (case flag_kind n of
                None \<Rightarrow> None
              | Some True \<Rightarrow>
                  (case flag_set S n (case v of None \<Rightarrow> ''true'' | Some x \<Rightarrow> x) fs of
                     None \<Rightarrow> None | Some fs1 \<Rightarrow> flag_parse S args fs1)
              | Some False \<Rightarrow>
                  (case v of
                     Some x \<Rightarrow> (case flag_set S n x fs of None \<Rightarrow> None | Some fs1 \<Rightarrow> flag_parse S args fs1)
                   | None \<Rightarrow>
                       (case args of
                          [] \<Rightarrow> None
                        | x # rest \<Rightarrow> (case flag_set S n x fs of None \<Rightarrow> None | Some fs1 \<Rightarrow> flag_parse S rest fs1)))))))"

section \<open>The configuration\<close>

datatype mode = ModeRun | ModeVersion | ModeCheck

record agentCfg =
  ac_HubURL :: string
  ac_SourceKey :: string
  ac_Interval :: duration
  ac_QueueDir :: string
  ac_QueueMaxBatches :: int
  ac_QueueMaxEvents :: int
  ac_Hostname :: string
  ac_DockerHost :: string
  ac_Smart :: string
  ac_Gzip :: bool
  ac_LogLevel :: string

definition zero_cfg :: agentCfg where
  "zero_cfg = \<lparr>ac_HubURL = [], ac_SourceKey = [], ac_Interval = 0, ac_QueueDir = [], ac_QueueMaxBatches = 0, ac_QueueMaxEvents = 0,
     ac_Hostname = [], ac_DockerHost = [], ac_Smart = [], ac_Gzip = False, ac_LogLevel = []\<rparr>"

definition envOr :: "(string \<Rightarrow> string) \<Rightarrow> string \<Rightarrow> string \<Rightarrow> string" where
  "envOr env key fallback = (if env key \<noteq> [] then env key else fallback)"

definition parseDurationLoose :: "startEnv \<Rightarrow> string \<Rightarrow> duration option" where
  "parseDurationLoose S s = (case st_parseDuration S s of Some d \<Rightarrow> Some d | None \<Rightarrow> st_parseSeconds S s)"

definition parseBoolLoose :: "string \<Rightarrow> bool option" where
  "parseBoolLoose s =
     (let v = toLower (TrimSpace s) in
      if v \<in> {''1'', ''true'', ''on'', ''yes''} then Some True
      else if v \<in> {''0'', ''false'', ''off'', ''no'', []} then Some False
      else None)"

text \<open>\<open>sourceKeyRe\<close>.\<close>

definition lower_hex :: "char \<Rightarrow> bool" where
  "lower_hex c \<longleftrightarrow> c \<in> set ''0123456789abcdef''"

definition source_key_ok :: "string \<Rightarrow> bool" where
  "source_key_ok k \<longleftrightarrow> (case strip_prefix ''ask_'' k of None \<Rightarrow> False | Some h \<Rightarrow> length h = 48 \<and> list_all lower_hex h)"

definition fmt_bool :: "bool \<Rightarrow> string" where
  "fmt_bool b = (if b then ''true'' else ''false'')"

text \<open>The flags with the environment laid over them.\<close>

record settingsText =
  sx_hubURL :: string
  sx_sourceKey :: string
  sx_interval :: string
  sx_queueDir :: string
  sx_queueMaxBatches :: string
  sx_queueMaxEvents :: string
  sx_hostname :: string
  sx_dockerHost :: string
  sx_smart :: string
  sx_gzip :: string
  sx_logLevel :: string

definition overlay :: "(string \<Rightarrow> string) \<Rightarrow> flagValues \<Rightarrow> settingsText" where
  "overlay env fs =
     \<lparr>sx_hubURL = envOr env ''ASSIST_HUB_URL'' (fl_hubURL fs),
      sx_sourceKey = envOr env ''ASSIST_SOURCE_KEY'' (fl_sourceKey fs),
      sx_interval = envOr env ''ASSIST_INTERVAL'' (fl_interval fs),
      sx_queueDir = envOr env ''ASSIST_QUEUE_DIR'' (fl_queueDir fs),
      sx_queueMaxBatches = envOr env ''ASSIST_QUEUE_MAX_BATCHES'' (fmt_d (fl_queueMaxBatches fs)),
      sx_queueMaxEvents = envOr env ''ASSIST_QUEUE_MAX_EVENTS'' (fmt_d (fl_queueMaxEvents fs)),
      sx_hostname = envOr env ''ASSIST_HOSTNAME'' (fl_hostname fs),
      sx_dockerHost = envOr env ''ASSIST_DOCKER_HOST'' (fl_dockerHost fs),
      sx_smart = envOr env ''ASSIST_SMART'' (fl_smart fs),
      sx_gzip = envOr env ''ASSIST_GZIP'' (fmt_bool (fl_gzip fs)),
      sx_logLevel = envOr env ''ASSIST_LOG_LEVEL'' (fl_logLevel fs)\<rparr>"

definition positive :: "string \<Rightarrow> int option" where
  "positive s = (case parse_int64 s of None \<Rightarrow> None | Some n \<Rightarrow> if n < 1 then None else Some n)"

text \<open>The values that every mode but \<open>version\<close> needs.\<close>

definition check_values :: "startEnv \<Rightarrow> settingsText \<Rightarrow> configError + agentCfg" where
  "check_values S x =
     (case parseDurationLoose S (sx_interval x) of None \<Rightarrow> Inl BadInterval | Some d \<Rightarrow>
      case positive (sx_queueMaxBatches x) of None \<Rightarrow> Inl BadMaxBatches | Some b \<Rightarrow>
      case positive (sx_queueMaxEvents x) of None \<Rightarrow> Inl BadMaxEvents | Some e \<Rightarrow>
      case parseBoolLoose (sx_gzip x) of None \<Rightarrow> Inl BadGzip | Some g \<Rightarrow>
      if toLower (sx_smart x) \<notin> {''auto'', ''on'', ''off''} then Inl BadSmart
      else if toLower (sx_logLevel x) \<notin> {''debug'', ''info'', ''warn'', ''error''} then Inl BadLogLevel
      else Inr \<lparr>ac_HubURL = trim_right CHR ''/'' (sx_hubURL x), ac_SourceKey = sx_sourceKey x, ac_Interval = d,
                ac_QueueDir = sx_queueDir x, ac_QueueMaxBatches = b, ac_QueueMaxEvents = e, ac_Hostname = sx_hostname x,
                ac_DockerHost = sx_dockerHost x, ac_Smart = toLower (sx_smart x), ac_Gzip = g,
                ac_LogLevel = toLower (sx_logLevel x)\<rparr>)"

definition hub_url_ok :: "startEnv \<Rightarrow> string \<Rightarrow> bool" where
  "hub_url_ok S u =
     (case st_parseURL S u of None \<Rightarrow> False | Some (scheme, host) \<Rightarrow> (scheme = ''http'' \<or> scheme = ''https'') \<and> host \<noteq> [])"

definition Parse :: "startEnv \<Rightarrow> string list \<Rightarrow> (string \<Rightarrow> string) \<Rightarrow> configError + (agentCfg \<times> mode)" where
  "Parse S args env =
     (case flag_parse S args default_flags of
        None \<Rightarrow> Inl BadFlag
      | Some fs \<Rightarrow>
          if fl_version fs then Inr (zero_cfg, ModeVersion)
          else
            (case check_values S (overlay env fs) of
               Inl e \<Rightarrow> Inl e
             | Inr cfg \<Rightarrow>
                 if fl_check fs then Inr (cfg, ModeCheck)
                 else if ac_HubURL cfg = [] then Inl NoHubURL
                 else if \<not> hub_url_ok S (ac_HubURL cfg) then Inl BadHubURL
                 else if \<not> source_key_ok (ac_SourceKey cfg) then Inl BadSourceKey
                 else Inr (cfg, ModeRun)))"

section \<open>Starting (main.go)\<close>

text \<open>
  \<open>probeDir\<close> makes the directory, creates a file in it and removes it; \<open>fsOps\<close> says which of the
  three succeed.
\<close>

record fsOps =
  fo_mkdirAll :: "string \<Rightarrow> bool"
  fo_createTemp :: "string \<Rightarrow> string option"
  fo_remove :: "string \<Rightarrow> bool"

definition probeDir :: "fsOps \<Rightarrow> string \<Rightarrow> bool" where
  "probeDir fo dir =
     (if \<not> fo_mkdirAll fo dir then False
      else case fo_createTemp fo dir of None \<Rightarrow> False | Some name \<Rightarrow> fo_remove fo name)"

definition resolveQueueDir :: "fsOps \<Rightarrow> string \<Rightarrow> string option" where
  "resolveQueueDir fo dir =
     (if probeDir fo dir then Some dir
      else if dir = DefaultQueueDir \<and> probeDir fo FallbackQueueDir then Some FallbackQueueDir
      else None)"

text \<open>The first position of a text.\<close>

fun index_of :: "string \<Rightarrow> string \<Rightarrow> nat option" where
  "index_of p s =
     (if strip_prefix p s \<noteq> None then Some 0 else case s of [] \<Rightarrow> None | _ # r \<Rightarrow> map_option Suc (index_of p r))"

declare index_of.simps [simp del]

definition redactURL :: "string \<Rightarrow> string" where
  "redactURL raw =
     (let raw1 = (case index_of ''@'' raw of
                    None \<Rightarrow> raw
                  | Some i \<Rightarrow>
                      (case index_of ''://'' raw of
                         None \<Rightarrow> raw
                       | Some j \<Rightarrow> if j < i then take (j + 3) raw @ ''***'' @ drop i raw else raw))
      in takeWhile (\<lambda>c. c \<noteq> CHR ''?'' \<and> c \<noteq> CHR ''#'') raw1)"

text \<open>
  The exit code of \<^verbatim>\<open>run\<close> and, when the reporter is started, what it starts with.  \<open>opens\<close> and
  \<open>ends\<close> say whether the queue can be opened and the reporter ends without an error, \<open>checked\<close>
  is the exit code of \<^verbatim>\<open>runCheck\<close>, \<open>osName\<close> the answer of \<^verbatim>\<open>os.Hostname\<close>.
\<close>

record started =
  sd_cfg :: agentCfg
  sd_dir :: string
  sd_hostname :: string
  sd_shown :: string

record outside =
  ou_fs :: fsOps
  ou_opens :: "string \<Rightarrow> bool"
  ou_osName :: string
  ou_ends :: bool
  ou_checked :: "agentCfg \<Rightarrow> int"

definition run :: "startEnv \<Rightarrow> outside \<Rightarrow> string list \<Rightarrow> (string \<Rightarrow> string) \<Rightarrow> int \<times> started option" where
  "run S W args env =
     (case Parse S args env of
        Inl e \<Rightarrow> (2, None)
      | Inr (cfg, m) \<Rightarrow>
          (case m of
             ModeVersion \<Rightarrow> (0, None)
           | ModeCheck \<Rightarrow> (ou_checked W cfg, None)
           | ModeRun \<Rightarrow>
               (case resolveQueueDir (ou_fs W) (ac_QueueDir cfg) of
                  None \<Rightarrow> (1, None)
                | Some dir \<Rightarrow>
                    if \<not> ou_opens W dir then (1, None)
                    else (if ou_ends W then 0 else 1,
                          Some \<lparr>sd_cfg = cfg, sd_dir = dir,
                                sd_hostname = (if ac_Hostname cfg = [] then ou_osName W else ac_Hostname cfg),
                                sd_shown = redactURL (ac_HubURL cfg)\<rparr>))))"

text \<open>\<^verbatim>\<open>report.New\<close>: the interval the reporter starts with.\<close>

definition first_interval :: "agentCfg \<Rightarrow> duration" where
  "first_interval cfg = (if ac_Interval cfg \<le> 0 then 30 * 1000000000 else ac_Interval cfg)"

section \<open>What a started agent runs with\<close>

lemma positive_Some: "positive s = Some n \<Longrightarrow> 1 \<le> n"
  by (auto simp: positive_def split: option.splits if_splits)

definition cfg_ok :: "agentCfg \<Rightarrow> bool" where
  "cfg_ok cfg \<longleftrightarrow>
     1 \<le> ac_QueueMaxBatches cfg \<and> 1 \<le> ac_QueueMaxEvents cfg \<and>
     ac_Smart cfg \<in> {''auto'', ''on'', ''off''} \<and> ac_LogLevel cfg \<in> {''debug'', ''info'', ''warn'', ''error''} \<and>
     (ac_HubURL cfg \<noteq> [] \<longrightarrow> List.last (ac_HubURL cfg) \<noteq> CHR ''/'')"

lemma last_trim_right: "trim_right c s \<noteq> [] \<Longrightarrow> List.last (trim_right c s) \<noteq> c"
proof -
  assume a: "trim_right c s \<noteq> []"
  then have "dropWhile (\<lambda>x. x = c) (rev s) \<noteq> []" by (simp add: trim_right_def)
  then have "hd (dropWhile (\<lambda>x. x = c) (rev s)) \<noteq> c" by (rule hd_dropWhile)
  then show ?thesis using a by (simp add: trim_right_def last_rev)
qed

lemma check_values_ok: "check_values S x = Inr cfg \<Longrightarrow> cfg_ok cfg"
  by (auto simp: check_values_def cfg_ok_def last_trim_right dest: positive_Some split: option.splits if_splits)

lemma Parse_run:
  assumes "Parse S args env = Inr (cfg, ModeRun)"
  shows "cfg_ok cfg \<and> ac_HubURL cfg \<noteq> [] \<and> hub_url_ok S (ac_HubURL cfg) \<and> source_key_ok (ac_SourceKey cfg)"
  using assms by (auto simp: Parse_def check_values_ok split: option.splits sum.splits if_splits)

lemma resolve_dir:
  "resolveQueueDir fo dir = Some d \<Longrightarrow> probeDir fo d \<and> (d = dir \<or> dir = DefaultQueueDir \<and> d = FallbackQueueDir \<and> \<not> probeDir fo dir)"
  by (auto simp: resolveQueueDir_def split: if_splits)

text \<open>
  C40: The agent reports only with a configuration that was checked: when \<^verbatim>\<open>run\<close> starts the reporter,
  the hub's address is an \<^verbatim>\<open>http\<close> or \<^verbatim>\<open>https\<close> address with a host and without a slash at its end,
  the key has the form of a source key, the limits of both queues are positive, the SMART mode
  and the log level are known values, and the interval the reporter takes is positive.  The
  directory of the queue was probed, and it is the configured one unless that is the default
  and cannot be written.  Whenever the configuration is refused, the exit code is 2 and nothing
  starts.
\<close>

theorem agent_starts_checked:
  assumes "run S W args env = (code, st)"
  shows "(\<forall>e. Parse S args env = Inl e \<longrightarrow> code = 2 \<and> st = None) \<and>
    (\<forall>sd. st = Some sd \<longrightarrow> code \<in> {0, 1} \<and> Parse S args env = Inr (sd_cfg sd, ModeRun) \<and>
       ac_HubURL (sd_cfg sd) \<noteq> [] \<and> hub_url_ok S (ac_HubURL (sd_cfg sd)) \<and> source_key_ok (ac_SourceKey (sd_cfg sd)) \<and>
       cfg_ok (sd_cfg sd) \<and> 0 < first_interval (sd_cfg sd) \<and> probeDir (ou_fs W) (sd_dir sd) \<and>
       (sd_dir sd = ac_QueueDir (sd_cfg sd) \<or> ac_QueueDir (sd_cfg sd) = DefaultQueueDir \<and> sd_dir sd = FallbackQueueDir))"
proof (cases "Parse S args env")
  case (Inl e)
  then show ?thesis using assms by (auto simp: run_def)
next
  case (Inr r)
  obtain cfg m where r: "r = (cfg, m)" by fastforce
  show ?thesis
  proof (cases m)
    case ModeRun
    with Inr r have p: "Parse S args env = Inr (cfg, ModeRun)" by simp
    note q = Parse_run[OF p]
    show ?thesis
    proof (cases "resolveQueueDir (ou_fs W) (ac_QueueDir cfg)")
      case None
      then show ?thesis using assms p by (auto simp: run_def)
    next
      case (Some d)
      note rd = resolve_dir[OF Some]
      show ?thesis using assms p q rd Some by (auto simp: run_def first_interval_def split: if_splits)
    qed
  qed (use assms Inr r in \<open>auto simp: run_def\<close>)
qed

section \<open>Precedence of the environment\<close>

text \<open>Two sets of flags that differ only where the environment has a value.\<close>

definition agree :: "(string \<Rightarrow> string) \<Rightarrow> flagValues \<Rightarrow> flagValues \<Rightarrow> bool" where
  "agree env a b \<longleftrightarrow>
     (env ''ASSIST_HUB_URL'' = [] \<longrightarrow> fl_hubURL a = fl_hubURL b) \<and>
     (env ''ASSIST_SOURCE_KEY'' = [] \<longrightarrow> fl_sourceKey a = fl_sourceKey b) \<and>
     (env ''ASSIST_INTERVAL'' = [] \<longrightarrow> fl_interval a = fl_interval b) \<and>
     (env ''ASSIST_QUEUE_DIR'' = [] \<longrightarrow> fl_queueDir a = fl_queueDir b) \<and>
     (env ''ASSIST_QUEUE_MAX_BATCHES'' = [] \<longrightarrow> fl_queueMaxBatches a = fl_queueMaxBatches b) \<and>
     (env ''ASSIST_QUEUE_MAX_EVENTS'' = [] \<longrightarrow> fl_queueMaxEvents a = fl_queueMaxEvents b) \<and>
     (env ''ASSIST_HOSTNAME'' = [] \<longrightarrow> fl_hostname a = fl_hostname b) \<and>
     (env ''ASSIST_DOCKER_HOST'' = [] \<longrightarrow> fl_dockerHost a = fl_dockerHost b) \<and>
     (env ''ASSIST_SMART'' = [] \<longrightarrow> fl_smart a = fl_smart b) \<and>
     (env ''ASSIST_GZIP'' = [] \<longrightarrow> fl_gzip a = fl_gzip b) \<and>
     (env ''ASSIST_LOG_LEVEL'' = [] \<longrightarrow> fl_logLevel a = fl_logLevel b) \<and>
     fl_version a = fl_version b \<and> fl_check a = fl_check b"

interpretation agent_env: env_lookup envOr
  by unfold_locales (simp_all add: envOr_def)

lemma overlay_agree:
  assumes "agree env a b"
  shows "overlay env a = overlay env b"
proof (rule settingsText.equality)
  note str = agent_env.look_agree[where f = "\<lambda>v. v"] and num = agent_env.look_agree[where f = fmt_d] and bool = agent_env.look_agree[where f = fmt_bool]
  note a = assms[unfolded agree_def]
  show "sx_hubURL (overlay env a) = sx_hubURL (overlay env b)"
    "sx_sourceKey (overlay env a) = sx_sourceKey (overlay env b)"
    "sx_interval (overlay env a) = sx_interval (overlay env b)"
    "sx_queueDir (overlay env a) = sx_queueDir (overlay env b)"
    "sx_hostname (overlay env a) = sx_hostname (overlay env b)"
    "sx_dockerHost (overlay env a) = sx_dockerHost (overlay env b)"
    "sx_smart (overlay env a) = sx_smart (overlay env b)"
    "sx_logLevel (overlay env a) = sx_logLevel (overlay env b)"
    using a by (simp_all only: overlay_def settingsText.simps) (rule str, blast)+
  show "sx_queueMaxBatches (overlay env a) = sx_queueMaxBatches (overlay env b)"
    "sx_queueMaxEvents (overlay env a) = sx_queueMaxEvents (overlay env b)"
    using a by (simp_all only: overlay_def settingsText.simps) (rule num, blast)+
  show "sx_gzip (overlay env a) = sx_gzip (overlay env b)"
    using a by (simp only: overlay_def settingsText.simps) (rule bool, blast)
qed simp

text \<open>
  An environment variable beats its flag: two command lines whose flags differ only where the
  environment has a value give the same configuration or the same error.
\<close>

theorem environment_wins:
  assumes "flag_parse S args default_flags = Some a" "flag_parse S args' default_flags = Some b" "agree env a b"
  shows "Parse S args env = Parse S args' env"
proof -
  have "fl_version a = fl_version b" "fl_check a = fl_check b" using assms(3) by (simp_all add: agree_def)
  then show ?thesis by (simp only: Parse_def assms(1,2) option.case overlay_agree[OF assms(3)])
qed

section \<open>The keys of the hub\<close>

lemma hex_encode_length: "length (hex_encode b) = 2 * length b"
  by (induction b) (simp_all add: hex_encode_def)

lemma issued_key_ok: "length (ax_bytes X k) = 24 \<Longrightarrow> source_key_ok (token_at X ''ask_'' k)"
  using hex_encode_range
  by (auto simp: source_key_ok_def token_at_def strip_prefix_def hex_encode_length list_all_iff lower_hex_def hex_chars_def)

definition install_env :: "string \<Rightarrow> string \<Rightarrow> string \<Rightarrow> string" where
  "install_env url key = (\<lambda>v. if v = ''ASSIST_HUB_URL'' then url else if v = ''ASSIST_SOURCE_KEY'' then key else [])"

text \<open>
  An agent that is started with the hub's address and the key the hub issued, and nothing
  else, runs: 24 random bytes give a key of the form the agent asks for, the defaults pass every
  check, and the configuration carries that key.
\<close>

theorem issued_key_starts_agent:
  assumes "length (ax_bytes X k) = 24" "key = token_at X ''ask_'' k"
    and "trim_right CHR ''/'' url \<noteq> []" "hub_url_ok S (trim_right CHR ''/'' url)"
    and "st_parseDuration S ''30s'' = Some 30000000000"
  shows "Parse S [] (install_env url key) =
    Inr (\<lparr>ac_HubURL = trim_right CHR ''/'' url, ac_SourceKey = key, ac_Interval = 30000000000, ac_QueueDir = DefaultQueueDir,
          ac_QueueMaxBatches = 500, ac_QueueMaxEvents = 1000, ac_Hostname = [],
          ac_DockerHost = ''unix:///var/run/docker.sock'', ac_Smart = ''auto'', ac_Gzip = False, ac_LogLevel = ''info''\<rparr>, ModeRun)"
proof -
  have u: "url \<noteq> []" using assms(3) by (auto simp: trim_right_def)
  have key: "key \<noteq> []" "source_key_ok key" using assms(1,2) issued_key_ok by (auto simp: token_at_def)
  let ?x = "overlay (install_env url key) default_flags"
  have x: "?x = \<lparr>sx_hubURL = url, sx_sourceKey = key, sx_interval = ''30s'', sx_queueDir = DefaultQueueDir,
      sx_queueMaxBatches = fmt_d 500, sx_queueMaxEvents = fmt_d 1000, sx_hostname = [],
      sx_dockerHost = ''unix:///var/run/docker.sock'', sx_smart = ''auto'', sx_gzip = ''false'', sx_logLevel = ''info''\<rparr>"
    using u key(1) by (simp add: overlay_def envOr_def install_env_def default_flags_def fmt_bool_def)
  have p: "positive (fmt_d 500) = Some 500" "positive (fmt_d 1000) = Some 1000" by code_simp+
  have b: "parseBoolLoose ''false'' = Some False" "toLower ''auto'' = ''auto''" "toLower ''info'' = ''info''" by code_simp+
  have "check_values S ?x = Inr \<lparr>ac_HubURL = trim_right CHR ''/'' url, ac_SourceKey = key, ac_Interval = 30000000000,
      ac_QueueDir = DefaultQueueDir, ac_QueueMaxBatches = 500, ac_QueueMaxEvents = 1000, ac_Hostname = [],
      ac_DockerHost = ''unix:///var/run/docker.sock'', ac_Smart = ''auto'', ac_Gzip = False, ac_LogLevel = ''info''\<rparr>"
    unfolding x check_values_def parseDurationLoose_def by (simp add: assms(5) p b)
  then show ?thesis using assms(3,4) key by (simp add: Parse_def) (simp add: default_flags_def)
qed

section \<open>What the log shows of the hub's address\<close>

lemma index_of_miss: "x \<noteq> c \<Longrightarrow> index_of (c # p) (x # s) = map_option Suc (index_of (c # p) s)"
  by (simp add: index_of.simps[of "c # p" "x # s"] strip_prefix_def)

lemma index_of_hit: "index_of p (p @ t) = Some 0"
  by (simp add: index_of.simps[of p "p @ t"] strip_prefix_def)

lemma index_of_skip: "c \<notin> set u \<Longrightarrow> index_of (c # p) (u @ (c # p) @ t) = Some (length u)"
proof (induction u)
  case Nil
  show ?case using index_of_hit[of "c # p" t] by simp
next
  case (Cons x u)
  then show ?case using index_of_miss[of x c p "u @ (c # p) @ t"] by auto
qed

text \<open>
  The log hides the part of the hub's address between the scheme and the first \<^verbatim>\<open>@\<close>, and shows
  all that follows it up to a query or a fragment.  A user name and password without \<^verbatim>\<open>@\<close> never
  appear; of a password that holds an \<^verbatim>\<open>@\<close>, which \<^verbatim>\<open>url.Parse\<close> accepts, the rest after it is
  logged.
\<close>

theorem redacted_up_to_first_at:
  assumes "CHR ''@'' \<notin> set scheme \<union> set user" "CHR '':'' \<notin> set scheme" "list_all is_alnum scheme"
  shows "redactURL (scheme @ ''://'' @ user @ ''@'' @ tail) =
    scheme @ ''://***@'' @ takeWhile (\<lambda>c. c \<noteq> CHR ''?'' \<and> c \<noteq> CHR ''#'') tail"
proof -
  let ?raw = "scheme @ ''://'' @ user @ ''@'' @ tail"
  have "?raw = (scheme @ ''://'' @ user) @ ''@'' @ tail" by simp
  moreover have "CHR ''@'' \<notin> set (scheme @ ''://'' @ user)" using assms(1) by simp
  ultimately have i: "index_of ''@'' ?raw = Some (length (scheme @ ''://'' @ user))"
    using index_of_skip by metis
  have j: "index_of ''://'' ?raw = Some (length scheme)" by (rule index_of_skip[OF assms(2)])
  have q: "\<forall>c \<in> set (scheme @ ''://***@''). c \<noteq> CHR ''?'' \<and> c \<noteq> CHR ''#''"
    using assms(3) by (auto simp: list_all_iff is_alnum_def)
  have t: "take (length scheme + 3) ?raw @ ''***'' @ drop (length (scheme @ ''://'' @ user)) ?raw = (scheme @ ''://***@'') @ tail"
    by (simp add: drop_Cons')
  have "redactURL ?raw = takeWhile (\<lambda>c. c \<noteq> CHR ''?'' \<and> c \<noteq> CHR ''#'') ((scheme @ ''://***@'') @ tail)"
    unfolding redactURL_def i j using t by simp
  also have "\<dots> = (scheme @ ''://***@'') @ takeWhile (\<lambda>c. c \<noteq> CHR ''?'' \<and> c \<noteq> CHR ''#'') tail"
    by (rule takeWhile_append2) (use q in blast)
  finally show ?thesis by simp
qed

theorem redacted_up_to_first_at_witness:
  "redactURL ''https://bob:pw@hub.example/x?y'' = ''https://***@hub.example/x'' \<and>
   redactURL ''https://bob:a@secret@hub'' = ''https://***@secret@hub''"
  using redacted_up_to_first_at[of "''https''" "''bob:pw''" "''hub.example/x?y''"]
    redacted_up_to_first_at[of "''https''" "''bob:a''" "''secret@hub''"]
  by (simp add: is_alnum_def)

section \<open>Witnesses\<close>

definition sample_start :: startEnv where
  "sample_start = \<lparr>st_parseInt0 = parse_int64, st_parseDuration = (\<lambda>s. if s = ''30s'' then Some 30000000000 else None),
     st_parseSeconds = (\<lambda>s. map_option (\<lambda>n. n * 1000000000) (parse_int64 s)), st_parseURL = (\<lambda>u. Some (''https'', ''hub''))\<rparr>"

definition key_auth :: authEnv where
  "key_auth = sample_auth\<lparr>ax_bytes := (\<lambda>k. replicate 24 CHR 0x61)\<rparr>"

definition sample_outside :: outside where
  "sample_outside = \<lparr>ou_fs = \<lparr>fo_mkdirAll = (\<lambda>d. d = FallbackQueueDir), fo_createTemp = (\<lambda>d. Some d), fo_remove = (\<lambda>f. True)\<rparr>,
     ou_opens = (\<lambda>d. True), ou_osName = ''nas'', ou_ends = True, ou_checked = (\<lambda>c. 0)\<rparr>"

definition sample_cfg :: agentCfg where
  "sample_cfg = \<lparr>ac_HubURL = ''https://hub'', ac_SourceKey = token_at key_auth ''ask_'' 0, ac_Interval = 30000000000,
     ac_QueueDir = DefaultQueueDir, ac_QueueMaxBatches = 500, ac_QueueMaxEvents = 1000, ac_Hostname = [],
     ac_DockerHost = ''unix:///var/run/docker.sock'', ac_Smart = ''auto'', ac_Gzip = False, ac_LogLevel = ''info''\<rparr>"

lemma sample_parse_facts:
  "length (ax_bytes key_auth 0) = 24" "trim_right CHR ''/'' ''https://hub/'' = ''https://hub''"
  "hub_url_ok sample_start u" "st_parseDuration sample_start ''30s'' = Some 30000000000"
  by (simp_all add: key_auth_def trim_right_def hub_url_ok_def sample_start_def)

lemma sample_check:
  assumes "source_key_ok key" "key \<noteq> []"
  shows "check_values sample_start (overlay (install_env ''https://hub/'' key) default_flags) =
    Inr (sample_cfg\<lparr>ac_SourceKey := key\<rparr>)"
proof -
  have p: "positive (fmt_d 500) = Some 500" "positive (fmt_d 1000) = Some 1000" by code_simp+
  have b: "parseBoolLoose ''false'' = Some False" "toLower ''auto'' = ''auto''" "toLower ''info'' = ''info''" by code_simp+
  show ?thesis
    using assms by (simp add: check_values_def overlay_def envOr_def install_env_def default_flags_def fmt_bool_def
        parseDurationLoose_def sample_parse_facts p b sample_cfg_def)
qed

theorem issued_key_starts_agent_witness:
  "Parse sample_start [] (install_env ''https://hub/'' (token_at key_auth ''ask_'' 0)) = Inr (sample_cfg, ModeRun)"
  using issued_key_starts_agent[of key_auth 0 "token_at key_auth ''ask_'' 0" "''https://hub/''" sample_start] sample_parse_facts
  by (simp add: sample_cfg_def)

lemma sample_run:
  "run sample_start sample_outside [] (install_env ''https://hub/'' (token_at key_auth ''ask_'' 0)) =
    (0, Some \<lparr>sd_cfg = sample_cfg, sd_dir = FallbackQueueDir, sd_hostname = ''nas'', sd_shown = redactURL ''https://hub''\<rparr>)"
proof -
  have k: "source_key_ok (token_at key_auth ''ask_'' 0)" "token_at key_auth ''ask_'' 0 \<noteq> []"
    using issued_key_ok sample_parse_facts(1) by (auto simp: token_at_def)
  have c: "check_values sample_start (overlay (install_env ''https://hub/'' (token_at key_auth ''ask_'' 0)) default_flags) = Inr sample_cfg"
    using sample_check[OF k] by (simp add: sample_cfg_def)
  have "Parse sample_start [] (install_env ''https://hub/'' (token_at key_auth ''ask_'' 0)) = Inr (sample_cfg, ModeRun)"
    unfolding Parse_def by (simp add: c sample_parse_facts) (simp add: default_flags_def sample_cfg_def k)
  moreover have "resolveQueueDir (ou_fs sample_outside) DefaultQueueDir = Some FallbackQueueDir"
    by (simp add: resolveQueueDir_def probeDir_def sample_outside_def DefaultQueueDir_def FallbackQueueDir_def)
  ultimately show ?thesis by (simp add: run_def sample_cfg_def sample_outside_def)
qed

theorem agent_starts_checked_witness:
  "\<exists>sd. run sample_start sample_outside [] (install_env ''https://hub/'' (token_at key_auth ''ask_'' 0)) = (0, Some sd) \<and>
     source_key_ok (ac_SourceKey (sd_cfg sd)) \<and> cfg_ok (sd_cfg sd) \<and> 0 < first_interval (sd_cfg sd) \<and>
     probeDir (ou_fs sample_outside) (sd_dir sd)"
  using agent_starts_checked[OF sample_run] sample_run by blast

theorem environment_wins_witness:
  "Parse sample_start [''--smart=off''] (\<lambda>v. if v = ''ASSIST_SMART'' then ''on'' else []) =
   Parse sample_start [''-smart'', ''auto''] (\<lambda>v. if v = ''ASSIST_SMART'' then ''on'' else [])"
proof (rule environment_wins)
  show "flag_parse sample_start [''--smart=off''] default_flags = Some (default_flags\<lparr>fl_smart := ''off''\<rparr>)"
    by (simp add: flag_split_def flag_kind_def flag_set_def)
  show "flag_parse sample_start [''-smart'', ''auto''] default_flags = Some (default_flags\<lparr>fl_smart := ''auto''\<rparr>)"
    by (simp add: flag_split_def flag_kind_def flag_set_def)
  show "agree (\<lambda>v. if v = ''ASSIST_SMART'' then ''on'' else []) (default_flags\<lparr>fl_smart := ''off''\<rparr>) (default_flags\<lparr>fl_smart := ''auto''\<rparr>)"
    by (simp add: agree_def)
qed

end
