(* ===== verification/Spec2Isabelle.thy ===== *)
theory Spec2Isabelle
  imports System AgentServe FeedbackProxy MetricSeries HubServer AgentConfig
begin

text \<open>
  \<^bold>\<open>Verification of the Sakura Assistant hub and agent.\<close>

  The program has two Go parts.  The \<^emph>\<open>agent\<close> (\<^verbatim>\<open>src/agent\<close>) runs on a watched machine: it checks
  its flags and environment, takes a frame of readings at every interval, keeps the frames and its
  own events (started, queue overflow, payload dropped) in a persistent queue, and sends the
  queue to the hub in batches.  The \<^emph>\<open>hub\<close> (\<^verbatim>\<open>src/hub\<close>) accepts events and metrics from its sources, keeps a fault per
  source and key, applies its rules to the metrics, and gives every change a number in a change
  log.  The mobile app follows that log by \<^verbatim>\<open>/api/v1/sync\<close> and a server-sent event stream, reads
  lists and series, sets marks and administers sources and documents.  The hub also mirrors the
  releases of the agent from a public repository and relays the feedback requests of the app.

  A report takes this way through the theories:
  \<^verbatim>\<open>AgentConfig\<close> (start), \<^verbatim>\<open>Collect\<close> and \<^verbatim>\<open>Provider\<close> (one frame), \<^verbatim>\<open>AgentQueue\<close> (kept),
  \<^verbatim>\<open>Reporter\<close> (sent), \<^verbatim>\<open>Ingest\<close> (accepted), \<^verbatim>\<open>Fault\<close> and \<^verbatim>\<open>Rules\<close> (judged), \<^verbatim>\<open>Store\<close> (numbered),
  \<^verbatim>\<open>Sync\<close>, \<^verbatim>\<open>Sse\<close>, \<^verbatim>\<open>Paging\<close>, \<^verbatim>\<open>MetricSeries\<close> (read).  \<^verbatim>\<open>Delivery\<close> composes the sending and the accepting
  side, \<^verbatim>\<open>System\<close> composes all of the hub.

  \<^bold>\<open>Theories and sources.\<close>

  \<^item> \<^verbatim>\<open>Prelude\<close>: \<^verbatim>\<open>int64\<close> wrap-around (\<open>wrap64\<close>) and durations, the transaction type with its
    combinators \<open>retT\<close>, \<open>failT\<close>, \<open>bindT\<close>, loops over rows, generic lemmas on lists, and the
    locale \<open>tx_rel\<close>.
  \<^item> \<^verbatim>\<open>Timestamps\<close> (\<^verbatim>\<open>fmtTS\<close>, \<^verbatim>\<open>parseTS\<close> of \<^verbatim>\<open>hub/util.go\<close> over Go's calendar), \<^verbatim>\<open>Util\<close> (severities,
    shell quoting, decimal numbers, \<^verbatim>\<open>itoa\<close>, path escaping), \<^verbatim>\<open>HubTexts\<close> (texts outside ASCII).
  \<^item> \<^verbatim>\<open>HubTypes\<close>: the records of \<^verbatim>\<open>hub/types.go\<close> and the tables of \<^verbatim>\<open>hub/db.go\<close> as the record \<open>hub\<close>.
    \<^verbatim>\<open>Store\<close>: \<^verbatim>\<open>hub/store.go\<close>, the change counter, the change rows and the objects they carry.
  \<^item> \<^verbatim>\<open>Fault\<close>: \<^verbatim>\<open>hub/fault.go\<close>, the state machine \<open>applyEventTx\<close> with every helper.
    \<^verbatim>\<open>FaultSpec\<close>: the abstract machine of one fault key and the refinement.  \<^verbatim>\<open>HubInv\<close>: the invariant
    of the database and which transactions keep it.  \<^verbatim>\<open>Rules\<close>: \<^verbatim>\<open>hub/rules.go\<close>.
    \<^verbatim>\<open>Ingest\<close>: \<^verbatim>\<open>hub/ingest.go\<close>.  \<^verbatim>\<open>Retention\<close>: \<^verbatim>\<open>hub/retention.go\<close>.
  \<^item> \<^verbatim>\<open>Sync\<close>, \<^verbatim>\<open>Paging\<close>, \<^verbatim>\<open>Flags\<close>, \<^verbatim>\<open>MetricSeries\<close>: the client handlers of \<^verbatim>\<open>hub/api.go\<close> (change log,
    message and fault lists with cursors, marks, status, metric series).  \<^verbatim>\<open>Sse\<close>: \<^verbatim>\<open>hub/sse.go\<close>.
  \<^item> \<^verbatim>\<open>Auth\<close>: \<^verbatim>\<open>hub/auth.go\<close>, sessions, source keys and the login limiter.  \<^verbatim>\<open>Documents\<close>,
    \<^verbatim>\<open>Sources\<close>: \<^verbatim>\<open>hub/admin.go\<close>, the rules and settings documents, and the sources with their keys.
  \<^item> \<^verbatim>\<open>AgentRelease\<close>, \<^verbatim>\<open>AgentServe\<close>: \<^verbatim>\<open>hub/agent_release.go\<close>, manifests, the cache with its limit,
    eviction and leases, verified downloads and the handlers; definitions in the first, guarantees
    in the second.  \<^verbatim>\<open>FeedbackProxy\<close>: \<^verbatim>\<open>hub/feedback_proxy.go\<close> and \<^verbatim>\<open>hub/attachments.go\<close>.
  \<^item> \<^verbatim>\<open>HubServer\<close>: the routes of \<^verbatim>\<open>hub/api.go\<close> with their guards, the request bodies and hub
    addresses of \<^verbatim>\<open>hub/util.go\<close>, the installation command of \<^verbatim>\<open>hub/admin.go\<close>, the configuration of
    \<^verbatim>\<open>hub/main.go\<close>, the migration of \<^verbatim>\<open>hub/db.go\<close>.
  \<^item> \<^verbatim>\<open>AgentQueue\<close>: \<^verbatim>\<open>agent/internal/queue/queue.go\<close>.  \<^verbatim>\<open>Reporter\<close>: \<^verbatim>\<open>agent/internal/report\<close>.
    \<^verbatim>\<open>Collect\<close>, \<^verbatim>\<open>Provider\<close>: \<^verbatim>\<open>agent/internal/collect\<close>.  \<^verbatim>\<open>AgentConfig\<close>:
    \<^verbatim>\<open>agent/internal/config/config.go\<close> and \<^verbatim>\<open>agent/cmd/assistant-agent/main.go\<close>.
  \<^item> \<^verbatim>\<open>Samples\<close>: concrete hubs, environments and events for the witnesses.

  \<^bold>\<open>How state and operations correspond.\<close>  A struct is a record, a table a list of rows in the
  order of their row numbers, a nullable column an option.  A handler inside \<^verbatim>\<open>withTx\<close> is a
  transaction of type \<open>'a tx\<close>: it maps the state to an error or to a value and a new state, and an
  error leaves the state before it, as the rollback does.  Statements that the code runs outside a
  transaction, such as the read and the update of \<^verbatim>\<open>handleRefresh\<close> or the two reads of
  \<^verbatim>\<open>handleSync\<close>, are separate steps, so that other requests can come between them.  An answer is a
  status with a message or a body.  Times are nanoseconds as \<open>int\<close>; where Go computes in
  \<^verbatim>\<open>int64\<close> or \<^verbatim>\<open>uint64\<close> the wrap-around is written out or a word is used; a \<^verbatim>\<open>float64\<close> is a rational.
  Clocks, fresh identifiers and tokens, digests, password hashes, the JSON codec, address
  parsing, the feedback services, the release host, the readings of the system and the output of
  the tools are arguments: the records \<open>env\<close>, \<open>authEnv\<close>, \<open>releaseEnv\<close>, \<open>proxyEnv\<close>,
  \<open>startEnv\<close> and the probes of a frame.  What a theorem needs of them (identifiers that do not
  repeat, digests without collisions on the values in play, timestamps of four-digit years) is
  a premise of that theorem, and its witness instantiates it.

  \<^bold>\<open>What is shown.\<close>

  \<^item> \<^emph>\<open>Faults.\<close>  The code refines the abstract machine of a fault key on every well-formed database; an
    accepted event is always stored; an open and its resolve give the same fault in either order;
    a late update opens a new incident, against the contract.
  \<^item> \<^emph>\<open>Reports.\<close>  Acknowledged events are stored once; the agent's queue accounts for every batch it
    drops; its drain loop ends unless the hub refuses batches of events, and never ends when
    it refuses them all; over a network that loses answers every event is delivered exactly once.
  \<^item> \<^emph>\<open>Rules and jobs.\<close>  A threshold fires after its hold time and only then, the start of a breach is
    that of the run of breaching samples, the heartbeat follows the silence of a source, the
    retention removes exactly the old rows, the roll-up is the aggregate of the raw points, the
    series is the grouping of the stored points.
  \<^item> \<^emph>\<open>Clients.\<close>  Following the pages of the change log or of a list reads all of it; a stream writes
    entries in the order of their numbers; both have an interleaving that loses a change.
  \<^item> \<^emph>\<open>Sessions and keys.\<close>  A refresh token works once as long as requests do not overlap, and twice
    when they do; the login limiter bounds the attempts in every window; a rotated or
    deleted key never authenticates again; updates of a document are serial.
  \<^item> \<^emph>\<open>Releases.\<close>  Whatever is served as an asset has the digest and size of its manifest, the cache
    stays within its limit, a leased file is not touched, a published release is served.
  \<^item> \<^emph>\<open>Feedback.\<close>  Requests go only to the configured address with the key meant for them, and the
    errors of the service reach the app masked.
  \<^item> \<^emph>\<open>Agent.\<close>  Every frame has the ranges and the shape its types promise, the network rate is that
    of the two frames, wrap-around included, disks that sleep are not woken, and an agent starts
    only with a configuration that passed every check.
  \<^item> \<^emph>\<open>Hub frame.\<close>  A request without a session reaches only the open routes, and an
    installation command holds only an address that matches the installer's pattern, so that a
    shell reads it back as one word.
  \<^item> \<^emph>\<open>Whole hub.\<close>  In \<^verbatim>\<open>System\<close> the handlers, jobs, sessions and administration are one step
    relation; its invariant holds in every reachable state, and no step outside sessions and
    administration touches a session or a key.

  \<^bold>\<open>Interfaces.\<close>  \<open>tx_rel\<close> is a relation between the states before and after that is reflexive
  and transitive; its lemmas carry it through the combinators once, and it is interpreted for
  keeping an invariant, for equality of a view, and for the relations of the components (log
  growth, quiet faults and messages, growing events, identifiers, tokens, keys, guarded
  releases).  \<open>bounded_fifo\<close> is the contract of a queue that drops its oldest rows and counts
  them, interpreted for metrics and events.  \<open>versioned_doc\<close> is optimistic update by version,
  interpreted for rules and settings.  \<open>keyset\<close> is paging by cursor, interpreted for messages
  and faults.  \<open>env_lookup\<close> is a variable with a default, interpreted for the lookup of the
  agent and that of the hub.  \<open>line_parser\<close> is a scan of a tool's output line by line that keeps
  what the found pools promise, interpreted for the two pool parsers.

  \<^bold>\<open>Bounds and fuel.\<close>  The drain loops take the number of rounds as fuel; \<open>drain_ends\<close> shows
  that six more than the number of queued rows is enough unless the hub refuses batches of events,
  and \<open>drain_never_ends\<close> that no number is when it refuses them all.  Following pages takes one round per
  row at most, which the completeness theorems use as fuel.  All other loops are structural or
  have a termination proof.

  \<^bold>\<open>Not modelled.\<close>

  \<^item> The JSON encoding and decoding (\<^verbatim>\<open>encoding/json\<close>), the SQL engine and its date functions,
    \<^verbatim>\<open>net/url\<close>, SHA-256, bcrypt, random numbers and the grammars of floats and durations: library
    code, here as parameters.  The rounding of \<^verbatim>\<open>float64\<close>: rationals are exact.
  \<^item> Listeners, tickers, signals, graceful shutdown, logging and the recorder of status codes for
    the request log, splitting a remote address into host and port: input and output of the
    process.  A ticker is an arbitrary sequence of calls.
  \<^item> Opening the database files and their pragmas, range requests of \<^verbatim>\<open>http.ServeContent\<close>, handing
    out the embedded installer script, and the wording of the installation notes.
  \<^item> Running the tools as processes with time limits, the concurrency of the probes, and the
    Docker and system libraries: the frame starts from what they returned.
  \<^item> The mobile app (Dart and Kotlin), the shell installers and the container files.
\<close>

end
